(* ===== verification/Prelude.thy ===== *)
theory Prelude
  imports Main "HOL-Library.Word"
begin

text \<open>
  Shared material of the development: the theorem collections the component theories
  feed, the type synonyms for the machine integers of the Rust sources, and the generic
  facts on lists and maps that more than one component needs.

  \<^item> \<open>agent_simps\<close> collects the equations that describe how an operation changes the
    fields of a state record (frame facts);
  \<^item> \<open>text_simps\<close> collects the equations on Rust strings.
\<close>

named_theorems agent_simps \<open>frame equations of the state-changing operations\<close>
named_theorems text_simps \<open>equations on Rust strings\<close>

type_synonym u16 = "16 word"
type_synonym u32 = "32 word"
type_synonym u64 = "64 word"

section \<open>Lists\<close>

text \<open>The last \<open>n\<close> elements: what an overwrite-oldest buffer keeps.\<close>

definition take_last :: "nat \<Rightarrow> 'a list \<Rightarrow> 'a list" where
  "take_last n xs = drop (length xs - n) xs"

lemma take_last_short [simp]: "length xs \<le> n \<Longrightarrow> take_last n xs = xs"
  by (simp add: take_last_def)

lemma length_take_last [simp]: "length (take_last n xs) = min n (length xs)"
  by (simp add: take_last_def)

lemma take_last_0 [simp]: "take_last 0 xs = []"
  by (simp add: take_last_def)

lemma take_last_append_long:
  "n \<le> length ys \<Longrightarrow> take_last n (xs @ ys) = take_last n ys"
  by (simp add: take_last_def)

lemma take_last_take_last_append:
  "take_last n (take_last n xs @ ys) = take_last n (xs @ ys)"
proof (cases "length xs \<le> n")
  case False
  then have "length xs - (length xs - n) = n" by simp
  with False show ?thesis by (simp add: take_last_def drop_append add.commute)
qed simp

lemma take_last_take_last [simp]: "take_last n (take_last m xs) = take_last (min n m) xs"
  by (cases "n \<le> m"; cases "m \<le> length xs") (simp_all add: take_last_def min_def)

lemma take_last_drop:
  assumes "n \<le> length xs - k"
  shows "take_last n (drop k xs) = take_last n xs"
proof (cases "k \<le> length xs")
  case True
  with assms have "length xs - k - n + k = length xs - n" by simp
  then show ?thesis by (simp add: take_last_def add.commute)
qed (use assms in simp)

lemma nth_take_last:
  "i < min n (length xs) \<Longrightarrow> take_last n xs ! i = xs ! (length xs - n + i)"
  by (simp add: take_last_def)

lemma set_take_last: "set (take_last n xs) \<subseteq> set xs"
  by (simp add: take_last_def set_drop_subset)

text \<open>
  Removing the element at one index of a vector (\<open>Vec::remove\<close>), in range.
\<close>

definition remove_at :: "nat \<Rightarrow> 'a list \<Rightarrow> 'a list" where
  "remove_at i xs = take i xs @ drop (Suc i) xs"

lemma length_remove_at [simp]: "i < length xs \<Longrightarrow> length (remove_at i xs) = length xs - 1"
  by (simp add: remove_at_def)

lemma take_remove_at [simp]: "take i (remove_at i xs) = take i xs"
  by (cases "i \<le> length xs") (auto simp: remove_at_def)

lemma drop_remove_at: "i < length xs \<Longrightarrow> drop i (remove_at i xs) = drop (Suc i) xs"
  by (simp add: remove_at_def)

text \<open>The first element with a property (\<open>Iterator::find\<close>).\<close>

lemma find_Some_mem: "List.find P xs = Some x \<Longrightarrow> x \<in> set xs \<and> P x"
  by (induction xs) (auto split: if_splits)

lemma find_None_iff: "List.find P xs = None \<longleftrightarrow> (\<forall>x \<in> set xs. \<not> P x)"
  by (induction xs) auto

lemma sum_list_filter_le: "sum_list (map f (filter P xs)) \<le> (sum_list (map f xs) :: nat)"
  by (induction xs) auto

lemma count_filter_append [simp]:
  "length (filter P (xs @ ys)) = length (filter P xs) + length (filter P ys)"
  by simp

section \<open>Sums as results\<close>

text \<open>The \<open>?\<close> operator of Rust on a result: stop at the error, go on with the value.\<close>

fun try_bind :: "'e + 'a \<Rightarrow> ('a \<Rightarrow> 'e + 'b) \<Rightarrow> 'e + 'b" where
  "try_bind (Inl e) f = Inl e"
| "try_bind (Inr x) f = f x"

lemma try_bind_Inr_iff: "try_bind m f = Inr y \<longleftrightarrow> (\<exists>x. m = Inr x \<and> f x = Inr y)"
  by (cases m) auto

fun map_err :: "('e \<Rightarrow> 'f) \<Rightarrow> 'e + 'a \<Rightarrow> 'f + 'a" where
  "map_err g (Inl e) = Inl (g e)"
| "map_err g (Inr x) = Inr x"

lemma map_sum_eq_Inl: "map_sum f g x = Inl y \<longleftrightarrow> (\<exists>a. x = Inl a \<and> f a = y)"
  by (cases x) auto

lemma map_err_eq_Inl: "map_err f x = Inl y \<longleftrightarrow> (\<exists>a. x = Inl a \<and> f a = y)"
  by (cases x) auto

fun result_ok :: "'e + 'a \<Rightarrow> 'a option" where
  "result_ok (Inl e) = None"
| "result_ok (Inr x) = Some x"

end
