(* ===== verification/Rust_Text.thy ===== *)
theory Rust_Text
  imports Prelude
begin

text \<open>
  The parts of Rust's \<open>str\<close> that the sources use. A Rust string is its UTF-8 bytes, so it
  is an Isabelle \<open>string\<close> (a list of 8-bit characters) and \<open>str::len\<close> is
  \<open>length\<close>. \<open>str::chars\<close> splits the bytes into scalar values: a byte that is not of
  the form 10xxxxxx starts one, and the continuation bytes after it belong to it. On the
  valid UTF-8 that every Rust string holds this is the decoding of the standard library.
\<close>

section \<open>Scalar values\<close>

definition byte_of :: "char \<Rightarrow> nat" where
  "byte_of c = of_char c"

definition is_cont :: "char \<Rightarrow> bool" where
  "is_cont c \<longleftrightarrow> byte_of c div 64 = 2"

function chars :: "string \<Rightarrow> string list" where
  "chars [] = []"
| "chars (c # cs) = (c # takeWhile is_cont cs) # chars (dropWhile is_cont cs)"
  by pat_completeness auto
termination
  by (relation "measure length") (auto simp: le_imp_less_Suc length_dropWhile_le)

definition char_count :: "string \<Rightarrow> nat" where
  "char_count s = length (chars s)"

lemma concat_chars [simp]: "concat (chars s) = s"
  by (induction s rule: chars.induct) simp_all

lemma chars_nonempty: "x \<in> set (chars s) \<Longrightarrow> x \<noteq> []"
  by (induction s rule: chars.induct) auto

lemma char_count_le: "char_count s \<le> length s"
proof (induction s rule: chars.induct)
  case (2 c cs)
  then show ?case
    using length_dropWhile_le [of is_cont cs] by (simp add: char_count_def)
qed (simp add: char_count_def)

text \<open>
  A list of chunks as \<open>chars\<close> makes them: each starts with a byte that is not a
  continuation and goes on with continuations only. Taking whole chunks and joining them
  again is then undone by \<open>chars\<close>.
\<close>

definition wf_chunk :: "string \<Rightarrow> bool" where
  "wf_chunk ch \<longleftrightarrow> ch \<noteq> [] \<and> \<not> is_cont (hd ch) \<and> list_all is_cont (tl ch)"

definition starts_char :: "string \<Rightarrow> bool" where
  "starts_char s \<longleftrightarrow> s = [] \<or> \<not> is_cont (hd s)"

lemma takeWhile_cont_append:
  "list_all P xs \<Longrightarrow> ys = [] \<or> \<not> P (hd ys) \<Longrightarrow>
    takeWhile P (xs @ ys) = xs \<and> dropWhile P (xs @ ys) = ys"
  by (induction xs; cases ys) auto

lemma starts_char_concat:
  "list_all wf_chunk xs \<Longrightarrow> concat xs = [] \<or> \<not> is_cont (hd (concat xs))"
  by (cases xs) (auto simp: wf_chunk_def neq_Nil_conv)

lemma chars_append_chunk:
  assumes "wf_chunk ch" and "starts_char s"
  shows "chars (ch @ s) = ch # chars s"
proof -
  from assms(1) obtain c cs where ch: "ch = c # cs" and all: "list_all is_cont cs"
    by (cases ch) (auto simp: wf_chunk_def)
  from takeWhile_cont_append [OF all] assms(2) ch show ?thesis
    by (auto simp: starts_char_def)
qed

lemma chars_concat: "list_all wf_chunk xs \<Longrightarrow> chars (concat xs) = xs"
proof (induction xs)
  case (Cons x xs)
  then show ?case
    using starts_char_concat [of xs] chars_append_chunk [of x "concat xs"]
    by (simp add: starts_char_def)
qed simp

lemma chars_prefix:
  "chars (concat (take n (chars s))) = take n (chars s)"
proof (induction n arbitrary: s)
  case (Suc n)
  show ?case
  proof (cases s)
    case (Cons c cs)
    let ?tw = "takeWhile is_cont cs" and ?dw = "dropWhile is_cont cs"
    let ?x = "concat (take n (chars ?dw))"
    have "list_all is_cont ?tw"
      by (auto simp: list_all_iff dest: set_takeWhileD)
    moreover have "?x = [] \<or> \<not> is_cont (hd ?x)"
    proof (cases ?dw)
      case dw: (Cons d ds)
      then have "\<not> is_cont d" using hd_dropWhile [of is_cont cs] by simp
      then show ?thesis by (cases n) (auto simp: dw)
    next
      case Nil
      show ?thesis unfolding Nil by simp
    qed
    ultimately have "takeWhile is_cont (?tw @ ?x) = ?tw" "dropWhile is_cont (?tw @ ?x) = ?x"
      using takeWhile_cont_append [of is_cont ?tw ?x] by blast+
    with Suc.IH [of ?dw] show ?thesis by (simp add: Cons)
  qed simp
qed simp

lemma char_count_take: "char_count (concat (take n (chars s))) = min n (char_count s)"
  using chars_prefix [of n s] by (simp add: char_count_def min.commute)

lemma char_count_append_le: "char_count (s @ t) \<le> char_count s + char_count t"
proof (induction s rule: chars.induct)
  case (2 c cs)
  show ?case
  proof (cases "\<forall>x \<in> set cs. is_cont x")
    case True
    have "char_count (dropWhile is_cont t) \<le> char_count t"
      by (cases t) (auto simp: char_count_def)
    with True show ?thesis
      by (simp add: char_count_def takeWhile_append dropWhile_append)
  next
    case False
    with 2 show ?thesis
      by (auto simp: char_count_def takeWhile_append dropWhile_append)
  qed
qed (simp add: char_count_def)

lemma wf_chars: "starts_char s \<Longrightarrow> list_all wf_chunk (chars s)"
proof (induction s rule: chars.induct)
  case (2 c cs)
  have "starts_char (dropWhile is_cont cs)"
    using hd_dropWhile [of is_cont cs] by (auto simp: starts_char_def)
  moreover have "list_all is_cont (takeWhile is_cont cs)"
    by (auto simp: list_all_iff dest: set_takeWhileD)
  ultimately show ?case
    using 2 by (simp add: wf_chunk_def starts_char_def)
qed simp

section \<open>White space\<close>

text \<open>
  The scalar values with the Unicode property White_Space, by their UTF-8 bytes: U+0009 to
  U+000D, U+0020, U+0085, U+00A0, U+1680, U+2000 to U+200A, U+2028, U+2029, U+202F, U+205F
  and U+3000 (\<open>char::is_whitespace\<close>).
\<close>

definition is_ws :: "string \<Rightarrow> bool" where
  "is_ws ch = (case map byte_of ch of
      [b] \<Rightarrow> b = 32 \<or> (9 \<le> b \<and> b \<le> 13)
    | [b, c] \<Rightarrow> b = 194 \<and> (c = 133 \<or> c = 160)
    | [b, c, d] \<Rightarrow>
        (b = 225 \<and> c = 154 \<and> d = 128) \<or>
        (b = 226 \<and> c = 128 \<and> (d \<le> 138 \<and> 128 \<le> d \<or> d = 168 \<or> d = 169 \<or> d = 175)) \<or>
        (b = 226 \<and> c = 129 \<and> d = 159) \<or>
        (b = 227 \<and> c = 128 \<and> d = 128)
    | _ \<Rightarrow> False)"

definition trim :: "string \<Rightarrow> string" where
  "trim s = concat (rev (dropWhile is_ws (rev (dropWhile is_ws (chars s)))))"

definition is_blank :: "string \<Rightarrow> bool" where
  "is_blank s \<longleftrightarrow> trim s = []"

lemma set_dropWhile_subset: "set (dropWhile P xs) \<subseteq> set xs"
  by (induction xs) auto

lemma set_rev_dropWhile_subset: "set (dropWhile P (rev xs)) \<subseteq> set xs"
  using set_dropWhile_subset [of P "rev xs"] by simp

lemma is_blank_iff: "is_blank s \<longleftrightarrow> (\<forall>ch \<in> set (chars s). is_ws ch)"
proof (rule iffI)
  assume "\<forall>ch \<in> set (chars s). is_ws ch"
  then have "dropWhile is_ws (chars s) = []" by (simp add: dropWhile_eq_Nil_conv)
  then show "is_blank s" unfolding is_blank_def trim_def by (simp only:) simp
next
  assume "is_blank s"
  then have "\<forall>ch \<in> set (dropWhile is_ws (rev (dropWhile is_ws (chars s)))). ch = []"
    by (simp add: is_blank_def trim_def)
  moreover have "set (dropWhile is_ws (rev (dropWhile is_ws (chars s)))) \<subseteq> set (chars s)"
    by (meson dual_order.trans set_dropWhile_subset set_rev_dropWhile_subset)
  ultimately have "dropWhile is_ws (rev (dropWhile is_ws (chars s))) = []"
    using chars_nonempty [of _ s] by (metis all_not_in_conv in_mono set_empty)
  then have "\<forall>ch \<in> set (dropWhile is_ws (chars s)). is_ws ch"
    by (simp add: dropWhile_eq_Nil_conv)
  then show "\<forall>ch \<in> set (chars s). is_ws ch"
    by (metis dropWhile_eq_Nil_conv hd_dropWhile hd_in_set)
qed

lemma is_blank_Nil [simp]: "is_blank []"
  by (simp add: is_blank_def trim_def)

text \<open>\<open>str::split_whitespace\<close>: the maximal runs of scalar values that are not white space.\<close>

fun words_of :: "string list \<Rightarrow> string \<Rightarrow> string list" where
  "words_of [] acc = (if acc = [] then [] else [acc])"
| "words_of (ch # rest) acc =
     (if is_ws ch then (if acc = [] then [] else [acc]) @ words_of rest []
      else words_of rest (acc @ ch))"

definition split_whitespace :: "string \<Rightarrow> string list" where
  "split_whitespace s = words_of (chars s) []"

section \<open>Prefixes, joins and numbers\<close>

definition starts_with :: "string \<Rightarrow> string \<Rightarrow> bool" where
  "starts_with p s \<longleftrightarrow> take (length p) s = p"

definition strip_prefix :: "string \<Rightarrow> string \<Rightarrow> string option" where
  "strip_prefix p s = (if starts_with p s then Some (drop (length p) s) else None)"

lemma starts_with_append [simp, text_simps]: "starts_with p (p @ s)"
  by (simp add: starts_with_def)

lemma starts_with_iff: "starts_with p s \<longleftrightarrow> (\<exists>r. s = p @ r)"
  by (metis append_eq_conv_conj append_take_drop_id starts_with_def)

lemma strip_prefix_append [simp, text_simps]: "strip_prefix p (p @ s) = Some s"
  by (simp add: strip_prefix_def)

lemma strip_prefix_Some: "strip_prefix p s = Some r \<longleftrightarrow> s = p @ r"
  by (auto simp: strip_prefix_def starts_with_iff split: if_splits)

text \<open>\<open>str::split_once\<close> at an ASCII character: the parts before and after its first occurrence.\<close>

fun split_once :: "char \<Rightarrow> string \<Rightarrow> (string \<times> string) option" where
  "split_once c [] = None"
| "split_once c (x # xs) =
     (if x = c then Some ([], xs)
      else case split_once c xs of None \<Rightarrow> None | Some (a, b) \<Rightarrow> Some (x # a, b))"

lemma split_once_append:
  "c \<notin> set a \<Longrightarrow> split_once c (a @ c # b) = Some (a, b)"
  by (induction a) auto

lemma split_once_None: "split_once c s = None \<longleftrightarrow> c \<notin> set s"
  by (induction s) (auto split: option.splits)

lemma split_once_Some: "split_once c s = Some (a, b) \<Longrightarrow> s = a @ c # b \<and> c \<notin> set a"
  by (induction s arbitrary: a) (auto split: if_splits option.splits)

text \<open>\<open>str::split\<close> on one ASCII character.\<close>

fun split_on :: "char \<Rightarrow> string \<Rightarrow> string list" where
  "split_on c [] = [[]]"
| "split_on c (d # ds) =
     (if c = d then [] # split_on c ds
      else case split_on c ds of x # xs \<Rightarrow> (d # x) # xs | [] \<Rightarrow> [[d]])"

lemma split_on_plain: "c \<notin> set a \<Longrightarrow> split_on c (a @ c # b) = a # split_on c b"
  by (induction a) auto

lemma split_on_nonempty [simp]: "split_on c s \<noteq> []"
  by (cases s) (auto split: list.split)

lemma split_on_notin: "c \<notin> set a \<Longrightarrow> split_on c a = [a]"
  by (induction a) auto

text \<open>
  \<open>str::lines\<close>: the parts between line feeds, a carriage return before the line feed left out. What
  follows the last line feed is a line when it is not empty.
\<close>

definition strip_cr :: "string \<Rightarrow> string" where
  "strip_cr l = (if l \<noteq> [] \<and> last l = CHR 0x0D then butlast l else l)"

definition str_lines :: "string \<Rightarrow> string list" where
  "str_lines s =
     (let parts = split_on (CHR 0x0A) s
      in map strip_cr (butlast parts) @ (if last parts = [] then [] else [last parts]))"

lemma str_lines_line: "CHR 0x0A \<notin> set l \<Longrightarrow> str_lines (l @ [CHR 0x0A]) = [strip_cr l]"
  by (simp add: str_lines_def split_on_plain)

fun join :: "string \<Rightarrow> string list \<Rightarrow> string" where
  "join sep [] = []"
| "join sep [x] = x"
| "join sep (x # y # xs) = x @ sep @ join sep (y # xs)"

lemma join_Cons: "join sep (x # xs) = x @ (if xs = [] then [] else sep @ join sep xs)"
  by (cases xs) auto

text \<open>The decimal notation of an unsigned integer (its \<open>Display\<close>).\<close>

definition digit_char :: "nat \<Rightarrow> char" where
  "digit_char d = char_of (48 + d)"

fun show_nat :: "nat \<Rightarrow> string" where
  "show_nat n = (if n < 10 then [digit_char n] else show_nat (n div 10) @ [digit_char (n mod 10)])"

declare show_nat.simps [simp del]

definition digit_val :: "char \<Rightarrow> nat" where
  "digit_val c = byte_of c - 48"

definition read_nat :: "string \<Rightarrow> nat" where
  "read_nat s = foldl (\<lambda>n c. n * 10 + digit_val c) 0 s"

lemma byte_digit_char: "d < 10 \<Longrightarrow> byte_of (digit_char d) = 48 + d"
  by (simp add: byte_of_def digit_char_def of_char_of)

lemma read_show_nat [simp]: "read_nat (show_nat n) = n"
proof (induction n rule: show_nat.induct)
  case (1 n)
  then show ?case
    by (subst show_nat.simps) (auto simp: read_nat_def digit_val_def byte_digit_char)
qed

lemma show_nat_inj [simp]: "show_nat m = show_nat n \<longleftrightarrow> m = n"
  by (metis read_show_nat)

lemma show_nat_digits: "c \<in> set (show_nat n) \<Longrightarrow> 48 \<le> byte_of c \<and> byte_of c \<le> 57"
proof (induction n rule: show_nat.induct)
  case (1 n)
  then show ?case
    by (subst (asm) (2) show_nat.simps) (auto simp: byte_digit_char split: if_splits)
qed

lemma dash_notin_show_nat [simp]: "CHR ''-'' \<notin> set (show_nat n)"
  using show_nat_digits [of "CHR ''-''" n] by (auto simp: byte_of_def)

lemma show_nat_nonempty [simp]: "show_nat n \<noteq> []"
  by (subst show_nat.simps) simp

text \<open>
  \<open>str::parse\<close> for an unsigned integer of \<open>w\<close> bits: an optional plus sign, then at
  least one decimal digit, and a value below \<open>2 ^ w\<close>.
\<close>

definition is_digit :: "char \<Rightarrow> bool" where
  "is_digit c \<longleftrightarrow> 48 \<le> byte_of c \<and> byte_of c \<le> 57"

definition parse_unsigned :: "nat \<Rightarrow> string \<Rightarrow> nat option" where
  "parse_unsigned w s =
     (let ds = (case s of c # cs \<Rightarrow> if c = CHR ''+'' then cs else s | [] \<Rightarrow> []) in
      if ds \<noteq> [] \<and> list_all is_digit ds \<and> read_nat ds < 2 ^ w then Some (read_nat ds) else None)"

lemma parse_unsigned_bound: "parse_unsigned w s = Some n \<Longrightarrow> n < 2 ^ w"
  by (auto simp: parse_unsigned_def Let_def split: if_splits)

lemma parse_show_nat:
  assumes "n < 2 ^ w"
  shows "parse_unsigned w (show_nat n) = Some n"
proof -
  obtain c cs where s: "show_nat n = c # cs"
    by (metis neq_Nil_conv show_nat_nonempty)
  have digits: "list_all is_digit (show_nat n)"
    using show_nat_digits [of _ n] by (auto simp: list_all_iff is_digit_def)
  then have "c \<noteq> CHR ''+''"
    by (auto simp: s is_digit_def byte_of_def)
  then have "(case show_nat n of c # cs \<Rightarrow> if c = CHR ''+'' then cs else show_nat n | [] \<Rightarrow> []) = show_nat n"
    by (simp add: s)
  with digits assms show ?thesis
    by (simp add: parse_unsigned_def Let_def)
qed

text \<open>The newline and the quote, for the texts the sources format.\<close>

definition nl :: string where "nl = [CHR 0x0A]"
definition quote :: string where "quote = [CHR 0x27]"

end
