(* ===== verification/Protocol.thy ===== *)
theory Protocol
  imports Rust_Text
begin

text \<open>
  The types the two wire protocols share: \<open>crates/agent-protocol\<close> (user client and agent)
  and \<open>crates/device-protocol\<close> (device and agent), and the data of the agent's ports
  \<open>ports/llm.rs\<close>, \<open>ports/tool.rs\<close>, \<open>ports/tool_dispatcher.rs\<close>. A
  \<open>serde_json::Value\<close> is the type variable \<open>'v\<close>: the sources hand it on and compare it,
  and never look into it. A \<open>Duration\<close> is a number of nanoseconds. The derived JSON codecs
  are third-party code.
\<close>

section \<open>Agent protocol\<close>

type_synonym task_id = string
type_synonym llm_call_id = string
type_synonym duration = nat

text \<open>
  \<open>TaskId::new\<close> from the clock's milliseconds and the value its process-wide counter had
  before \<open>fetch_add\<close>.
\<close>

definition task_id_new :: "nat \<Rightarrow> u64 \<Rightarrow> task_id \<times> u64" where
  "task_id_new millis counter =
     (show_nat millis @ ''-'' @ show_nat (unat counter), counter + 1)"

definition llm_call_id_new :: "task_id \<Rightarrow> u32 \<Rightarrow> llm_call_id" where
  "llm_call_id_new tid call_index = tid @ ''-'' @ show_nat (unat call_index)"

datatype turn_state = Receiving | Planning | Thinking | Executing | Verifying | Responding

datatype request_source = Cli | Overlay | Android | Voice | Autonomous | Unknown

definition request_source_default :: request_source where
  "request_source_default = Unknown"

datatype budget_step =
    DroppedImages nat
  | TruncatedText nat
  | DroppedTurns nat

datatype event =
    RequestStarted task_id string request_source
  | StateChanged task_id turn_state
  | RequestCompleted task_id duration string
  | RequestFailed task_id duration string
  | PlanCreated task_id string
  | LlmStarted task_id llm_call_id u32 nat string string
  | LlmCompleted task_id llm_call_id u32 duration string string
  | LlmFailed task_id llm_call_id u32 duration string string string
  | ToolStarted task_id u32 string string
  | ToolCompleted task_id u32 string duration string nat string bool
  | Retrying task_id u32 string
  | Cancelled task_id
  | TokensUsed task_id llm_call_id u32 "u32 option" "u32 option"
  | BudgetPressure task_id budget_step nat
  | TranscriptCompacted task_id nat
  | AnsweredUnverified task_id
  | Greeting string
  | AutonomousEventReceived string string string
  | AutonomousEventIgnored string string
  | AutonomousEventDelegated string
  | AutonomousEventCompleted string duration string
  | AutonomousEventFailed string duration string

datatype client_message = Input string request_source | Cancel

datatype server_message = EventMsg event | Reply string | ErrorMsg string

text \<open>The task an event belongs to, for the events that carry a \<open>task_id\<close>.\<close>

fun event_task :: "event \<Rightarrow> task_id option" where
  "event_task (RequestStarted t _ _) = Some t"
| "event_task (StateChanged t _) = Some t"
| "event_task (RequestCompleted t _ _) = Some t"
| "event_task (RequestFailed t _ _) = Some t"
| "event_task (PlanCreated t _) = Some t"
| "event_task (LlmStarted t _ _ _ _ _) = Some t"
| "event_task (LlmCompleted t _ _ _ _ _) = Some t"
| "event_task (LlmFailed t _ _ _ _ _ _) = Some t"
| "event_task (ToolStarted t _ _ _) = Some t"
| "event_task (ToolCompleted t _ _ _ _ _ _ _) = Some t"
| "event_task (Retrying t _ _) = Some t"
| "event_task (Cancelled t) = Some t"
| "event_task (TokensUsed t _ _ _ _) = Some t"
| "event_task (BudgetPressure t _ _) = Some t"
| "event_task (TranscriptCompacted t _) = Some t"
| "event_task (AnsweredUnverified t) = Some t"
| "event_task _ = None"

section \<open>Device protocol\<close>

definition PROTOCOL_VERSION :: u16 where
  "PROTOCOL_VERSION = 1"

record 'v capability_definition =
  cap_name :: string
  cap_description :: string
  cap_parameters :: 'v

datatype reject_reason = UnsupportedVersion | BadToken | DuplicateDevice

datatype error_code = NotFound | BadArguments | Failed | Denied | Timeout

datatype outcome = OutcomeOk string bool | OutcomeErr error_code string

datatype device_state =
  DevIdle | DevListening | DevThinking | DevExecuting | DevSpeaking | DevError

record 'v hello =
  protocol_version :: u16
  device_id :: string
  device_name :: string
  platform :: string
  token :: string
  capabilities :: "'v capability_definition list"

datatype 'v device_message =
    Hello "'v hello"
  | Result string outcome
  | Pong u64
  | DeviceEvt string 'v

datatype nala_message =
    Welcome string u64
  | Reject reject_reason
  | Invoke string string string
  | Ping u64
  | State device_state

text \<open>The \<open>Debug\<close> form of an error code, as \<open>{code:?}\<close> prints it.\<close>

fun show_error_code :: "error_code \<Rightarrow> string" where
  "show_error_code NotFound = ''NotFound''"
| "show_error_code BadArguments = ''BadArguments''"
| "show_error_code Failed = ''Failed''"
| "show_error_code Denied = ''Denied''"
| "show_error_code Timeout = ''Timeout''"

section \<open>The agent's ports\<close>

record tool_call =
  tc_name :: string
  tc_arguments :: string

datatype llm_error =
    LlmRequestFailed string
  | InvalidResponse string
  | ModelNotFound string

fun show_llm_error :: "llm_error \<Rightarrow> string" where
  "show_llm_error (LlmRequestFailed m) = ''request failed: '' @ m"
| "show_llm_error (InvalidResponse m) = ''invalid response: '' @ m"
| "show_llm_error (ModelNotFound m) = ''model '' @ [CHR 0x27] @ m @ [CHR 0x27] @ '' not found''"

record usage =
  prompt_tokens :: "u32 option"
  completion_tokens :: "u32 option"

text \<open>
  \<open>Usage::total_tokens\<close>: the sum of two \<open>u32\<close>. The sum wraps in a release build (a
  debug build panics there).
\<close>

definition total_tokens :: "usage \<Rightarrow> u32 option" where
  "total_tokens u = (case prompt_tokens u of None \<Rightarrow> None
     | Some p \<Rightarrow> (case completion_tokens u of None \<Rightarrow> None | Some c \<Rightarrow> Some (p + c)))"

record llm_response =
  resp_text :: "string option"
  resp_tool_calls :: "tool_call list"
  resp_usage :: usage

definition is_final_answer :: "llm_response \<Rightarrow> bool" where
  "is_final_answer r \<longleftrightarrow> resp_tool_calls r = [] \<and>
     (case resp_text r of None \<Rightarrow> False | Some t \<Rightarrow> \<not> is_blank t)"

record message =
  role :: string
  content :: string
  tool_calls :: "tool_call list option"
  tool_name :: "string option"
  images :: "string list"

record 'v tool_definition =
  td_name :: string
  td_description :: string
  td_parameters :: 'v

definition tool_definition_of_capability :: "'v capability_definition \<Rightarrow> 'v tool_definition" where
  "tool_definition_of_capability c =
     \<lparr>td_name = cap_name c, td_description = cap_description c, td_parameters = cap_parameters c\<rparr>"

record tool_outcome =
  out_text :: string
  out_images :: "string list"
  mutated :: bool

definition outcome_of_text :: "string \<Rightarrow> tool_outcome" where
  "outcome_of_text t = \<lparr>out_text = t, out_images = [], mutated = False\<rparr>"

lemma outcome_of_text_sel [simp]:
  "out_text (outcome_of_text t) = t" "out_images (outcome_of_text t) = []"
  "mutated (outcome_of_text t) = False"
  by (simp_all add: outcome_of_text_def)

section \<open>Properties of the identifiers\<close>

lemma append_sep_inj:
  fixes c :: char
  assumes "a @ c # b = a' @ c # b'" and "c \<notin> set b" and "c \<notin> set b'"
  shows "a = a' \<and> b = b'"
proof -
  from assms(1) have "rev b @ c # rev a = rev b' @ c # rev a'"
    by (metis append.assoc append_Cons append_Nil rev.simps(2) rev_append rev_rev_ident)
  then have "split_once c (rev b @ c # rev a) = split_once c (rev b' @ c # rev a')"
    by simp
  with assms(2,3) show ?thesis
    by (simp add: split_once_append)
qed

text \<open>
  The identifiers of two tasks differ whenever their counter values or their
  milliseconds do: \<open>TaskId::new\<close> is injective in both, whatever the clock reads.
\<close>

theorem task_id_unique:
  "fst (task_id_new m c) = fst (task_id_new m' c') \<longleftrightarrow> m = m' \<and> c = c'"
  using append_sep_inj [of "show_nat m" "CHR ''-''" "show_nat (unat c)" "show_nat m'" "show_nat (unat c')"]
  by (auto simp: task_id_new_def word_unat_eq_iff)

lemma llm_call_id_inj:
  "llm_call_id_new t i = llm_call_id_new t' i' \<longleftrightarrow> t = t' \<and> i = i'"
  using append_sep_inj [of t "CHR ''-''" "show_nat (unat i)" t' "show_nat (unat i')"]
  by (auto simp: llm_call_id_new_def word_unat_eq_iff)

end
