(* ===== verification/Budget.thy ===== *)
theory Budget
  imports Protocol
begin

text \<open>
  Token accounting: the estimator port (\<open>ports/token_counter.rs\<close>) and its heuristic
  implementation, the eviction steps of \<open>application/context_budget.rs\<close>, the persisted
  history of \<open>application/transcript.rs\<close> and the limits of
  \<open>application/loop_limits.rs\<close>. The locale \<open>token_counter\<close> states what the eviction
  steps expect of an estimator; the heuristic one is its interpretation.
\<close>

section \<open>Estimators\<close>

definition estimate :: "(message \<Rightarrow> nat) \<Rightarrow> message list \<Rightarrow> nat" where
  "estimate estimate_message ms = sum_list (map estimate_message ms)"

definition CHARS_PER_TOKEN :: nat where "CHARS_PER_TOKEN = 4"
definition TOKENS_PER_IMAGE :: nat where "TOKENS_PER_IMAGE = 800"

definition div_ceil :: "nat \<Rightarrow> nat \<Rightarrow> nat" where
  "div_ceil a b = (if a mod b > 0 then a div b + 1 else a div b)"

definition heuristic_estimate_message :: "message \<Rightarrow> nat" where
  "heuristic_estimate_message m =
     div_ceil (length (content m)) CHARS_PER_TOKEN + length (images m) * TOKENS_PER_IMAGE"

lemma estimate_simps [simp]:
  "estimate f [] = 0"
  "estimate f (m # ms) = f m + estimate f ms"
  "estimate f (ms @ ms') = estimate f ms + estimate f ms'"
  by (simp_all add: estimate_def)

section \<open>The context budget\<close>

record context_budget =
  max_tokens :: nat
  output_reserve :: nat
  keep_recent_images :: nat
  truncate_head_chars :: nat
  truncate_tail_chars :: nat
  keep_recent_uncompacted :: nat

definition context_budget_default :: context_budget where
  "context_budget_default =
     \<lparr>max_tokens = 8192, output_reserve = 1024, keep_recent_images = 2,
      truncate_head_chars = 400, truncate_tail_chars = 400, keep_recent_uncompacted = 6\<rparr>"

text \<open>
  \<open>std::env::var(key).ok().and_then(|v| v.parse().ok())\<close> for an unsigned type of \<open>w\<close>
  bits; \<open>env\<close> is the process environment.
\<close>

definition env_parse :: "nat \<Rightarrow> (string \<Rightarrow> string option) \<Rightarrow> string \<Rightarrow> nat option" where
  "env_parse w env key = (case env key of None \<Rightarrow> None | Some v \<Rightarrow> parse_unsigned w v)"

definition context_budget_from_env :: "(string \<Rightarrow> string option) \<Rightarrow> context_budget" where
  "context_budget_from_env env = context_budget_default
     \<lparr>max_tokens := (case env_parse 64 env ''NALA_OLLAMA_NUM_CTX'' of
        None \<Rightarrow> max_tokens context_budget_default | Some n \<Rightarrow> n)\<rparr>"

text \<open>\<open>saturating_sub\<close> is the subtraction of \<open>nat\<close>.\<close>

definition available_tokens :: "context_budget \<Rightarrow> nat" where
  "available_tokens b = max_tokens b - output_reserve b"

section \<open>Eviction steps\<close>

definition image_indices :: "message list \<Rightarrow> nat \<Rightarrow> nat list" where
  "image_indices ms protected_prefix =
     filter (\<lambda>i. images (ms ! i) \<noteq> []) [protected_prefix..<length ms]"

fun clear_images_at :: "message list \<Rightarrow> nat list \<Rightarrow> nat \<Rightarrow> message list \<times> nat" where
  "clear_images_at ms [] dropped = (ms, dropped)"
| "clear_images_at ms (i # is) dropped =
     clear_images_at (ms[i := (ms ! i)\<lparr>images := []\<rparr>]) is (dropped + length (images (ms ! i)))"

definition evict_images :: "message list \<Rightarrow> nat \<Rightarrow> nat \<Rightarrow> message list \<times> nat" where
  "evict_images ms protected_prefix keep_recent =
     (let idx = image_indices ms protected_prefix in
      if length idx \<le> keep_recent then (ms, 0)
      else clear_images_at ms (take (length idx - keep_recent) idx) 0)"

definition TRUNCATED_MARK :: string where
  "TRUNCATED_MARK = CHR 0x0A # ''... [truncated] ...'' @ [CHR 0x0A]"

text \<open>The first \<open>h\<close> and the last \<open>t\<close> scalar values of a text.\<close>

definition head_chars :: "nat \<Rightarrow> string \<Rightarrow> string" where
  "head_chars h s = concat (take h (chars s))"

definition tail_chars :: "nat \<Rightarrow> string \<Rightarrow> string" where
  "tail_chars t s = concat (rev (take t (rev (chars s))))"

definition needs_truncation :: "nat \<Rightarrow> nat \<Rightarrow> message \<Rightarrow> bool" where
  "needs_truncation h t m \<longleftrightarrow> role m = ''tool'' \<and> h + t < char_count (content m)"

definition truncate_message :: "nat \<Rightarrow> nat \<Rightarrow> message \<Rightarrow> message" where
  "truncate_message h t m =
     (if needs_truncation h t m
      then m\<lparr>content := head_chars h (content m) @ TRUNCATED_MARK @ tail_chars t (content m)\<rparr>
      else m)"

definition truncate_long_tool_results ::
  "message list \<Rightarrow> nat \<Rightarrow> nat \<Rightarrow> nat \<Rightarrow> message list \<times> nat" where
  "truncate_long_tool_results ms protected_prefix h t =
     (take protected_prefix ms @ map (truncate_message h t) (drop protected_prefix ms),
      length (filter (needs_truncation h t) (drop protected_prefix ms)))"

text \<open>
  The pruning loop \<open>while messages.len() > p && estimate(messages) > limit
  { messages.remove(p); dropped += 1 }\<close>, shared by the budget fitter (any \<open>p\<close>) and the
  transcript (\<open>p = 1\<close>).
\<close>

function prune_loop ::
  "(message \<Rightarrow> nat) \<Rightarrow> nat \<Rightarrow> nat \<Rightarrow> message list \<Rightarrow> nat \<Rightarrow> message list \<times> nat" where
  "prune_loop est p limit ms dropped =
     (if p < length ms \<and> limit < estimate est ms
      then prune_loop est p limit (remove_at p ms) (dropped + 1)
      else (ms, dropped))"
  by pat_completeness auto
termination
  by (relation "measure (\<lambda>(est, p, limit, ms, d). length ms)") auto

declare prune_loop.simps [simp del]

definition drop_oldest_until_fits ::
  "message list \<Rightarrow> nat \<Rightarrow> nat \<Rightarrow> (message \<Rightarrow> nat) \<Rightarrow> message list \<times> nat" where
  "drop_oldest_until_fits ms protected_prefix available est =
     prune_loop est protected_prefix available ms 0"

section \<open>The transcript\<close>

type_synonym transcript = "message list"

definition transcript_new :: "message \<Rightarrow> transcript" where
  "transcript_new system_prompt = [system_prompt]"

definition transcript_push ::
  "transcript \<Rightarrow> message \<Rightarrow> (message \<Rightarrow> nat) \<Rightarrow> nat \<Rightarrow> transcript" where
  "transcript_push ts m est limit = fst (prune_loop est 1 limit (ts @ [m]) 0)"

definition transcript_snapshot :: "transcript \<Rightarrow> message list" where
  "transcript_snapshot ts = ts"

definition transcript_system_prompt :: "transcript \<Rightarrow> string option" where
  "transcript_system_prompt ts = (case ts of [] \<Rightarrow> None
     | m # _ \<Rightarrow> if role m = ''system'' then Some (content m) else None)"

section \<open>Loop limits\<close>

record loop_limits =
  max_tool_calls :: nat
  max_identical_repeats :: nat
  max_consecutive_tool_failures :: nat
  max_llm_retries :: u32
  retry_base_delay :: duration

definition loop_limits_default :: loop_limits where
  "loop_limits_default =
     \<lparr>max_tool_calls = 30, max_identical_repeats = 3, max_consecutive_tool_failures = 5,
      max_llm_retries = 3, retry_base_delay = 250000000\<rparr>"

definition loop_limits_from_env :: "(string \<Rightarrow> string option) \<Rightarrow> loop_limits" where
  "loop_limits_from_env env =
     (let d = loop_limits_default; get = (\<lambda>k dflt. case env_parse 64 env k of None \<Rightarrow> dflt | Some n \<Rightarrow> n)
      in d\<lparr>max_tool_calls := get ''NALA_MAX_TOOL_CALLS'' (max_tool_calls d),
           max_identical_repeats := get ''NALA_MAX_IDENTICAL_REPEATS'' (max_identical_repeats d),
           max_consecutive_tool_failures :=
             get ''NALA_MAX_CONSECUTIVE_TOOL_FAILURES'' (max_consecutive_tool_failures d),
           max_llm_retries := (case env_parse 32 env ''NALA_MAX_LLM_RETRIES'' of
             None \<Rightarrow> max_llm_retries d | Some n \<Rightarrow> of_nat n)\<rparr>)"

section \<open>The pruning loop\<close>

text \<open>
  The loop removes a block of messages right after the protected prefix, and it removes
  the shortest such block that makes the rest fit (or everything evictable).
\<close>

lemma prune_loop_char:
  "\<exists>k. prune_loop est p limit ms d = (take p ms @ drop (p + k) ms, d + k) \<and>
      (p + k \<le> length ms \<or> k = 0) \<and>
      (estimate est (take p ms @ drop (p + k) ms) \<le> limit \<or> length ms \<le> p + k) \<and>
      (\<forall>j < k. limit < estimate est (take p ms @ drop (p + j) ms))"
proof (induction est p limit ms d rule: prune_loop.induct)
  case (1 est p limit ms d)
  show ?case
  proof (cases "p < length ms \<and> limit < estimate est ms")
    case False
    then show ?thesis
      by (intro exI [of _ 0]) (auto simp: prune_loop.simps [of est p limit ms d])
  next
    case True
    let ?ms = "remove_at p ms"
    from True "1.IH" obtain k where
      k: "prune_loop est p limit ?ms (d + 1) = (take p ?ms @ drop (p + k) ?ms, d + 1 + k)"
        "p + k \<le> length ?ms \<or> k = 0"
        "estimate est (take p ?ms @ drop (p + k) ?ms) \<le> limit \<or> length ?ms \<le> p + k"
        "\<forall>j < k. limit < estimate est (take p ?ms @ drop (p + j) ?ms)"
      by blast
    have dropk: "drop (p + j) ?ms = drop (p + Suc j) ms" for j
      using True drop_remove_at [of p ms] by (metis add.commute add_Suc_right drop_drop)
    have "limit < estimate est (take p ms @ drop (p + j) ms)" if "j < Suc k" for j
      using k(4) True that by (cases j) (auto simp: dropk)
    with True k show ?thesis
      by (intro exI [of _ "Suc k"]) (auto simp: prune_loop.simps [of est p limit ms d] dropk)
  qed
qed

text \<open>
  C7. The last eviction step: \<open>drop_oldest_until_fits\<close> leaves the protected prefix alone,
  removes one contiguous block of the oldest evictable messages, reports its length, stops
  only when the rest fits or nothing evictable is left, and removes no more than needed.
\<close>

theorem drop_oldest_until_fits_spec:
  "\<exists>k. drop_oldest_until_fits ms p available est = (take p ms @ drop (p + k) ms, k) \<and>
      (estimate est (take p ms @ drop (p + k) ms) \<le> available \<or> length ms \<le> p + k) \<and>
      (\<forall>j < k. available < estimate est (take p ms @ drop (p + j) ms))"
  using prune_loop_char [of est p available ms 0]
  by (auto simp: drop_oldest_until_fits_def)

definition sample_message :: "string \<Rightarrow> string \<Rightarrow> message" where
  "sample_message r c = \<lparr>role = r, content = c, tool_calls = None, tool_name = None, images = []\<rparr>"

theorem drop_oldest_until_fits_spec_witness:
  defines "ms \<equiv> [sample_message ''system'' ''s'', sample_message ''tool'' ''old result'', sample_message ''tool'' ''new'']"
  shows "\<exists>k. drop_oldest_until_fits ms 1 2 heuristic_estimate_message = (take 1 ms @ drop (1 + k) ms, k) \<and> 0 < k \<and>
    2 < estimate heuristic_estimate_message (take 1 ms @ drop (1 + 0) ms)"
proof -
  obtain k where k: "drop_oldest_until_fits ms 1 2 heuristic_estimate_message = (take 1 ms @ drop (1 + k) ms, k)"
      "estimate heuristic_estimate_message (take 1 ms @ drop (1 + k) ms) \<le> 2 \<or> length ms \<le> 1 + k"
      "\<forall>j < k. 2 < estimate heuristic_estimate_message (take 1 ms @ drop (1 + j) ms)"
    using drop_oldest_until_fits_spec [of ms 1 2 heuristic_estimate_message] by blast
  have "0 < k"
    using k(2) by (cases k) (auto simp: ms_def sample_message_def estimate_def heuristic_estimate_message_def
        div_ceil_def CHARS_PER_TOKEN_def TOKENS_PER_IMAGE_def char_count_def chars.simps is_cont_def byte_of_def)
  with k(1,3) show ?thesis by blast
qed

section \<open>The transcript keeps its system prompt\<close>

lemma transcript_push_char:
  "\<exists>k. transcript_push (s # hs) m est limit = s # drop k (hs @ [m]) \<and>
      (estimate est (s # drop k (hs @ [m])) \<le> limit \<or> drop k (hs @ [m]) = [])"
proof -
  from prune_loop_char [of est 1 limit "(s # hs) @ [m]" 0] obtain k where
    "prune_loop est 1 limit ((s # hs) @ [m]) 0 = (s # drop k (hs @ [m]), k)"
    "estimate est (s # drop k (hs @ [m])) \<le> limit \<or> length (hs @ [m]) \<le> k"
    by auto
  then show ?thesis
    by (intro exI [of _ k]) (auto simp: transcript_push_def)
qed

definition push_all ::
  "transcript \<Rightarrow> message list \<Rightarrow> (message \<Rightarrow> nat) \<Rightarrow> nat \<Rightarrow> transcript" where
  "push_all ts ms est limit = foldl (\<lambda>ts m. transcript_push ts m est limit) ts ms"

lemma push_all_system:
  "\<exists>hs'. push_all (s # hs) ms est limit = s # hs' \<and> (ms = [] \<longrightarrow> hs' = hs) \<and>
     (ms \<noteq> [] \<longrightarrow> estimate est (s # hs') \<le> limit \<or> hs' = [])"
proof (induction ms arbitrary: hs)
  case (Cons m ms)
  obtain k where k: "transcript_push (s # hs) m est limit = s # drop k (hs @ [m])"
    "estimate est (s # drop k (hs @ [m])) \<le> limit \<or> drop k (hs @ [m]) = []"
    using transcript_push_char [of s hs m est limit] by blast
  show ?case
    using Cons.IH [of "drop k (hs @ [m])"] k by (cases "ms = []") (auto simp: push_all_def)
qed (simp add: push_all_def)

text \<open>
  However many messages a conversation pushes, the transcript still starts with the
  system prompt it was created with, the rest is within the token limit or was dropped
  entirely, and \<open>system_prompt\<close> still finds it.
\<close>

theorem transcript_keeps_system_prompt:
  assumes "role s = ''system''"
  shows "transcript_system_prompt (push_all (transcript_new s) ms est limit) = Some (content s) \<and>
    (ms \<noteq> [] \<longrightarrow>
      estimate est (push_all (transcript_new s) ms est limit) \<le> limit \<or>
      push_all (transcript_new s) ms est limit = transcript_new s)"
  using push_all_system [of s "[]" ms est limit] assms
  by (auto simp: transcript_new_def transcript_system_prompt_def)

theorem transcript_keeps_system_prompt_witness:
  "transcript_system_prompt (push_all (transcript_new (sample_message ''system'' ''be kind''))
      [sample_message ''user'' ''a long question'', sample_message ''assistant'' ''an answer'']
      heuristic_estimate_message 3) = Some ''be kind''"
  using transcript_keeps_system_prompt
    [of "sample_message ''system'' ''be kind''"
        "[sample_message ''user'' ''a long question'', sample_message ''assistant'' ''an answer'']"
        heuristic_estimate_message 3]
  by (simp add: sample_message_def)

section \<open>Image eviction\<close>

definition image_total :: "message list \<Rightarrow> nat" where
  "image_total ms = sum_list (map (\<lambda>m. length (images m)) ms)"

lemma image_total_update:
  "i < length ms \<Longrightarrow> image_total (ms[i := m]) + length (images (ms ! i)) = image_total ms + length (images m)"
proof (induction ms arbitrary: i)
  case (Cons x xs)
  then show ?case by (cases i) (auto simp: image_total_def)
qed simp

lemma clear_images_at_length [simp]: "length (fst (clear_images_at ms is d)) = length ms"
  by (induction ms "is" d rule: clear_images_at.induct) auto

lemma clear_images_at_nth:
  "i < length ms \<Longrightarrow>
    fst (clear_images_at ms is d) ! i = (if i \<in> set is then (ms ! i)\<lparr>images := []\<rparr> else ms ! i)"
proof (induction ms "is" d rule: clear_images_at.induct)
  case (2 ms j "is" d)
  then show ?case by (cases "j = i") auto
qed simp

lemma clear_images_at_total:
  "set is \<subseteq> {..<length ms} \<Longrightarrow>
    image_total (fst (clear_images_at ms is d)) + snd (clear_images_at ms is d) = image_total ms + d"
proof (induction ms "is" d rule: clear_images_at.induct)
  case (2 ms i "is" d)
  then show ?case
    using image_total_update [of i ms "(ms ! i)\<lparr>images := []\<rparr>"] by simp
qed simp

lemma set_image_indices:
  "i \<in> set (image_indices ms p) \<longleftrightarrow> p \<le> i \<and> i < length ms \<and> images (ms ! i) \<noteq> []"
  by (auto simp: image_indices_def)

definition evicted :: "message list \<Rightarrow> nat \<Rightarrow> nat \<Rightarrow> nat list" where
  "evicted ms p keep = take (length (image_indices ms p) - keep) (image_indices ms p)"

lemma evict_images_eq: "evict_images ms p keep = clear_images_at ms (evicted ms p keep) 0"
  by (auto simp: evict_images_def evicted_def Let_def)

lemma sorted_image_indices: "sorted_wrt (<) (image_indices ms p)"
  by (simp add: image_indices_def sorted_wrt_filter)

lemma evict_images_nth:
  "i < length ms \<Longrightarrow> fst (evict_images ms p keep) ! i =
      (if i \<in> set (evicted ms p keep) then (ms ! i)\<lparr>images := []\<rparr> else ms ! i)"
  by (simp add: evict_images_eq clear_images_at_nth)

lemma evicted_sub: "set (evicted ms p keep) \<subseteq> set (image_indices ms p)"
  by (simp add: evicted_def set_take_subset)

lemma evict_images_frame:
  "length (fst (evict_images ms p keep)) = length ms"
  "take p (fst (evict_images ms p keep)) = take p ms"
proof -
  show len: "length (fst (evict_images ms p keep)) = length ms" by (simp add: evict_images_eq)
  show "take p (fst (evict_images ms p keep)) = take p ms"
    using evicted_sub [of ms p keep] len
    by (intro nth_equalityI) (auto simp: evict_images_nth set_image_indices)
qed

text \<open>
  Image eviction touches nothing before the protected prefix and nothing but images:
  exactly the image-carrying messages other than the \<open>keep\<close> most recent ones lose their
  images, and the number it reports is the number of images that disappeared.
\<close>

theorem evict_images_spec:
  "length (fst (evict_images ms p keep)) = length ms \<and>
   take p (fst (evict_images ms p keep)) = take p ms \<and>
   (\<forall>i < length ms. fst (evict_images ms p keep) ! i =
      (if i \<in> set (evicted ms p keep) then (ms ! i)\<lparr>images := []\<rparr> else ms ! i)) \<and>
   (\<forall>i j. i \<in> set (evicted ms p keep) \<and> j \<in> set (drop (length (image_indices ms p) - keep) (image_indices ms p))
      \<longrightarrow> i < j) \<and>
   image_total (fst (evict_images ms p keep)) + snd (evict_images ms p keep) = image_total ms"
proof -
  have "\<forall>i j. i \<in> set (evicted ms p keep) \<and>
      j \<in> set (drop (length (image_indices ms p) - keep) (image_indices ms p)) \<longrightarrow> i < j"
    using sorted_image_indices [of ms p]
    by (metis append_take_drop_id evicted_def sorted_wrt_append)
  moreover have "image_total (fst (evict_images ms p keep)) + snd (evict_images ms p keep) = image_total ms"
    using evicted_sub [of ms p keep] clear_images_at_total [of "evicted ms p keep" ms 0]
    by (force simp: evict_images_eq set_image_indices)
  ultimately show ?thesis
    by (simp add: evict_images_frame evict_images_nth)
qed

theorem evict_images_spec_witness:
  defines "shot \<equiv> \<lambda>n. (sample_message ''tool'' n)\<lparr>images := [n]\<rparr>"
  defines "ms \<equiv> [sample_message ''system'' ''s'', shot ''a'', sample_message ''user'' ''u'', shot ''b'', shot ''c'']"
  shows "fst (evict_images ms 1 1) ! 1 = sample_message ''tool'' ''a'' \<and>
    fst (evict_images ms 1 1) ! 4 = shot ''c'' \<and> image_total (fst (evict_images ms 1 1)) + 2 = image_total ms"
proof -
  have ev: "evicted ms 1 1 = [1, 3]"
    by (simp add: ms_def shot_def evicted_def image_indices_def sample_message_def upt_rec)
  have dr: "snd (evict_images ms 1 1) = 2"
    by (simp only: evict_images_eq ev) (simp add: ms_def shot_def sample_message_def)
  have len: "length ms = 5" by (simp add: ms_def)
  show ?thesis
    using evict_images_spec [of ms 1 1] ev dr len
    by (simp add: ms_def shot_def sample_message_def)
qed

section \<open>Truncation\<close>

lemma wf_take: "list_all P xs \<Longrightarrow> list_all P (take n xs)"
  by (auto simp: list_all_iff dest: in_set_takeD)

lemma wf_drop: "list_all P xs \<Longrightarrow> list_all P (drop n xs)"
  by (auto simp: list_all_iff dest: in_set_dropD)

lemma tail_chars_drop: "tail_chars t s = concat (drop (length (chars s) - t) (chars s))"
  by (simp add: tail_chars_def rev_take)

lemma chars_mark: "chars TRUNCATED_MARK = map (\<lambda>c. [c]) TRUNCATED_MARK"
  by (simp add: TRUNCATED_MARK_def is_cont_def byte_of_def)

lemma length_mark [simp]: "length TRUNCATED_MARK = 21"
  by (simp add: TRUNCATED_MARK_def)

lemma wf_mark: "list_all wf_chunk (chars TRUNCATED_MARK)"
  by (rule wf_chars) (simp add: starts_char_def TRUNCATED_MARK_def is_cont_def byte_of_def)

lemma chars_truncated:
  assumes "starts_char s"
  shows "chars (head_chars h s @ TRUNCATED_MARK @ tail_chars t s) =
    take h (chars s) @ chars TRUNCATED_MARK @ drop (length (chars s) - t) (chars s)"
proof -
  let ?xs = "take h (chars s) @ chars TRUNCATED_MARK @ drop (length (chars s) - t) (chars s)"
  have "list_all wf_chunk ?xs"
    using wf_chars [OF assms] wf_mark by (simp add: wf_take wf_drop)
  then have "chars (concat ?xs) = ?xs" by (rule chars_concat)
  moreover have "concat ?xs = head_chars h s @ TRUNCATED_MARK @ tail_chars t s"
    by (simp add: head_chars_def tail_chars_drop)
  ultimately show ?thesis by (simp only:)
qed

lemma truncate_message_content:
  assumes "needs_truncation h t m" and "starts_char (content m)"
  shows "chars (content (truncate_message h t m)) =
    take h (chars (content m)) @ chars TRUNCATED_MARK @
    drop (length (chars (content m)) - t) (chars (content m))"
  using assms by (simp add: truncate_message_def chars_truncated)

text \<open>
  C8. A truncated tool result is its first \<open>head\<close> scalar values, the mark and its last \<open>tail\<close> scalar
  values, in that order, and nothing else of the message changes: \<open>head + 21 + tail\<close> scalar values.
  It is therefore longer than the original when that exceeded the limit by less than 21, it is above
  the limit itself, so every later pass counts it again, and such a pass leaves it unchanged.
\<close>

theorem truncate_message_spec:
  assumes "needs_truncation h t m" and "starts_char (content m)"
  shows "chars (content (truncate_message h t m)) =
      take h (chars (content m)) @ map (\<lambda>c. [c]) (nl @ ''... [truncated] ...'' @ nl) @
        drop (char_count (content m) - t) (chars (content m)) \<and>
    truncate_message h t m = m\<lparr>content := content (truncate_message h t m)\<rparr> \<and>
    char_count (content (truncate_message h t m)) = h + 21 + t \<and>
    needs_truncation h t (truncate_message h t m) \<and>
    truncate_message h t (truncate_message h t m) = truncate_message h t m"
proof -
  let ?cs = "chars (content m)" and ?m = "truncate_message h t m"
  have len: "h + t < length ?cs" and tool: "role m = ''tool''"
    using assms(1) by (auto simp: needs_truncation_def char_count_def)
  have cs: "chars (content ?m) = take h ?cs @ chars TRUNCATED_MARK @ drop (length ?cs - t) ?cs"
    using assms by (rule truncate_message_content)
  with len have count: "char_count (content ?m) = h + 21 + t"
    by (simp add: char_count_def chars_mark)
  have again: "needs_truncation h t ?m"
    using count tool by (simp add: needs_truncation_def truncate_message_def)
  have "head_chars h (content ?m) = head_chars h (content m)"
    using cs len by (simp add: head_chars_def)
  moreover have "tail_chars t (content ?m) = tail_chars t (content m)"
    using cs len by (simp add: tail_chars_drop chars_mark)
  ultimately have "truncate_message h t ?m = ?m"
    using again assms(1) by (simp add: truncate_message_def)
  moreover have "TRUNCATED_MARK = nl @ ''... [truncated] ...'' @ nl" by (simp add: TRUNCATED_MARK_def nl_def)
  with cs have "chars (content ?m) = take h ?cs @ map (\<lambda>c. [c]) (nl @ ''... [truncated] ...'' @ nl) @
      drop (char_count (content m) - t) ?cs"
    by (simp only: chars_mark char_count_def)
  moreover have "?m = m\<lparr>content := content ?m\<rparr>" by (simp add: truncate_message_def)
  ultimately show ?thesis using count again by blast
qed

theorem truncate_message_spec_witness:
  "concat (chars (content (truncate_message 2 1 (sample_message ''tool'' ''abcdef'')))) =
    ''ab'' @ nl @ ''... [truncated] ...'' @ nl @ ''f''"
  using truncate_message_spec [of 2 1 "sample_message ''tool'' ''abcdef''"]
  by (simp add: sample_message_def needs_truncation_def char_count_def starts_char_def
      is_cont_def byte_of_def)

section \<open>The estimator contract\<close>

text \<open>
  What the fitter relies on: a message whose text and images are no larger costs no more.
  Then evicting images never raises the estimate, and neither does cutting a text that
  exceeds the limit by at least the length of the mark.
\<close>

locale token_counter =
  fixes est :: "message \<Rightarrow> nat"
  assumes est_mono: "length (content m) \<le> length (content m') \<Longrightarrow>
    length (images m) \<le> length (images m') \<Longrightarrow> est m \<le> est m'"
begin

lemma est_clear_images: "est (m\<lparr>images := []\<rparr>) \<le> est m"
  by (rule est_mono) simp_all

lemma estimate_update_le:
  "i < length ms \<Longrightarrow> est m \<le> est (ms ! i) \<Longrightarrow> estimate est (ms[i := m]) \<le> estimate est ms"
proof (induction ms arbitrary: i)
  case (Cons x xs)
  then show ?case by (cases i) (auto intro: add_mono)
qed simp

lemma clear_images_at_le: "estimate est (fst (clear_images_at ms is d)) \<le> estimate est ms"
proof (induction ms "is" d rule: clear_images_at.induct)
  case (2 ms i "is" d)
  have "estimate est (ms[i := (ms ! i)\<lparr>images := []\<rparr>]) \<le> estimate est ms"
    by (cases "i < length ms") (simp_all add: estimate_update_le est_clear_images list_update_beyond)
  with 2 show ?case by simp
qed simp

lemma evict_images_le: "estimate est (fst (evict_images ms p keep)) \<le> estimate est ms"
  by (simp add: evict_images_eq clear_images_at_le)

lemma prune_loop_le: "estimate est (fst (prune_loop est p limit ms d)) \<le> estimate est ms"
proof -
  obtain k where "fst (prune_loop est p limit ms d) = take p ms @ drop (p + k) ms"
    using prune_loop_char [of est p limit ms d] by (metis fst_conv)
  moreover have "estimate est (drop (p + k) ms) \<le> estimate est (drop p ms)"
    by (metis append_take_drop_id add.commute drop_drop estimate_simps(3) le_add2)
  moreover have "estimate est ms = estimate est (take p ms) + estimate est (drop p ms)"
    by (metis append_take_drop_id estimate_simps(3))
  ultimately show ?thesis by simp
qed

lemma truncate_message_le:
  assumes "length (head_chars h (content m)) + 21 + length (tail_chars t (content m)) \<le> length (content m)"
  shows "est (truncate_message h t m) \<le> est m"
  using assms by (auto simp: truncate_message_def intro!: est_mono)

end

lemma div_ceil_mono: "a \<le> b \<Longrightarrow> div_ceil a 4 \<le> div_ceil b 4"
  unfolding div_ceil_def by (cases "a mod 4 = 0"; cases "b mod 4 = 0"; simp; arith)

interpretation heuristic: token_counter heuristic_estimate_message
proof (unfold_locales, goal_cases)
  case (1 m m')
  then show ?case
    using div_ceil_mono [of "length (content m)" "length (content m')"]
    by (auto simp: heuristic_estimate_message_def CHARS_PER_TOKEN_def TOKENS_PER_IMAGE_def
        intro!: add_mono)
qed

text \<open>
  With the heuristic estimator, image eviction and the final pruning never raise the
  estimated cost of a prompt.
\<close>

theorem eviction_never_costs:
  "estimate heuristic_estimate_message (fst (evict_images ms p keep))
     \<le> estimate heuristic_estimate_message ms \<and>
   estimate heuristic_estimate_message (fst (drop_oldest_until_fits ms p avail heuristic_estimate_message))
     \<le> estimate heuristic_estimate_message ms"
  using heuristic.evict_images_le heuristic.prune_loop_le by (simp add: drop_oldest_until_fits_def)

end
