(* ===== verification/Registry.thy ===== *)
theory Registry
  imports Protocol
begin

text \<open>
  The tool registry of \<open>application/tools/registry.rs\<close>: the static tools in
  registration order, and a device layer that is replaced once per turn and shadows the
  static tools of the same bare name. \<open>definitions\<close> is what the model is offered.
\<close>

record 'v tool_registry =
  reg_tools :: "'v tool_definition list"
  reg_device_tools :: "'v tool_definition list"

definition registry_new :: "'v tool_registry" where
  "registry_new = \<lparr>reg_tools = [], reg_device_tools = []\<rparr>"

text \<open>\<open>register\<close>: replace the entry of the same name in place, or append.\<close>

fun replace_or_push :: "'v tool_definition list \<Rightarrow> 'v tool_definition \<Rightarrow> 'v tool_definition list" where
  "replace_or_push [] d = [d]"
| "replace_or_push (t # ts) d = (if td_name t = td_name d then d # ts else t # replace_or_push ts d)"

definition register :: "'v tool_registry \<Rightarrow> 'v tool_definition \<Rightarrow> 'v tool_registry" where
  "register r d = r\<lparr>reg_tools := replace_or_push (reg_tools r) d\<rparr>"

definition bare_capability :: "string \<Rightarrow> string" where
  "bare_capability n = (case split_once (CHR ''_'') n of None \<Rightarrow> n | Some (_, capability) \<Rightarrow> capability)"

definition shadowed :: "'v tool_registry \<Rightarrow> string \<Rightarrow> bool" where
  "shadowed r n \<longleftrightarrow> list_ex (\<lambda>t. bare_capability (td_name t) = n) (reg_device_tools r)"

definition get_tool :: "'v tool_registry \<Rightarrow> string \<Rightarrow> 'v tool_definition option" where
  "get_tool r n =
     (case List.find (\<lambda>t. td_name t = n) (reg_tools r) of
        Some t \<Rightarrow> if \<not> shadowed r n then Some t
                  else List.find (\<lambda>t. td_name t = n) (reg_device_tools r)
      | None \<Rightarrow> List.find (\<lambda>t. td_name t = n) (reg_device_tools r))"

definition set_device_tools :: "'v tool_registry \<Rightarrow> 'v tool_definition list \<Rightarrow> 'v tool_registry" where
  "set_device_tools r ds = r\<lparr>reg_device_tools := ds\<rparr>"

definition definitions :: "'v tool_registry \<Rightarrow> 'v tool_definition list" where
  "definitions r = reg_device_tools r @ filter (\<lambda>d. \<not> shadowed r (td_name d)) (reg_tools r)"

section \<open>Registration\<close>

lemma map_name_replace_or_push:
  "map td_name (replace_or_push ts d) =
    (if td_name d \<in> td_name ` set ts then map td_name ts else map td_name ts @ [td_name d])"
  by (induction ts) auto

lemma find_replace_or_push:
  "List.find (\<lambda>t. td_name t = n) (replace_or_push ts d) =
    (if n = td_name d then Some d else List.find (\<lambda>t. td_name t = n) ts)"
  by (induction ts) auto

lemma distinct_replace_or_push:
  "distinct (map td_name ts) \<Longrightarrow> distinct (map td_name (replace_or_push ts d))"
  by (auto simp: map_name_replace_or_push)

definition register_all :: "'v tool_registry \<Rightarrow> 'v tool_definition list \<Rightarrow> 'v tool_registry" where
  "register_all r ds = foldl register r ds"

lemma register_all_snoc: "register_all r (ds @ [d]) = register (register_all r ds) d"
  by (simp add: register_all_def)

lemma reg_device_register_all [simp]: "reg_device_tools (register_all r ds) = reg_device_tools r"
  by (induction ds rule: rev_induct) (simp_all add: register_all_def register_def)

text \<open>
  However the static tools are registered, each name is published once, at the
  position of its first registration, and with its last definition.
\<close>

theorem register_all_spec:
  "distinct (map td_name (reg_tools (register_all registry_new ds))) \<and>
   set (map td_name (reg_tools (register_all registry_new ds))) = set (map td_name ds) \<and>
   map td_name (reg_tools (register_all registry_new ds)) = rev (remdups (rev (map td_name ds))) \<and>
   List.find (\<lambda>t. td_name t = n) (reg_tools (register_all registry_new ds))
     = List.find (\<lambda>t. td_name t = n) (rev ds)"
proof (induction ds rule: rev_induct)
  case Nil
  then show ?case by (simp add: register_all_def registry_new_def)
next
  case (snoc d ds)
  then show ?case
    by (auto simp: register_all_snoc register_def map_name_replace_or_push find_replace_or_push
        distinct_replace_or_push)
qed

section \<open>Lookup and the published list agree\<close>

lemma find_append: "List.find P (xs @ ys) = (case List.find P xs of None \<Rightarrow> List.find P ys | Some x \<Rightarrow> Some x)"
  by (induction xs) auto

lemma find_filter_name:
  "List.find (\<lambda>t. td_name t = n) (filter (\<lambda>d. Q (td_name d)) ts) =
    (if Q n then List.find (\<lambda>t. td_name t = n) ts else None)"
  by (induction ts) auto

lemma find_name_Some: "List.find (\<lambda>t. td_name t = n) ts = Some t \<Longrightarrow> t \<in> set ts \<and> td_name t = n"
  by (drule find_Some_mem)

text \<open>
  When no name is published twice, \<open>get\<close> finds exactly the tools the model is
  offered: looking a name up and searching the published list are the same.
\<close>

theorem get_tool_eq_find_definitions:
  assumes "distinct (map td_name (definitions r))"
  shows "get_tool r n = List.find (\<lambda>t. td_name t = n) (definitions r)"
proof (cases "List.find (\<lambda>t. td_name t = n) (reg_device_tools r)")
  case None
  then show ?thesis
    using find_filter_name [of n "\<lambda>m. \<not> shadowed r m" "reg_tools r"]
    by (auto simp: get_tool_def definitions_def find_append split: option.splits if_splits)
next
  case (Some t)
  then have "td_name t \<in> td_name ` set (reg_device_tools r)" "td_name t = n"
    by (auto dest: find_name_Some)
  with assms have "List.find (\<lambda>t. td_name t = n) (filter (\<lambda>d. \<not> shadowed r (td_name d)) (reg_tools r)) = None"
    by (force simp: definitions_def find_None_iff)
  then have "shadowed r n \<or> List.find (\<lambda>t. td_name t = n) (reg_tools r) = None"
    using find_filter_name [of n "\<lambda>m. \<not> shadowed r m" "reg_tools r"] by (auto split: if_splits)
  with Some show ?thesis
    by (auto simp: get_tool_def definitions_def find_append split: option.splits)
qed

definition sample_tool :: "string \<Rightarrow> unit tool_definition" where
  "sample_tool n = \<lparr>td_name = n, td_description = [], td_parameters = ()\<rparr>"

theorem get_tool_eq_find_definitions_witness:
  "get_tool (set_device_tools (register_all registry_new [sample_tool ''open_url'', sample_tool ''ping''])
      [sample_tool ''pc_open_url'']) ''ping'' = Some (sample_tool ''ping'')"
  using get_tool_eq_find_definitions [of "set_device_tools (register_all registry_new
      [sample_tool ''open_url'', sample_tool ''ping'']) [sample_tool ''pc_open_url'']" "''ping''"]
  by (simp add: definitions_def set_device_tools_def register_all_def register_def registry_new_def
      shadowed_def bare_capability_def sample_tool_def)

lemma shadowed_not_offered:
  "d \<in> set (definitions r) \<Longrightarrow> d \<in> set (reg_device_tools r) \<or> \<not> shadowed r (td_name d)"
  by (auto simp: definitions_def)

lemma set_device_tools_sel [simp]:
  "reg_device_tools (set_device_tools r ds) = ds" "reg_tools (set_device_tools r ds) = reg_tools r"
  by (simp_all add: set_device_tools_def)

lemma clear_device_layer:
  "definitions (set_device_tools (set_device_tools r ds) []) = reg_tools r"
  by (simp add: definitions_def shadowed_def)

end
