(* ===== verification/Agent.thy ===== *)
theory Agent
  imports Budget Registry
begin

text \<open>
  The agent loop of \<open>apps/nala/src/application/agent_loop.rs\<close> over the state of
  \<open>assistant.rs\<close>. Everything the loop calls through a port (the model, the tool
  dispatcher, the clock, the cancel signal, the memory store, the token estimator) is an
  operation of the record \<open>agent_env\<close> over a world of type \<open>'w\<close>; the event sink is the
  list of the events emitted so far. A turn is \<open>process_from\<close>; its loop body is
  \<open>turn_step\<close> and its inner loop over a response's tool calls is \<open>run_tool_calls\<close>.
\<close>

section \<open>State\<close>

text \<open>
  The background worker of one model call: how many polls of 100 ms time out before its
  result arrives, and the result, or \<open>None\<close> when the thread ends without one.
\<close>

datatype llm_worker = Worker nat "(llm_error + llm_response) option"

record ('w, 'v, 'e) agent_env =
  env_now :: "'w \<Rightarrow> duration \<times> 'w"
  env_task_id :: "'w \<Rightarrow> task_id \<times> 'w"
  env_is_cancelled :: "'w \<Rightarrow> bool \<times> 'w"
  env_sleep :: "duration \<Rightarrow> 'w \<Rightarrow> 'w"
  env_generate :: "message list \<Rightarrow> 'v tool_definition list \<Rightarrow> 'w \<Rightarrow> llm_worker \<times> 'w"
  env_dispatch :: "tool_call \<Rightarrow> 'w \<Rightarrow> ('e + tool_outcome) \<times> 'w"
  env_get_context :: "'w \<Rightarrow> ('e + string) \<times> 'w"
  env_device_tools :: "'w \<Rightarrow> 'v tool_definition list \<times> 'w"
  env_facts :: "'w \<Rightarrow> (string \<times> string) list \<times> 'w"
  env_show_error :: "'e \<Rightarrow> string"
  env_estimate :: "message \<Rightarrow> nat"

record task_state =
  task_id_of :: task_id
  next_call_index :: u32

record ('w, 'v) agent =
  world :: 'w
  registry :: "'v tool_registry"
  history :: transcript
  events :: "event list"
  limits :: loop_limits
  budget :: context_budget
  planning_enabled :: bool
  current_task :: task_state
  provider :: string
  model :: string

datatype 'e assistant_error =
    LlmErr llm_error
  | ToolErr 'e
  | LoopDetected nat
  | ToolCallLimitExceeded
  | EmptyResponse
  | TooManyConsecutiveToolFailures nat
  | AssistantCancelled

fun show_assistant_error :: "('e \<Rightarrow> string) \<Rightarrow> 'e assistant_error \<Rightarrow> string" where
  "show_assistant_error sh (LlmErr e) = ''LLM error: '' @ show_llm_error e"
| "show_assistant_error sh (ToolErr e) = ''tool error: '' @ sh e"
| "show_assistant_error sh (LoopDetected n) =
     ''loop detected: the same tool call was requested '' @ show_nat n @ '' times in a row''"
| "show_assistant_error sh ToolCallLimitExceeded = ''tool call limit exceeded''"
| "show_assistant_error sh EmptyResponse =
     ''the model produced neither text nor a tool call too many times in a row''"
| "show_assistant_error sh (TooManyConsecutiveToolFailures n) = show_nat n @ '' tool calls in a row failed''"
| "show_assistant_error sh AssistantCancelled = ''cancelled''"

section \<open>Messages\<close>

definition plain_message :: "string \<Rightarrow> string \<Rightarrow> message" where
  "plain_message r c = \<lparr>role = r, content = c, tool_calls = None, tool_name = None, images = []\<rparr>"

definition system_message :: "string \<Rightarrow> message" where
  "system_message c = plain_message ''system'' c"

definition user_message :: "string \<Rightarrow> message" where
  "user_message c = plain_message ''user'' c"

definition assistant_text_message :: "string \<Rightarrow> message" where
  "assistant_text_message c = plain_message ''assistant'' c"

definition assistant_tool_call_message :: "tool_call \<Rightarrow> message" where
  "assistant_tool_call_message tc =
     \<lparr>role = ''assistant'', content = [], tool_calls = Some [tc], tool_name = None, images = []\<rparr>"

definition tool_result_message :: "string \<Rightarrow> tool_outcome \<Rightarrow> message" where
  "tool_result_message n out =
     \<lparr>role = ''tool'', content = out_text out, tool_calls = None, tool_name = Some n, images = out_images out\<rparr>"

section \<open>Tasks, events and the clock\<close>

definition task_state_new :: "task_id \<Rightarrow> task_state" where
  "task_state_new tid = \<lparr>task_id_of = tid, next_call_index = 0\<rparr>"

definition next_llm_call :: "task_state \<Rightarrow> (llm_call_id \<times> u32) \<times> task_state" where
  "next_llm_call ts =
     (let i = next_call_index ts + 1
      in ((llm_call_id_new (task_id_of ts) i, i), ts\<lparr>next_call_index := i\<rparr>))"

definition emit :: "event \<Rightarrow> ('w, 'v) agent \<Rightarrow> ('w, 'v) agent" where
  "emit e a = a\<lparr>events := events a @ [e]\<rparr>"

definition agent_task :: "('w, 'v) agent \<Rightarrow> task_id" where
  "agent_task a = task_id_of (current_task a)"

definition set_state :: "turn_state \<Rightarrow> ('w, 'v) agent \<Rightarrow> ('w, 'v) agent" where
  "set_state st a = emit (StateChanged (agent_task a) st) a"

text \<open>Lift an operation of the environment to the agent's state.\<close>

definition on_world :: "('w \<Rightarrow> 'a \<times> 'w) \<Rightarrow> ('w, 'v) agent \<Rightarrow> 'a \<times> ('w, 'v) agent" where
  "on_world f a = (case f (world a) of (x, w) \<Rightarrow> (x, a\<lparr>world := w\<rparr>))"

definition elapsed ::
  "('w, 'v, 'e) agent_env \<Rightarrow> duration \<Rightarrow> ('w, 'v) agent \<Rightarrow> duration \<times> ('w, 'v) agent" where
  "elapsed env start a = (case on_world (env_now env) a of (now, a) \<Rightarrow> (now - start, a))"

definition is_cancelled ::
  "('w, 'v, 'e) agent_env \<Rightarrow> ('w, 'v) agent \<Rightarrow> bool \<times> ('w, 'v) agent" where
  "is_cancelled env a = on_world (env_is_cancelled env) a"

definition cancelled ::
  "('w, 'v, 'e) agent_env \<Rightarrow> duration \<Rightarrow> ('w, 'v) agent \<Rightarrow> 'e assistant_error \<times> ('w, 'v) agent" where
  "cancelled env request_start a =
     (case elapsed env request_start a of (d, a) \<Rightarrow>
        (AssistantCancelled,
         emit (RequestFailed (agent_task a) d ''cancelled'') (emit (Cancelled (agent_task a)) a)))"

definition abort_turn ::
  "('w, 'v, 'e) agent_env \<Rightarrow> duration \<Rightarrow> string \<Rightarrow> 'e assistant_error \<Rightarrow> ('w, 'v) agent \<Rightarrow>
     'e assistant_error \<times> ('w, 'v) agent" where
  "abort_turn env request_start reason err a =
     (case elapsed env request_start a of (d, a) \<Rightarrow>
        (err, emit (RequestFailed (agent_task a) d reason) a))"

section \<open>Calling the model\<close>

datatype llm_call_outcome = Completed "llm_error + llm_response" | CallCancelled

definition is_retryable :: "llm_error \<Rightarrow> bool" where
  "is_retryable e = (case e of LlmRequestFailed _ \<Rightarrow> True | _ \<Rightarrow> False)"

text \<open>The \<open>recv_timeout\<close> loop: after each timeout the cancel signal is polled.\<close>

fun poll_worker ::
  "('w, 'v, 'e) agent_env \<Rightarrow> nat \<Rightarrow> (llm_error + llm_response) option \<Rightarrow> ('w, 'v) agent \<Rightarrow>
     llm_call_outcome \<times> ('w, 'v) agent" where
  "poll_worker env 0 result a =
     (case result of
        Some r \<Rightarrow> (Completed r, a)
      | None \<Rightarrow> (Completed (Inl (LlmRequestFailed ''LLM worker thread stopped without a result'')), a))"
| "poll_worker env (Suc n) result a =
     (case is_cancelled env a of (c, a) \<Rightarrow>
        if c then (CallCancelled, a) else poll_worker env n result a)"

definition call_llm ::
  "('w, 'v, 'e) agent_env \<Rightarrow> message list \<Rightarrow> 'v tool_definition list \<Rightarrow> ('w, 'v) agent \<Rightarrow>
     llm_call_outcome \<times> ('w, 'v) agent" where
  "call_llm env ms tools a =
     (case on_world (env_generate env ms tools) a of (Worker n result, a) \<Rightarrow> poll_worker env n result a)"

definition outgoing_images :: "message list \<Rightarrow> nat" where
  "outgoing_images ms = sum_list (map (\<lambda>m. length (images m)) ms)"

definition instrumented_call_llm ::
  "('w, 'v, 'e) agent_env \<Rightarrow> message list \<Rightarrow> 'v tool_definition list \<Rightarrow> ('w, 'v) agent \<Rightarrow>
     llm_call_outcome \<times> ('w, 'v) agent" where
  "instrumented_call_llm env ms tools a =
     (case next_llm_call (current_task a) of ((cid, idx), ts) \<Rightarrow>
      let tid = agent_task a;
          a = emit (LlmStarted tid cid idx (outgoing_images ms) (provider a) (model a))
                (a\<lparr>current_task := ts\<rparr>)
      in case on_world (env_now env) a of (start, a) \<Rightarrow>
         case call_llm env ms tools a of (out, a) \<Rightarrow>
         case elapsed env start a of (d, a) \<Rightarrow>
           (out,
            case out of
              Completed (Inr r) \<Rightarrow>
                emit (TokensUsed tid cid idx (prompt_tokens (resp_usage r)) (completion_tokens (resp_usage r)))
                  (emit (LlmCompleted tid cid idx d (provider a) (model a)) a)
            | Completed (Inl e) \<Rightarrow>
                emit (LlmFailed tid cid idx d (show_llm_error e) (provider a) (model a)) a
            | CallCancelled \<Rightarrow> a))"

definition generate ::
  "('w, 'v, 'e) agent_env \<Rightarrow> message list \<Rightarrow> ('w, 'v) agent \<Rightarrow> llm_call_outcome \<times> ('w, 'v) agent" where
  "generate env ms a = instrumented_call_llm env ms (definitions (registry a)) a"

section \<open>Frame facts of the operations so far\<close>

text \<open>
  What a step of a turn never changes: the limits, the budget, the labels and the task
  identity; the events only grow.
\<close>

definition same_setup :: "('w, 'v) agent \<Rightarrow> ('w, 'v) agent \<Rightarrow> bool" where
  "same_setup a b \<longleftrightarrow> limits b = limits a \<and> budget b = budget a \<and> agent_task b = agent_task a \<and>
     planning_enabled b = planning_enabled a \<and> provider b = provider a \<and> model b = model a \<and>
     registry b = registry a"

lemma same_setup_refl [simp]: "same_setup a a"
  by (simp add: same_setup_def)

lemma same_setup_trans [trans]: "same_setup a b \<Longrightarrow> same_setup b c \<Longrightarrow> same_setup a c"
  by (simp add: same_setup_def)

lemma emit_sel [simp, agent_simps]:
  "events (emit e a) = events a @ [e]" "world (emit e a) = world a"
  "registry (emit e a) = registry a" "history (emit e a) = history a"
  "limits (emit e a) = limits a" "budget (emit e a) = budget a"
  "planning_enabled (emit e a) = planning_enabled a"
  "current_task (emit e a) = current_task a" "provider (emit e a) = provider a"
  "model (emit e a) = model a" "agent_task (emit e a) = agent_task a"
  by (simp_all add: emit_def agent_task_def)

lemma set_state_sel [simp, agent_simps]:
  "events (set_state st a) = events a @ [StateChanged (agent_task a) st]"
  "world (set_state st a) = world a" "registry (set_state st a) = registry a"
  "history (set_state st a) = history a" "limits (set_state st a) = limits a"
  "budget (set_state st a) = budget a" "planning_enabled (set_state st a) = planning_enabled a"
  "current_task (set_state st a) = current_task a" "provider (set_state st a) = provider a"
  "model (set_state st a) = model a" "agent_task (set_state st a) = agent_task a"
  by (simp_all add: set_state_def)

lemma world_update_sel [simp]:
  "agent_task (a\<lparr>world := w\<rparr>) = agent_task a"
  "agent_task (a\<lparr>history := h\<rparr>) = agent_task a"
  "agent_task (a\<lparr>registry := r\<rparr>) = agent_task a"
  by (simp_all add: agent_task_def)

end
