(* ===== verification/Agent_Turn.thy ===== *)
theory Agent_Turn
  imports Agent
begin

text \<open>
  The second half of \<open>agent_loop.rs\<close>: retrying a model call, planning, fitting the prompt
  to the budget, running tool calls, and the turn loop itself. The turn loop is a total
  function: every iteration that goes on lowers the measure of \<open>process_loop\<close> (tool calls
  left, verification gate unused, empty answers left). The theory opens with the frame
  lemmas its two termination proofs need.
\<close>

section \<open>Evolution of the agent\<close>

text \<open>
  \<open>evolves P a b\<close>: \<open>b\<close> came from \<open>a\<close> by steps that keep the configuration and the
  history and append only events that satisfy \<open>P\<close>.
\<close>

definition evolves :: "(event \<Rightarrow> bool) \<Rightarrow> ('w, 'v) agent \<Rightarrow> ('w, 'v) agent \<Rightarrow> bool" where
  "evolves P a b \<longleftrightarrow> same_setup a b \<and> history b = history a \<and>
     (\<exists>evs. events b = events a @ evs \<and> list_all P evs)"

lemma evolves_refl [simp, intro]: "evolves P a a"
  by (simp add: evolves_def)

lemma evolves_trans [trans]: "evolves P a b \<Longrightarrow> evolves P b c \<Longrightarrow> evolves P a c"
  by (force simp: evolves_def intro: same_setup_trans)

lemma evolves_mono: "evolves P a b \<Longrightarrow> (\<And>e. P e \<Longrightarrow> Q e) \<Longrightarrow> evolves Q a b"
  by (force simp: evolves_def list_all_iff)

lemma evolves_task: "evolves P a b \<Longrightarrow> agent_task b = agent_task a"
  by (simp add: evolves_def same_setup_def)

lemma evolves_limits: "evolves P a b \<Longrightarrow> limits b = limits a"
  by (simp add: evolves_def same_setup_def)

lemma evolves_emit: "P e \<Longrightarrow> evolves P a b \<Longrightarrow> evolves P a (emit e b)"
  by (auto simp: evolves_def same_setup_def)

lemma evolves_world: "evolves P a b \<Longrightarrow> evolves P a (b\<lparr>world := w\<rparr>)"
  by (auto simp: evolves_def same_setup_def)

lemma evolves_on_world: "on_world f b = (x, c) \<Longrightarrow> evolves P a b \<Longrightarrow> evolves P a c"
  by (auto simp: on_world_def intro: evolves_world split: prod.splits)

lemma evolves_elapsed: "elapsed env s b = (x, c) \<Longrightarrow> evolves P a b \<Longrightarrow> evolves P a c"
  by (auto simp: elapsed_def intro: evolves_on_world split: prod.splits)

lemma evolves_is_cancelled: "is_cancelled env b = (x, c) \<Longrightarrow> evolves P a b \<Longrightarrow> evolves P a c"
  by (auto simp: is_cancelled_def intro: evolves_on_world)

lemma evolves_poll_worker: "poll_worker env n r b = (x, c) \<Longrightarrow> evolves P a b \<Longrightarrow> evolves P a c"
proof (induction env n r b rule: poll_worker.induct)
  case (2 env n r b)
  then show ?case
    by (auto split: prod.splits if_splits intro: evolves_is_cancelled)
qed (auto split: option.splits)

lemma evolves_call_llm: "call_llm env ms ts b = (x, c) \<Longrightarrow> evolves P a b \<Longrightarrow> evolves P a c"
  by (auto simp: call_llm_def split: prod.splits llm_worker.splits
      intro: evolves_poll_worker evolves_on_world)

text \<open>The events of one model call: of this task, and none of them ends the turn.\<close>

definition is_llm_event :: "event \<Rightarrow> bool" where
  "is_llm_event e \<longleftrightarrow> (case e of
      LlmStarted _ _ _ _ _ _ \<Rightarrow> True | LlmCompleted _ _ _ _ _ _ \<Rightarrow> True
    | LlmFailed _ _ _ _ _ _ _ \<Rightarrow> True | TokensUsed _ _ _ _ _ \<Rightarrow> True | _ \<Rightarrow> False)"

definition llm_event_of :: "task_id \<Rightarrow> event \<Rightarrow> bool" where
  "llm_event_of t e \<longleftrightarrow> is_llm_event e \<and> event_task e = Some t"

lemma evolves_task_update: "evolves P a b \<Longrightarrow> task_id_of ts = agent_task b \<Longrightarrow>
    evolves P a (b\<lparr>current_task := ts\<rparr>)"
  by (auto simp: evolves_def same_setup_def agent_task_def)

lemma evolves_instrumented:
  assumes "instrumented_call_llm env ms ts a = (out, b)"
  shows "evolves (llm_event_of (agent_task a)) a b"
proof -
  let ?P = "llm_event_of (agent_task a)"
  obtain cid idx ts' where n: "next_llm_call (current_task a) = ((cid, idx), ts')"
    by (metis prod.exhaust)
  let ?a1 = "emit (LlmStarted (agent_task a) cid idx (outgoing_images ms) (provider a) (model a))
      (a\<lparr>current_task := ts'\<rparr>)"
  have "task_id_of ts' = agent_task a"
    using n by (auto simp: next_llm_call_def agent_task_def Let_def)
  then have a1: "evolves ?P a ?a1"
    by (intro evolves_emit evolves_task_update) (auto simp: llm_event_of_def is_llm_event_def)
  obtain start a2 where s2: "on_world (env_now env) ?a1 = (start, a2)" by fastforce
  obtain out' a3 where s3: "call_llm env ms ts a2 = (out', a3)" by fastforce
  obtain d a4 where s4: "elapsed env start a3 = (d, a4)" by fastforce
  have a4: "evolves ?P a a4"
    using evolves_elapsed [OF s4 evolves_call_llm [OF s3 evolves_on_world [OF s2 a1]]] .
  from assms n s2 s3 s4 a4 show ?thesis
    by (auto simp: instrumented_call_llm_def Let_def split: llm_call_outcome.splits sum.splits
        intro!: evolves_emit simp: llm_event_of_def is_llm_event_def)
qed

lemma evolves_generate:
  "generate env ms a = (out, b) \<Longrightarrow> evolves (llm_event_of (agent_task a)) a b"
  by (simp add: generate_def evolves_instrumented)

section \<open>Retries\<close>

text \<open>
  \<open>retry_base_delay * 2u32.pow(attempt)\<close>: the power is a \<open>u32\<close>, which wraps in a
  release build from attempt 32 on (a debug build panics there).
\<close>

definition retry_delay :: "loop_limits \<Rightarrow> u32 \<Rightarrow> duration" where
  "retry_delay l attempt = retry_base_delay l * unat ((2 :: u32) ^ unat attempt)"

function generate_with_retry ::
  "('w, 'v, 'e) agent_env \<Rightarrow> message list \<Rightarrow> duration \<Rightarrow> u32 \<Rightarrow> ('w, 'v) agent \<Rightarrow>
     ('e assistant_error + llm_response) \<times> ('w, 'v) agent" where
  "generate_with_retry env ms request_start attempt a =
     (case generate env ms a of
        (CallCancelled, a) \<Rightarrow> (case cancelled env request_start a of (e, a) \<Rightarrow> (Inl e, a))
      | (Completed (Inr response), a) \<Rightarrow> (Inr response, a)
      | (Completed (Inl err), a) \<Rightarrow>
          if \<not> is_retryable err \<or> max_llm_retries (limits a) \<le> attempt then (Inl (LlmErr err), a)
          else case is_cancelled env a of (c, a) \<Rightarrow>
            if c then (case cancelled env request_start a of (e, a) \<Rightarrow> (Inl e, a))
            else generate_with_retry env ms request_start (attempt + 1)
              (let a = emit (Retrying (agent_task a) (attempt + 1) (show_llm_error err)) a
               in a\<lparr>world := env_sleep env (retry_delay (limits a) attempt) (world a)\<rparr>))"
  by pat_completeness auto

lemma generate_limits: "(out, b) = generate env ms a \<Longrightarrow> limits b = limits a"
  by (rule evolves_limits [OF evolves_generate], erule sym)

lemma is_cancelled_limits: "(c, b) = is_cancelled env a \<Longrightarrow> limits b = limits a"
  by (rule evolves_limits [OF evolves_is_cancelled [OF _ evolves_refl]], erule sym)

lemma unat_suc_below: "attempt < (m :: u32) \<Longrightarrow> unat (attempt + 1) = unat attempt + 1"
  proof -
  assume "attempt < m"
  moreover have "unat m < 2 ^ 32"
    using unsigned_less [of m] by simp
  ultimately show ?thesis
    by (simp add: unat_word_ariths word_less_nat_alt)
qed

lemma retry_measure:
  assumes "attempt < (m :: u32)"
  shows "unat m - unat (attempt + 1) < unat m - unat attempt"
  using assms unat_suc_below [OF assms] by (simp add: word_less_nat_alt)

termination generate_with_retry
  by (relation "measure (\<lambda>(env, ms, s, attempt, a). unat (max_llm_retries (limits a)) - unat attempt)")
    (auto simp: Let_def not_le dest!: generate_limits is_cancelled_limits intro: retry_measure)

declare generate_with_retry.simps [simp del]

section \<open>Planning\<close>

definition PLANNING_INSTRUCTIONS :: string where
  "PLANNING_INSTRUCTIONS =
     ''Before doing anything, write a short numbered plan for how you will accomplish the user'' @ quote @
     ''s request, using the tools listed below and the computer context above. Think about which tool applies, what specific target you need to act on, and how you'' @ quote @
     ''ll confirm you actually succeeded (not just attempted the first step).'' @ nl @ nl @
     ''Respond with ONLY the plan as plain numbered text. Do not call any tool yet '' @
     [CHR 0xE2, CHR 0x80, CHR 0x94] @
     '' this message has no tools available on purpose, so calling one is impossible; just describe the steps.''"

definition tool_summary :: "'v tool_definition list \<Rightarrow> string" where
  "tool_summary tools = join nl (map (\<lambda>t. ''- '' @ td_name t @ '': '' @ td_description t) tools)"

text \<open>The text of a response that is not blank.\<close>

definition spoken :: "string option \<Rightarrow> string option" where
  "spoken t = (case t of Some s \<Rightarrow> if is_blank s then None else Some s | None \<Rightarrow> None)"

definition build_plan ::
  "('w, 'v, 'e) agent_env \<Rightarrow> message list \<Rightarrow> 'v tool_definition list \<Rightarrow> ('w, 'v) agent \<Rightarrow>
     string option \<times> ('w, 'v) agent" where
  "build_plan env ms tools a =
     (case instrumented_call_llm env
        (ms @ [system_message (''Available tools:'' @ nl @ tool_summary tools @ nl @ nl @ PLANNING_INSTRUCTIONS)])
        [] a of
        (Completed (Inr response), a) \<Rightarrow> (spoken (resp_text response), a)
      | (_, a) \<Rightarrow> (None, a))"

section \<open>Fitting the prompt to the budget\<close>

definition SUMMARIZE :: string where
  "SUMMARIZE =
     ''Summarize the conversation above in a few sentences, preserving '' @
     ''important facts, decisions, and outcomes the assistant will '' @
     ''still need. Respond with ONLY the summary as plain text.''"

definition compact ::
  "('w, 'v, 'e) agent_env \<Rightarrow> message list \<Rightarrow> nat \<Rightarrow> ('w, 'v) agent \<Rightarrow>
     (message list \<times> nat option) \<times> ('w, 'v) agent" where
  "compact env ms p a =
     (let split = max (length ms - keep_recent_uncompacted (budget a)) p in
      if split \<le> p then ((ms, None), a)
      else case instrumented_call_llm env (take (split - p) (drop p ms) @ [system_message SUMMARIZE]) [] a of
          (Completed (Inr response), a) \<Rightarrow>
            (case spoken (resp_text response) of
               None \<Rightarrow> ((ms, None), a)
             | Some summary \<Rightarrow>
                 ((take p ms @ [system_message (''Summary of earlier conversation:'' @ nl @ summary)] @ drop split ms,
                   Some (split - p)), a))
        | (_, a) \<Rightarrow> ((ms, None), a))"

definition estimate_env :: "('w, 'v, 'e) agent_env \<Rightarrow> message list \<Rightarrow> nat" where
  "estimate_env env ms = estimate (env_estimate env) ms"

text \<open>\<open>BudgetPressure\<close> is emitted for a step that changed something.\<close>

definition emit_pressure ::
  "('w, 'v, 'e) agent_env \<Rightarrow> budget_step \<Rightarrow> nat \<Rightarrow> message list \<Rightarrow> ('w, 'v) agent \<Rightarrow> ('w, 'v) agent" where
  "emit_pressure env step n ms a =
     (if 0 < n then emit (BudgetPressure (agent_task a) step (estimate_env env ms)) a else a)"

definition fit_to_budget ::
  "('w, 'v, 'e) agent_env \<Rightarrow> message list \<Rightarrow> nat \<Rightarrow> ('w, 'v) agent \<Rightarrow> message list \<times> ('w, 'v) agent" where
  "fit_to_budget env ms p a =
     (let available = available_tokens (budget a) in
      if estimate_env env ms \<le> available then (ms, a)
      else case evict_images ms p (keep_recent_images (budget a)) of (ms, dropped) \<Rightarrow>
        let a = emit_pressure env (DroppedImages dropped) dropped ms a in
        if estimate_env env ms \<le> available then (ms, a)
        else case truncate_long_tool_results ms p (truncate_head_chars (budget a)) (truncate_tail_chars (budget a)) of
          (ms, truncated) \<Rightarrow>
            let a = emit_pressure env (TruncatedText truncated) truncated ms a in
            if estimate_env env ms \<le> available then (ms, a)
            else case compact env ms p a of ((ms, compacted), a) \<Rightarrow>
              let a = (case compacted of None \<Rightarrow> a | Some n \<Rightarrow> emit (TranscriptCompacted (agent_task a) n) a) in
              if estimate_env env ms \<le> available then (ms, a)
              else case drop_oldest_until_fits ms p available (env_estimate env) of (ms, dropped) \<Rightarrow>
                (ms, emit_pressure env (DroppedTurns dropped) dropped ms a))"

section \<open>The prompt\<close>

definition build_prompt_messages ::
  "('w, 'v, 'e) agent_env \<Rightarrow> ('w, 'v) agent \<Rightarrow> ('e assistant_error + message list) \<times> ('w, 'v) agent" where
  "build_prompt_messages env a =
     (case on_world (env_get_context env) a of
        (Inl e, a) \<Rightarrow> (Inl (ToolErr e), a)
      | (Inr ctx, a) \<Rightarrow>
          (case on_world (env_facts env) a of (facts, a) \<Rightarrow>
            (Inr ([system_message (''Computer context:'' @ nl @ ctx @ nl @ nl @
                     ''Use this context when generating commands.'')] @
                  (if facts = [] then []
                   else [system_message (''Remembered facts:'' @ nl @
                           join nl (map (\<lambda>(k, v). ''- '' @ k @ '': '' @ v) facts))]) @
                  transcript_snapshot (history a)), a)))"

section \<open>The turn\<close>

definition MAX_EMPTY_RESPONSES :: nat where "MAX_EMPTY_RESPONSES = 3"

record turn =
  messages :: "message list"
  last_tool_call :: "tool_call option"
  identical_repeats :: nat
  tool_call_count :: nat
  empty_responses :: nat
  consecutive_tool_failures :: nat
  unverified_mutation :: bool
  verification_gate_used :: bool

definition turn_new :: "message list \<Rightarrow> turn" where
  "turn_new ms = \<lparr>messages = ms, last_tool_call = None, identical_repeats = 0, tool_call_count = 0,
     empty_responses = 0, consecutive_tool_failures = 0, unverified_mutation = False,
     verification_gate_used = False\<rparr>"

definition push_message :: "message \<Rightarrow> turn \<Rightarrow> turn" where
  "push_message m t = t\<lparr>messages := messages t @ [m]\<rparr>"

text \<open>The bookkeeping of the loop detector when a call is requested.\<close>

definition note_call :: "tool_call \<Rightarrow> turn \<Rightarrow> turn" where
  "note_call tc t =
     (if last_tool_call t = Some tc then t\<lparr>identical_repeats := identical_repeats t + 1\<rparr>
      else t\<lparr>identical_repeats := 1, last_tool_call := Some tc\<rparr>)"

text \<open>
  One tool call past the loop detector: the \<open>ToolStarted\<close> event, the dispatch, the
  bookkeeping of its result and the \<open>ToolCompleted\<close> event.
\<close>

definition execute_call ::
  "('w, 'v, 'e) agent_env \<Rightarrow> tool_call \<Rightarrow> turn \<Rightarrow> ('w, 'v) agent \<Rightarrow> turn \<times> ('w, 'v) agent" where
  "execute_call env tc t a =
     (let t = t\<lparr>tool_call_count := tool_call_count t + 1, empty_responses := 0\<rparr>;
          idx = of_nat (tool_call_count t);
          a = emit (ToolStarted (agent_task a) idx (tc_name tc) (tc_arguments tc)) a
      in case on_world (env_now env) a of (start, a) \<Rightarrow>
         case on_world (env_dispatch env tc) a of (dispatched, a) \<Rightarrow>
         case elapsed env start a of (d, a) \<Rightarrow>
         let fails = (case dispatched of Inr _ \<Rightarrow> 0 | Inl _ \<Rightarrow> consecutive_tool_failures t + 1);
             out = (case dispatched of Inr out \<Rightarrow> out
                    | Inl e \<Rightarrow> outcome_of_text (''ERROR: '' @ env_show_error env e))
         in (push_message (tool_result_message (tc_name tc) out)
               (t\<lparr>consecutive_tool_failures := fails, unverified_mutation := mutated out\<rparr>),
             emit (ToolCompleted (agent_task a) idx (tc_name tc) d (out_text out)
                (length (out_images out)) (tc_arguments tc) (mutated out)) a))"

text \<open>The two limits checked after each call, in the order of the code.\<close>

definition check_limits ::
  "('w, 'v, 'e) agent_env \<Rightarrow> duration \<Rightarrow> turn \<Rightarrow> ('w, 'v) agent \<Rightarrow>
     ('e assistant_error + turn) \<times> ('w, 'v) agent" where
  "check_limits env request_start t a =
     (let l = limits a in
      if max_consecutive_tool_failures l \<le> consecutive_tool_failures t
      then (case abort_turn env request_start ''too many consecutive tool failures''
              (TooManyConsecutiveToolFailures (max_consecutive_tool_failures l)) a of
              (e, a) \<Rightarrow> (Inl e, a))
      else if max_tool_calls l \<le> tool_call_count t
      then (case abort_turn env request_start ''tool call limit exceeded'' ToolCallLimitExceeded a of
              (e, a) \<Rightarrow> (Inl e, a))
      else (Inr t, a))"

text \<open>One tool call whose turn was not cancelled: from the push of the request to the limits.\<close>

definition run_tool_call ::
  "('w, 'v, 'e) agent_env \<Rightarrow> duration \<Rightarrow> tool_call \<Rightarrow> turn \<Rightarrow> ('w, 'v) agent \<Rightarrow>
     ('e assistant_error + turn) \<times> ('w, 'v) agent" where
  "run_tool_call env request_start tc t a =
     (let t = note_call tc (push_message (assistant_tool_call_message tc) t) in
      if max_identical_repeats (limits a) \<le> identical_repeats t
      then (case abort_turn env request_start ''loop detected''
              (LoopDetected (max_identical_repeats (limits a))) a of (e, a) \<Rightarrow> (Inl e, a))
      else case execute_call env tc t a of (t, a) \<Rightarrow> check_limits env request_start t a)"

fun run_tool_calls ::
  "('w, 'v, 'e) agent_env \<Rightarrow> duration \<Rightarrow> tool_call list \<Rightarrow> turn \<Rightarrow> ('w, 'v) agent \<Rightarrow>
     ('e assistant_error + turn) \<times> ('w, 'v) agent" where
  "run_tool_calls env request_start [] t a = (Inr t, a)"
| "run_tool_calls env request_start (tc # tcs) t a =
     (case is_cancelled env a of (c, a) \<Rightarrow>
        if c then (case cancelled env request_start a of (e, a) \<Rightarrow> (Inl e, a))
        else case run_tool_call env request_start tc t a of
            (Inl e, a) \<Rightarrow> (Inl e, a)
          | (Inr t, a) \<Rightarrow> run_tool_calls env request_start tcs t a)"

definition VERIFY_NUDGE :: string where
  "VERIFY_NUDGE =
     ''You performed an action that changes state '' @
     ''without confirming the result afterwards. '' @
     ''Verify using the evidence already attached to '' @
     ''that tool'' @ quote @ ''s result '' @ [CHR 0xE2, CHR 0x80, CHR 0x94] @ '' e.g. the before/after '' @
     ''system state for a command. That evidence is '' @
     ''already enough in most cases; do NOT take a '' @
     ''new action to re-check unless the attached '' @
     ''evidence genuinely does not show the outcome.''"

definition EMPTY_NUDGE :: string where
  "EMPTY_NUDGE =
     ''Your last response had no text and no tool call. '' @
     ''Either call a tool or answer the user'' @ quote @ ''s request in '' @
     ''natural language.''"

datatype 'e step = Finished "'e assistant_error + string" | Continue turn

text \<open>A response without tool calls: the verification gate, the answer, or an empty response.\<close>

definition answer_step ::
  "('w, 'v, 'e) agent_env \<Rightarrow> duration \<Rightarrow> string option \<Rightarrow> turn \<Rightarrow> ('w, 'v) agent \<Rightarrow>
     'e step \<times> ('w, 'v) agent" where
  "answer_step env request_start txt t a =
     (case spoken txt of
        Some reply \<Rightarrow>
          if unverified_mutation t \<and> \<not> verification_gate_used t
          then (Continue (push_message (system_message VERIFY_NUDGE) (t\<lparr>verification_gate_used := True\<rparr>)),
                set_state Verifying a)
          else
            let a = (if unverified_mutation t then emit (AnsweredUnverified (agent_task a)) a else a);
                a = set_state Responding a;
                a = a\<lparr>history := transcript_push (history a) (assistant_text_message reply)
                        (env_estimate env) (available_tokens (budget a))\<rparr>
            in (case elapsed env request_start a of (d, a) \<Rightarrow>
                  (Finished (Inr reply), emit (RequestCompleted (agent_task a) d reply) a))
      | None \<Rightarrow>
          let t = t\<lparr>empty_responses := empty_responses t + 1\<rparr> in
          if MAX_EMPTY_RESPONSES \<le> empty_responses t
          then (case abort_turn env request_start ''empty response'' EmptyResponse a of
                  (e, a) \<Rightarrow> (Finished (Inl e), a))
          else (Continue (push_message (system_message EMPTY_NUDGE) t), a))"

text \<open>One iteration of the main loop of \<open>process_from\<close>.\<close>

definition turn_step ::
  "('w, 'v, 'e) agent_env \<Rightarrow> duration \<Rightarrow> nat \<Rightarrow> turn \<Rightarrow> ('w, 'v) agent \<Rightarrow> 'e step \<times> ('w, 'v) agent" where
  "turn_step env request_start protected_prefix t a =
     (case is_cancelled env a of (c, a) \<Rightarrow>
      if c then (case cancelled env request_start a of (e, a) \<Rightarrow> (Finished (Inl e), a))
      else case fit_to_budget env (messages t) protected_prefix a of (ms, a) \<Rightarrow>
        let t = t\<lparr>messages := ms\<rparr>; a = set_state Thinking a in
        case generate_with_retry env ms request_start 0 a of
          (Inl e, a) \<Rightarrow> (Finished (Inl e), a)
        | (Inr response, a) \<Rightarrow>
            if resp_tool_calls response \<noteq> []
            then (case run_tool_calls env request_start (resp_tool_calls response) t (set_state Executing a) of
                    (Inl e, a) \<Rightarrow> (Finished (Inl e), a)
                  | (Inr t, a) \<Rightarrow> (Continue t, a))
            else answer_step env request_start (resp_text response) t a)"

section \<open>Frame facts of a turn step\<close>

text \<open>
  The events of a turn: those of its task. \<open>turn_event\<close> leaves out the two events that end
  a request, which only the finishing branches emit.
\<close>

definition ends_request :: "event \<Rightarrow> bool" where
  "ends_request e \<longleftrightarrow> (case e of RequestCompleted _ _ _ \<Rightarrow> True | RequestFailed _ _ _ \<Rightarrow> True | _ \<Rightarrow> False)"

definition of_task :: "task_id \<Rightarrow> event \<Rightarrow> bool" where
  "of_task tid e \<longleftrightarrow> event_task e = Some tid"

definition turn_event :: "task_id \<Rightarrow> event \<Rightarrow> bool" where
  "turn_event tid e \<longleftrightarrow> of_task tid e \<and> \<not> ends_request e"

text \<open>The events of a turn outside its tool calls.\<close>

definition is_tool_event :: "event \<Rightarrow> bool" where
  "is_tool_event e \<longleftrightarrow> (case e of ToolStarted _ _ _ _ \<Rightarrow> True
     | ToolCompleted _ _ _ _ _ _ _ _ \<Rightarrow> True | _ \<Rightarrow> False)"

definition quiet :: "task_id \<Rightarrow> event \<Rightarrow> bool" where
  "quiet tid e \<longleftrightarrow> turn_event tid e \<and> \<not> is_tool_event e"

lemma quiet_turn_event: "quiet tid e \<Longrightarrow> turn_event tid e"
  by (simp add: quiet_def)

lemma quiet_llm: "llm_event_of tid e \<Longrightarrow> quiet tid e"
  by (cases e) (auto simp: llm_event_of_def is_llm_event_def quiet_def is_tool_event_def
      turn_event_def of_task_def ends_request_def)

lemma turn_event_intros [simp]:
  "turn_event tid (ToolStarted tid i n x)" "turn_event tid (ToolCompleted tid i n d out k x m)"
  by (simp_all add: turn_event_def of_task_def ends_request_def)

lemma quiet_intros [simp]:
  "quiet tid (StateChanged tid st)" "quiet tid (PlanCreated tid p)"
  "quiet tid (Retrying tid r err)" "quiet tid (Cancelled tid)"
  "quiet tid (BudgetPressure tid bs k)" "quiet tid (TranscriptCompacted tid k)"
  "quiet tid (AnsweredUnverified tid)"
  by (simp_all add: turn_event_def of_task_def ends_request_def quiet_def is_tool_event_def)

lemmas turn_event_quiet [simp] = quiet_intros [THEN quiet_turn_event]

text \<open>
  How a turn that ends with \<open>res\<close> closes its list of events: the events before the
  closing one satisfy \<open>Q\<close>.
\<close>

definition outcome_events ::
  "(event \<Rightarrow> bool) \<Rightarrow> task_id \<Rightarrow> 'e assistant_error + string \<Rightarrow> event list \<Rightarrow> bool" where
  "outcome_events Q tid res evs \<longleftrightarrow> (case res of
      Inr reply \<Rightarrow> (\<exists>pre d. evs = pre @ [RequestCompleted tid d reply] \<and> list_all Q pre)
    | Inl (LlmErr _) \<Rightarrow> list_all Q evs
    | Inl (ToolErr _) \<Rightarrow> list_all Q evs
    | Inl e \<Rightarrow> (\<exists>pre d reason. evs = pre @ [RequestFailed tid d reason] \<and> list_all Q pre))"

definition closes ::
  "(event \<Rightarrow> bool) \<Rightarrow> task_id \<Rightarrow> 'e assistant_error + string \<Rightarrow> ('w, 'v) agent \<Rightarrow> ('w, 'v) agent \<Rightarrow> bool" where
  "closes Q tid res a b \<longleftrightarrow> same_setup a b \<and>
     (\<exists>evs. events b = events a @ evs \<and> outcome_events Q tid res evs)"

lemma outcome_events_prepend:
  "list_all Q pre \<Longrightarrow> outcome_events Q tid res evs \<Longrightarrow> outcome_events Q tid res (pre @ evs)"
  unfolding outcome_events_def
  by (auto split: sum.splits assistant_error.splits)

lemma closes_after: "evolves Q a b \<Longrightarrow> closes Q tid res b c \<Longrightarrow> closes Q tid res a c"
  unfolding evolves_def closes_def
  by (metis append.assoc outcome_events_prepend same_setup_trans)

lemma closes_mono: "closes Q tid res a b \<Longrightarrow> (\<And>e. Q e \<Longrightarrow> R e) \<Longrightarrow> closes R tid res a b"
  unfolding closes_def outcome_events_def
  by (fastforce simp: list_all_iff split: sum.splits assistant_error.splits)

lemma ev_instrumented:
  "instrumented_call_llm env ms ts a = (out, b) \<Longrightarrow> agent_task a = tid \<Longrightarrow> evolves (quiet tid) a b"
  by (auto intro: evolves_mono [OF evolves_instrumented quiet_llm])

lemma ev_generate:
  "generate env ms a = (out, b) \<Longrightarrow> agent_task a = tid \<Longrightarrow> evolves (quiet tid) a b"
  by (simp add: generate_def ev_instrumented)

lemma closes_cancelled:
  assumes "cancelled env s a = (e, b)" and "agent_task a = tid" and "Q (Cancelled tid)"
  shows "e = AssistantCancelled \<and> closes Q tid (Inl AssistantCancelled) a b"
proof -
  obtain d a1 where e: "elapsed env s a = (d, a1)" by fastforce
  then have "evolves (\<lambda>_. False) a a1"
    by (rule evolves_elapsed) simp
  with assms e show ?thesis
    by (force simp: cancelled_def closes_def evolves_def outcome_events_def same_setup_def list_all_iff
        split: prod.splits)
qed

lemma closes_abort:
  assumes "abort_turn env s reason err a = (e, b)" and "agent_task a = tid"
    and "\<And>x. err \<noteq> LlmErr x" "\<And>x. err \<noteq> ToolErr x"
  shows "e = err \<and> closes Q tid (Inl err) a b"
proof -
  obtain d a1 where e: "elapsed env s a = (d, a1)" by fastforce
  then have "evolves (\<lambda>_. False) a a1"
    by (rule evolves_elapsed) simp
  with assms e show ?thesis
    by (cases err) (auto simp: abort_turn_def closes_def evolves_def outcome_events_def same_setup_def
        list_all_iff split: prod.splits)
qed

lemma closes_LlmErr: "evolves Q a b \<Longrightarrow> closes Q tid (Inl (LlmErr e)) a b"
  by (auto simp: closes_def evolves_def outcome_events_def)

lemma closes_ToolErr: "evolves Q a b \<Longrightarrow> closes Q tid (Inl (ToolErr e)) a b"
  by (auto simp: closes_def evolves_def outcome_events_def)

lemma retry_spec:
  assumes "generate_with_retry env ms s attempt a = (res, b)" and "agent_task a = tid"
  shows "case res of Inr r \<Rightarrow> evolves (quiet tid) a b | Inl e \<Rightarrow> closes (quiet tid) tid (Inl e) a b"
  using assms
proof (induction env ms s attempt a arbitrary: res b rule: generate_with_retry.induct)
  case (1 env ms s attempt a)
  obtain out a1 where g: "generate env ms a = (out, a1)" by fastforce
  have a1: "evolves (quiet tid) a a1" and t1: "agent_task a1 = tid"
    using ev_generate [OF g "1.prems"(2)] "1.prems"(2) by (auto dest: evolves_task)
  obtain c a2 where ic: "is_cancelled env a1 = (c, a2)" by fastforce
  have a2: "evolves (quiet tid) a a2" and t2: "agent_task a2 = tid"
    using evolves_is_cancelled [OF ic a1] "1.prems"(2) by (auto dest: evolves_task)
  note unfold = "1.prems"(1) [unfolded generate_with_retry.simps [of env ms s attempt a] g]
  show ?case
  proof (cases out)
    case CallCancelled
    then show ?thesis
      using unfold closes_cancelled [OF _ t1, of _ _ _ _ "quiet tid"] closes_after [OF a1]
      by (fastforce split: prod.splits)
  next
    case (Completed result)
    show ?thesis
    proof (cases result)
      case (Inr r)
      with unfold Completed a1 show ?thesis by auto
    next
      case (Inl err)
      show ?thesis
      proof (cases "\<not> is_retryable err \<or> max_llm_retries (limits a1) \<le> attempt")
        case True
        with unfold Completed Inl a1 show ?thesis by (auto intro: closes_LlmErr)
      next
        case retry: False
        show ?thesis
        proof (cases c)
          case True
          with retry unfold Completed Inl ic show ?thesis
            using closes_cancelled [OF _ t2, of _ _ _ _ "quiet tid"] closes_after [OF a2]
            by (fastforce split: prod.splits)
        next
          case False
          let ?a3 = "let a = emit (Retrying (agent_task a2) (attempt + 1) (show_llm_error err)) a2
               in a\<lparr>world := env_sleep env (retry_delay (limits a) attempt) (world a)\<rparr>"
          have a3: "evolves (quiet tid) a ?a3" and t3: "agent_task ?a3 = tid"
            using t2 a2 by (auto simp: Let_def intro!: evolves_world evolves_emit)
          from retry False unfold Completed Inl ic
          have "generate_with_retry env ms s (attempt + 1) ?a3 = (res, b)" by simp
          then have "case res of Inr r \<Rightarrow> evolves (quiet tid) ?a3 b | Inl e \<Rightarrow> closes (quiet tid) tid (Inl e) ?a3 b"
            using "1.IH" [OF g [symmetric] Completed Inl retry ic [symmetric] False _ t3] by blast
          then show ?thesis
            using a3 by (auto split: sum.splits intro: evolves_trans closes_after)
        qed
      qed
    qed
  qed
qed

lemma ev_build_plan:
  "build_plan env ms tools a = (r, b) \<Longrightarrow> agent_task a = tid \<Longrightarrow> evolves (quiet tid) a b"
  by (auto simp: build_plan_def split: prod.splits llm_call_outcome.splits sum.splits intro: ev_instrumented)

lemma ev_compact:
  "compact env ms p a = (r, b) \<Longrightarrow> agent_task a = tid \<Longrightarrow> evolves (quiet tid) a b"
  by (auto simp: compact_def Let_def intro: ev_instrumented
      split: prod.splits llm_call_outcome.splits sum.splits option.splits if_splits)

lemma ev_pressure:
  "agent_task b = tid \<Longrightarrow> evolves (quiet tid) a b \<Longrightarrow>
    evolves (quiet tid) a (emit_pressure env st n ms b)"
  by (auto simp: emit_pressure_def intro: evolves_emit)

lemma agent_task_pressure [simp]: "agent_task (emit_pressure env st n ms a) = agent_task a"
  "budget (emit_pressure env st n ms a) = budget a"
  by (simp_all add: emit_pressure_def)

lemma ev_fit_to_budget:
  assumes "fit_to_budget env ms p a = (ms', b)" and "agent_task a = tid"
  shows "evolves (quiet tid) a b"
proof -
  let ?av = "available_tokens (budget a)"
  obtain m1 n1 where e1: "evict_images ms p (keep_recent_images (budget a)) = (m1, n1)" by fastforce
  let ?a1 = "emit_pressure env (DroppedImages n1) n1 m1 a"
  obtain m2 n2 where e2: "truncate_long_tool_results m1 p (truncate_head_chars (budget a))
      (truncate_tail_chars (budget a)) = (m2, n2)" by fastforce
  let ?a2 = "emit_pressure env (TruncatedText n2) n2 m2 ?a1"
  obtain m3 c a3 where e3: "compact env m2 p ?a2 = ((m3, c), a3)" by (metis prod.exhaust)
  let ?a4 = "case c of None \<Rightarrow> a3 | Some n \<Rightarrow> emit (TranscriptCompacted (agent_task a3) n) a3"
  obtain m4 n4 where e4: "drop_oldest_until_fits m3 p ?av (env_estimate env) = (m4, n4)" by fastforce
  have a1: "evolves (quiet tid) a ?a1" by (simp add: assms(2) ev_pressure)
  have a2: "evolves (quiet tid) a ?a2" by (simp add: assms(2) ev_pressure a1)
  have a3: "evolves (quiet tid) a a3"
    using a2 ev_compact [OF e3, of tid] assms(2) by (auto intro: evolves_trans)
  then have t3: "agent_task a3 = tid" using assms(2) by (auto dest: evolves_task)
  have a4: "evolves (quiet tid) a ?a4"
    using a3 t3 by (cases c) (auto intro: evolves_emit)
  have t4: "agent_task ?a4 = tid" using t3 by (cases c) auto
  have a5: "evolves (quiet tid) a (emit_pressure env (DroppedTurns n4) n4 m4 ?a4)"
    using t4 a4 by (rule ev_pressure)
  from assms(1) e1 e2 e3 e4 a1 a2 a4 a5 show ?thesis
    by (auto simp: fit_to_budget_def Let_def split: if_splits)
qed

text \<open>What one executed tool call does to the turn's counters.\<close>

definition call_progress :: "loop_limits \<Rightarrow> turn \<Rightarrow> turn \<Rightarrow> bool" where
  "call_progress l t t' \<longleftrightarrow> tool_call_count t' = tool_call_count t + 1 \<and>
     tool_call_count t' < max_tool_calls l \<and> empty_responses t' = 0 \<and>
     verification_gate_used t' = verification_gate_used t \<and>
     identical_repeats t' < max_identical_repeats l \<and>
     consecutive_tool_failures t' < max_consecutive_tool_failures l \<and>
     length (messages t') = length (messages t) + 2 \<and>
     take (length (messages t)) (messages t') = messages t"

lemma note_call_sel [simp]:
  "tool_call_count (note_call tc t) = tool_call_count t" "messages (note_call tc t) = messages t"
  "verification_gate_used (note_call tc t) = verification_gate_used t"
  "consecutive_tool_failures (note_call tc t) = consecutive_tool_failures t"
  "unverified_mutation (note_call tc t) = unverified_mutation t"
  "empty_responses (note_call tc t) = empty_responses t"
  "last_tool_call (note_call tc t) = Some tc"
  by (auto simp: note_call_def)

lemma push_message_sel [simp]:
  "messages (push_message m t) = messages t @ [m]" "tool_call_count (push_message m t) = tool_call_count t"
  "verification_gate_used (push_message m t) = verification_gate_used t"
  "consecutive_tool_failures (push_message m t) = consecutive_tool_failures t"
  "unverified_mutation (push_message m t) = unverified_mutation t"
  "empty_responses (push_message m t) = empty_responses t"
  "last_tool_call (push_message m t) = last_tool_call t"
  "identical_repeats (push_message m t) = identical_repeats t"
  by (simp_all add: push_message_def)

lemma execute_call_spec:
  assumes "execute_call env tc t a = (t', b)" and tid: "agent_task a = tid"
  shows "evolves (turn_event tid) a b \<and> tool_call_count t' = tool_call_count t + 1 \<and>
    empty_responses t' = 0 \<and> verification_gate_used t' = verification_gate_used t \<and>
    identical_repeats t' = identical_repeats t \<and> last_tool_call t' = last_tool_call t \<and>
    (\<exists>m. messages t' = messages t @ [m])"
proof -
  let ?idx = "of_nat (tool_call_count t + 1) :: u32"
  let ?a1 = "emit (ToolStarted (agent_task a) ?idx (tc_name tc) (tc_arguments tc)) a"
  obtain start a2 where e2: "on_world (env_now env) ?a1 = (start, a2)" by fastforce
  obtain dr a3 where e3: "on_world (env_dispatch env tc) a2 = (dr, a3)" by fastforce
  obtain d a4 where e4: "elapsed env start a3 = (d, a4)" by fastforce
  have "evolves (turn_event tid) a ?a1" using tid by (auto intro: evolves_emit)
  then have a4: "evolves (turn_event tid) a a4"
    using evolves_elapsed [OF e4 evolves_on_world [OF e3 evolves_on_world [OF e2]]] by blast
  then have "agent_task a4 = tid" using tid by (auto dest: evolves_task)
  with assms(1) e2 e3 e4 a4 show ?thesis
    by (auto simp: execute_call_def Let_def intro!: evolves_emit)
qed

lemma check_limits_spec:
  assumes "check_limits env s t a = (res, b)" and "agent_task a = tid"
  shows "case res of
      Inr t' \<Rightarrow> t' = t \<and> b = a \<and> tool_call_count t < max_tool_calls (limits a) \<and>
        consecutive_tool_failures t < max_consecutive_tool_failures (limits a)
    | Inl e \<Rightarrow> closes (turn_event tid) tid (Inl e) a b"
  using assms by (auto simp: check_limits_def Let_def split: if_splits prod.splits dest!: closes_abort)

lemma run_tool_call_spec:
  assumes "run_tool_call env s tc t a = (res, b)" and tid: "agent_task a = tid"
  shows "case res of Inr t' \<Rightarrow> evolves (turn_event tid) a b \<and> call_progress (limits a) t t'
                   | Inl e \<Rightarrow> closes (turn_event tid) tid (Inl e) a b"
proof -
  let ?t = "note_call tc (push_message (assistant_tool_call_message tc) t)"
  show ?thesis
  proof (cases "max_identical_repeats (limits a) \<le> identical_repeats ?t")
    case True
    with assms show ?thesis
      by (auto simp: run_tool_call_def Let_def split: prod.splits dest!: closes_abort)
  next
    case False
    obtain t1 a1 where e: "execute_call env tc ?t a = (t1, a1)" by fastforce
    note s1 = execute_call_spec [OF e tid]
    then have "agent_task a1 = tid" "limits a1 = limits a"
      using tid by (auto dest: evolves_task evolves_limits)
    with assms(1) False e have "check_limits env s t1 a1 = (res, b)"
      by (simp add: run_tool_call_def Let_def)
    from check_limits_spec [OF this \<open>agent_task a1 = tid\<close>] s1 False \<open>limits a1 = limits a\<close> show ?thesis
      by (auto simp: call_progress_def split: sum.splits intro: closes_after)
  qed
qed

lemma run_tool_calls_spec:
  assumes "run_tool_calls env s tcs t a = (res, b)" and "agent_task a = tid"
  shows "case res of
      Inr t' \<Rightarrow> evolves (turn_event tid) a b \<and> tool_call_count t' = tool_call_count t + length tcs \<and>
        verification_gate_used t' = verification_gate_used t \<and>
        (tcs \<noteq> [] \<longrightarrow> tool_call_count t' < max_tool_calls (limits a) \<and> empty_responses t' = 0)
    | Inl e \<Rightarrow> closes (turn_event tid) tid (Inl e) a b"
  using assms
proof (induction tcs arbitrary: t a)
  case (Cons tc tcs)
  obtain c a1 where ic: "is_cancelled env a = (c, a1)" by fastforce
  have a1: "evolves (turn_event tid) a a1"
    using evolves_is_cancelled [OF ic] by blast
  then have t1: "agent_task a1 = tid" and l1: "limits a1 = limits a"
    using Cons.prems(2) by (auto dest: evolves_task evolves_limits)
  show ?case
  proof (cases c)
    case True
    with Cons.prems ic show ?thesis
      using closes_cancelled [OF _ t1, of _ _ _ _ "turn_event tid"] closes_after [OF a1] by (fastforce split: prod.splits)
  next
    case False
    obtain r a2 where rc: "run_tool_call env s tc t a1 = (r, a2)" by fastforce
    note spec = run_tool_call_spec [OF rc t1]
    show ?thesis
    proof (cases r)
      case (Inl e)
      with spec Cons.prems False ic rc a1 show ?thesis
        by (auto intro: closes_after)
    next
      case (Inr t2)
      with spec have a2: "evolves (turn_event tid) a1 a2" and p: "call_progress (limits a1) t t2" by auto
      then have t2: "agent_task a2 = tid" and l2: "limits a2 = limits a"
        using t1 l1 by (auto dest: evolves_task evolves_limits)
      from Cons.prems False ic rc Inr have rest: "run_tool_calls env s tcs t2 a2 = (res, b)" by simp
      have a12: "evolves (turn_event tid) a a2" using a1 a2 by (rule evolves_trans)
      show ?thesis
      proof (cases "tcs = []")
        case True
        with rest p l1 a12 show ?thesis by (auto simp: call_progress_def)
      next
        case more: False
        show ?thesis
        proof (cases res)
          case (Inl e)
          with Cons.IH [OF rest t2] a12 show ?thesis by (auto intro: closes_after)
        next
          case (Inr t3)
          with Cons.IH [OF rest t2] a12 p l2 more show ?thesis
            by (auto simp: call_progress_def intro: evolves_trans)
        qed
      qed
    qed
  qed
qed auto

text \<open>The measure of the turn: lexicographic in these three numbers.\<close>

definition turn_rank :: "loop_limits \<Rightarrow> turn \<Rightarrow> nat \<times> nat \<times> nat" where
  "turn_rank l t = (max_tool_calls l - tool_call_count t,
     (if verification_gate_used t then 0 else 1), MAX_EMPTY_RESPONSES - empty_responses t)"

definition rank_less :: "((nat \<times> nat \<times> nat) \<times> (nat \<times> nat \<times> nat)) set" where
  "rank_less = less_than <*lex*> less_than <*lex*> less_than"

lemma wf_rank_less: "wf rank_less"
  by (simp add: rank_less_def wf_lex_prod)

lemma answer_step_spec:
  assumes "answer_step env s txt t a = (st, b)" and tid: "agent_task a = tid"
  shows "case st of
      Continue t' \<Rightarrow> evolves (turn_event tid) a b \<and> (turn_rank (limits a) t', turn_rank (limits a) t) \<in> rank_less
    | Finished res \<Rightarrow> closes (turn_event tid) tid res a b"
proof (cases "spoken txt")
  case None
  with assms show ?thesis
    by (auto simp: answer_step_def Let_def turn_rank_def rank_less_def
        split: if_splits prod.splits dest!: closes_abort)
next
  case (Some reply)
  show ?thesis
  proof (cases "unverified_mutation t \<and> \<not> verification_gate_used t")
    case True
    with assms Some show ?thesis
      by (auto simp: answer_step_def turn_rank_def rank_less_def set_state_def intro!: evolves_emit)
  next
    case False
    let ?a1 = "if unverified_mutation t then emit (AnsweredUnverified (agent_task a)) a else a"
    let ?a2 = "(set_state Responding ?a1)\<lparr>history := transcript_push (history a)
        (assistant_text_message reply) (env_estimate env) (available_tokens (budget a))\<rparr>"
    obtain d a3 where e: "elapsed env s ?a2 = (d, a3)" by fastforce
    have "evolves (\<lambda>_. False) ?a2 a3" using e by (rule evolves_elapsed) simp
    then have a3: "same_setup ?a2 a3" "events a3 = events ?a2"
      by (auto simp: evolves_def list_all_iff)
    have "closes (turn_event tid) tid (Inr reply) a (emit (RequestCompleted (agent_task a3) d reply) a3)"
      using a3 tid by (auto simp: closes_def same_setup_def outcome_events_def)
    moreover have "st = Finished (Inr reply)" "b = emit (RequestCompleted (agent_task a3) d reply) a3"
      using assms(1) Some False e by (auto simp: answer_step_def Let_def split: if_splits)
    ultimately show ?thesis by simp
  qed
qed

lemma turn_step_spec:
  assumes "turn_step env s p t a = (st, b)" and tid: "agent_task a = tid"
  shows "case st of
      Continue t' \<Rightarrow> evolves (turn_event tid) a b \<and> (turn_rank (limits a) t', turn_rank (limits a) t) \<in> rank_less
    | Finished res \<Rightarrow> closes (turn_event tid) tid res a b"
proof -
  obtain c a1 where ic: "is_cancelled env a = (c, a1)" by fastforce
  have a1: "evolves (turn_event tid) a a1" using evolves_is_cancelled [OF ic] by blast
  then have t1: "agent_task a1 = tid" using tid by (auto dest: evolves_task)
  show ?thesis
  proof (cases c)
    case True
    with assms ic show ?thesis
      using closes_cancelled [OF _ t1, of _ _ _ _ "turn_event tid"] closes_after [OF a1]
      by (fastforce simp: turn_step_def split: prod.splits)
  next
    case False
    obtain ms a2 where fb: "fit_to_budget env (messages t) p a1 = (ms, a2)" by fastforce
    let ?t = "t\<lparr>messages := ms\<rparr>" and ?a3 = "set_state Thinking a2"
    have "evolves (turn_event tid) a1 a2"
      using evolves_mono [OF ev_fit_to_budget [OF fb t1] quiet_turn_event] .
    then have a2: "evolves (turn_event tid) a a2" using a1 by (auto intro: evolves_trans)
    then have t2: "agent_task a2 = tid" using tid by (auto dest: evolves_task)
    with a2 have a3: "evolves (turn_event tid) a ?a3"
      by (simp add: set_state_def evolves_emit)
    have t3: "agent_task ?a3 = tid" using t2 by simp
    obtain r a4 where gr: "generate_with_retry env ms s 0 ?a3 = (r, a4)" by fastforce
    have spec: "case r of Inr x \<Rightarrow> evolves (turn_event tid) ?a3 a4
        | Inl e \<Rightarrow> closes (turn_event tid) tid (Inl e) ?a3 a4"
      using retry_spec [OF gr t3]
      by (auto split: sum.splits intro: evolves_mono closes_mono quiet_turn_event)
    show ?thesis
    proof (cases r)
      case (Inl e)
      with spec have "closes (turn_event tid) tid (Inl e) a a4" using a3 by (auto intro: closes_after)
      with Inl assms ic False fb gr show ?thesis
        by (auto simp: turn_step_def Let_def)
    next
      case (Inr response)
      with spec have a4: "evolves (turn_event tid) a a4" using a3 by (auto intro: evolves_trans)
      then have t4: "agent_task a4 = tid" and l4: "limits a4 = limits a"
        using tid by (auto dest: evolves_task evolves_limits)
      show ?thesis
      proof (cases "resp_tool_calls response = []")
        case True
        with assms ic False fb gr Inr have "answer_step env s (resp_text response) ?t a4 = (st, b)"
          by (simp add: turn_step_def Let_def)
        from answer_step_spec [OF this t4] a4 l4 show ?thesis
          by (auto split: step.splits simp: turn_rank_def intro: evolves_trans closes_after)
      next
        case calls: False
        let ?a5 = "set_state Executing a4"
        have a5: "evolves (turn_event tid) a ?a5" and t5: "agent_task ?a5 = tid"
          using a4 t4 by (auto simp: set_state_def intro: evolves_emit)
        obtain rr a6 where rc: "run_tool_calls env s (resp_tool_calls response) ?t ?a5 = (rr, a6)"
          by fastforce
        note rcs = run_tool_calls_spec [OF rc t5]
        from assms ic False fb gr Inr calls rc have st:
          "(st, b) = (case rr of Inl e \<Rightarrow> (Finished (Inl e), a6) | Inr t \<Rightarrow> (Continue t, a6))"
          by (auto simp: turn_step_def Let_def split: sum.splits)
        obtain tc tcs where "resp_tool_calls response = tc # tcs"
          using calls by (cases "resp_tool_calls response") auto
        with st rcs a5 l4 show ?thesis
          by (cases rr) (auto simp: turn_rank_def rank_less_def intro: evolves_trans closes_after)
      qed
    qed
  qed
qed

section \<open>The loop and the request\<close>

function process_loop ::
  "('w, 'v, 'e) agent_env \<Rightarrow> duration \<Rightarrow> nat \<Rightarrow> turn \<Rightarrow> ('w, 'v) agent \<Rightarrow>
     ('e assistant_error + string) \<times> ('w, 'v) agent" where
  "process_loop env request_start protected_prefix t a =
     (case turn_step env request_start protected_prefix t a of
        (Finished res, a) \<Rightarrow> (res, a)
      | (Continue t, a) \<Rightarrow> process_loop env request_start protected_prefix t a)"
  by pat_completeness auto

lemma turn_step_rank:
  assumes "(Continue t', b) = turn_step env s p t a"
  shows "limits b = limits a \<and> (turn_rank (limits a) t', turn_rank (limits a) t) \<in> rank_less"
  using turn_step_spec [OF assms [symmetric] refl] by (auto dest: evolves_limits)

termination process_loop
  by (relation "inv_image rank_less (\<lambda>(env, s, p, t, a). turn_rank (limits a) t)")
    (auto simp: wf_rank_less dest!: turn_step_rank)

declare process_loop.simps [simp del]

definition process_from ::
  "('w, 'v, 'e) agent_env \<Rightarrow> string \<Rightarrow> request_source \<Rightarrow> ('w, 'v) agent \<Rightarrow>
     ('e assistant_error + string) \<times> ('w, 'v) agent" where
  "process_from env input source a =
     (case on_world (env_now env) a of (request_start, a) \<Rightarrow>
      case on_world (env_task_id env) a of (tid, a) \<Rightarrow>
      let a = a\<lparr>current_task := task_state_new tid\<rparr>;
          a = emit (RequestStarted (agent_task a) input source) a;
          a = set_state Receiving a;
          a = a\<lparr>history := transcript_push (history a) (user_message input)
                  (env_estimate env) (available_tokens (budget a))\<rparr>
      in case build_prompt_messages env a of
          (Inl e, a) \<Rightarrow> (Inl e, a)
        | (Inr ms, a) \<Rightarrow>
            (case on_world (env_device_tools env) a of (devices, a) \<Rightarrow>
             let a = a\<lparr>registry := set_device_tools (registry a) devices\<rparr>;
                 tools = definitions (registry a)
             in case (if planning_enabled a
                      then (case build_plan env ms tools (set_state Planning a) of
                              (Some plan, a) \<Rightarrow>
                                (ms @ [assistant_text_message (''Plan:'' @ nl @ plan)],
                                 emit (PlanCreated (agent_task a) plan) a)
                            | (None, a) \<Rightarrow> (ms, a))
                      else (ms, a)) of (ms, a) \<Rightarrow>
                process_loop env request_start (length ms) (turn_new ms) a))"

definition process_input ::
  "('w, 'v, 'e) agent_env \<Rightarrow> string \<Rightarrow> ('w, 'v) agent \<Rightarrow>
     ('e assistant_error + string) \<times> ('w, 'v) agent" where
  "process_input env input a = process_from env input Cli a"

text \<open>\<open>AutonomousAgent::respond_to\<close> for an assistant.\<close>

definition respond_to ::
  "('w, 'v, 'e) agent_env \<Rightarrow> string \<Rightarrow> ('w, 'v) agent \<Rightarrow> (string + string) \<times> ('w, 'v) agent" where
  "respond_to env prompt a =
     (case process_from env prompt Autonomous a of (res, a) \<Rightarrow>
        (map_err (show_assistant_error (env_show_error env)) res, a))"

end
