(* ===== verification/Agent_Props.thy ===== *)
theory Agent_Props
  imports Agent_Turn
begin

text \<open>
  What a request to the agent guarantees: the discipline of its events, the bounds on tool
  calls and model calls, the loop detector and the prompt's
  protected prefix. Every statement is about \<open>process_from\<close> for an arbitrary environment.
\<close>

section \<open>The discipline of a request's events\<close>

lemma process_loop_closes:
  "process_loop env s p t a = (res, b) \<Longrightarrow> agent_task a = tid \<Longrightarrow> closes (turn_event tid) tid res a b"
proof (induction env s p t a arbitrary: res b rule: process_loop.induct)
  case (1 env s p t a)
  obtain st a1 where st: "turn_step env s p t a = (st, a1)" by fastforce
  note spec = turn_step_spec [OF st "1.prems"(2)]
  show ?case
  proof (cases st)
    case (Finished r)
    with spec st "1.prems" show ?thesis by (simp add: process_loop.simps [of env s p t a])
  next
    case (Continue t')
    with spec have ev: "evolves (turn_event tid) a a1" by simp
    then have "agent_task a1 = tid" using "1.prems"(2) by (auto dest: evolves_task)
    moreover have "process_loop env s p t' a1 = (res, b)"
      using "1.prems"(1) st Continue by (simp add: process_loop.simps [of env s p t a])
    ultimately have "closes (turn_event tid) tid res a1 b"
      using "1.IH" [OF st [symmetric] Continue] by blast
    with ev show ?thesis by (rule closes_after)
  qed
qed

text \<open>
  The part of a request before its loop: what \<open>process_from\<close> hands to \<open>process_loop\<close>, or the
  error of the context.
\<close>

definition prepare ::
  "('w, 'v, 'e) agent_env \<Rightarrow> string \<Rightarrow> request_source \<Rightarrow> ('w, 'v) agent \<Rightarrow>
     (duration \<times> task_id) \<times> ('e assistant_error + message list) \<times> ('w, 'v) agent" where
  "prepare env input source a =
     (case on_world (env_now env) a of (request_start, a) \<Rightarrow>
      case on_world (env_task_id env) a of (tid, a) \<Rightarrow>
      let a = a\<lparr>current_task := task_state_new tid\<rparr>;
          a = emit (RequestStarted (agent_task a) input source) a;
          a = set_state Receiving a;
          a = a\<lparr>history := transcript_push (history a) (user_message input)
                  (env_estimate env) (available_tokens (budget a))\<rparr>
      in ((request_start, tid),
          case build_prompt_messages env a of
            (Inl e, a) \<Rightarrow> (Inl e, a)
          | (Inr ms, a) \<Rightarrow>
            (case on_world (env_device_tools env) a of (devices, a) \<Rightarrow>
             let a = a\<lparr>registry := set_device_tools (registry a) devices\<rparr>;
                 tools = definitions (registry a)
             in if planning_enabled a
                then (case build_plan env ms tools (set_state Planning a) of
                        (Some plan, a) \<Rightarrow>
                          (Inr (ms @ [assistant_text_message (''Plan:'' @ nl @ plan)]),
                           emit (PlanCreated (agent_task a) plan) a)
                      | (None, a) \<Rightarrow> (Inr ms, a))
                else (Inr ms, a))))"

lemma process_from_prepare:
  "process_from env input source a =
     (case prepare env input source a of ((s, tid), r, a) \<Rightarrow>
        case r of Inl e \<Rightarrow> (Inl e, a) | Inr ms \<Rightarrow> process_loop env s (length ms) (turn_new ms) a)"
  by (simp add: process_from_def prepare_def Let_def split: prod.splits sum.splits option.splits)

text \<open>\<open>starts tid input src P a b\<close>: the request's first event, then events of kind \<open>P\<close>.\<close>

definition starts ::
  "task_id \<Rightarrow> string \<Rightarrow> request_source \<Rightarrow> (event \<Rightarrow> bool) \<Rightarrow> ('w, 'v) agent \<Rightarrow> ('w, 'v) agent \<Rightarrow> bool" where
  "starts tid input src P a b \<longleftrightarrow> agent_task b = tid \<and> limits b = limits a \<and> budget b = budget a \<and>
     (\<exists>evs. events b = events a @ RequestStarted tid input src # evs \<and> list_all P evs)"

lemma starts_evolves: "starts tid input src P a b \<Longrightarrow> evolves P b c \<Longrightarrow> starts tid input src P a c"
  by (auto simp: starts_def evolves_def same_setup_def)

lemma starts_registry: "starts tid input src P a b \<Longrightarrow> starts tid input src P a (b\<lparr>registry := r\<rparr>)"
  by (simp add: starts_def)

lemma starts_emit: "starts tid input src P a b \<Longrightarrow> P e \<Longrightarrow> starts tid input src P a (emit e b)"
  by (auto simp: starts_def)

lemma evolves_build_prompt:
  "build_prompt_messages env b = (r, c) \<Longrightarrow> evolves P a b \<Longrightarrow>
    evolves P a c \<and> (\<forall>e. r = Inl e \<longrightarrow> (\<exists>x. e = ToolErr x))"
  by (auto simp: build_prompt_messages_def intro: evolves_on_world split: prod.splits sum.splits)

lemma prepare_spec:
  assumes "prepare env input source a = ((s, tid), r, b)"
  shows "starts tid input source (quiet tid) a b \<and> (\<forall>e. r = Inl e \<longrightarrow> (\<exists>x. e = ToolErr x))"
proof -
  obtain s' a1 where e1: "on_world (env_now env) a = (s', a1)" by fastforce
  obtain tid' a2 where e2: "on_world (env_task_id env) a1 = (tid', a2)" by fastforce
  have a2: "evolves (\<lambda>_. False) a a2"
    using evolves_on_world [OF e2 evolves_on_world [OF e1 evolves_refl]] .
  let ?a3 = "emit (RequestStarted tid' input source) (a2\<lparr>current_task := task_state_new tid'\<rparr>)"
  let ?a4 = "(set_state Receiving ?a3)\<lparr>history := transcript_push (history a2) (user_message input)
                  (env_estimate env) (available_tokens (budget a2))\<rparr>"
  have [simp]: "agent_task (a2\<lparr>current_task := task_state_new tid'\<rparr>) = tid'"
    by (simp add: agent_task_def task_state_new_def)
  have a4: "starts tid' input source (quiet tid') a ?a4"
    using a2 by (simp add: starts_def evolves_def same_setup_def list_all_iff)
  obtain r5 a5 where e5: "build_prompt_messages env ?a4 = (r5, a5)" by fastforce
  have a5: "starts tid' input source (quiet tid') a a5"
    and r5: "\<forall>e. r5 = Inl e \<longrightarrow> (\<exists>x. e = ToolErr x)"
    using evolves_build_prompt [OF e5 evolves_refl] starts_evolves [OF a4] by auto
  obtain ds a6 where e6: "on_world (env_device_tools env) a5 = (ds, a6)" by fastforce
  let ?a7 = "a6\<lparr>registry := set_device_tools (registry a6) ds\<rparr>"
  have a7: "starts tid' input source (quiet tid') a ?a7"
    using starts_evolves [OF a5 evolves_on_world [OF e6 evolves_refl]] by (rule starts_registry)
  then have t7: "agent_task ?a7 = tid'" by (simp add: starts_def)
  obtain pl a8 where e8: "\<And>ms. r5 = Inr ms \<Longrightarrow>
      build_plan env ms (definitions (registry ?a7)) (set_state Planning ?a7) = (pl, a8)"
    by (cases r5) fastforce+
  have a8: "starts tid' input source (quiet tid') a a8" if "r5 = Inr ms" for ms
  proof -
    have "starts tid' input source (quiet tid') a (set_state Planning ?a7)"
      unfolding set_state_def using a7 t7 by (intro starts_emit) auto
    moreover have "evolves (quiet tid') (set_state Planning ?a7) a8"
      using ev_build_plan [OF e8 [OF that]] t7 by simp
    ultimately show ?thesis by (rule starts_evolves)
  qed
  have plan: "starts tid' input source (quiet tid') a (emit (PlanCreated (agent_task a8) x) a8)"
    if "r5 = Inr ms" for ms x
    using a8 [OF that] by (auto simp: starts_def)
  show ?thesis
  proof (cases r5)
    case (Inl e)
    with assms e1 e2 e5 a5 r5 show ?thesis by (auto simp: prepare_def Let_def)
  next
    case (Inr ms)
    with assms e1 e2 e5 e6 e8 [OF Inr] a7 a8 [OF Inr] plan [OF Inr] show ?thesis
      by (auto simp: prepare_def Let_def split: if_splits option.splits)
  qed
qed

text \<open>What a request appends to the events, by its result.\<close>

lemma process_from_outcome:
  "case process_from env input source a of (res, b) \<Rightarrow>
     \<exists>tid rest. events b = events a @ RequestStarted tid input source # rest \<and>
       outcome_events (turn_event tid) tid res rest"
proof -
  obtain s tid r a1 where p: "prepare env input source a = ((s, tid), r, a1)"
    by (metis prod.exhaust)
  note spec = prepare_spec [OF p]
  then obtain evs where evs: "events a1 = events a @ RequestStarted tid input source # evs"
      "list_all (turn_event tid) evs" and t1: "agent_task a1 = tid"
    by (auto simp: starts_def list_all_iff quiet_turn_event)
  show ?thesis
  proof (cases r)
    case (Inl e)
    with spec obtain x where "e = ToolErr x" by auto
    with Inl p evs show ?thesis
      by (auto simp: process_from_prepare outcome_events_def)
  next
    case (Inr ms)
    obtain res b where l: "process_loop env s (length ms) (turn_new ms) a1 = (res, b)" by fastforce
    from process_loop_closes [OF l t1] obtain evs' where
      "events b = events a1 @ evs'" "outcome_events (turn_event tid) tid res evs'"
      by (auto simp: closes_def)
    with Inr p l evs show ?thesis
      by (auto simp: process_from_prepare intro: outcome_events_prepend)
  qed
qed

text \<open>
  C4. Every event of a request belongs to its task and comes after its
  \<open>RequestStarted\<close>. A request that answers ends with exactly one \<open>RequestCompleted\<close>
  carrying the reply; one that is cancelled, loops, runs out of tool calls or gets only
  empty responses ends with exactly one \<open>RequestFailed\<close>; one that fails because a model call
  failed for good or because the computer context is not available emits neither.
\<close>

theorem process_from_events:
  "case process_from env input source a of (res, b) \<Rightarrow>
     \<exists>tid rest. events b = events a @ RequestStarted tid input source # rest \<and>
       outcome_events (turn_event tid) tid res rest"
  by (rule process_from_outcome)

section \<open>The tool calls of a request\<close>

definition tool_events :: "event list \<Rightarrow> event list" where
  "tool_events evs = filter is_tool_event evs"

lemma tool_events_append [simp]: "tool_events (xs @ ys) = tool_events xs @ tool_events ys"
  by (simp add: tool_events_def)

text \<open>
  \<open>paired tid i evs\<close>: the tool events come in pairs of a start and a completion of the same
  call, with the task's identifier and the indices \<open>i + 1, i + 2, \<dots>\<close>; the result is
  the index reached.
\<close>

fun paired :: "task_id \<Rightarrow> nat \<Rightarrow> event list \<Rightarrow> nat option" where
  "paired tid i [] = Some i"
| "paired tid i (ToolStarted t x n args # ToolCompleted t' x' n' d out k args' m # rest) =
     (if t = tid \<and> t' = tid \<and> x = of_nat (i + 1) \<and> x' = x \<and> n' = n \<and> args' = args
      then paired tid (i + 1) rest else None)"
| "paired tid i _ = None"

lemma paired_append: "paired tid i xs = Some j \<Longrightarrow> paired tid i (xs @ ys) = paired tid j ys"
  by (induction tid i xs rule: paired.induct) (auto split: if_splits)

text \<open>The calls that were dispatched, and whether the last one changed something.\<close>

fun call_of :: "event \<Rightarrow> tool_call option" where
  "call_of (ToolStarted _ _ n args) = Some \<lparr>tc_name = n, tc_arguments = args\<rparr>"
| "call_of _ = None"

definition dispatched_calls :: "event list \<Rightarrow> tool_call list" where
  "dispatched_calls evs = List.map_filter call_of evs"

fun mutated_of :: "event \<Rightarrow> bool option" where
  "mutated_of (ToolCompleted _ _ _ _ _ _ _ m) = Some m"
| "mutated_of _ = None"

definition last_mutated :: "event list \<Rightarrow> bool" where
  "last_mutated evs \<longleftrightarrow>
     (let ms = List.map_filter mutated_of evs in ms \<noteq> [] \<and> last ms)"

lemma dispatched_calls_append [simp]:
  "dispatched_calls (xs @ ys) = dispatched_calls xs @ dispatched_calls ys"
  by (simp add: dispatched_calls_def map_filter_def)

lemma tool_events_quiet: "list_all (quiet tid) evs \<Longrightarrow> tool_events evs = []"
  by (auto simp: tool_events_def quiet_def list_all_iff filter_empty_conv)

lemma call_of_tool: "\<not> is_tool_event e \<Longrightarrow> call_of e = None \<and> mutated_of e = None"
  by (cases e) (auto simp: is_tool_event_def)

lemma map_filter_tool:
  "List.map_filter call_of (tool_events evs) = List.map_filter call_of evs"
  "List.map_filter mutated_of (tool_events evs) = List.map_filter mutated_of evs"
  by (induction evs) (auto simp: tool_events_def map_filter_simps call_of_tool split: option.splits)

lemma dispatched_calls_tool: "dispatched_calls (tool_events evs) = dispatched_calls evs"
  by (simp add: dispatched_calls_def map_filter_tool)

lemma last_mutated_tool: "last_mutated (tool_events evs) = last_mutated evs"
  by (simp add: last_mutated_def map_filter_tool)

text \<open>
  No call is dispatched \<open>k\<close> times in a row: the sequence has no run of \<open>k\<close> equal
  elements.
\<close>

definition no_run :: "nat \<Rightarrow> 'a list \<Rightarrow> bool" where
  "no_run k xs \<longleftrightarrow> \<not> (\<exists>pre x post. xs = pre @ replicate k x @ post)"

lemma no_run_prefix: "no_run k (xs @ ys) \<Longrightarrow> no_run k xs"
  unfolding no_run_def by (metis append.assoc)

lemma replicate_suffix:
  assumes "pre @ replicate k x = ys @ replicate r y" and "0 < k" and "0 < r"
    and "ys = [] \<or> last ys \<noteq> y"
  shows "x = y \<and> k \<le> r"
proof -
  have "last (pre @ replicate k x) = last (ys @ replicate r y)" using assms(1) by simp
  then have xy: "x = y" using assms(2,3) by (simp add: last_append)
  have "k \<le> r"
  proof (rule ccontr)
    assume "\<not> k \<le> r"
    then have "replicate k x = replicate (k - r) y @ replicate r y"
      using xy by (simp add: replicate_add [symmetric])
    with assms(1) have "ys = pre @ replicate (k - r) y" by (metis append.assoc append_same_eq)
    with \<open>\<not> k \<le> r\<close> assms(4) show False by (auto simp: last_append)
  qed
  with xy show ?thesis by simp
qed

text \<open>
  The loop detector's bookkeeping for the dispatched calls \<open>xs\<close>: the counter is the length
  of the run of equal calls at the end.
\<close>

definition run_inv :: "nat \<Rightarrow> tool_call list \<Rightarrow> tool_call option \<Rightarrow> nat \<Rightarrow> bool" where
  "run_inv k xs prev r \<longleftrightarrow> no_run (max 1 k) xs \<and> (case prev of
      None \<Rightarrow> xs = [] \<and> r = 0
    | Some tc \<Rightarrow> 0 < r \<and> r < k \<and> (\<exists>ys. xs = ys @ replicate r tc \<and> (ys = [] \<or> last ys \<noteq> tc)))"

lemma run_inv_step:
  assumes "run_inv k xs prev r" and "r' = (if prev = Some tc then r + 1 else 1)" and "r' < k"
  shows "run_inv k (xs @ [tc]) (Some tc) r'"
proof -
  have suffix: "\<exists>ys. xs @ [tc] = ys @ replicate r' tc \<and> (ys = [] \<or> last ys \<noteq> tc)"
  proof (cases "prev = Some tc")
    case True
    with assms obtain ys where "xs = ys @ replicate r tc" "ys = [] \<or> last ys \<noteq> tc"
      by (auto simp: run_inv_def)
    with True assms(2) show ?thesis
      by (intro exI [of _ ys]) (simp add: replicate_append_same)
  next
    case False
    have "xs = [] \<or> last xs \<noteq> tc"
      using assms(1) False by (auto simp: run_inv_def last_append split: option.splits)
    with False assms(2) show ?thesis by (intro exI [of _ xs]) simp
  qed
  then obtain ys where ys: "xs @ [tc] = ys @ replicate r' tc" "ys = [] \<or> last ys \<noteq> tc" by blast
  have r': "0 < r'" using assms(2) by (simp split: if_splits)
  have "no_run (max 1 k) (xs @ [tc])"
    unfolding no_run_def
  proof (rule notI, elim exE)
    fix pre x post assume eq: "xs @ [tc] = pre @ replicate (max 1 k) x @ post"
    show False
    proof (cases post rule: rev_cases)
      case Nil
      with eq ys(1) have "pre @ replicate (max 1 k) x = ys @ replicate r' tc" by simp
      from replicate_suffix [OF this _ r' ys(2)] have "max 1 k \<le> r'" by simp
      with assms(3) show False by simp
    next
      case (snoc post' z)
      with eq have "xs = pre @ replicate (max 1 k) x @ post'" by simp
      with assms(1) show False by (auto simp: run_inv_def no_run_def)
    qed
  qed
  with r' assms(3) suffix show ?thesis by (simp add: run_inv_def)
qed

text \<open>
  The state of a turn against the tool events \<open>evs\<close> of its request so far, and what those
  events satisfy however the turn ends. \<open>B\<close> bounds the calls, \<open>k\<close> is the limit of the
  loop detector.
\<close>

definition trace_ok :: "task_id \<Rightarrow> loop_limits \<Rightarrow> event list \<Rightarrow> bool" where
  "trace_ok tid l evs \<longleftrightarrow> (\<exists>n. paired tid 0 evs = Some n \<and> n \<le> max 1 (max_tool_calls l)) \<and>
     no_run (max 1 (max_identical_repeats l)) (dispatched_calls evs)"

definition turn_inv :: "task_id \<Rightarrow> loop_limits \<Rightarrow> event list \<Rightarrow> turn \<Rightarrow> bool" where
  "turn_inv tid l evs t \<longleftrightarrow> paired tid 0 evs = Some (tool_call_count t) \<and>
     (tool_call_count t = 0 \<or> tool_call_count t < max_tool_calls l) \<and>
     run_inv (max_identical_repeats l) (dispatched_calls evs) (last_tool_call t) (identical_repeats t) \<and>
     unverified_mutation t = last_mutated evs"

lemma turn_inv_trace_ok: "turn_inv tid l evs t \<Longrightarrow> trace_ok tid l evs"
  by (auto simp: turn_inv_def trace_ok_def run_inv_def)

lemma turn_inv_new: "turn_inv tid l [] (turn_new ms)"
  by (simp add: turn_inv_def turn_new_def run_inv_def no_run_def dispatched_calls_def
      last_mutated_def map_filter_simps)

text \<open>The tool events after the prefix \<open>pre\<close> of the event list satisfy \<open>P\<close>.\<close>

definition tracks :: "event list \<Rightarrow> ('w, 'v) agent \<Rightarrow> (event list \<Rightarrow> bool) \<Rightarrow> bool" where
  "tracks pre a P \<longleftrightarrow> (\<exists>evs. events a = pre @ evs \<and> P (tool_events evs))"

lemma tracks_mono: "tracks pre a P \<Longrightarrow> (\<And>evs. P evs \<Longrightarrow> Q evs) \<Longrightarrow> tracks pre a Q"
  by (auto simp: tracks_def)

lemma tracks_trace_ok: "tracks pre a (\<lambda>evs. turn_inv tid l evs t) \<Longrightarrow> tracks pre a (trace_ok tid l)"
  by (auto simp: tracks_def intro: turn_inv_trace_ok)

lemma tracks_quiet: "tracks pre a P \<Longrightarrow> evolves (quiet tid) a b \<Longrightarrow> tracks pre b P"
  unfolding tracks_def evolves_def
  by (metis append.assoc append.right_neutral tool_events_append tool_events_quiet)

lemma tool_events_outcome: "outcome_events (quiet tid) tid res evs \<Longrightarrow> tool_events evs = []"
  by (auto simp: outcome_events_def tool_events_quiet split: sum.splits assistant_error.splits)
    (simp_all add: tool_events_def is_tool_event_def)

lemma tracks_closes: "tracks pre a P \<Longrightarrow> closes (quiet tid) tid res a b \<Longrightarrow> tracks pre b P"
  unfolding tracks_def closes_def
  by (metis append.assoc append.right_neutral tool_events_append tool_events_outcome)

lemma tracks_events: "events b = events a \<Longrightarrow> tracks pre b P = tracks pre a P"
  by (simp add: tracks_def)

lemma events_on_world: "on_world f a = (x, b) \<Longrightarrow> events b = events a \<and> agent_task b = agent_task a"
  by (auto simp: on_world_def split: prod.splits)

lemma events_elapsed: "elapsed env s a = (x, b) \<Longrightarrow> events b = events a \<and> agent_task b = agent_task a"
  by (auto simp: elapsed_def dest!: events_on_world split: prod.splits)

lemma execute_call_trace:
  assumes "execute_call env tc t a = (t', b)" and "agent_task a = tid"
  shows "\<exists>d (out :: tool_outcome). events b = events a @
      [ToolStarted tid (of_nat (tool_call_count t + 1)) (tc_name tc) (tc_arguments tc),
       ToolCompleted tid (of_nat (tool_call_count t + 1)) (tc_name tc) d (out_text out)
         (length (out_images out)) (tc_arguments tc) (mutated out)] \<and>
      unverified_mutation t' = mutated out"
proof -
  let ?idx = "of_nat (tool_call_count t + 1) :: u32"
  let ?a1 = "emit (ToolStarted (agent_task a) ?idx (tc_name tc) (tc_arguments tc)) a"
  obtain start a2 where e2: "on_world (env_now env) ?a1 = (start, a2)" by fastforce
  obtain dr a3 where e3: "on_world (env_dispatch env tc) a2 = (dr, a3)" by fastforce
  obtain d a4 where e4: "elapsed env start a3 = (d, a4)" by fastforce
  have "events a4 = events ?a1" "agent_task a4 = tid"
    using events_on_world [OF e2] events_on_world [OF e3] events_elapsed [OF e4] assms(2) by auto
  moreover define out where
    "out = (case dr of Inr out \<Rightarrow> out | Inl e \<Rightarrow> outcome_of_text (''ERROR: '' @ env_show_error env e))"
  ultimately have "events b = events a @ [ToolStarted tid ?idx (tc_name tc) (tc_arguments tc),
      ToolCompleted tid ?idx (tc_name tc) d (out_text out) (length (out_images out)) (tc_arguments tc) (mutated out)]"
    and "unverified_mutation t' = mutated out"
    using assms e2 e3 e4 by (auto simp: execute_call_def Let_def)
  then show ?thesis by blast
qed

lemma turn_inv_call:
  assumes inv: "turn_inv tid l evs t"
    and run: "identical_repeats (note_call tc t) < max_identical_repeats l"
    and ex: "execute_call env tc (note_call tc (push_message m t)) a = (t', b)" "agent_task a = tid"
  shows "\<exists>new. events b = events a @ new \<and> trace_ok tid l (evs @ tool_events new) \<and>
     (tool_call_count t' < max_tool_calls l \<longrightarrow> turn_inv tid l (evs @ tool_events new) t')"
proof -
  let ?x = "of_nat (tool_call_count t + 1) :: u32"
  obtain d and out :: tool_outcome where b: "events b = events a @ [ToolStarted tid ?x (tc_name tc) (tc_arguments tc),
       ToolCompleted tid ?x (tc_name tc) d (out_text out) (length (out_images out)) (tc_arguments tc) (mutated out)]"
    and um: "unverified_mutation t' = mutated out"
    using execute_call_trace [OF ex] unfolding note_call_sel push_message_sel by blast
  note s = execute_call_spec [OF ex]
  let ?new = "[ToolStarted tid ?x (tc_name tc) (tc_arguments tc),
       ToolCompleted tid ?x (tc_name tc) d (out_text out) (length (out_images out)) (tc_arguments tc) (mutated out)]"
  have te: "tool_events ?new = ?new" by (simp add: tool_events_def is_tool_event_def)
  have calls: "dispatched_calls (evs @ ?new) = dispatched_calls evs @ [tc]"
    by (simp add: dispatched_calls_def map_filter_def)
  have lm: "last_mutated (evs @ ?new) = mutated out"
    by (simp add: last_mutated_def map_filter_def Let_def)
  have pr: "paired tid 0 (evs @ ?new) = Some (tool_call_count t + 1)"
    using inv paired_append [of tid 0 evs "tool_call_count t"] by (simp add: turn_inv_def)
  have reps: "identical_repeats (note_call tc (push_message m t)) =
      (if last_tool_call t = Some tc then identical_repeats t + 1 else 1)"
    by (auto simp: note_call_def)
  have "run_inv (max_identical_repeats l) (dispatched_calls (evs @ ?new)) (Some tc)
      (identical_repeats (note_call tc (push_message m t)))"
    unfolding calls using inv run by (intro run_inv_step) (auto simp: turn_inv_def note_call_def)
  with s inv pr lm um have "trace_ok tid l (evs @ ?new)"
      "tool_call_count t' < max_tool_calls l \<longrightarrow> turn_inv tid l (evs @ ?new) t'"
    by (auto simp: turn_inv_def trace_ok_def run_inv_def)
  with b te show ?thesis by (intro exI [of _ ?new]) simp
qed

lemma run_tool_call_trace:
  assumes "run_tool_call env s tc t a = (res, b)" and tid: "agent_task a = tid"
    and "tracks pre a (\<lambda>evs. turn_inv tid (limits a) evs t)"
  shows "case res of Inr t' \<Rightarrow> tracks pre b (\<lambda>evs. turn_inv tid (limits a) evs t')
                   | Inl e \<Rightarrow> tracks pre b (trace_ok tid (limits a))"
proof -
  let ?m = "assistant_tool_call_message tc"
  let ?t = "note_call tc (push_message ?m t)"
  obtain evs where evs: "events a = pre @ evs" "turn_inv tid (limits a) (tool_events evs) t"
    using assms(3) by (auto simp: tracks_def)
  show ?thesis
  proof (cases "max_identical_repeats (limits a) \<le> identical_repeats ?t")
    case True
    obtain e a1 where ab: "abort_turn env s ''loop detected''
        (LoopDetected (max_identical_repeats (limits a))) a = (e, a1)" by fastforce
    with True assms(1) have "res = Inl e" "b = a1"
      by (auto simp: run_tool_call_def Let_def)
    moreover have "closes (quiet tid) tid (Inl e) a a1"
      using closes_abort [OF ab tid, of "quiet tid"] by auto
    ultimately show ?thesis
      using tracks_closes [OF tracks_trace_ok [OF assms(3)]] by simp
  next
    case False
    obtain t1 a1 where ex: "execute_call env tc ?t a = (t1, a1)" by fastforce
    have "identical_repeats (note_call tc t) < max_identical_repeats (limits a)"
      using False by (simp add: note_call_def split: if_splits)
    from turn_inv_call [OF evs(2) this ex tid] obtain new where
      new: "events a1 = events a @ new" "trace_ok tid (limits a) (tool_events (evs @ new))"
        "tool_call_count t1 < max_tool_calls (limits a) \<longrightarrow> turn_inv tid (limits a) (tool_events (evs @ new)) t1"
      by auto
    have l1: "limits a1 = limits a" and t1: "agent_task a1 = tid"
      using execute_call_spec [OF ex tid] tid by (auto dest: evolves_limits evolves_task)
    from new(1) evs(1) have e1: "events a1 = pre @ (evs @ new)" by simp
    have ok: "tracks pre a1 (trace_ok tid (limits a))"
      using e1 new(2) unfolding tracks_def by blast
    from assms(1) False ex have cl: "check_limits env s t1 a1 = (res, b)"
      by (simp add: run_tool_call_def Let_def)
    show ?thesis
    proof (cases res)
      case (Inr t')
      with check_limits_spec [OF cl t1] l1 e1 new(3) show ?thesis
        unfolding tracks_def by auto
    next
      case (Inl e)
      have "closes (quiet tid) tid (Inl e) a1 b"
        using cl Inl t1 by (auto simp: check_limits_def Let_def split: if_splits prod.splits dest!: closes_abort)
      with Inl ok show ?thesis by (auto intro: tracks_closes)
    qed
  qed
qed

lemma run_tool_calls_trace:
  assumes "run_tool_calls env s tcs t a = (res, b)" and "agent_task a = tid"
    and "tracks pre a (\<lambda>evs. turn_inv tid (limits a) evs t)"
  shows "case res of Inr t' \<Rightarrow> tracks pre b (\<lambda>evs. turn_inv tid (limits a) evs t')
                   | Inl e \<Rightarrow> tracks pre b (trace_ok tid (limits a))"
  using assms
proof (induction tcs arbitrary: t a)
  case (Cons tc tcs)
  obtain c a1 where ic: "is_cancelled env a = (c, a1)" by fastforce
  have a1: "evolves (quiet tid) a a1" using evolves_is_cancelled [OF ic] by blast
  then have t1: "agent_task a1 = tid" and l1: "limits a1 = limits a"
    using Cons.prems(2) by (auto dest: evolves_task evolves_limits)
  have i1: "tracks pre a1 (\<lambda>evs. turn_inv tid (limits a) evs t)"
    using Cons.prems(3) a1 by (rule tracks_quiet)
  show ?case
  proof (cases c)
    case True
    obtain e a2 where ca: "cancelled env s a1 = (e, a2)" by fastforce
    have "closes (quiet tid) tid (Inl e) a1 a2"
      using closes_cancelled [OF ca t1, of "quiet tid"] by auto
    then have "tracks pre a2 (trace_ok tid (limits a))"
      using tracks_closes [OF tracks_trace_ok [OF i1]] by blast
    with True Cons.prems ic ca show ?thesis by auto
  next
    case False
    obtain r a2 where rc: "run_tool_call env s tc t a1 = (r, a2)" by fastforce
    note tr = run_tool_call_trace [OF rc t1 i1 [folded l1]]
    note sp = run_tool_call_spec [OF rc t1]
    show ?thesis
    proof (cases r)
      case (Inl e)
      with tr Cons.prems False ic rc l1 show ?thesis by auto
    next
      case (Inr t2)
      with sp have "agent_task a2 = tid" "limits a2 = limits a"
        using t1 l1 by (auto dest: evolves_task evolves_limits)
      moreover from Cons.prems False ic rc Inr have "run_tool_calls env s tcs t2 a2 = (res, b)" by simp
      ultimately show ?thesis using Cons.IH [of t2 a2] tr Inr l1 by (cases res) auto
    qed
  qed
qed auto

lemma answer_step_trace:
  assumes "answer_step env s txt t a = (st, b)" and tid: "agent_task a = tid"
    and inv: "tracks pre a (\<lambda>evs. turn_inv tid (limits a) evs t)"
  shows "case st of
      Continue t' \<Rightarrow> tracks pre b (\<lambda>evs. turn_inv tid (limits a) evs t')
    | Finished res \<Rightarrow> tracks pre b (trace_ok tid (limits a))"
proof (cases "spoken txt")
  case None
  have ab: "tracks pre c (trace_ok tid (limits a))"
    if "abort_turn env s ''empty response'' EmptyResponse a = (e, c)" for e c
    using closes_abort [OF that tid, of "quiet tid"]
      tracks_closes [OF tracks_trace_ok [OF inv]] by auto
  from None assms ab show ?thesis
    by (auto simp: answer_step_def Let_def turn_inv_def split: if_splits prod.splits)
next
  case (Some reply)
  obtain evs where evs: "events a = pre @ evs" "turn_inv tid (limits a) (tool_events evs) t"
    using inv by (auto simp: tracks_def)
  show ?thesis
  proof (cases "unverified_mutation t \<and> \<not> verification_gate_used t")
    case True
    then have "st = Continue (push_message (system_message VERIFY_NUDGE) (t\<lparr>verification_gate_used := True\<rparr>))"
        "b = set_state Verifying a"
      using assms(1) Some by (auto simp: answer_step_def)
    moreover have "tracks pre (set_state Verifying a) (\<lambda>evs. turn_inv tid (limits a) evs t)"
      using tid by (intro tracks_quiet [OF inv, of tid]) (auto simp: set_state_def intro!: evolves_emit)
    ultimately show ?thesis by (auto simp: turn_inv_def)
  next
    case False
    let ?a1 = "if unverified_mutation t then emit (AnsweredUnverified (agent_task a)) a else a"
    let ?a2 = "(set_state Responding ?a1)\<lparr>history := transcript_push (history a)
        (assistant_text_message reply) (env_estimate env) (available_tokens (budget a))\<rparr>"
    obtain d a3 where e: "elapsed env s ?a2 = (d, a3)" by fastforce
    let ?new = "(if unverified_mutation t then [AnsweredUnverified tid] else []) @
        [StateChanged tid Responding, RequestCompleted tid d reply]"
    have st: "st = Finished (Inr reply)" and b: "b = emit (RequestCompleted (agent_task a3) d reply) a3"
      using assms(1) Some False e by (auto simp: answer_step_def Let_def split: if_splits)
    have eb: "events b = pre @ (evs @ ?new)"
      using events_elapsed [OF e] evs(1) tid by (auto simp: b)
    have te: "tool_events ?new = []" by (simp add: tool_events_def is_tool_event_def)
    then have tr: "tracks pre b (trace_ok tid (limits a))"
      using eb turn_inv_trace_ok [OF evs(2)] unfolding tracks_def
      by (intro exI [of _ "evs @ ?new"]) simp
    with st show ?thesis by simp
  qed
qed

lemma turn_step_trace:
  assumes "turn_step env s p t a = (st, b)" and tid: "agent_task a = tid"
    and inv: "tracks pre a (\<lambda>evs. turn_inv tid (limits a) evs t)"
  shows "case st of
      Continue t' \<Rightarrow> tracks pre b (\<lambda>evs. turn_inv tid (limits a) evs t')
    | Finished res \<Rightarrow> tracks pre b (trace_ok tid (limits a))"
proof -
  obtain c a1 where ic: "is_cancelled env a = (c, a1)" by fastforce
  have a1: "evolves (quiet tid) a a1" using evolves_is_cancelled [OF ic] by blast
  then have t1: "agent_task a1 = tid" using tid by (auto dest: evolves_task)
  show ?thesis
  proof (cases c)
    case True
    obtain e a2 where ca: "cancelled env s a1 = (e, a2)" by fastforce
    have "closes (quiet tid) tid (Inl e) a1 a2"
      using closes_cancelled [OF ca t1, of "quiet tid"] by auto
    then have "tracks pre a2 (trace_ok tid (limits a))"
      using tracks_closes [OF tracks_quiet [OF tracks_trace_ok [OF inv] a1]] by blast
    with True assms(1) ic ca show ?thesis by (auto simp: turn_step_def)
  next
    case False
    obtain ms a2 where fb: "fit_to_budget env (messages t) p a1 = (ms, a2)" by fastforce
    let ?t = "t\<lparr>messages := ms\<rparr>" and ?a3 = "set_state Thinking a2"
    have a2: "evolves (quiet tid) a a2"
      using evolves_trans [OF a1 ev_fit_to_budget [OF fb t1]] .
    then have a3: "evolves (quiet tid) a ?a3" and t3: "agent_task ?a3 = tid"
      using tid by (auto simp: set_state_def dest: evolves_task intro!: evolves_emit)
    obtain r a4 where gr: "generate_with_retry env ms s 0 ?a3 = (r, a4)" by fastforce
    note spec = retry_spec [OF gr t3]
    show ?thesis
    proof (cases r)
      case (Inl e)
      with spec a3 have "closes (quiet tid) tid (Inl e) a a4" by (auto intro: closes_after)
      then have "tracks pre a4 (trace_ok tid (limits a))"
        using tracks_closes [OF tracks_trace_ok [OF inv]] by blast
      with Inl assms(1) ic False fb gr show ?thesis by (auto simp: turn_step_def Let_def)
    next
      case (Inr response)
      with spec a3 have a4: "evolves (quiet tid) a a4" by (auto intro: evolves_trans)
      then have t4: "agent_task a4 = tid" and l4: "limits a4 = limits a"
        using tid by (auto dest: evolves_task evolves_limits)
      have i4: "tracks pre a4 (\<lambda>evs. turn_inv tid (limits a) evs ?t)"
        using tracks_quiet [OF inv a4] by (simp add: turn_inv_def)
      show ?thesis
      proof (cases "resp_tool_calls response = []")
        case True
        with assms(1) ic False fb gr Inr have "answer_step env s (resp_text response) ?t a4 = (st, b)"
          by (simp add: turn_step_def Let_def)
        from answer_step_trace [OF this t4 i4 [folded l4]] l4 show ?thesis by (cases st) auto
      next
        case calls: False
        let ?a5 = "set_state Executing a4"
        have a5: "evolves (quiet tid) a4 ?a5" and t5: "agent_task ?a5 = tid" and l5: "limits ?a5 = limits a"
          using t4 l4 by (auto simp: set_state_def intro!: evolves_emit)
        obtain rr a6 where rc: "run_tool_calls env s (resp_tool_calls response) ?t ?a5 = (rr, a6)"
          by fastforce
        note rct = run_tool_calls_trace [OF rc t5 tracks_quiet [OF i4 a5, folded l5]]
        from assms(1) ic False fb gr Inr calls rc have st:
          "(st, b) = (case rr of Inl e \<Rightarrow> (Finished (Inl e), a6) | Inr t \<Rightarrow> (Continue t, a6))"
          by (auto simp: turn_step_def Let_def split: sum.splits)
        with rct l5 show ?thesis by (cases rr) simp_all
      qed
    qed
  qed
qed

lemma process_loop_trace:
  "process_loop env s p t a = (res, b) \<Longrightarrow> agent_task a = tid \<Longrightarrow>
    tracks pre a (\<lambda>evs. turn_inv tid (limits a) evs t) \<Longrightarrow> tracks pre b (trace_ok tid (limits a))"
proof (induction env s p t a arbitrary: res b rule: process_loop.induct)
  case (1 env s p t a)
  obtain st a1 where st: "turn_step env s p t a = (st, a1)" by fastforce
  note tr = turn_step_trace [OF st "1.prems"(2,3)]
  note spec = turn_step_spec [OF st "1.prems"(2)]
  show ?case
  proof (cases st)
    case (Finished r)
    with tr st "1.prems"(1) show ?thesis by (simp add: process_loop.simps [of env s p t a])
  next
    case (Continue t')
    with spec "1.prems"(2) have "agent_task a1 = tid" "limits a1 = limits a"
      by (auto dest: evolves_task evolves_limits)
    moreover have "process_loop env s p t' a1 = (res, b)"
      using "1.prems"(1) st Continue by (simp add: process_loop.simps [of env s p t a])
    ultimately show ?thesis using "1.IH" [OF st [symmetric] Continue] tr Continue by simp
  qed
qed

lemma process_from_trace:
  assumes "process_from env input source a = (res, b)"
  shows "\<exists>tid. tracks (events a @ [RequestStarted tid input source]) b (trace_ok tid (limits a))"
proof -
  obtain s tid r a1 where p: "prepare env input source a = ((s, tid), r, a1)"
    by (metis prod.exhaust)
  let ?pre = "events a @ [RequestStarted tid input source]"
  obtain evs where evs: "events a1 = ?pre @ evs" "list_all (quiet tid) evs"
    and t1: "agent_task a1 = tid" and l1: "limits a1 = limits a"
    using prepare_spec [OF p] by (auto simp: starts_def)
  have inv: "tracks ?pre a1 (\<lambda>evs. turn_inv tid (limits a1) evs (turn_new ms))" for ms
    unfolding tracks_def
    by (rule exI [of _ evs]) (simp add: evs tool_events_quiet [OF evs(2)] turn_inv_new)
  show ?thesis
  proof (cases r)
    case (Inl e)
    with p assms show ?thesis
      using tracks_trace_ok [OF inv] l1 by (auto simp: process_from_prepare)
  next
    case (Inr ms)
    with p assms have "process_loop env s (length ms) (turn_new ms) a1 = (res, b)"
      by (simp add: process_from_prepare)
    from process_loop_trace [OF this t1 inv] l1 show ?thesis by auto
  qed
qed

text \<open>
  C3. However the model behaves, one request dispatches at most
  \<open>max 1 max_tool_calls\<close> tool calls; their start and completion events come in pairs with
  the consecutive indices 1, 2, ...; and no call is dispatched \<open>max_identical_repeats\<close>
  times in a row.
\<close>

theorem tool_calls_bounded:
  "case process_from env input source a of (res, b) \<Rightarrow>
     \<exists>tid rest. events b = events a @ RequestStarted tid input source # rest \<and>
       (\<exists>n. paired tid 0 (tool_events rest) = Some n \<and> n \<le> max 1 (max_tool_calls (limits a))) \<and>
       no_run (max 1 (max_identical_repeats (limits a))) (dispatched_calls rest)"
  using process_from_trace [of env input source a]
  by (cases "process_from env input source a") (force simp: tracks_def trace_ok_def dispatched_calls_tool)

section \<open>The prompt stays within its budget\<close>

lemma compact_prefix:
  assumes "compact env ms p a = ((ms', n), b)" and "p \<le> length ms"
  shows "take p ms' = take p ms \<and> p \<le> length ms' \<and> budget b = budget a"
  using assms evolves_instrumented
  by (fastforce simp: compact_def Let_def evolves_def same_setup_def
      split: prod.splits llm_call_outcome.splits sum.splits option.splits if_splits)

lemma evict_prefix:
  assumes "evict_images ms p keep = (ms', n)"
  shows "take p ms' = take p ms \<and> length ms' = length ms"
  using evict_images_frame [where ms = ms and p = p and keep = keep] assms by simp

lemma truncate_prefix:
  "truncate_long_tool_results ms p h t = (ms', n) \<Longrightarrow> p \<le> length ms \<Longrightarrow>
    take p ms' = take p ms \<and> length ms' = length ms"
  by (auto simp: truncate_long_tool_results_def)

lemma drop_oldest_prefix:
  assumes "drop_oldest_until_fits ms p av est = (ms', n)" and "p \<le> length ms"
  shows "take p ms' = take p ms \<and> (estimate est ms' \<le> av \<or> length ms' = p) \<and> p \<le> length ms'"
  using prune_loop_char [of est p av ms 0] assms by (auto simp: drop_oldest_until_fits_def)

text \<open>
  C6. Fitting a prompt to the budget never touches its protected prefix (system prompt,
  history, computer context, plan), and afterwards the prompt is within the available
  tokens by the estimator in use, or only the protected prefix is left.
\<close>

theorem fit_to_budget_spec:
  assumes "p \<le> length ms"
  shows "case fit_to_budget env ms p a of (ms', b) \<Rightarrow>
    take p ms' = take p ms \<and>
    (estimate (env_estimate env) ms' \<le> available_tokens (budget a) \<or> ms' = take p ms)"
proof -
  let ?av = "available_tokens (budget a)"
  obtain m1 n1 where e1: "evict_images ms p (keep_recent_images (budget a)) = (m1, n1)" by fastforce
  let ?a1 = "emit_pressure env (DroppedImages n1) n1 m1 a"
  obtain m2 n2 where e2: "truncate_long_tool_results m1 p (truncate_head_chars (budget a))
      (truncate_tail_chars (budget a)) = (m2, n2)" by fastforce
  let ?a2 = "emit_pressure env (TruncatedText n2) n2 m2 ?a1"
  obtain m3 c a3 where e3: "compact env m2 p ?a2 = ((m3, c), a3)" by (metis prod.exhaust)
  obtain m4 n4 where e4: "drop_oldest_until_fits m3 p ?av (env_estimate env) = (m4, n4)" by fastforce
  have m1: "take p m1 = take p ms" "p \<le> length m1" using evict_prefix [OF e1] assms by auto
  have m2: "take p m2 = take p ms" "p \<le> length m2" using truncate_prefix [OF e2] m1 by auto
  have m3: "take p m3 = take p ms" "p \<le> length m3" using compact_prefix [OF e3] m2 by auto
  have m4: "take p m4 = take p ms" "estimate (env_estimate env) m4 \<le> ?av \<or> m4 = take p ms"
    using drop_oldest_prefix [OF e4] m3 by (auto simp: take_all_iff)
  from e1 e2 e3 e4 m1 m2 m3 m4 show ?thesis
    by (auto simp: fit_to_budget_def Let_def estimate_env_def split: option.splits)
qed

section \<open>The number of model calls\<close>

definition is_llm_started :: "event \<Rightarrow> bool" where
  "is_llm_started e \<longleftrightarrow> (case e of LlmStarted _ _ _ _ _ _ \<Rightarrow> True | _ \<Rightarrow> False)"

definition llm_calls :: "event list \<Rightarrow> nat" where
  "llm_calls evs = length (filter is_llm_started evs)"

lemma llm_calls_append [simp]: "llm_calls (xs @ ys) = llm_calls xs + llm_calls ys"
  by (simp add: llm_calls_def)

lemma llm_calls_simps [simp]:
  "llm_calls [] = 0" "llm_calls (e # es) = (if is_llm_started e then 1 else 0) + llm_calls es"
  by (simp_all add: llm_calls_def)

lemma llm_calls_none: "list_all (\<lambda>e. \<not> is_llm_started e) evs \<Longrightarrow> llm_calls evs = 0"
  by (simp add: llm_calls_def list_all_iff filter_empty_conv)

abbreviation calls_at :: "('w, 'v) agent \<Rightarrow> nat" where
  "calls_at a \<equiv> llm_calls (events a)"

lemma calls_no_events: "evolves (\<lambda>_. False) a b \<Longrightarrow> calls_at b = calls_at a"
  by (auto simp: evolves_def list_all_iff)

lemma calls_on_world: "on_world f a = (x, b) \<Longrightarrow> calls_at b = calls_at a"
  by (auto dest: events_on_world)

lemma calls_elapsed: "elapsed env s a = (x, b) \<Longrightarrow> calls_at b = calls_at a"
  by (auto dest: events_elapsed)

lemma calls_is_cancelled: "is_cancelled env a = (x, b) \<Longrightarrow> calls_at b = calls_at a"
  by (auto simp: is_cancelled_def dest: events_on_world)

lemma calls_cancelled: "cancelled env s a = (x, b) \<Longrightarrow> calls_at b = calls_at a"
  by (auto simp: cancelled_def is_llm_started_def dest: calls_elapsed split: prod.splits)

lemma calls_abort: "abort_turn env s r e a = (x, b) \<Longrightarrow> calls_at b = calls_at a"
  by (auto simp: abort_turn_def is_llm_started_def dest: calls_elapsed split: prod.splits)

lemma calls_instrumented:
  assumes "instrumented_call_llm env ms ts a = (out, b)"
  shows "calls_at b = calls_at a + 1"
proof -
  obtain cid idx ts' where n: "next_llm_call (current_task a) = ((cid, idx), ts')"
    by (metis prod.exhaust)
  let ?a1 = "emit (LlmStarted (agent_task a) cid idx (outgoing_images ms) (provider a) (model a))
      (a\<lparr>current_task := ts'\<rparr>)"
  obtain start a2 where s2: "on_world (env_now env) ?a1 = (start, a2)" by fastforce
  obtain out' a3 where s3: "call_llm env ms ts a2 = (out', a3)" by fastforce
  obtain d a4 where s4: "elapsed env start a3 = (d, a4)" by fastforce
  have "calls_at a4 = calls_at ?a1"
    using calls_on_world [OF s2] calls_no_events [OF evolves_call_llm [OF s3 evolves_refl]]
      calls_elapsed [OF s4] by simp
  with assms n s2 s3 s4 show ?thesis
    by (auto simp: instrumented_call_llm_def Let_def is_llm_started_def
        split: llm_call_outcome.splits sum.splits)
qed

lemma calls_generate: "generate env ms a = (out, b) \<Longrightarrow> calls_at b = calls_at a + 1"
  by (simp add: generate_def calls_instrumented)

lemma calls_retry:
  "generate_with_retry env ms s attempt a = (res, b) \<Longrightarrow>
    calls_at b \<le> calls_at a + 1 + (unat (max_llm_retries (limits a)) - unat attempt)"
proof (induction env ms s attempt a arbitrary: res b rule: generate_with_retry.induct)
  case (1 env ms s attempt a)
  obtain out a1 where g: "generate env ms a = (out, a1)" by fastforce
  have l1: "limits a1 = limits a" using evolves_limits [OF evolves_generate [OF g]] .
  obtain c a2 where ic: "is_cancelled env a1 = (c, a2)" by fastforce
  have l2: "limits a2 = limits a1"
    using evolves_limits [OF evolves_is_cancelled [OF ic evolves_refl]] .
  have c2: "calls_at a2 = calls_at a + 1" using calls_is_cancelled [OF ic] calls_generate [OF g] by simp
  note unfold = "1.prems" [unfolded generate_with_retry.simps [of env ms s attempt a] g]
  let ?a3 = "\<lambda>err. let a = emit (Retrying (agent_task a2) (attempt + 1) (show_llm_error err)) a2
         in a\<lparr>world := env_sleep env (retry_delay (limits a) attempt) (world a)\<rparr>"
  show ?case
  proof (cases "\<exists>err. out = Completed (Inl err) \<and>
      \<not> (\<not> is_retryable err \<or> max_llm_retries (limits a1) \<le> attempt) \<and> \<not> c")
    case False
    with unfold calls_generate [OF g] c2 ic show ?thesis
      by (auto split: llm_call_outcome.splits sum.splits if_splits prod.splits dest!: calls_cancelled)
  next
    case True
    then obtain err where err: "out = Completed (Inl err)"
      and retry: "\<not> (\<not> is_retryable err \<or> max_llm_retries (limits a1) \<le> attempt)" and c: "\<not> c" by blast
    from unfold err retry c ic have "generate_with_retry env ms s (attempt + 1) (?a3 err) = (res, b)" by simp
    from "1.IH" [OF g [symmetric] err refl retry ic [symmetric] c this]
    have "calls_at b \<le> calls_at a2 + 1 + (unat (max_llm_retries (limits a)) - unat (attempt + 1))"
      using l1 l2 by (simp add: Let_def is_llm_started_def)
    moreover have "attempt < max_llm_retries (limits a)" using retry l1 by (simp add: not_le)
    ultimately show ?thesis using c2 retry_measure [of attempt "max_llm_retries (limits a)"] by simp
  qed
qed

lemma calls_compact: "compact env ms p a = (r, b) \<Longrightarrow> calls_at b \<le> calls_at a + 1"
  by (auto simp: compact_def Let_def dest!: calls_instrumented
      split: prod.splits llm_call_outcome.splits sum.splits option.splits if_splits)

lemma calls_pressure [simp]: "calls_at (emit_pressure env st n ms a) = calls_at a"
  by (simp add: emit_pressure_def is_llm_started_def)

lemma calls_fit:
  assumes "fit_to_budget env ms p a = (ms', b)"
  shows "calls_at b \<le> calls_at a + 1"
proof -
  let ?av = "available_tokens (budget a)"
  obtain m1 n1 where e1: "evict_images ms p (keep_recent_images (budget a)) = (m1, n1)" by fastforce
  let ?a1 = "emit_pressure env (DroppedImages n1) n1 m1 a"
  obtain m2 n2 where e2: "truncate_long_tool_results m1 p (truncate_head_chars (budget a))
      (truncate_tail_chars (budget a)) = (m2, n2)" by fastforce
  let ?a2 = "emit_pressure env (TruncatedText n2) n2 m2 ?a1"
  obtain m3 c a3 where e3: "compact env m2 p ?a2 = ((m3, c), a3)" by (metis prod.exhaust)
  obtain m4 n4 where e4: "drop_oldest_until_fits m3 p ?av (env_estimate env) = (m4, n4)" by fastforce
  from calls_compact [OF e3] have "calls_at a3 \<le> calls_at a + 1" by simp
  with assms e1 e2 e3 e4 show ?thesis
    by (auto simp: fit_to_budget_def Let_def is_llm_started_def split: if_splits option.splits)
qed

lemma calls_execute: "execute_call env tc t a = (t', b) \<Longrightarrow> calls_at b = calls_at a"
  using execute_call_trace [of env tc t a t' b] by (auto simp: is_llm_started_def)

lemma calls_run_tool_call: "run_tool_call env s tc t a = (r, b) \<Longrightarrow> calls_at b = calls_at a"
  by (auto simp: run_tool_call_def check_limits_def Let_def dest!: calls_execute calls_abort
      split: prod.splits if_splits)

lemma calls_run_tool_calls: "run_tool_calls env s tcs t a = (r, b) \<Longrightarrow> calls_at b = calls_at a"
proof (induction tcs arbitrary: t a)
  case (Cons tc tcs)
  then show ?case
    by (auto split: prod.splits if_splits sum.splits
        dest!: calls_is_cancelled calls_cancelled calls_run_tool_call)
qed auto

lemma calls_answer: "answer_step env s txt t a = (st, b) \<Longrightarrow> calls_at b = calls_at a"
  by (auto simp: answer_step_def Let_def is_llm_started_def dest!: calls_elapsed calls_abort
      split: option.splits if_splits prod.splits)

definition calls_per_step :: "loop_limits \<Rightarrow> nat" where
  "calls_per_step l = unat (max_llm_retries l) + 2"

lemma calls_turn_step:
  assumes "turn_step env s p t a = (st, b)"
  shows "calls_at b \<le> calls_at a + calls_per_step (limits a)"
proof -
  obtain c a1 where ic: "is_cancelled env a = (c, a1)" by fastforce
  obtain ms a2 where fb: "fit_to_budget env (messages t) p a1 = (ms, a2)" by fastforce
  obtain r a4 where gr: "generate_with_retry env ms s 0 (set_state Thinking a2) = (r, a4)" by fastforce
  have "limits a2 = limits a"
    using evolves_limits [OF ev_fit_to_budget [OF fb refl]]
      evolves_limits [OF evolves_is_cancelled [OF ic evolves_refl]] by simp
  then have a4: "calls_at a4 \<le> calls_at a + calls_per_step (limits a)"
    using calls_is_cancelled [OF ic] calls_fit [OF fb] calls_retry [OF gr]
    by (simp add: calls_per_step_def is_llm_started_def)
  show ?thesis
  proof (cases c)
    case True
    with assms ic show ?thesis
      by (auto simp: turn_step_def dest!: calls_is_cancelled calls_cancelled split: prod.splits)
  next
    case False
    with assms ic fb gr a4 show ?thesis
      by (auto simp: turn_step_def Let_def is_llm_started_def
          split: sum.splits if_splits prod.splits dest!: calls_run_tool_calls calls_answer)
  qed
qed

text \<open>The number of iterations left: three per tool call, one for the gate, three empty answers.\<close>

definition steps_left :: "loop_limits \<Rightarrow> turn \<Rightarrow> nat" where
  "steps_left l t = 3 * (max_tool_calls l - tool_call_count t) +
     (if verification_gate_used t then 0 else 1) + (MAX_EMPTY_RESPONSES - empty_responses t)"

lemma answer_step_left:
  assumes "answer_step env s txt t a = (Continue t', b)" and "empty_responses t < MAX_EMPTY_RESPONSES"
  shows "steps_left l t' < steps_left l t \<and> empty_responses t' < MAX_EMPTY_RESPONSES"
  using assms by (auto simp: answer_step_def Let_def steps_left_def split: option.splits if_splits prod.splits)

lemma turn_step_left:
  assumes "turn_step env s p t a = (Continue t', b)" and "empty_responses t < MAX_EMPTY_RESPONSES"
  shows "steps_left (limits a) t' < steps_left (limits a) t \<and> empty_responses t' < MAX_EMPTY_RESPONSES"
proof -
  obtain c a1 where ic: "is_cancelled env a = (c, a1)" by fastforce
  obtain ms a2 where fb: "fit_to_budget env (messages t) p a1 = (ms, a2)" by fastforce
  obtain r a4 where gr: "generate_with_retry env ms s 0 (set_state Thinking a2) = (r, a4)" by fastforce
  have c: "\<not> c" using assms(1) ic by (auto simp: turn_step_def split: prod.splits)
  with assms(1) ic fb gr obtain resp where r: "r = Inr resp"
    by (auto simp: turn_step_def Let_def split: sum.splits)
  have l2: "limits a2 = limits a"
    using evolves_limits [OF ev_fit_to_budget [OF fb refl]]
      evolves_limits [OF evolves_is_cancelled [OF ic evolves_refl]] by simp
  have l4: "limits a4 = limits a"
    using retry_spec [OF gr refl] r l2 by (auto dest: evolves_limits)
  let ?t = "t\<lparr>messages := ms\<rparr>"
  have left: "steps_left l ?t = steps_left l t" for l by (simp add: steps_left_def)
  show ?thesis
  proof (cases "resp_tool_calls resp = []")
    case True
    with assms ic c fb gr r have "answer_step env s (resp_text resp) ?t a4 = (Continue t', b)"
      by (simp add: turn_step_def Let_def)
    from answer_step_left [OF this] assms(2) left show ?thesis by simp
  next
    case False
    obtain rr a6 where rc: "run_tool_calls env s (resp_tool_calls resp) ?t (set_state Executing a4) = (rr, a6)"
      by fastforce
    with assms(1) ic c fb gr r False have "rr = Inr t'"
      by (auto simp: turn_step_def Let_def split: sum.splits)
    moreover obtain tc tcs where "resp_tool_calls resp = tc # tcs"
      using False by (cases "resp_tool_calls resp") auto
    ultimately show ?thesis
      using run_tool_calls_spec [OF rc refl] l4 assms(2)
      by (auto simp: steps_left_def MAX_EMPTY_RESPONSES_def)
  qed
qed

lemma calls_process_loop:
  "process_loop env s p t a = (res, b) \<Longrightarrow> empty_responses t < MAX_EMPTY_RESPONSES \<Longrightarrow>
    calls_at b \<le> calls_at a + calls_per_step (limits a) * (steps_left (limits a) t + 1)"
proof (induction env s p t a arbitrary: res b rule: process_loop.induct)
  case (1 env s p t a)
  obtain st a1 where st: "turn_step env s p t a = (st, a1)" by fastforce
  note c1 = calls_turn_step [OF st]
  show ?case
  proof (cases st)
    case (Finished r)
    with c1 st "1.prems"(1) show ?thesis by (simp add: process_loop.simps [of env s p t a])
  next
    case (Continue t')
    let ?k = "calls_per_step (limits a)"
    have l1: "limits a1 = limits a"
      using turn_step_spec [OF st refl] Continue by (auto dest: evolves_limits)
    note left = turn_step_left [OF st [unfolded Continue] "1.prems"(2)]
    have "process_loop env s p t' a1 = (res, b)"
      using "1.prems"(1) st Continue by (simp add: process_loop.simps [of env s p t a])
    with "1.IH" [OF st [symmetric] Continue] left l1
    have "calls_at b \<le> calls_at a1 + ?k * (steps_left (limits a) t' + 1)" by simp
    also have "\<dots> \<le> calls_at a + ?k + ?k * steps_left (limits a) t"
      using c1 left by (intro add_mono mult_le_mono2) auto
    finally show ?thesis by simp
  qed
qed

text \<open>
  C5. A request makes a bounded number of model calls whatever the model, the tools and the
  cancel signal do: one plan, and for each of at most \<open>3 * max_tool_calls + 5\<close> rounds a
  compaction and a call with its retries.
\<close>

theorem model_calls_bounded:
  "case process_from env input source a of (res, b) \<Rightarrow>
     llm_calls (events b) \<le> llm_calls (events a) + 1 +
       (unat (max_llm_retries (limits a)) + 2) * (3 * max_tool_calls (limits a) + 5)"
proof -
  obtain s tid r a1 where p: "prepare env input source a = ((s, tid), r, a1)"
    by (metis prod.exhaust)
  have l1: "limits a1 = limits a" using prepare_spec [OF p] by (simp add: starts_def)
  have c1: "calls_at a1 \<le> calls_at a + 1"
    using p by (auto simp: prepare_def build_prompt_messages_def build_plan_def Let_def is_llm_started_def
        split: prod.splits sum.splits option.splits if_splits llm_call_outcome.splits
        dest!: calls_on_world calls_instrumented)
  show ?thesis
  proof (cases r)
    case (Inl e)
    with p c1 show ?thesis by (simp add: process_from_prepare)
  next
    case (Inr ms)
    obtain res b where l: "process_loop env s (length ms) (turn_new ms) a1 = (res, b)" by fastforce
    have "calls_at b \<le> calls_at a1 + calls_per_step (limits a) * (steps_left (limits a) (turn_new ms) + 1)"
      using calls_process_loop [OF l] l1 by (simp add: turn_new_def MAX_EMPTY_RESPONSES_def)
    with p Inr l c1 show ?thesis
      by (simp add: process_from_prepare steps_left_def turn_new_def MAX_EMPTY_RESPONSES_def
          calls_per_step_def algebra_simps)
  qed
qed

section \<open>A scripted request\<close>

text \<open>
  A concrete environment for the witnesses: the model answers from a script, every tool call
  succeeds and changes something, nothing is cancelled.
\<close>

definition scripted_env :: "((llm_error + llm_response) list, unit, string) agent_env" where
  "scripted_env = \<lparr>env_now = (\<lambda>w. (0, w)), env_task_id = (\<lambda>w. (''1-1'', w)),
     env_is_cancelled = (\<lambda>w. (False, w)), env_sleep = (\<lambda>d w. w),
     env_generate = (\<lambda>ms tools w. (Worker 0 (case w of [] \<Rightarrow> None | r # rs \<Rightarrow> Some r), tl w)),
     env_dispatch = (\<lambda>tc w. (Inr \<lparr>out_text = ''done'', out_images = [], mutated = True\<rparr>, w)),
     env_get_context = (\<lambda>w. (Inr ''desktop'', w)), env_device_tools = (\<lambda>w. ([], w)),
     env_facts = (\<lambda>w. ([], w)), env_show_error = (\<lambda>e. e),
     env_estimate = (\<lambda>m. 1)\<rparr>"

definition scripted_response :: "string option \<Rightarrow> tool_call list \<Rightarrow> llm_error + llm_response" where
  "scripted_response t tcs = Inr \<lparr>resp_text = t, resp_tool_calls = tcs,
     resp_usage = \<lparr>prompt_tokens = None, completion_tokens = None\<rparr>\<rparr>"

definition scripted_agent :: "(llm_error + llm_response) list \<Rightarrow> ((llm_error + llm_response) list, unit) agent" where
  "scripted_agent rs = \<lparr>world = rs, registry = registry_new, history = transcript_new (system_message ''s''),
     events = [], limits = loop_limits_default, budget = context_budget_default, planning_enabled = False,
     current_task = task_state_new ''t'', provider = ''p'', model = ''m''\<rparr>"

definition mutating_script :: "(llm_error + llm_response) list" where
  "mutating_script = [scripted_response None [\<lparr>tc_name = ''open'', tc_arguments = ''{}''\<rparr>],
     scripted_response (Some ''ok'') [], scripted_response (Some ''ok'') []]"

lemma spoken_ok: "spoken (Some ''ok'') = Some ''ok''"
  by (simp add: spoken_def is_blank_def trim_def is_ws_def byte_of_def is_cont_def)

lemmas scripted_defs = mutating_script_def scripted_agent_def scripted_env_def scripted_response_def process_from_def build_prompt_messages_def
   on_world_def emit_def set_state_def agent_task_def elapsed_def is_cancelled_def turn_step_def fit_to_budget_def generate_def instrumented_call_llm_def call_llm_def
   next_llm_call_def task_state_new_def answer_step_def run_tool_call_def execute_call_def check_limits_def note_call_def push_message_def turn_new_def loop_limits_default_def context_budget_default_def
   transcript_push_def transcript_new_def prune_loop.simps available_tokens_def estimate_env_def heuristic_estimate_message_def plain_message_def user_message_def assistant_text_message_def assistant_tool_call_message_def tool_result_message_def system_message_def
   spoken_ok outgoing_images_def definitions_def registry_new_def set_device_tools_def shadowed_def  div_ceil_def CHARS_PER_TOKEN_def TOKENS_PER_IMAGE_def drop_oldest_until_fits_def Let_def nl_def transcript_snapshot_def


lemma scripted_run:
  "\<exists>b. process_from scripted_env ''go'' Cli (scripted_agent mutating_script) = (Inr ''ok'', b) \<and>
     events b = [RequestStarted ''1-1'' ''go'' Cli, StateChanged ''1-1'' Receiving,
       StateChanged ''1-1'' Thinking, LlmStarted ''1-1'' (llm_call_id_new ''1-1'' 1) 1 0 ''p'' ''m'',
       LlmCompleted ''1-1'' (llm_call_id_new ''1-1'' 1) 1 0 ''p'' ''m'',
       TokensUsed ''1-1'' (llm_call_id_new ''1-1'' 1) 1 None None, StateChanged ''1-1'' Executing,
       ToolStarted ''1-1'' 1 ''open'' ''{}'', ToolCompleted ''1-1'' 1 ''open'' 0 ''done'' 0 ''{}'' True,
       StateChanged ''1-1'' Thinking, LlmStarted ''1-1'' (llm_call_id_new ''1-1'' 2) 2 0 ''p'' ''m'',
       LlmCompleted ''1-1'' (llm_call_id_new ''1-1'' 2) 2 0 ''p'' ''m'',
       TokensUsed ''1-1'' (llm_call_id_new ''1-1'' 2) 2 None None, StateChanged ''1-1'' Verifying,
       StateChanged ''1-1'' Thinking, LlmStarted ''1-1'' (llm_call_id_new ''1-1'' 3) 3 0 ''p'' ''m'',
       LlmCompleted ''1-1'' (llm_call_id_new ''1-1'' 3) 3 0 ''p'' ''m'',
       TokensUsed ''1-1'' (llm_call_id_new ''1-1'' 3) 3 None None, AnsweredUnverified ''1-1'',
       StateChanged ''1-1'' Responding, RequestCompleted ''1-1'' 0 ''ok'']"
  supply process_loop.simps [simp] generate_with_retry.simps [simp]
  by (simp add: scripted_defs)

lemma events_scripted_agent: "events (scripted_agent rs) = []"
  by (simp add: scripted_agent_def)

theorem fit_to_budget_spec_witness:
  "case fit_to_budget scripted_env [system_message ''s'', user_message ''a'', user_message ''b''] 1
      ((scripted_agent [])\<lparr>budget := context_budget_default\<lparr>max_tokens := 1026\<rparr>\<rparr>) of (ms, b) \<Rightarrow>
    take 1 ms = [system_message ''s''] \<and>
    (estimate (env_estimate scripted_env) ms \<le> 2 \<or> ms = [system_message ''s''])"
  using fit_to_budget_spec [where p = 1 and ms = "[system_message ''s'', user_message ''a'', user_message ''b'']"
      and env = scripted_env and a = "(scripted_agent [])\<lparr>budget := context_budget_default\<lparr>max_tokens := 1026\<rparr>\<rparr>"]
  by (simp add: available_tokens_def context_budget_default_def)

end
