(* ===== verification/Verification_Gate.thy ===== *)
theory Verification_Gate
  imports Agent_Props
begin

text \<open>
  The verification gate of \<open>agent_loop.rs\<close>: what the model is asked and what the events say when a
  request is answered after a tool call that changed something. The prompts are observed at the port
  of the model.
\<close>

section \<open>Noting the prompts\<close>

text \<open>\<open>noting env\<close> is \<open>env\<close> with a note, beside its world, of every prompt its model is sent.\<close>

definition lifted :: "('w \<Rightarrow> 'a \<times> 'w) \<Rightarrow> 'w \<times> message list list \<Rightarrow> 'a \<times> 'w \<times> message list list" where
  "lifted f = (\<lambda>(w, ps). case f w of (x, w) \<Rightarrow> (x, (w, ps)))"

definition noting :: "('w, 'v, 'e) agent_env \<Rightarrow> ('w \<times> message list list, 'v, 'e) agent_env" where
  "noting env = \<lparr>env_now = lifted (env_now env), env_task_id = lifted (env_task_id env),
     env_is_cancelled = lifted (env_is_cancelled env), env_sleep = (\<lambda>d (w, ps). (env_sleep env d w, ps)),
     env_generate = (\<lambda>ms tools (w, ps). case env_generate env ms tools w of (r, w) \<Rightarrow> (r, (w, ps @ [ms]))),
     env_dispatch = (\<lambda>tc. lifted (env_dispatch env tc)), env_get_context = lifted (env_get_context env),
     env_device_tools = lifted (env_device_tools env), env_facts = lifted (env_facts env),
     env_show_error = env_show_error env, env_estimate = env_estimate env\<rparr>"

abbreviation prompts :: "('w \<times> message list list, 'v) agent \<Rightarrow> message list list" where
  "prompts a \<equiv> snd (world a)"

lemma noting_keeps [simp]:
  "snd (snd (env_now (noting env) w)) = snd w" "snd (snd (env_task_id (noting env) w)) = snd w"
  "snd (snd (env_is_cancelled (noting env) w)) = snd w" "snd (env_sleep (noting env) d w) = snd w"
  "snd (snd (env_dispatch (noting env) tc w)) = snd w" "snd (snd (env_get_context (noting env) w)) = snd w"
  "snd (snd (env_device_tools (noting env) w)) = snd w" "snd (snd (env_facts (noting env) w)) = snd w"
  "snd (snd (env_generate (noting env) ms ts w)) = snd w @ [ms]"
  by (auto simp: noting_def lifted_def split: prod.split)

section \<open>Steps outside the gate\<close>

text \<open>The two events of the gate.\<close>

definition gate_event :: "event \<Rightarrow> bool" where
  "gate_event e \<longleftrightarrow> (case e of StateChanged _ st \<Rightarrow> st = Verifying | AnsweredUnverified _ \<Rightarrow> True | _ \<Rightarrow> False)"

abbreviation ungated :: "event list \<Rightarrow> bool" where
  "ungated evs \<equiv> list_all (\<lambda>e. \<not> gate_event e) evs"

text \<open>From \<open>a\<close> to \<open>b\<close> the events \<open>evs\<close> were emitted, none of the gate, and the prompts \<open>ps\<close> sent.\<close>

definition appends ::
  "('w \<times> message list list, 'v) agent \<Rightarrow> event list \<Rightarrow> message list list \<Rightarrow> ('w \<times> message list list, 'v) agent \<Rightarrow> bool" where
  "appends a evs ps b \<longleftrightarrow> events b = events a @ evs \<and> ungated evs \<and> prompts b = prompts a @ ps \<and>
     length ps = llm_calls evs"

definition ordinary :: "('w \<times> message list list, 'v) agent \<Rightarrow> ('w \<times> message list list, 'v) agent \<Rightarrow> bool" where
  "ordinary a b \<longleftrightarrow> (\<exists>evs ps. appends a evs ps b)"

lemma appends_trans: "appends a evs ps b \<Longrightarrow> appends b evs' ps' c \<Longrightarrow> appends a (evs @ evs') (ps @ ps') c"
  by (simp add: appends_def)

lemma ord_refl [simp, intro]: "ordinary a a"
  by (auto simp: ordinary_def appends_def intro: exI [of _ "[]"])

lemma ord_trans [trans]: "ordinary a b \<Longrightarrow> ordinary b c \<Longrightarrow> ordinary a c"
  unfolding ordinary_def by (blast intro: appends_trans)

lemma ord_same: "ordinary a b \<Longrightarrow> events c = events b \<Longrightarrow> prompts c = prompts b \<Longrightarrow> ordinary a c"
  by (simp add: ordinary_def appends_def)

lemma ord_emit: "\<not> gate_event e \<Longrightarrow> \<not> is_llm_started e \<Longrightarrow> ordinary a b \<Longrightarrow> ordinary a (emit e b)"
  unfolding ordinary_def appends_def by (elim exE conjE, rule exI, rule exI) (rule conjI, simp, simp)

lemma on_world_prompts:
  "on_world f b = (x, c) \<Longrightarrow> events c = events b \<and> prompts c = snd (snd (f (world b)))"
  by (auto simp: on_world_def split: prod.splits)

lemma ord_on_world:
  "on_world f b = (x, c) \<Longrightarrow> (\<And>w. snd (snd (f w)) = snd w) \<Longrightarrow> ordinary a b \<Longrightarrow> ordinary a c"
  by (erule ord_same) (simp_all add: on_world_prompts)

lemma ord_elapsed: "elapsed (noting env) s b = (x, c) \<Longrightarrow> ordinary a b \<Longrightarrow> ordinary a c"
  by (auto simp: elapsed_def intro: ord_on_world split: prod.splits)

lemma ord_is_cancelled: "is_cancelled (noting env) b = (x, c) \<Longrightarrow> ordinary a b \<Longrightarrow> ordinary a c"
  by (auto simp: is_cancelled_def intro: ord_on_world)

lemma ord_cancelled: "cancelled (noting env) s b = (x, c) \<Longrightarrow> ordinary a b \<Longrightarrow> ordinary a c"
  by (auto simp: cancelled_def gate_event_def is_llm_started_def intro!: ord_emit dest: ord_elapsed split: prod.splits)

lemma ord_abort: "abort_turn (noting env) s r e b = (x, c) \<Longrightarrow> ordinary a b \<Longrightarrow> ordinary a c"
  by (auto simp: abort_turn_def gate_event_def is_llm_started_def intro!: ord_emit dest: ord_elapsed split: prod.splits)

lemma poll_worker_prompts: "poll_worker (noting env) n r b = (x, c) \<Longrightarrow> events c = events b \<and> prompts c = prompts b"
proof (induction "noting env" n r b arbitrary: x rule: poll_worker.induct)
  case (2 n r b)
  then show ?case
    by (auto simp: is_cancelled_def split: prod.splits if_splits dest!: on_world_prompts)
qed (auto split: option.splits)

lemma call_llm_prompts:
  assumes "call_llm (noting env) ms ts b = (x, c)"
  shows "events c = events b \<and> prompts c = prompts b @ [ms]"
proof -
  obtain n r b1 where w: "on_world (env_generate (noting env) ms ts) b = (Worker n r, b1)"
    by (metis llm_worker.exhaust prod.exhaust)
  have "prompts b1 = prompts b @ [ms]" "events b1 = events b"
    by (simp_all add: on_world_prompts [OF w])
  with poll_worker_prompts [of env n r b1 x c] assms w show ?thesis by (simp add: call_llm_def)
qed

lemma appends_instrumented:
  assumes "instrumented_call_llm (noting env) ms ts a = (out, b)"
  shows "\<exists>evs. appends a evs [ms] b"
proof -
  obtain cid idx ts' where n: "next_llm_call (current_task a) = ((cid, idx), ts')"
    by (metis prod.exhaust)
  let ?start = "LlmStarted (agent_task a) cid idx (outgoing_images ms) (provider a) (model a)"
  let ?a1 = "emit ?start (a\<lparr>current_task := ts'\<rparr>)"
  obtain start a2 where s2: "on_world (env_now (noting env)) ?a1 = (start, a2)" by fastforce
  obtain out' a3 where s3: "call_llm (noting env) ms ts a2 = (out', a3)" by fastforce
  obtain d a4 where s4: "elapsed (noting env) start a3 = (d, a4)" by fastforce
  have "ordinary ?a1 a2" "ordinary a3 a4"
    using ord_on_world [OF s2 _ ord_refl] ord_elapsed [OF s4 ord_refl] by simp_all
  moreover have "events a2 = events ?a1" "events a4 = events a3"
    using events_on_world [OF s2] events_elapsed [OF s4] by simp_all
  ultimately have "prompts a2 = prompts a" "prompts a4 = prompts a3"
    by (auto simp: ordinary_def appends_def)
  with call_llm_prompts [OF s3] \<open>events a2 = events ?a1\<close> \<open>events a4 = events a3\<close>
  have a4: "prompts a4 = prompts a @ [ms]" "events a4 = events a @ [?start]" by simp_all
  have "\<exists>evs. events b = events a4 @ evs \<and> prompts b = prompts a4 \<and> ungated evs \<and> llm_calls evs = 0"
    using assms n s2 s3 s4
    by (auto simp: instrumented_call_llm_def Let_def gate_event_def is_llm_started_def
        split: llm_call_outcome.splits sum.splits)
  then show ?thesis
    using a4 unfolding appends_def
    by (auto simp: gate_event_def is_llm_started_def)
qed

lemma ord_instrumented: "instrumented_call_llm (noting env) ms ts b = (out, c) \<Longrightarrow> ordinary a b \<Longrightarrow> ordinary a c"
  using appends_instrumented [of env ms ts b out c] ord_trans [of a b c] by (auto simp: ordinary_def)

lemma ord_set_state: "st \<noteq> Verifying \<Longrightarrow> ordinary a b \<Longrightarrow> ordinary a (set_state st b)"
  unfolding set_state_def by (rule ord_emit) (simp_all add: gate_event_def is_llm_started_def)

lemma appends_retry:
  "generate_with_retry (noting env) ms s attempt a = (res, b) \<Longrightarrow> \<exists>evs ps. appends a evs (ms # ps) b"
proof (induction "noting env" ms s attempt a arbitrary: res b rule: generate_with_retry.induct)
  case (1 ms s attempt a)
  obtain out a1 where g: "generate (noting env) ms a = (out, a1)" by fastforce
  obtain c a2 where ic: "is_cancelled (noting env) a1 = (c, a2)" by fastforce
  obtain evs where first: "appends a evs [ms] a1"
    using g appends_instrumented unfolding generate_def by blast
  have after: "\<exists>evs ps. appends a evs (ms # ps) b" if "ordinary a1 b"
  proof -
    from that obtain evs' ps' where "appends a1 evs' ps' b" by (auto simp: ordinary_def)
    from appends_trans [OF first this] show ?thesis by auto
  qed
  let ?a3 = "\<lambda>err. let a = emit (Retrying (agent_task a2) (attempt + 1) (show_llm_error err)) a2
         in a\<lparr>world := env_sleep (noting env) (retry_delay (limits a) attempt) (world a)\<rparr>"
  note unfold = "1.prems" [unfolded generate_with_retry.simps [of "noting env" ms s attempt a] g]
  note a2 = ord_is_cancelled [OF ic ord_refl]
  show ?case
  proof (cases "\<exists>err. out = Completed (Inl err) \<and>
      \<not> (\<not> is_retryable err \<or> max_llm_retries (limits a1) \<le> attempt) \<and> \<not> c")
    case False
    with unfold ic a2 show ?thesis
      by (intro after) (auto split: llm_call_outcome.splits sum.splits if_splits prod.splits intro: ord_cancelled)
  next
    case True
    then obtain err where err: "out = Completed (Inl err)"
      and retry: "\<not> (\<not> is_retryable err \<or> max_llm_retries (limits a1) \<le> attempt)" and c: "\<not> c" by blast
    from unfold err retry c ic have "generate_with_retry (noting env) ms s (attempt + 1) (?a3 err) = (res, b)" by simp
    from "1.hyps" [OF g [symmetric] err refl retry ic [symmetric] c this]
    have "ordinary (?a3 err) b" by (auto simp: ordinary_def)
    moreover have "ordinary a1 (emit (Retrying (agent_task a2) (attempt + 1) (show_llm_error err)) a2)"
      by (rule ord_emit [OF _ _ a2]) (simp_all add: gate_event_def is_llm_started_def)
    then have "ordinary a1 (?a3 err)" by (rule ord_same) (simp_all add: Let_def)
    ultimately show ?thesis by (blast intro: after ord_trans)
  qed
qed

lemma ord_retry: "generate_with_retry (noting env) ms s k b = (r, c) \<Longrightarrow> ordinary b c"
  unfolding ordinary_def using appends_retry by blast

lemma ord_compact: "compact (noting env) ms p b = (r, c) \<Longrightarrow> ordinary a b \<Longrightarrow> ordinary a c"
  by (auto simp: compact_def Let_def intro: ord_instrumented
      split: prod.splits llm_call_outcome.splits sum.splits option.splits if_splits)

lemma ord_pressure: "ordinary a b \<Longrightarrow> ordinary a (emit_pressure env st n ms b)"
  by (auto simp: emit_pressure_def gate_event_def is_llm_started_def intro!: ord_emit)

lemma ord_build_plan: "build_plan (noting env) ms ts b = (r, c) \<Longrightarrow> ordinary a b \<Longrightarrow> ordinary a c"
  by (auto simp: build_plan_def intro: ord_instrumented split: prod.splits llm_call_outcome.splits sum.splits)

lemma ord_build_prompt: "build_prompt_messages (noting env) b = (r, c) \<Longrightarrow> ordinary a b \<Longrightarrow> ordinary a c"
  by (auto simp: build_prompt_messages_def split: prod.splits sum.splits
      dest: ord_on_world [OF _ noting_keeps(6)] ord_on_world [OF _ noting_keeps(8)])

lemma ord_execute:
  assumes "execute_call (noting env) tc t a = (t', b)"
  shows "ordinary a b \<and> verification_gate_used t' = verification_gate_used t"
proof -
  let ?a1 = "emit (ToolStarted (agent_task a) (of_nat (tool_call_count t + 1)) (tc_name tc) (tc_arguments tc)) a"
  obtain start a2 where e2: "on_world (env_now (noting env)) ?a1 = (start, a2)" by fastforce
  obtain dr a3 where e3: "on_world (env_dispatch (noting env) tc) a2 = (dr, a3)" by fastforce
  obtain d a4 where e4: "elapsed (noting env) start a3 = (d, a4)" by fastforce
  have "ordinary a ?a1" by (rule ord_emit) (simp_all add: gate_event_def is_llm_started_def)
  then have "ordinary a a4"
    using ord_elapsed [OF e4 ord_on_world [OF e3 _ ord_on_world [OF e2]]] by simp
  with assms e2 e3 e4 show ?thesis
    by (auto simp: execute_call_def Let_def gate_event_def is_llm_started_def intro!: ord_emit)
qed

lemma ord_run_tool_call:
  assumes "run_tool_call (noting env) s tc t a = (r, b)"
  shows "ordinary a b \<and> (\<forall>t'. r = Inr t' \<longrightarrow> verification_gate_used t' = verification_gate_used t)"
proof -
  obtain t1 a1 where e: "execute_call (noting env) tc (note_call tc (push_message (assistant_tool_call_message tc) t)) a = (t1, a1)"
    by fastforce
  from ord_execute [OF e] assms e show ?thesis
    by (auto simp: run_tool_call_def check_limits_def Let_def split: prod.splits if_splits intro: ord_abort)
qed

lemma ord_run_tool_calls:
  "run_tool_calls (noting env) s tcs t a = (r, b) \<Longrightarrow>
    ordinary a b \<and> (\<forall>t'. r = Inr t' \<longrightarrow> verification_gate_used t' = verification_gate_used t)"
proof (induction tcs arbitrary: t a)
  case (Cons tc tcs)
  obtain c a1 where ic: "is_cancelled (noting env) a = (c, a1)" by fastforce
  obtain r1 a2 where rc: "run_tool_call (noting env) s tc t a1 = (r1, a2)" by fastforce
  note a1 = ord_is_cancelled [OF ic ord_refl] and a2 = ord_run_tool_call [OF rc]
  have "ordinary a a2" using ord_trans [OF a1] a2 by blast
  show ?case
  proof (cases "c \<or> (\<exists>e. r1 = Inl e)")
    case True
    with Cons.prems ic rc a1 \<open>ordinary a a2\<close> show ?thesis
      by (cases c) (auto split: prod.splits intro: ord_cancelled)
  next
    case False
    then obtain t2 where t2: "r1 = Inr t2" by (cases r1) auto
    with False Cons.prems ic rc have "run_tool_calls (noting env) s tcs t2 a2 = (r, b)" by simp
    from Cons.IH [OF this] a2 t2 \<open>ordinary a a2\<close> show ?thesis by (auto intro: ord_trans)
  qed
qed auto

section \<open>The prompt after the gate\<close>

text \<open>The two steps of the budget that take messages away.\<close>

fun squeezes :: "event \<Rightarrow> bool" where
  "squeezes (BudgetPressure _ (DroppedTurns _) _) = True"
| "squeezes (TranscriptCompacted _ _) = True"
| "squeezes _ = False"

lemma last_evicted:
  assumes "evict_images ms p keep = (ms', n)" and "ms \<noteq> []" and "images (last ms) = []"
  shows "ms' \<noteq> [] \<and> last ms' = last ms"
proof -
  let ?i = "length ms - 1"
  have "ms' = fst (evict_images ms p keep)" using assms(1) by simp
  moreover have "?i \<notin> set (evicted ms p keep)"
    using assms(2,3) evicted_sub [of ms p keep] by (auto simp: set_image_indices last_conv_nth)
  ultimately show ?thesis
    using assms(2) evict_images_frame(1) [of ms p keep] evict_images_nth [of ?i ms p keep]
    by (metis diff_less last_conv_nth length_greater_0_conv zero_less_one)
qed

lemma last_truncated:
  assumes "truncate_long_tool_results ms p h t = (ms', n)" and "ms \<noteq> []" and "role (last ms) \<noteq> ''tool''"
  shows "ms' \<noteq> [] \<and> last ms' = last ms"
proof (cases "drop p ms")
  case Nil
  with assms show ?thesis by (auto simp: truncate_long_tool_results_def)
next
  case (Cons m rest)
  then have "last (drop p ms) = last ms" by (metis last_drop drop_eq_Nil list.distinct(1) not_le)
  moreover have "truncate_message h t (last ms) = last ms"
    using assms(3) by (simp add: truncate_message_def needs_truncation_def)
  ultimately show ?thesis
    using assms(1) Cons by (auto simp: truncate_long_tool_results_def last_map simp del: drop_eq_Nil)
qed

lemma compact_silent: "compact env ms p a = ((ms', None), b) \<Longrightarrow> ms' = ms"
  by (auto simp: compact_def Let_def split: prod.splits llm_call_outcome.splits sum.splits option.splits if_splits)

lemma drop_oldest_silent:
  assumes "drop_oldest_until_fits ms p av est = (ms', 0)"
  shows "ms' = ms"
  using assms prune_loop_char [of est p av ms 0] by (auto simp: drop_oldest_until_fits_def)

definition squeezed :: "('w \<times> message list list, 'v) agent \<Rightarrow> ('w \<times> message list list, 'v) agent \<Rightarrow> bool" where
  "squeezed a b \<longleftrightarrow> (\<exists>evs ps. appends a evs ps b \<and> list_ex squeezes evs)"

lemma squeezed_emit:
  assumes "ordinary a b" and "squeezes e"
  shows "squeezed a (emit e b)"
proof -
  obtain evs ps where "appends a evs ps b" using assms(1) by (auto simp: ordinary_def)
  moreover have "\<not> gate_event e" "\<not> is_llm_started e"
    using assms(2) by (cases e; simp add: gate_event_def is_llm_started_def)+
  ultimately have "appends a (evs @ [e]) ps (emit e b)" by (simp add: appends_def)
  with assms(2) show ?thesis by (auto simp: squeezed_def)
qed

lemma squeezed_ordinary: "squeezed a b \<Longrightarrow> ordinary b c \<Longrightarrow> squeezed a c"
  unfolding squeezed_def ordinary_def by (metis appends_trans list_ex_append)

text \<open>
  Fitting a prompt keeps its last message, if that is not a tool result and has no images, or tells
  that it took messages away.
\<close>

definition plain_end :: "message list \<Rightarrow> bool" where
  "plain_end ms \<longleftrightarrow> ms \<noteq> [] \<and> images (last ms) = [] \<and> role (last ms) \<noteq> ''tool''"

lemma fit_noted:
  assumes fit: "fit_to_budget (noting env) ms p a = (ms', b)"
  shows "ordinary a b \<and> (plain_end ms \<longrightarrow> squeezed a b \<or> ms' \<noteq> [] \<and> last ms' = last ms)"
proof -
  let ?env = "noting env" and ?av = "available_tokens (budget a)"
  obtain m1 n1 where e1: "evict_images ms p (keep_recent_images (budget a)) = (m1, n1)" by fastforce
  let ?a1 = "emit_pressure ?env (DroppedImages n1) n1 m1 a"
  obtain m2 n2 where e2: "truncate_long_tool_results m1 p (truncate_head_chars (budget a))
      (truncate_tail_chars (budget a)) = (m2, n2)" by fastforce
  let ?a2 = "emit_pressure ?env (TruncatedText n2) n2 m2 ?a1"
  obtain m3 c a3 where e3: "compact ?env m2 p ?a2 = ((m3, c), a3)" by (metis prod.exhaust)
  let ?a4 = "case c of None \<Rightarrow> a3 | Some n \<Rightarrow> emit (TranscriptCompacted (agent_task a3) n) a3"
  obtain m4 n4 where e4: "drop_oldest_until_fits m3 p ?av (env_estimate ?env) = (m4, n4)" by fastforce
  let ?a5 = "emit_pressure ?env (DroppedTurns n4) n4 m4 ?a4"
  have m1: "plain_end ms \<Longrightarrow> m1 \<noteq> [] \<and> last m1 = last ms"
    using last_evicted [OF e1] by (auto simp: plain_end_def)
  have m2: "plain_end ms \<Longrightarrow> m2 \<noteq> [] \<and> last m2 = last ms"
    using last_truncated [OF e2] m1 by (auto simp: plain_end_def)
  have a1: "ordinary a ?a1" and a2: "ordinary a ?a2" by (simp_all add: ord_pressure)
  have a3: "ordinary a a3" using ord_compact [OF e3 a2] .
  have a4: "ordinary a ?a4" using a3 by (cases c) (auto intro!: ord_emit simp: gate_event_def is_llm_started_def)
  have a5: "ordinary a ?a5" using a4 by (rule ord_pressure)
  have s4: "squeezed a ?a4" if "c \<noteq> None"
    using that squeezed_emit [OF a3] by (cases c) auto
  have s5: "squeezed a ?a5" if "c \<noteq> None \<or> 0 < n4"
    using that s4 squeezed_ordinary [of a ?a4 ?a5] squeezed_emit [OF a4] ord_pressure [OF ord_refl]
    by (auto simp: emit_pressure_def)
  have m3: "c = None \<Longrightarrow> m3 = m2" using e3 compact_silent by blast
  have m4: "n4 = 0 \<Longrightarrow> m4 = m3" using e4 drop_oldest_silent by blast
  have "plain_end ms \<Longrightarrow> ms \<noteq> []" by (simp add: plain_end_def)
  with fit e1 e2 e3 e4 a1 a2 a4 a5 s4 s5 m1 m2 m3 m4 show ?thesis
    by (cases c; cases "n4 = 0") (auto simp: fit_to_budget_def Let_def split: if_splits)
qed

section \<open>The gate\<close>

text \<open>
  Whether the model was asked to verify: one of the prompts it was sent after the events \<open>xs\<close> ends with
  the message that asks for it, or the events \<open>ys\<close> tell that messages were taken away to save tokens.
\<close>

definition asked_to_verify :: "event list \<Rightarrow> event list \<Rightarrow> message list list \<Rightarrow> bool" where
  "asked_to_verify xs ys ps \<longleftrightarrow>
     list_ex (\<lambda>p. p \<noteq> [] \<and> last p = system_message VERIFY_NUDGE) (drop (llm_calls xs) ps) \<or> list_ex squeezes ys"

text \<open>
  The gate after the events \<open>pre\<close> and the prompts \<open>L\<close>: it was used when \<open>Verifying\<close> was announced, once,
  after a tool call that changed something, and then the model was asked, or (\<open>pending\<close>) is about to be.
\<close>

definition gate_state ::
  "event list \<Rightarrow> message list list \<Rightarrow> task_id \<Rightarrow> bool \<Rightarrow> bool \<Rightarrow> ('w \<times> message list list, 'v) agent \<Rightarrow> bool" where
  "gate_state pre L tid used pending a \<longleftrightarrow>
     (\<exists>evs ps. events a = pre @ evs \<and> prompts a = L @ ps \<and> length ps = llm_calls evs \<and>
        (if used
         then \<exists>xs ys. evs = xs @ StateChanged tid Verifying # ys \<and> ungated xs \<and> ungated ys \<and> last_mutated xs \<and>
                (pending \<or> asked_to_verify xs ys ps)
         else ungated evs))"

lemma asked_append:
  assumes "asked_to_verify xs ys ps"
  shows "asked_to_verify xs (ys @ ys') (ps @ ps')"
  using assms by (auto simp: asked_to_verify_def)

lemma gate_state_appends:
  assumes gate: "gate_state pre L tid used pending a" and step: "appends a evs' ps' b"
    and asks: "\<And>xs ys ps. pending \<Longrightarrow> llm_calls xs \<le> length ps \<Longrightarrow> pending' \<or> asked_to_verify xs (ys @ evs') (ps @ ps')"
  shows "gate_state pre L tid used pending' b"
proof -
  obtain evs ps where a: "events a = pre @ evs" "prompts a = L @ ps" "length ps = llm_calls evs"
    and used: "if used
         then \<exists>xs ys. evs = xs @ StateChanged tid Verifying # ys \<and> ungated xs \<and> ungated ys \<and> last_mutated xs \<and>
                (pending \<or> asked_to_verify xs ys ps)
         else ungated evs"
    using gate by (auto simp: gate_state_def)
  have b: "events b = pre @ (evs @ evs')" "prompts b = L @ (ps @ ps')" "length (ps @ ps') = llm_calls (evs @ evs')"
    using a step by (simp_all add: appends_def)
  have un: "ungated evs'" using step by (simp add: appends_def)
  show ?thesis
  proof (cases used)
    case True
    with used obtain xs ys where split: "evs = xs @ StateChanged tid Verifying # ys" "ungated xs" "ungated ys"
        "last_mutated xs" "pending \<or> asked_to_verify xs ys ps" by auto
    then have "llm_calls xs \<le> length ps" using a(3) by simp
    with split(5) have "pending' \<or> asked_to_verify xs (ys @ evs') (ps @ ps')"
      using asks asked_append by blast
    then have "\<exists>xs' ys'. evs @ evs' = xs' @ StateChanged tid Verifying # ys' \<and> ungated xs' \<and> ungated ys' \<and>
        last_mutated xs' \<and> (pending' \<or> asked_to_verify xs' ys' (ps @ ps'))"
      using split un by (intro exI [of _ xs] exI [of _ "ys @ evs'"]) simp
    with b True show ?thesis unfolding gate_state_def by metis
  next
    case False
    with b used un show ?thesis
      unfolding gate_state_def by (intro exI [of _ "evs @ evs'"] exI [of _ "ps @ ps'"]) simp
  qed
qed

lemma gate_state_ord:
  assumes "gate_state pre L tid used pending a" and "ordinary a b" and "pending \<Longrightarrow> pending'"
  shows "gate_state pre L tid used pending' b"
proof -
  obtain evs ps where "appends a evs ps b" using assms(2) by (auto simp: ordinary_def)
  from gate_state_appends [OF assms(1) this] assms(3) show ?thesis by blast
qed

lemma gate_state_weaken: "gate_state pre L tid used False a \<Longrightarrow> gate_state pre L tid used pending a"
  by (erule gate_state_ord) simp_all

lemma gate_state_squeezed:
  assumes "gate_state pre L tid used pending a" and "squeezed a b"
  shows "gate_state pre L tid used False b"
proof -
  obtain evs ps where "appends a evs ps b" "list_ex squeezes evs" using assms(2) by (auto simp: squeezed_def)
  from gate_state_appends [OF assms(1) this(1)] this(2) show ?thesis by (simp add: asked_to_verify_def)
qed

lemma gate_state_prompt:
  assumes "gate_state pre L tid used pending a" and "appends a evs (ms # ps) b"
    and "pending \<Longrightarrow> ms \<noteq> [] \<and> last ms = system_message VERIFY_NUDGE"
  shows "gate_state pre L tid used False b"
  using gate_state_appends [OF assms(1,2)] assms(3) by (simp add: asked_to_verify_def)

definition nudged :: "turn \<Rightarrow> bool" where
  "nudged t \<longleftrightarrow> messages t \<noteq> [] \<and> last (messages t) = system_message VERIFY_NUDGE"

lemma nudged_plain: "nudged t \<Longrightarrow> plain_end (messages t)"
  by (auto simp: nudged_def plain_end_def system_message_def plain_message_def)

lemma gate_state_asked:
  assumes gate: "gate_state pre L tid used (nudged t) a"
    and fb: "fit_to_budget (noting env) (messages t) p a = (ms, a2)"
    and gr: "generate_with_retry (noting env) ms s 0 (set_state Thinking a2) = (r, a4)"
  shows "gate_state pre L tid used False a4"
proof -
  let ?a3 = "set_state Thinking a2"
  have a23: "ordinary a2 ?a3" by (rule ord_set_state) simp_all
  have fit: "ordinary a a2" "plain_end (messages t) \<Longrightarrow> squeezed a a2 \<or> ms \<noteq> [] \<and> last ms = last (messages t)"
    using fit_noted [OF fb] by blast+
  obtain evs ps where retry: "appends ?a3 evs (ms # ps) a4" using appends_retry [OF gr] by blast
  show ?thesis
  proof (cases "nudged t \<and> squeezed a a2")
    case True
    then have "gate_state pre L tid used False ?a3"
      using gate_state_squeezed [OF gate] gate_state_ord [OF _ a23] by blast
    from gate_state_prompt [OF this retry] show ?thesis by simp
  next
    case False
    have "gate_state pre L tid used (nudged t) ?a3"
      using gate_state_ord [OF gate ord_trans [OF fit(1) a23]] by blast
    moreover have "nudged t \<Longrightarrow> ms \<noteq> [] \<and> last ms = system_message VERIFY_NUDGE"
      using False fit(2) [OF nudged_plain] by (auto simp: nudged_def)
    ultimately show ?thesis using gate_state_prompt [OF _ retry] by blast
  qed
qed

text \<open>What is known when the turn answers.\<close>

definition answered_after_gate ::
  "event list \<Rightarrow> message list list \<Rightarrow> task_id \<Rightarrow> string \<Rightarrow> ('w \<times> message list list, 'v) agent \<Rightarrow> bool" where
  "answered_after_gate pre L tid reply b \<longleftrightarrow>
     (\<exists>evs ps d. events b = pre @ evs @ (if last_mutated evs then [AnsweredUnverified tid] else []) @
          [StateChanged tid Responding, RequestCompleted tid d reply] \<and>
        prompts b = L @ ps \<and> length ps = llm_calls evs \<and> AnsweredUnverified tid \<notin> set evs \<and>
        (last_mutated evs \<or> StateChanged tid Verifying \<in> set evs \<longrightarrow>
          (\<exists>xs ys. evs = xs @ StateChanged tid Verifying # ys \<and> StateChanged tid Verifying \<notin> set xs \<union> set ys \<and>
             last_mutated xs \<and> asked_to_verify xs ys ps)))"

lemma ungated_mem: "ungated evs \<Longrightarrow> StateChanged t Verifying \<notin> set evs \<and> AnsweredUnverified t \<notin> set evs"
  by (auto simp: list_all_iff gate_event_def split: event.splits)

lemma tracks_mutated:
  assumes "tracks pre a (\<lambda>evs. turn_inv tid l evs t)" and "events a = pre @ evs"
  shows "unverified_mutation t = last_mutated evs"
  using assms by (auto simp: tracks_def turn_inv_def last_mutated_tool)

lemma gate_state_answered:
  assumes gate: "gate_state pre L tid used False a" and um: "\<And>evs. events a = pre @ evs \<Longrightarrow> um = last_mutated evs"
    and "um \<Longrightarrow> used"
    and b: "events b = events a @ (if um then [AnsweredUnverified tid] else []) @
      [StateChanged tid Responding, RequestCompleted tid d reply]" "prompts b = prompts a"
  shows "answered_after_gate pre L tid reply b"
proof -
  obtain evs ps where a: "events a = pre @ evs" "prompts a = L @ ps" "length ps = llm_calls evs"
    and used: "if used
         then \<exists>xs ys. evs = xs @ StateChanged tid Verifying # ys \<and> ungated xs \<and> ungated ys \<and> last_mutated xs \<and>
                asked_to_verify xs ys ps
         else ungated evs"
    using gate by (simp only: gate_state_def simp_thms) blast
  have um': "um = last_mutated evs" using um a(1) by blast
  have "AnsweredUnverified tid \<notin> set evs \<and> (last_mutated evs \<or> StateChanged tid Verifying \<in> set evs \<longrightarrow>
      (\<exists>xs ys. evs = xs @ StateChanged tid Verifying # ys \<and> StateChanged tid Verifying \<notin> set xs \<union> set ys \<and>
         last_mutated xs \<and> asked_to_verify xs ys ps))"
  proof (cases used)
    case True
    with used obtain xs ys where "evs = xs @ StateChanged tid Verifying # ys" "ungated xs" "ungated ys"
        "last_mutated xs" "asked_to_verify xs ys ps" by auto
    with ungated_mem [of xs tid] ungated_mem [of ys tid] show ?thesis by (intro conjI impI exI [of _ xs] exI [of _ ys]) auto
  next
    case False
    with used ungated_mem [of evs tid] assms(3) um' show ?thesis by auto
  qed
  with a b um' show ?thesis
    unfolding answered_after_gate_def by (intro exI [of _ evs] exI [of _ ps] exI [of _ d]) simp
qed

lemma answer_step_gate:
  assumes step: "answer_step (noting env) s txt t a = (st, b)" and tid: "agent_task a = tid"
    and inv: "tracks pre a (\<lambda>evs. turn_inv tid l evs t)"
    and gate: "gate_state pre L tid (verification_gate_used t) False a"
  shows "case st of
      Continue t' \<Rightarrow> gate_state pre L tid (verification_gate_used t') (nudged t') b
    | Finished res \<Rightarrow> \<forall>reply. res = Inr reply \<longrightarrow> answered_after_gate pre L tid reply b"
proof (cases "spoken txt")
  case None
  with step gate show ?thesis
    by (auto simp: answer_step_def Let_def split: if_splits prod.splits intro: gate_state_weaken)
next
  case (Some reply)
  show ?thesis
  proof (cases "unverified_mutation t \<and> \<not> verification_gate_used t")
    case True
    obtain evs ps where a: "events a = pre @ evs" "prompts a = L @ ps" "length ps = llm_calls evs" "ungated evs"
      using gate True by (auto simp: gate_state_def)
    have "last_mutated evs" using tracks_mutated [OF inv a(1)] True by simp
    with a(4) have "\<exists>xs ys. evs @ [StateChanged tid Verifying] = xs @ StateChanged tid Verifying # ys \<and> ungated xs \<and>
        ungated ys \<and> last_mutated xs"
      by (intro exI [of _ evs] exI [of _ "[]"]) simp
    moreover have "events (set_state Verifying a) = pre @ (evs @ [StateChanged tid Verifying])"
        "prompts (set_state Verifying a) = L @ ps" "length ps = llm_calls (evs @ [StateChanged tid Verifying])"
      using a tid by (simp_all add: is_llm_started_def)
    ultimately have "gate_state pre L tid True True (set_state Verifying a)"
      unfolding gate_state_def by (metis (no_types, lifting))
    moreover have "st = Continue (push_message (system_message VERIFY_NUDGE) (t\<lparr>verification_gate_used := True\<rparr>))"
        "b = set_state Verifying a"
      using step Some True by (auto simp: answer_step_def)
    moreover have "nudged (push_message (system_message VERIFY_NUDGE) u)" for u by (simp add: nudged_def)
    ultimately show ?thesis by simp
  next
    case False
    let ?a1 = "if unverified_mutation t then emit (AnsweredUnverified (agent_task a)) a else a"
    let ?a2 = "(set_state Responding ?a1)\<lparr>history := transcript_push (history a)
        (assistant_text_message reply) (env_estimate (noting env)) (available_tokens (budget a))\<rparr>"
    obtain d a3 where e: "elapsed (noting env) s ?a2 = (d, a3)" by fastforce
    have st: "st = Finished (Inr reply)" and b: "b = emit (RequestCompleted (agent_task a3) d reply) a3"
      using step Some False e by (auto simp: answer_step_def Let_def split: if_splits)
    have "prompts a3 = prompts ?a2"
      using ord_elapsed [OF e ord_refl] events_elapsed [OF e] by (auto simp: ordinary_def appends_def)
    then have "prompts b = prompts a" by (simp add: b)
    moreover have "events b = events a @ (if unverified_mutation t then [AnsweredUnverified tid] else []) @
        [StateChanged tid Responding, RequestCompleted tid d reply]"
      using events_elapsed [OF e] tid by (simp add: b)
    ultimately have "answered_after_gate pre L tid reply b"
      using gate_state_answered [OF gate tracks_mutated [OF inv]] False by blast
    with st show ?thesis by simp
  qed
qed

lemma turn_step_gate:
  assumes step: "turn_step (noting env) s p t a = (st, b)" and tid: "agent_task a = tid"
    and inv: "tracks pre a (\<lambda>evs. turn_inv tid (limits a) evs t)"
    and gate: "gate_state pre L tid (verification_gate_used t) (nudged t) a"
  shows "case st of
      Continue t' \<Rightarrow> gate_state pre L tid (verification_gate_used t') (nudged t') b
    | Finished res \<Rightarrow> \<forall>reply. res = Inr reply \<longrightarrow> answered_after_gate pre L tid reply b"
proof -
  let ?env = "noting env"
  obtain c a1 where ic: "is_cancelled ?env a = (c, a1)" by fastforce
  have a1: "evolves (quiet tid) a a1" using evolves_is_cancelled [OF ic] by blast
  obtain ms a2 where fb: "fit_to_budget ?env (messages t) p a1 = (ms, a2)" by fastforce
  let ?t = "t\<lparr>messages := ms\<rparr>" and ?a3 = "set_state Thinking a2"
  obtain r a4 where gr: "generate_with_retry ?env ms s 0 ?a3 = (r, a4)" by fastforce
  show ?thesis
  proof (cases "\<not> c \<and> (\<exists>resp. r = Inr resp)")
    case False
    with step ic fb gr have "\<exists>e. st = Finished (Inl e)"
      by (cases c; cases r) (auto simp: turn_step_def Let_def split: prod.splits)
    then show ?thesis by auto
  next
    case True
    then obtain resp where r: "\<not> c" "r = Inr resp" by blast
    have t1: "agent_task a1 = tid" using tid a1 by (auto dest: evolves_task)
    have a2: "evolves (quiet tid) a a2" using evolves_trans [OF a1 ev_fit_to_budget [OF fb t1]] .
    then have a3: "evolves (quiet tid) a ?a3" and t3: "agent_task ?a3 = tid"
      using tid by (auto simp: set_state_def dest: evolves_task intro!: evolves_emit)
    have a4: "evolves (quiet tid) a a4" using a3 retry_spec [OF gr t3] r(2) by (auto intro: evolves_trans)
    then have t4: "agent_task a4 = tid" using tid by (auto dest: evolves_task)
    have i4: "tracks pre a4 (\<lambda>evs. turn_inv tid (limits a) evs ?t)"
      using tracks_quiet [OF inv a4] by (simp add: turn_inv_def)
    have "gate_state pre L tid (verification_gate_used t) (nudged t) a1"
      using gate_state_ord [OF gate ord_is_cancelled [OF ic ord_refl]] by blast
    from gate_state_asked [OF this fb gr]
    have g4: "gate_state pre L tid (verification_gate_used ?t) False a4" by simp
    show ?thesis
    proof (cases "resp_tool_calls resp = []")
      case True
      with step ic fb gr r have "answer_step ?env s (resp_text resp) ?t a4 = (st, b)"
        by (simp add: turn_step_def Let_def)
      from answer_step_gate [OF this t4 i4 g4] show ?thesis .
    next
      case False
      obtain rr a6 where rc: "run_tool_calls ?env s (resp_tool_calls resp) ?t (set_state Executing a4) = (rr, a6)"
        by fastforce
      have "ordinary a4 (set_state Executing a4)" by (rule ord_set_state) simp_all
      then have "ordinary a4 a6" using ord_run_tool_calls [OF rc] ord_trans by blast
      from gate_state_ord [OF g4 this] ord_run_tool_calls [OF rc] step ic fb gr r False rc show ?thesis
        by (cases rr) (auto simp: turn_step_def Let_def)
    qed
  qed
qed

lemma process_loop_gate:
  "process_loop (noting env) s p t a = (Inr reply, b) \<Longrightarrow> agent_task a = tid \<Longrightarrow>
    tracks pre a (\<lambda>evs. turn_inv tid (limits a) evs t) \<Longrightarrow>
    gate_state pre L tid (verification_gate_used t) (nudged t) a \<Longrightarrow> answered_after_gate pre L tid reply b"
proof (induction "noting env" s p t a rule: process_loop.induct)
  case (1 s p t a)
  obtain st a1 where st: "turn_step (noting env) s p t a = (st, a1)" by fastforce
  note gate = turn_step_gate [OF st "1.prems"(2-4)] and tr = turn_step_trace [OF st "1.prems"(2,3)]
  note spec = turn_step_spec [OF st "1.prems"(2)]
  show ?case
  proof (cases st)
    case (Finished r)
    with gate st "1.prems"(1) show ?thesis by (simp add: process_loop.simps [of "noting env" s p t a])
  next
    case (Continue t')
    with spec "1.prems"(2) have "agent_task a1 = tid" "limits a1 = limits a"
      by (auto dest: evolves_task evolves_limits)
    moreover have "process_loop (noting env) s p t' a1 = (Inr reply, b)"
      using "1.prems"(1) st Continue by (simp add: process_loop.simps [of "noting env" s p t a])
    ultimately show ?thesis using "1.hyps" [OF st [symmetric] Continue] gate tr Continue by simp
  qed
qed

lemma prepare_noted:
  assumes "prepare (noting env) input source a = ((s, tid), r, b)"
  shows "\<exists>evs ps. events b = events a @ RequestStarted tid input source # evs \<and> ungated evs \<and>
    prompts b = prompts a @ ps \<and> length ps = llm_calls evs"
proof -
  let ?env = "noting env"
  obtain s' a1 where e1: "on_world (env_now ?env) a = (s', a1)" by fastforce
  obtain tid' a2 where e2: "on_world (env_task_id ?env) a1 = (tid', a2)" by fastforce
  let ?a3 = "emit (RequestStarted tid' input source) (a2\<lparr>current_task := task_state_new tid'\<rparr>)"
  let ?a4 = "(set_state Receiving ?a3)\<lparr>history := transcript_push (history a2) (user_message input)
                  (env_estimate ?env) (available_tokens (budget a2))\<rparr>"
  have [simp]: "agent_task (a2\<lparr>current_task := task_state_new tid'\<rparr>) = tid'"
    by (simp add: agent_task_def task_state_new_def)
  have a3: "events ?a3 = events a @ [RequestStarted tid' input source]" "prompts ?a3 = prompts a"
    using on_world_prompts [OF e1] on_world_prompts [OF e2] by simp_all
  have a4: "ordinary ?a3 ?a4"
    by (rule ord_same [OF ord_set_state [OF _ ord_refl, where st = Receiving]]) simp_all
  obtain r5 a5 where e5: "build_prompt_messages ?env ?a4 = (r5, a5)" by fastforce
  have a5: "ordinary ?a3 a5" by (rule ord_build_prompt [OF e5 a4])
  obtain ds a6 where e6: "on_world (env_device_tools ?env) a5 = (ds, a6)" by fastforce
  let ?a7 = "a6\<lparr>registry := set_device_tools (registry a6) ds\<rparr>"
  have a7: "ordinary ?a3 ?a7"
    by (rule ord_same [OF ord_on_world [OF e6 noting_keeps(7) a5]]) simp_all
  obtain pl a8 where e8: "\<And>ms. r5 = Inr ms \<Longrightarrow>
      build_plan ?env ms (definitions (registry ?a7)) (set_state Planning ?a7) = (pl, a8)"
    by (cases r5) fastforce+
  have a8: "ordinary ?a3 a8" if "r5 = Inr ms" for ms
    by (rule ord_build_plan [OF e8 [OF that] ord_set_state [OF _ a7]]) simp
  have plan: "ordinary ?a3 (emit (PlanCreated (agent_task a8) x) a8)" if "r5 = Inr ms" for ms x
    by (rule ord_emit [OF _ _ a8 [OF that]]) (simp_all add: gate_event_def is_llm_started_def)
  have "tid = tid' \<and> ordinary ?a3 b"
  proof (cases r5)
    case (Inl e)
    with assms e1 e2 e5 a5 show ?thesis by (auto simp: prepare_def Let_def)
  next
    case (Inr ms)
    with assms e1 e2 e5 e6 e8 [OF Inr] a7 a8 [OF Inr] plan [OF Inr] show ?thesis
      by (auto simp: prepare_def Let_def split: if_splits option.splits)
  qed
  then obtain evs ps where "tid = tid'" "appends ?a3 evs ps b" by (auto simp: ordinary_def)
  with a3 show ?thesis by (auto simp: appends_def)
qed

lemma process_from_gate:
  assumes "process_from (noting env) input source a = (Inr reply, b)"
  shows "\<exists>tid. answered_after_gate (events a @ [RequestStarted tid input source]) (prompts a) tid reply b"
proof -
  obtain s tid r a1 where p: "prepare (noting env) input source a = ((s, tid), r, a1)"
    by (metis prod.exhaust)
  let ?pre = "events a @ [RequestStarted tid input source]"
  obtain ms where r: "r = Inr ms" using assms p by (cases r) (auto simp: process_from_prepare)
  have loop: "process_loop (noting env) s (length ms) (turn_new ms) a1 = (Inr reply, b)"
    using assms p r by (simp add: process_from_prepare)
  obtain evs where "events a1 = ?pre @ evs" "list_all (quiet tid) evs" and t1: "agent_task a1 = tid"
    using prepare_spec [OF p] by (auto simp: starts_def)
  then have inv: "tracks ?pre a1 (\<lambda>evs. turn_inv tid (limits a1) evs (turn_new ms))"
    unfolding tracks_def by (intro exI [of _ evs]) (simp add: tool_events_quiet turn_inv_new)
  have "gate_state ?pre (prompts a) tid (verification_gate_used (turn_new ms)) (nudged (turn_new ms)) a1"
    using prepare_noted [OF p] by (auto simp: gate_state_def turn_new_def)
  from process_loop_gate [OF loop t1 inv this] show ?thesis by blast
qed

text \<open>
  C1. The verification gate. A request whose last tool call changed something is answered only with
  the mark \<open>AnsweredUnverified\<close>, right before the answer, and no other answer has the mark. Before such
  an answer, and whenever \<open>Verifying\<close> was announced, the model was asked to verify, once in the request:
  \<open>Verifying\<close> was announced when the last tool call so far had changed something, and a prompt the model
  was sent after it ends with the message that asks for it, unless the budget then took messages away.
  A change followed by a call that changes nothing is neither asked about nor marked.
\<close>

theorem verification_gate:
  "case process_from (noting env) input source a of (res, b) \<Rightarrow>
     \<forall>reply. res = Inr reply \<longrightarrow>
       (\<exists>tid evs ps d.
          events b = events a @ RequestStarted tid input source # evs @
            (if last_mutated evs then [AnsweredUnverified tid] else []) @
            [StateChanged tid Responding, RequestCompleted tid d reply] \<and>
          prompts b = prompts a @ ps \<and> length ps = llm_calls evs \<and> AnsweredUnverified tid \<notin> set evs \<and>
          (last_mutated evs \<or> StateChanged tid Verifying \<in> set evs \<longrightarrow>
            (\<exists>xs ys. evs = xs @ StateChanged tid Verifying # ys \<and> StateChanged tid Verifying \<notin> set xs \<union> set ys \<and>
               last_mutated xs \<and>
               (list_ex (\<lambda>p. p \<noteq> [] \<and> last p = system_message VERIFY_NUDGE) (drop (llm_calls xs) ps) \<or>
                list_ex squeezes ys))))"
  using process_from_gate [of env input source a]
  by (cases "process_from (noting env) input source a")
    (fastforce simp: answered_after_gate_def asked_to_verify_def)

text \<open>A scripted request: a call that changes something, then twice an answer.\<close>

definition noted_agent :: "((llm_error + llm_response) list \<times> message list list, unit) agent" where
  "noted_agent = \<lparr>world = (mutating_script, []), registry = registry_new, history = transcript_new (system_message ''s''),
     events = [], limits = loop_limits_default, budget = context_budget_default, planning_enabled = False,
     current_task = task_state_new ''t'', provider = ''p'', model = ''m''\<rparr>"

lemma noted_run:
  "\<exists>b. process_from (noting scripted_env) ''go'' Cli noted_agent = (Inr ''ok'', b) \<and>
     AnsweredUnverified ''1-1'' \<in> set (events b) \<and> \<not> list_ex squeezes (events b) \<and> hd (events b) = RequestStarted ''1-1'' ''go'' Cli"
  supply process_loop.simps [simp] generate_with_retry.simps [simp]
  by (simp add: scripted_defs noting_def lifted_def noted_agent_def)

theorem verification_gate_witness:
  "\<exists>b. process_from (noting scripted_env) ''go'' Cli noted_agent = (Inr ''ok'', b) \<and>
     AnsweredUnverified ''1-1'' \<in> set (events b) \<and> StateChanged ''1-1'' Verifying \<in> set (events b) \<and>
     list_ex (\<lambda>p. p \<noteq> [] \<and> last p = system_message VERIFY_NUDGE) (prompts b)"
proof -
  obtain b where run: "process_from (noting scripted_env) ''go'' Cli noted_agent = (Inr ''ok'', b)"
    and marked: "AnsweredUnverified ''1-1'' \<in> set (events b)" and quiet: "\<not> list_ex squeezes (events b)"
    and start: "hd (events b) = RequestStarted ''1-1'' ''go'' Cli"
    using noted_run by blast
  have a: "events noted_agent = []" "prompts noted_agent = []" by (simp_all add: noted_agent_def)
  from verification_gate [where env = scripted_env and input = "''go''" and source = Cli and a = noted_agent,
      unfolded run a prod.case append_Nil, THEN spec, THEN mp, OF refl]
  obtain tid evs ps d where
    evs: "events b = RequestStarted tid ''go'' Cli # evs @ (if last_mutated evs then [AnsweredUnverified tid] else []) @
        [StateChanged tid Responding, RequestCompleted tid d ''ok'']"
    and ps: "prompts b = ps" and unmarked: "AnsweredUnverified tid \<notin> set evs"
    and asked: "last_mutated evs \<or> StateChanged tid Verifying \<in> set evs \<longrightarrow>
          (\<exists>xs ys. evs = xs @ StateChanged tid Verifying # ys \<and> StateChanged tid Verifying \<notin> set xs \<union> set ys \<and>
             last_mutated xs \<and>
             (list_ex (\<lambda>p. p \<noteq> [] \<and> last p = system_message VERIFY_NUDGE) (drop (llm_calls xs) ps) \<or>
              list_ex squeezes ys))"
    by (elim exE conjE) (rule that)
  have "tid = ''1-1''" using start evs by simp
  then have "last_mutated evs" using evs unmarked marked by (auto split: if_splits)
  with asked obtain xs ys where split: "evs = xs @ StateChanged tid Verifying # ys"
    and nudge: "list_ex (\<lambda>p. p \<noteq> [] \<and> last p = system_message VERIFY_NUDGE) (drop (llm_calls xs) ps) \<or> list_ex squeezes ys"
    by blast
  have "\<not> list_ex squeezes ys" using quiet by (simp add: evs split)
  with nudge have "list_ex (\<lambda>p. p \<noteq> [] \<and> last p = system_message VERIFY_NUDGE) (prompts b)"
    unfolding ps by (auto simp: list_ex_iff dest: in_set_dropD)
  moreover have "StateChanged ''1-1'' Verifying \<in> set (events b)" using \<open>tid = ''1-1''\<close> by (simp add: evs split)
  ultimately show ?thesis using run marked by blast
qed

end
