(* ===== verification/Devices.thy ===== *)
theory Devices
  imports Protocol "HOL-Library.AList"
begin

text \<open>
  Connected devices: the tools a device publishes (\<open>application/tools/device_toolset.rs\<close>),
  the table of connected devices (\<open>application/devices/registry.rs\<close>) and the invocation of
  a capability over a shared connection (\<open>adapters/devices/websocket.rs\<close>) as a step
  relation over the table of pending requests.
\<close>

section \<open>A device's tools\<close>

text \<open>A \<open>RemoteDevice\<close> over a world \<open>'w\<close>.\<close>

record ('w, 'v) remote_device =
  rd_name :: string
  rd_capabilities :: "'v capability_definition list"
  rd_invoke :: "string \<Rightarrow> string \<Rightarrow> 'w \<Rightarrow> outcome \<times> 'w"

definition device_prefix :: "('w, 'v) remote_device \<Rightarrow> string" where
  "device_prefix d = rd_name d @ ''_''"

definition toolset_definitions :: "('w, 'v) remote_device \<Rightarrow> 'v tool_definition list" where
  "toolset_definitions d =
     map (\<lambda>c. \<lparr>td_name = device_prefix d @ cap_name c, td_description = cap_description c,
            td_parameters = cap_parameters c\<rparr>) (rd_capabilities d)"

definition toolset_handles :: "('w, 'v) remote_device \<Rightarrow> string \<Rightarrow> bool" where
  "toolset_handles d n \<longleftrightarrow> list_ex (\<lambda>t. td_name t = n) (toolset_definitions d)"

definition toolset_handles_bare :: "('w, 'v) remote_device \<Rightarrow> string \<Rightarrow> bool" where
  "toolset_handles_bare d n \<longleftrightarrow> list_ex (\<lambda>c. cap_name c = n) (rd_capabilities d)"

definition capability_called :: "('w, 'v) remote_device \<Rightarrow> string \<Rightarrow> string" where
  "capability_called d n = (case strip_prefix (device_prefix d) n of Some c \<Rightarrow> c | None \<Rightarrow> n)"

fun tool_outcome_of_outcome :: "outcome \<Rightarrow> tool_outcome" where
  "tool_outcome_of_outcome (OutcomeOk t m) = \<lparr>out_text = t, out_images = [], mutated = m\<rparr>"
| "tool_outcome_of_outcome (OutcomeErr code msg) =
     outcome_of_text (''ERROR ('' @ show_error_code code @ ''): '' @ msg)"

definition toolset_call :: "('w, 'v) remote_device \<Rightarrow> string \<Rightarrow> string \<Rightarrow> 'w \<Rightarrow> tool_outcome \<times> 'w" where
  "toolset_call d n args w =
     (case rd_invoke d (capability_called d n) args w of (out, w) \<Rightarrow> (tool_outcome_of_outcome out, w))"

lemma toolset_handles_iff:
  "toolset_handles d n \<longleftrightarrow> (\<exists>c \<in> set (rd_capabilities d). n = device_prefix d @ cap_name c)"
  by (auto simp: toolset_handles_def toolset_definitions_def list_ex_iff)

lemma capability_called_prefixed [simp]: "capability_called d (device_prefix d @ c) = c"
  by (simp add: capability_called_def strip_prefix_append)

lemma capability_called_bare:
  "\<not> starts_with (device_prefix d) n \<Longrightarrow> capability_called d n = n"
  by (auto simp: capability_called_def starts_with_iff strip_prefix_Some split: option.split)

text \<open>
  A call of a published tool runs exactly the capability that tool stands for, with the
  arguments it was given. A bare name runs the capability of that name only when it does not
  itself start with the device's prefix: otherwise the prefix is stripped from it and a
  different capability is invoked.
\<close>

theorem toolset_call_routing:
  "(\<forall>c \<in> set (rd_capabilities d).
      toolset_handles d (device_prefix d @ cap_name c) \<and>
      toolset_call d (device_prefix d @ cap_name c) args w =
        apfst tool_outcome_of_outcome (rd_invoke d (cap_name c) args w)) \<and>
   (\<forall>n. toolset_handles_bare d n \<and> \<not> starts_with (device_prefix d) n \<longrightarrow>
      toolset_call d n args w = apfst tool_outcome_of_outcome (rd_invoke d n args w)) \<and>
   (\<forall>n. toolset_call d (device_prefix d @ n) args w = apfst tool_outcome_of_outcome (rd_invoke d n args w))"
  by (auto simp: toolset_handles_iff toolset_call_def capability_called_bare apfst_def map_prod_def
      split: prod.split)

definition sample_device :: "(string list, unit) remote_device" where
  "sample_device = \<lparr>rd_name = ''open'',
     rd_capabilities = [\<lparr>cap_name = ''open_app'', cap_description = ''d'', cap_parameters = ()\<rparr>,
       \<lparr>cap_name = ''volume'', cap_description = ''d'', cap_parameters = ()\<rparr>],
     rd_invoke = (\<lambda>c args w. (OutcomeOk c True, w @ [c]))\<rparr>"

theorem toolset_call_routing_witness:
  "toolset_handles_bare sample_device ''volume'' \<and>
   toolset_call sample_device ''volume'' ''{}'' [] = (\<lparr>out_text = ''volume'', out_images = [], mutated = True\<rparr>, [''volume'']) \<and>
   toolset_handles_bare sample_device ''open_app'' \<and>
   snd (toolset_call sample_device ''open_app'' ''{}'' []) = [''app'']"
proof -
  have bare: "toolset_handles_bare sample_device ''volume''" "toolset_handles_bare sample_device ''open_app''"
    "\<not> starts_with (device_prefix sample_device) ''volume''"
    by (simp_all add: toolset_handles_bare_def sample_device_def device_prefix_def starts_with_def)
  have prefixed: "device_prefix sample_device @ ''app'' = ''open_app''"
    by (simp add: sample_device_def device_prefix_def)
  have invoke: "rd_invoke sample_device c args w = (OutcomeOk c True, w @ [c])" for c args w
    by (simp add: sample_device_def)
  have "toolset_call sample_device ''volume'' ''{}'' [] =
      apfst tool_outcome_of_outcome (rd_invoke sample_device ''volume'' ''{}'' [])"
    using toolset_call_routing [of sample_device "''{}''" "[]"] bare by blast
  moreover have "toolset_call sample_device (device_prefix sample_device @ ''app'') ''{}'' [] =
      apfst tool_outcome_of_outcome (rd_invoke sample_device ''app'' ''{}'' [])"
    using toolset_call_routing [of sample_device "''{}''" "[]"] by blast
  ultimately show ?thesis
    using bare by (simp add: prefixed invoke)
qed

section \<open>The registry of devices\<close>

text \<open>
  The hash map under its mutex, as an association list without duplicate keys; \<open>iter\<close> is
  the map's iteration order, which is unspecified.
\<close>

type_synonym 'd device_registry = "(string \<times> 'd) list"

definition device_registry_new :: "'d device_registry" where "device_registry_new = []"

definition register_device :: "string \<Rightarrow> 'd \<Rightarrow> 'd device_registry \<Rightarrow> 'd device_registry" where
  "register_device i d r = AList.update i d r"

definition remove_device :: "string \<Rightarrow> 'd device_registry \<Rightarrow> 'd device_registry" where
  "remove_device i r = AList.delete i r"

definition snapshot_devices ::
  "((string \<times> 'd) list \<Rightarrow> (string \<times> 'd) list) \<Rightarrow> 'd device_registry \<Rightarrow> 'd list" where
  "snapshot_devices iter r = map snd (iter r)"

lemma map_of_register_device [simp]: "map_of (register_device i d r) = (map_of r)(i \<mapsto> d)"
  by (simp add: register_device_def update_conv')

lemma map_of_remove_device [simp]: "map_of (remove_device i r) = (map_of r)(i := None)"
  by (simp add: remove_device_def delete_conv')

lemma distinct_device_registry [simp]:
  "distinct (map fst r) \<Longrightarrow> distinct (map fst (register_device i d r))"
  "distinct (map fst r) \<Longrightarrow> distinct (map fst (remove_device i r))"
  by (simp_all add: register_device_def remove_device_def distinct_update distinct_delete)

section \<open>Invoking over a shared connection\<close>

text \<open>
  \<open>WsDevice::invoke\<close> runs on any number of threads at once, each with a channel of its
  own; they share the table of waiters (under its mutex) and the atomic counter. A state
  holds the table and every call so far, by the number of the call; a call is between two of
  the atomic actions of \<open>invoke\<close>:
    \<^item> \<open>Allocated\<close>: it has its request id;
    \<^item> \<open>Registered\<close>: its sender is in the table, the message is not sent yet;
    \<^item> \<open>Unsent e\<close>: the sink failed; \<open>Sent\<close>: it waits on its channel;
    \<^item> \<open>Expired\<close>: the wait timed out; \<open>Returned\<close>: it is over.
\<close>

datatype call_phase = Allocated | Registered | Unsent string | Sent | Expired | Returned outcome

record device_call =
  call_request :: string
  call_phase_of :: call_phase
  call_inbox :: "outcome list"

record ws_device =
  ws_name :: string
  ws_next_request :: u64
  ws_waiters :: "string \<rightharpoonup> nat"
  ws_calls :: "device_call list"

definition ws_device_new :: "string \<Rightarrow> ws_device" where
  "ws_device_new n = \<lparr>ws_name = n, ws_next_request = 0, ws_waiters = Map.empty, ws_calls = []\<rparr>"

definition call_update :: "nat \<Rightarrow> (device_call \<Rightarrow> device_call) \<Rightarrow> ws_device \<Rightarrow> ws_device" where
  "call_update c f d = d\<lparr>ws_calls := (ws_calls d)[c := f (ws_calls d ! c)]\<rparr>"

definition set_phase :: "nat \<Rightarrow> call_phase \<Rightarrow> ws_device \<Rightarrow> ws_device" where
  "set_phase c ph d = call_update c (\<lambda>k. k\<lparr>call_phase_of := ph\<rparr>) d"

text \<open>\<open>fetch_add\<close> on the counter, and the new channel.\<close>

definition allocate_request :: "ws_device \<Rightarrow> ws_device" where
  "allocate_request d = d\<lparr>ws_next_request := ws_next_request d + 1,
     ws_calls := ws_calls d @ [\<lparr>call_request = show_nat (unat (ws_next_request d)),
       call_phase_of = Allocated, call_inbox = []\<rparr>]\<rparr>"

definition register_waiter :: "nat \<Rightarrow> ws_device \<Rightarrow> ws_device" where
  "register_waiter c d =
     set_phase c Registered (d\<lparr>ws_waiters := (ws_waiters d)(call_request (ws_calls d ! c) \<mapsto> c)\<rparr>)"

text \<open>\<open>Pending::deliver\<close>, on behalf of the connection's reading thread.\<close>

definition deliver_result :: "string \<Rightarrow> outcome \<Rightarrow> ws_device \<Rightarrow> ws_device" where
  "deliver_result rid x d =
     (case ws_waiters d rid of
        None \<Rightarrow> d
      | Some c \<Rightarrow> call_update c (\<lambda>k. k\<lparr>call_inbox := call_inbox k @ [x]\<rparr>)
          (d\<lparr>ws_waiters := (ws_waiters d)(rid := None)\<rparr>))"

definition unreachable_outcome :: "ws_device \<Rightarrow> string \<Rightarrow> outcome" where
  "unreachable_outcome d e =
     OutcomeErr Failed (''could not reach device '' @ quote @ ws_name d @ quote @ '': '' @ e)"

definition timeout_outcome :: "ws_device \<Rightarrow> outcome" where
  "timeout_outcome d =
     OutcomeErr Timeout (''device '' @ quote @ ws_name d @ quote @ '' did not respond in time'')"

text \<open>The removal of the waiter on both error paths, and the outcome returned.\<close>

definition give_up :: "nat \<Rightarrow> outcome \<Rightarrow> ws_device \<Rightarrow> ws_device" where
  "give_up c x d =
     set_phase c (Returned x) (d\<lparr>ws_waiters := (ws_waiters d)(call_request (ws_calls d ! c) := None)\<rparr>)"

datatype ws_label =
    Allocate
  | Register nat
  | SendOk nat
  | SendErr nat string
  | Deliver string outcome
  | Receive nat
  | Expire nat
  | GiveUp nat

definition in_phase :: "ws_device \<Rightarrow> nat \<Rightarrow> call_phase \<Rightarrow> bool" where
  "in_phase d c ph \<longleftrightarrow> c < length (ws_calls d) \<and> call_phase_of (ws_calls d ! c) = ph"

inductive ws_step :: "ws_device \<Rightarrow> ws_label \<Rightarrow> ws_device \<Rightarrow> bool" where
  step_allocate: "ws_step d Allocate (allocate_request d)"
| step_register: "in_phase d c Allocated \<Longrightarrow> ws_step d (Register c) (register_waiter c d)"
| step_send: "in_phase d c Registered \<Longrightarrow> ws_step d (SendOk c) (set_phase c Sent d)"
| step_send_err: "in_phase d c Registered \<Longrightarrow> ws_step d (SendErr c e) (set_phase c (Unsent e) d)"
| step_deliver: "ws_step d (Deliver rid x) (deliver_result rid x d)"
| step_receive: "in_phase d c Sent \<Longrightarrow> call_inbox (ws_calls d ! c) = x # xs \<Longrightarrow>
    ws_step d (Receive c) (set_phase c (Returned x) d)"
| step_expire: "in_phase d c Sent \<Longrightarrow> call_inbox (ws_calls d ! c) = [] \<Longrightarrow>
    ws_step d (Expire c) (set_phase c Expired d)"
| step_unsent: "in_phase d c (Unsent e) \<Longrightarrow> ws_step d (GiveUp c) (give_up c (unreachable_outcome d e) d)"
| step_expired: "in_phase d c Expired \<Longrightarrow> ws_step d (GiveUp c) (give_up c (timeout_outcome d) d)"

code_pred ws_step .

inductive_cases ws_step_elims: "ws_step d l d'"

text \<open>A run from a new device, with its labels, the latest first.\<close>

inductive ws_run :: "string \<Rightarrow> ws_label list \<Rightarrow> ws_device \<Rightarrow> bool" for n where
  ws_run_start: "ws_run n [] (ws_device_new n)"
| ws_run_step: "ws_run n tr d \<Longrightarrow> ws_step d l d' \<Longrightarrow> ws_run n (l # tr) d'"

text \<open>
  The invariant: a waiter belongs to a call in flight that has the request id it is filed
  under and an empty channel; a channel holds at most one outcome, delivered for its request;
  what a call returned was delivered for its request or is one of its two errors.
\<close>

definition call_ok :: "string \<Rightarrow> ws_label list \<Rightarrow> device_call \<Rightarrow> bool" where
  "call_ok n tr k \<longleftrightarrow>
     length (call_inbox k) \<le> 1 \<and>
     (\<forall>x \<in> set (call_inbox k). Deliver (call_request k) x \<in> set tr) \<and>
     (case call_phase_of k of
        Allocated \<Rightarrow> call_inbox k = []
      | Returned x \<Rightarrow> Deliver (call_request k) x \<in> set tr \<or>
          (\<exists>e. x = unreachable_outcome (ws_device_new n) e) \<or> x = timeout_outcome (ws_device_new n)
      | _ \<Rightarrow> True)"

definition waiter_ok :: "ws_device \<Rightarrow> string \<Rightarrow> nat \<Rightarrow> bool" where
  "waiter_ok d rid c \<longleftrightarrow> c < length (ws_calls d) \<and>
     (let k = ws_calls d ! c in call_request k = rid \<and> call_inbox k = [] \<and>
        (case call_phase_of k of Allocated \<Rightarrow> False | Returned _ \<Rightarrow> False | _ \<Rightarrow> True))"

definition ws_inv :: "string \<Rightarrow> ws_label list \<Rightarrow> ws_device \<Rightarrow> bool" where
  "ws_inv n tr d \<longleftrightarrow> ws_name d = n \<and> (\<forall>k \<in> set (ws_calls d). call_ok n tr k) \<and>
     (\<forall>rid c. ws_waiters d rid = Some c \<longrightarrow> waiter_ok d rid c)"

lemma call_update_sel [simp]:
  "ws_name (call_update c f d) = ws_name d" "ws_waiters (call_update c f d) = ws_waiters d"
  "ws_calls (call_update c f d) = (ws_calls d)[c := f (ws_calls d ! c)]"
  by (simp_all add: call_update_def)

lemma call_ok_mono: "call_ok n tr k \<Longrightarrow> call_ok n (l # tr) k"
  by (auto simp: call_ok_def split: call_phase.splits)

lemma ws_inv_call: "ws_inv n tr d \<Longrightarrow> c < length (ws_calls d) \<Longrightarrow> call_ok n tr (ws_calls d ! c)"
  by (simp add: ws_inv_def)

lemma ws_inv_update:
  assumes inv: "ws_inv n tr d" and c: "c < length (ws_calls d)"
    and k: "call_ok n (l # tr) (f (ws_calls d ! c))"
    and w: "\<forall>rid c'. ws_waiters d' rid = Some c' \<longrightarrow>
      (if c' = c then waiter_ok (call_update c f d') rid c else ws_waiters d rid = Some c')"
    and d': "ws_calls d' = ws_calls d" "ws_name d' = ws_name d"
  shows "ws_inv n (l # tr) (call_update c f d')"
  unfolding ws_inv_def
proof (intro conjI ballI allI impI)
  show "ws_name (call_update c f d') = n" using inv d' by (simp add: ws_inv_def)
next
  fix k' assume "k' \<in> set (ws_calls (call_update c f d'))"
  then show "call_ok n (l # tr) k'"
    using inv k d' set_update_subset_insert [of "ws_calls d" c "f (ws_calls d ! c)"]
    by (auto simp: ws_inv_def intro: call_ok_mono)
next
  fix rid c' assume a: "ws_waiters (call_update c f d') rid = Some c'"
  show "waiter_ok (call_update c f d') rid c'"
  proof (cases "c' = c")
    case True
    with w a show ?thesis by auto
  next
    case False
    with w a have "ws_waiters d rid = Some c'" by auto
    with inv have "waiter_ok d rid c'" by (simp add: ws_inv_def)
    with False d' show ?thesis by (simp add: waiter_ok_def)
  qed
qed

lemma ws_inv_no_waiter:
  "ws_inv n tr d \<Longrightarrow> ws_waiters d rid = Some c \<Longrightarrow> call_request (ws_calls d ! c) = rid \<and>
     c < length (ws_calls d) \<and> call_inbox (ws_calls d ! c) = [] \<and>
     (case call_phase_of (ws_calls d ! c) of Allocated \<Rightarrow> False | Returned _ \<Rightarrow> False | _ \<Rightarrow> True)"
  by (auto simp: ws_inv_def waiter_ok_def Let_def)

lemma ws_inv_step:
  assumes "ws_step d l d'" and inv: "ws_inv n tr d"
  shows "ws_inv n (l # tr) d'"
  using assms(1)
proof (cases rule: ws_step.cases)
  case step_allocate
  have "call_ok n (l # tr) \<lparr>call_request = rid, call_phase_of = Allocated, call_inbox = []\<rparr>" for rid
    by (simp add: call_ok_def)
  then show ?thesis
    using inv step_allocate
    by (auto simp: ws_inv_def allocate_request_def waiter_ok_def nth_append Let_def intro: call_ok_mono less_SucI)
next
  case (step_register c)
  with inv ws_inv_call [OF inv, of c] show ?thesis
    unfolding step_register register_waiter_def set_phase_def in_phase_def
    by (intro ws_inv_update [OF inv])
      (auto simp: in_phase_def call_ok_def waiter_ok_def dest: ws_inv_no_waiter [OF inv])
next
  case (step_send c)
  with inv ws_inv_call [OF inv, of c] show ?thesis
    unfolding step_send set_phase_def
    by (intro ws_inv_update [OF inv])
      (auto simp: in_phase_def call_ok_def waiter_ok_def dest: ws_inv_no_waiter [OF inv])
next
  case (step_send_err c e)
  with inv ws_inv_call [OF inv, of c] show ?thesis
    unfolding step_send_err set_phase_def
    by (intro ws_inv_update [OF inv])
      (auto simp: in_phase_def call_ok_def waiter_ok_def dest: ws_inv_no_waiter [OF inv])
next
  case (step_deliver rid x)
  show ?thesis
  proof (cases "ws_waiters d rid")
    case None
    with inv show ?thesis
      unfolding step_deliver deliver_result_def by (auto simp: ws_inv_def intro: call_ok_mono)
  next
    case (Some c)
    note w = ws_inv_no_waiter [OF inv Some]
    with ws_inv_call [OF inv, of c] Some show ?thesis
      unfolding step_deliver deliver_result_def Some option.case
      by (intro ws_inv_update [OF inv])
        (auto simp: call_ok_def split: call_phase.splits dest: ws_inv_no_waiter [OF inv])
  qed
next
  case (step_receive c x xs)
  with inv ws_inv_call [OF inv, of c] show ?thesis
    unfolding step_receive(1,2) set_phase_def
    by (intro ws_inv_update [OF inv])
      (auto simp: in_phase_def call_ok_def waiter_ok_def dest: ws_inv_no_waiter [OF inv])
next
  case (step_expire c)
  with inv ws_inv_call [OF inv, of c] show ?thesis
    unfolding step_expire set_phase_def
    by (intro ws_inv_update [OF inv])
      (auto simp: in_phase_def call_ok_def waiter_ok_def dest: ws_inv_no_waiter [OF inv])
next
  case (step_unsent c e)
  have "ws_name d = n" using inv by (simp add: ws_inv_def)
  with step_unsent inv ws_inv_call [OF inv, of c] show ?thesis
    unfolding step_unsent set_phase_def give_up_def
    by (intro ws_inv_update [OF inv])
      (auto simp: in_phase_def call_ok_def unreachable_outcome_def ws_device_new_def dest: ws_inv_no_waiter [OF inv])
next
  case (step_expired c)
  have "ws_name d = n" using inv by (simp add: ws_inv_def)
  with step_expired inv ws_inv_call [OF inv, of c] show ?thesis
    unfolding step_expired set_phase_def give_up_def
    by (intro ws_inv_update [OF inv])
      (auto simp: in_phase_def call_ok_def timeout_outcome_def ws_device_new_def dest: ws_inv_no_waiter [OF inv])
qed

lemma ws_run_inv: "ws_run n tr d \<Longrightarrow> ws_inv n tr d"
proof (induction rule: ws_run.induct)
  case ws_run_start
  show ?case by (simp add: ws_inv_def ws_device_new_def)
next
  case (ws_run_step tr d l d')
  then show ?case by (blast intro: ws_inv_step)
qed

lemma ws_run_result:
  assumes "ws_run n tr d" and "c < length (ws_calls d)"
    and "call_phase_of (ws_calls d ! c) = Returned x"
  shows "Deliver (call_request (ws_calls d ! c)) x \<in> set tr \<or>
    (\<exists>e. x = unreachable_outcome d e) \<or> x = timeout_outcome d"
proof -
  note inv = ws_run_inv [OF assms(1)]
  have "ws_name d = n" using inv by (simp add: ws_inv_def)
  then show ?thesis
    using ws_inv_call [OF inv assms(2)] assms(3)
    by (auto simp: call_ok_def unreachable_outcome_def timeout_outcome_def ws_device_new_def)
qed

text \<open>
  C10. However the calls on one device and the arrival of its results interleave, a call
  returns an outcome the device sent for that call's own request id, or one of its own two
  errors; a result that is late, repeated or unknown never reaches another call's caller; and
  no finished call is left in the table of waiters.
\<close>

theorem results_are_not_misrouted:
  assumes "ws_run n tr d" and "c < length (ws_calls d)"
    and "call_phase_of (ws_calls d ! c) = Returned x"
  shows "(Deliver (call_request (ws_calls d ! c)) x \<in> set tr \<or>
      (\<exists>e. x = unreachable_outcome d e) \<or> x = timeout_outcome d) \<and>
    c \<notin> ran (ws_waiters d)"
  using ws_run_result [OF assms] ws_inv_no_waiter [OF ws_run_inv [OF assms(1)], of _ c] assms(3)
  by (auto simp: ran_def)

section \<open>A concrete run\<close>

text \<open>The step relation as a function, and two overlapping calls answered in the opposite order.\<close>

fun ws_do :: "ws_label \<Rightarrow> ws_device \<Rightarrow> ws_device option" where
  "ws_do Allocate d = Some (allocate_request d)"
| "ws_do (Register c) d = (if in_phase d c Allocated then Some (register_waiter c d) else None)"
| "ws_do (SendOk c) d = (if in_phase d c Registered then Some (set_phase c Sent d) else None)"
| "ws_do (SendErr c e) d = (if in_phase d c Registered then Some (set_phase c (Unsent e) d) else None)"
| "ws_do (Deliver rid x) d = Some (deliver_result rid x d)"
| "ws_do (Receive c) d = (if in_phase d c Sent then
     (case call_inbox (ws_calls d ! c) of x # xs \<Rightarrow> Some (set_phase c (Returned x) d) | [] \<Rightarrow> None) else None)"
| "ws_do (Expire c) d = (if in_phase d c Sent \<and> call_inbox (ws_calls d ! c) = []
     then Some (set_phase c Expired d) else None)"
| "ws_do (GiveUp c) d =
     (if c < length (ws_calls d) then
        (case call_phase_of (ws_calls d ! c) of
           Unsent e \<Rightarrow> Some (give_up c (unreachable_outcome d e) d)
         | Expired \<Rightarrow> Some (give_up c (timeout_outcome d) d)
         | _ \<Rightarrow> None)
      else None)"

lemma ws_do_iff: "ws_do l d = Some d' \<longleftrightarrow> ws_step d l d'"
proof
  show "ws_do l d = Some d' \<Longrightarrow> ws_step d l d'"
    by (cases l) (auto simp: in_phase_def intro: ws_step.intros split: if_splits list.splits call_phase.splits)
  show "ws_step d l d' \<Longrightarrow> ws_do l d = Some d'"
    by (elim ws_step_elims) (auto simp: in_phase_def)
qed

fun ws_exec :: "ws_label list \<Rightarrow> ws_device \<Rightarrow> ws_device option" where
  "ws_exec [] d = Some d"
| "ws_exec (l # ls) d = (case ws_do l d of None \<Rightarrow> None | Some d \<Rightarrow> ws_exec ls d)"

lemma ws_exec_run: "ws_exec ls d = Some d' \<Longrightarrow> ws_run n tr d \<Longrightarrow> ws_run n (rev ls @ tr) d'"
proof (induction ls arbitrary: d tr)
  case (Cons l ls)
  then obtain d1 where "ws_do l d = Some d1" "ws_exec ls d1 = Some d'"
    by (auto split: option.splits)
  with Cons.IH [of d1 "l # tr"] Cons.prems(2) show ?case
    by (simp add: ws_do_iff ws_run_step)
qed simp

definition overlapping_calls :: "ws_label list" where
  "overlapping_calls = [Allocate, Allocate, Register 1, Register 0, SendOk 0, SendOk 1,
     Deliver ''1'' (OutcomeOk ''second'' False), Deliver ''7'' (OutcomeOk ''stray'' False),
     Deliver ''0'' (OutcomeOk ''first'' True), Receive 0, Receive 1]"

lemma exec_overlapping:
  "\<exists>d. ws_exec overlapping_calls (ws_device_new ''pc'') = Some d \<and> length (ws_calls d) = 2 \<and>
     call_request (ws_calls d ! 0) = ''0'' \<and> call_phase_of (ws_calls d ! 0) = Returned (OutcomeOk ''first'' True)"
proof -
  have digits: "show_nat 0 = ''0''" "show_nat 1 = ''1''" "show_nat (Suc 0) = ''1''"
    by (simp_all add: show_nat.simps digit_char_def char_of_def bit_Suc bit_0)
  show ?thesis
    by (simp add: overlapping_calls_def ws_device_new_def allocate_request_def register_waiter_def set_phase_def
        call_update_def in_phase_def deliver_result_def digits)
qed

theorem results_are_not_misrouted_witness:
  "\<exists>d. ws_run ''pc'' (rev overlapping_calls) d \<and> call_phase_of (ws_calls d ! 0) = Returned (OutcomeOk ''first'' True) \<and>
     Deliver ''0'' (OutcomeOk ''first'' True) \<in> set overlapping_calls \<and> 0 \<notin> ran (ws_waiters d)"
proof -
  obtain d where d: "ws_exec overlapping_calls (ws_device_new ''pc'') = Some d" "length (ws_calls d) = 2"
    "call_request (ws_calls d ! 0) = ''0''" "call_phase_of (ws_calls d ! 0) = Returned (OutcomeOk ''first'' True)"
    using exec_overlapping by blast
  have run: "ws_run ''pc'' (rev overlapping_calls) d"
    using ws_exec_run [OF d(1) ws_run_start] by simp
  from results_are_not_misrouted [OF run _ d(4)] run d show ?thesis
    by (auto simp: unreachable_outcome_def timeout_outcome_def)
qed

end
