(* ===== verification/Autonomous_Loop.thy ===== *)
theory Autonomous_Loop
  imports Protocol
begin

text \<open>
  Autonomous events: the event of \<open>application/autonomous/event.rs\<close>, the queue of
  \<open>adapters/autonomous/in_memory_queue.rs\<close> behind \<open>ports/autonomous.rs\<close>, the policy of
  \<open>policy.rs\<close> and the loop of \<open>event_loop.rs\<close>. The mutex of the queue makes each of its
  operations atomic, so a concurrent run is a sequence of operations; a \<open>next\<close> that would
  wait on the condition variable is the result \<open>Waiting\<close>. The locale \<open>event_queue\<close> states
  the contract of the port, interpreted on the bounded queue.
\<close>

section \<open>Events\<close>

record 'v autonomous_event =
  ev_id :: string
  ev_source :: string
  ev_kind :: string
  ev_payload :: 'v
  ev_observed_at :: u64

text \<open>
  \<open>AutonomousEvent::new\<close> from the clock's milliseconds (read twice) and the counter of
  \<open>AutonomousEventId::new\<close>; the observation time is the \<open>u64\<close> truncation of the former.
\<close>

definition autonomous_event_new ::
  "nat \<Rightarrow> nat \<Rightarrow> u64 \<Rightarrow> string \<Rightarrow> string \<Rightarrow> 'v \<Rightarrow> 'v autonomous_event \<times> u64" where
  "autonomous_event_new observed millis counter source kind payload =
     (\<lparr>ev_id = show_nat millis @ ''-'' @ show_nat (unat counter), ev_source = source, ev_kind = kind,
       ev_payload = payload, ev_observed_at = of_nat observed\<rparr>, counter + 1)"

definition is_duplicate_of :: "'v autonomous_event \<Rightarrow> 'v autonomous_event \<Rightarrow> bool" where
  "is_duplicate_of a b \<longleftrightarrow>
     ev_source a = ev_source b \<and> ev_kind a = ev_kind b \<and> ev_payload a = ev_payload b"

section \<open>The contract of an event queue\<close>

datatype publish_outcome = Accepted | Duplicate | Dropped

datatype 'v next_result = Next "'v autonomous_event" | Exhausted | Waiting

datatype 'v queue_op = PublishOp "'v autonomous_event" | NextOp | CloseOp

text \<open>
  A run of operations on a queue, with the events it accepted and the events it delivered.
\<close>

fun run_queue ::
  "('v autonomous_event \<Rightarrow> 'q \<Rightarrow> publish_outcome \<times> 'q) \<Rightarrow> ('q \<Rightarrow> 'v next_result \<times> 'q) \<Rightarrow> ('q \<Rightarrow> 'q) \<Rightarrow>
     'v queue_op list \<Rightarrow> 'q \<Rightarrow> 'v autonomous_event list \<times> 'v autonomous_event list \<times> 'q" where
  "run_queue publish next_op close [] q = ([], [], q)"
| "run_queue publish next_op close (PublishOp e # ops) q =
     (case publish e q of (out, q) \<Rightarrow>
      case run_queue publish next_op close ops q of (acc, del, q) \<Rightarrow>
        (if out = Accepted then e # acc else acc, del, q))"
| "run_queue publish next_op close (NextOp # ops) q =
     (case next_op q of (res, q) \<Rightarrow>
      case run_queue publish next_op close ops q of (acc, del, q) \<Rightarrow>
        (acc, (case res of Next e \<Rightarrow> e # del | _ \<Rightarrow> del), q))"
| "run_queue publish next_op close (CloseOp # ops) q = run_queue publish next_op close ops (close q)"

locale event_queue =
  fixes pending :: "'q \<Rightarrow> 'v autonomous_event list"
    and closed :: "'q \<Rightarrow> bool"
    and capacity :: "'q \<Rightarrow> nat"
    and publish :: "'v autonomous_event \<Rightarrow> 'q \<Rightarrow> publish_outcome \<times> 'q"
    and next_op :: "'q \<Rightarrow> 'v next_result \<times> 'q"
    and close :: "'q \<Rightarrow> 'q"
  assumes publish_pending: "publish e q = (out, q') \<Longrightarrow>
      pending q' = (if out = Accepted then pending q @ [e] else pending q) \<and>
      closed q' = closed q \<and> capacity q' = capacity q"
    and publish_accepted: "publish e q = (Accepted, q') \<Longrightarrow>
      \<not> closed q \<and> length (pending q) < capacity q \<and> \<not> (\<exists>x \<in> set (pending q). is_duplicate_of x e)"
    and publish_open: "fst (publish e q) \<noteq> Accepted \<Longrightarrow>
      closed q \<or> capacity q \<le> length (pending q) \<or> (\<exists>x \<in> set (pending q). is_duplicate_of x e)"
    and next_pending: "next_op q = (case pending q of
        [] \<Rightarrow> (if closed q then Exhausted else Waiting, q)
      | e # es \<Rightarrow> (Next e, snd (next_op q)))"
    and next_rest: "pending (snd (next_op q)) = tl (pending q) \<and>
      closed (snd (next_op q)) = closed q \<and> capacity (snd (next_op q)) = capacity q"
    and close_pending: "pending (close q) = pending q \<and> closed (close q) \<and> capacity (close q) = capacity q"
begin

definition wf :: "'q \<Rightarrow> bool" where
  "wf q \<longleftrightarrow> length (pending q) \<le> capacity q \<and>
     sorted_wrt (\<lambda>x y. \<not> is_duplicate_of x y) (pending q)"

lemma publish_wf: "publish e q = (out, q') \<Longrightarrow> wf q \<Longrightarrow> wf q'"
  using publish_pending [of e q out q'] publish_accepted [of e q q']
  by (cases "out = Accepted") (auto simp: wf_def sorted_wrt_append)

lemma next_wf: "wf q \<Longrightarrow> wf (snd (next_op q))"
  using next_rest [of q] by (cases "pending q") (auto simp: wf_def)

lemma close_wf: "wf q \<Longrightarrow> wf (close q)"
  using close_pending [of q] by (simp add: wf_def)

lemma next_fst: "fst (next_op q) = (case pending q of
    [] \<Rightarrow> if closed q then Exhausted else Waiting | e # es \<Rightarrow> Next e)"
  using next_pending [of q] by (cases "pending q") (metis fst_conv list.simps(4), metis fst_conv list.simps(5))

lemma run_queue_wf: "wf q \<Longrightarrow> wf (snd (snd (run_queue publish next_op close ops q)))"
proof (induction ops arbitrary: q)
  case (Cons op ops)
  then show ?case
  proof (cases op)
    case (PublishOp e)
    with Cons show ?thesis
      using publish_wf by (auto split: prod.splits) (metis snd_conv)+
  next
    case NextOp
    with Cons show ?thesis
      using next_wf by (auto split: prod.splits) (metis snd_conv)+
  qed (simp add: close_wf)
qed simp

lemma run_queue_capacity: "capacity (snd (snd (run_queue publish next_op close ops q))) = capacity q"
proof (induction ops arbitrary: q)
  case (Cons op ops)
  then show ?case
    using publish_pending next_rest [of q] close_pending [of q]
    by (cases op) (auto split: prod.splits, (metis snd_conv)+)
qed simp

lemma run_queue_fifo:
  "run_queue publish next_op close ops q = (acc, del, q') \<Longrightarrow> pending q @ acc = del @ pending q'"
proof (induction ops arbitrary: q acc del)
  case (Cons op ops)
  then show ?case
  proof (cases op)
    case (PublishOp e)
    with Cons show ?thesis
      using publish_pending by (fastforce split: prod.splits if_splits)
  next
    case NextOp
    then obtain res q1 del1 where n: "next_op q = (res, q1)"
      and r: "run_queue publish next_op close ops q1 = (acc, del1, q')"
      and d: "del = (case res of Next e \<Rightarrow> e # del1 | _ \<Rightarrow> del1)"
      using Cons.prems by (auto split: prod.splits)
    from Cons.IH [OF r] n d show ?thesis
      using next_fst [of q] next_rest [of q] by (cases "pending q") (auto split: if_splits)
  next
    case CloseOp
    with Cons show ?thesis using close_pending [of q] by fastforce
  qed
qed simp

end

section \<open>The queue in memory\<close>

record 'v event_queue_state =
  q_events :: "'v autonomous_event list"
  q_closed :: bool
  q_capacity :: nat

definition queue_new :: "nat \<Rightarrow> 'v event_queue_state" where
  "queue_new cap = \<lparr>q_events = [], q_closed = False, q_capacity = cap\<rparr>"

definition publish :: "'v autonomous_event \<Rightarrow> 'v event_queue_state \<Rightarrow> publish_outcome \<times> 'v event_queue_state" where
  "publish e q =
     (if q_closed q then (Dropped, q)
      else if list_ex (\<lambda>queued. is_duplicate_of queued e) (q_events q) then (Duplicate, q)
      else if q_capacity q \<le> length (q_events q) then (Dropped, q)
      else (Accepted, q\<lparr>q_events := q_events q @ [e]\<rparr>))"

text \<open>One pass of the loop of \<open>next\<close>: \<open>Waiting\<close> is the wait on the condition variable.\<close>

definition next_event :: "'v event_queue_state \<Rightarrow> 'v next_result \<times> 'v event_queue_state" where
  "next_event q =
     (case q_events q of
        e # es \<Rightarrow> (Next e, q\<lparr>q_events := es\<rparr>)
      | [] \<Rightarrow> (if q_closed q then Exhausted else Waiting, q))"

definition close_queue :: "'v event_queue_state \<Rightarrow> 'v event_queue_state" where
  "close_queue q = q\<lparr>q_closed := True\<rparr>"

interpretation mem_queue: event_queue q_events q_closed q_capacity publish next_event close_queue
  by unfold_locales
    (auto simp: publish_def next_event_def close_queue_def list_ex_iff split: list.splits if_splits)

section \<open>The policy\<close>

datatype event_decision = Ignore string | Act string

text \<open>The sets of kinds; \<open>ignore\<close> is documentation only, as in the source.\<close>

record rule_policy =
  act_on :: "string list"
  ignore :: "string list"

definition default_kinds :: rule_policy where
  "default_kinds = \<lparr>act_on = [''battery_low'', ''button_pressed''],
     ignore = [''heartbeat'', ''telemetry'', ''device_connected'', ''device_disconnected'']\<rparr>"

text \<open>\<open>show_payload\<close> is the \<open>Display\<close> of a JSON value.\<close>

definition render_prompt :: "('v \<Rightarrow> string) \<Rightarrow> 'v autonomous_event \<Rightarrow> string" where
  "render_prompt show_payload e =
     ''An autonomous event occurred.'' @ nl @ ''Source: '' @ ev_source e @ nl @ ''Kind: '' @ ev_kind e @ nl @
     ''Details: '' @ show_payload (ev_payload e) @ nl @ nl @
     ''Determine whether any action or response is required, and act on it if so.''"

definition decide :: "('v \<Rightarrow> string) \<Rightarrow> rule_policy \<Rightarrow> 'v autonomous_event \<Rightarrow> event_decision" where
  "decide show_payload p e =
     (if ev_kind e \<in> set (act_on p) then Act (render_prompt show_payload e)
      else Ignore (quote @ ev_kind e @ quote @ '' is not on the act-on list''))"

section \<open>The loop\<close>

text \<open>
  The loop's state is the agent's and its clock's (type \<open>'a\<close>), and the events emitted. The
  agent is \<open>respond\<close>, the clock \<open>now\<close>; \<open>policy\<close> is any \<open>EventPolicy\<close>.
\<close>

record 'a event_loop =
  loop_agent :: 'a
  loop_events :: "event list"

definition process_event ::
  "('v autonomous_event \<Rightarrow> event_decision) \<Rightarrow> (string \<Rightarrow> 'a \<Rightarrow> (string + string) \<times> 'a) \<Rightarrow> ('a \<Rightarrow> duration) \<Rightarrow>
     'v autonomous_event \<Rightarrow> 'a event_loop \<Rightarrow> 'a event_loop" where
  "process_event policy respond now e st =
     (let st = st\<lparr>loop_events := loop_events st @ [AutonomousEventReceived (ev_id e) (ev_source e) (ev_kind e)]\<rparr> in
      case policy e of
        Ignore reason \<Rightarrow> st\<lparr>loop_events := loop_events st @ [AutonomousEventIgnored (ev_id e) reason]\<rparr>
      | Act prompt \<Rightarrow>
          (let st = st\<lparr>loop_events := loop_events st @ [AutonomousEventDelegated (ev_id e)]\<rparr>;
               started = now (loop_agent st)
           in case respond prompt (loop_agent st) of (res, a) \<Rightarrow>
             st\<lparr>loop_agent := a, loop_events := loop_events st @
                 [case res of
                    Inr reply \<Rightarrow> AutonomousEventCompleted (ev_id e) (now a - started) reply
                  | Inl err \<Rightarrow> AutonomousEventFailed (ev_id e) (now a - started) err]\<rparr>))"

text \<open>
  \<open>run\<close> until the queue is exhausted or \<open>next\<close> would block; the boolean says that the
  loop returned. Events published meanwhile are the contents of the queue when the loop
  resumes.
\<close>

function run_loop ::
  "('v autonomous_event \<Rightarrow> event_decision) \<Rightarrow> (string \<Rightarrow> 'a \<Rightarrow> (string + string) \<times> 'a) \<Rightarrow> ('a \<Rightarrow> duration) \<Rightarrow>
     'v event_queue_state \<Rightarrow> 'a event_loop \<Rightarrow> bool \<times> 'v event_queue_state \<times> 'a event_loop" where
  "run_loop policy respond now q st =
     (case next_event q of
        (Next e, q) \<Rightarrow> run_loop policy respond now q (process_event policy respond now e st)
      | (Exhausted, q) \<Rightarrow> (True, q, st)
      | (Waiting, q) \<Rightarrow> (False, q, st))"
  by pat_completeness auto
termination run_loop
  by (relation "measure (\<lambda>(p, r, n, q, st). length (q_events q))")
    (auto simp: next_event_def split: list.splits if_splits)

declare run_loop.simps [simp del]

section \<open>Properties\<close>

text \<open>
  Whatever operations publishers and the consumer interleave, events are delivered in
  the order they were accepted, each once: what was accepted is what was delivered followed
  by what still waits. The queue never exceeds its capacity and never holds two events that
  look the same.
\<close>

theorem queue_fifo:
  "case run_queue publish next_event close_queue ops (queue_new cap) of (acc, del, q) \<Rightarrow>
     acc = del @ q_events q \<and> length (q_events q) \<le> cap \<and>
     sorted_wrt (\<lambda>x y. \<not> is_duplicate_of x y) (q_events q)"
proof -
  obtain acc del q where r: "run_queue publish next_event close_queue ops (queue_new cap) = (acc, del, q)"
    by (metis prod.exhaust)
  with mem_queue.run_queue_fifo [OF r] mem_queue.run_queue_wf [of "queue_new cap" ops]
    mem_queue.run_queue_capacity [of ops "queue_new cap"] r show ?thesis
    by (simp add: mem_queue.wf_def queue_new_def)
qed

text \<open>
  What the loop reports of one event: it was received, and then ignored with the policy's
  reason, or delegated and then completed or failed.
\<close>

definition narrated ::
  "('v autonomous_event \<Rightarrow> event_decision) \<Rightarrow> 'v autonomous_event \<Rightarrow> event list \<Rightarrow> bool" where
  "narrated policy e evs \<longleftrightarrow> (case policy e of
      Ignore reason \<Rightarrow> evs = [AutonomousEventReceived (ev_id e) (ev_source e) (ev_kind e),
        AutonomousEventIgnored (ev_id e) reason]
    | Act _ \<Rightarrow> (\<exists>last. evs = [AutonomousEventReceived (ev_id e) (ev_source e) (ev_kind e),
        AutonomousEventDelegated (ev_id e), last] \<and>
        (\<exists>d x. last = AutonomousEventCompleted (ev_id e) d x \<or> last = AutonomousEventFailed (ev_id e) d x)))"

definition prompts :: "('v autonomous_event \<Rightarrow> event_decision) \<Rightarrow> 'v autonomous_event list \<Rightarrow> string list" where
  "prompts policy es = List.map_filter (\<lambda>e. case policy e of Act p \<Rightarrow> Some p | Ignore _ \<Rightarrow> None) es"

lemma process_event_spec:
  "\<exists>evs. loop_events (process_event policy respond now e st) = loop_events st @ evs \<and> narrated policy e evs"
  "loop_agent (process_event policy respond now e st) =
     fold (\<lambda>p a. snd (respond p a)) (prompts policy [e]) (loop_agent st)"
  by (auto simp: process_event_def narrated_def prompts_def Let_def List.map_filter_simps
      split: event_decision.split prod.split sum.split)

text \<open>
  The event loop handles the waiting events one at a time in order: each is reported as
  received and then as ignored, or as delegated and completed or failed; the agent is called
  once for each event the policy acts on, with its prompt, and never for another. The loop
  leaves the queue empty and returns exactly when it was closed.
\<close>

theorem run_loop_spec:
  "case run_loop policy respond now q st of (returned, q', st') \<Rightarrow>
     q_events q' = [] \<and> returned = q_closed q \<and>
     loop_agent st' = fold (\<lambda>p a. snd (respond p a)) (prompts policy (q_events q)) (loop_agent st) \<and>
     (\<exists>blocks. loop_events st' = loop_events st @ concat blocks \<and>
        list_all2 (narrated policy) (q_events q) blocks)"
proof (induction policy respond now q st rule: run_loop.induct)
  case (1 policy respond now q st)
  show ?case
  proof (cases "q_events q")
    case Nil
    then show ?thesis
      by (subst run_loop.simps) (auto simp: next_event_def prompts_def List.map_filter_simps)
  next
    case (Cons e es)
    let ?st = "process_event policy respond now e st" and ?q = "q\<lparr>q_events := es\<rparr>"
    have n: "next_event q = (Next e, ?q)" by (simp add: next_event_def Cons)
    obtain ret q' st' where r: "run_loop policy respond now ?q ?st = (ret, q', st')"
      by (metis prod.exhaust)
    from 1 [OF n [symmetric] refl] r obtain blocks where
      ih: "q_events q' = []" "ret = q_closed q"
        "loop_agent st' = fold (\<lambda>p a. snd (respond p a)) (prompts policy es) (loop_agent ?st)"
        "loop_events st' = loop_events ?st @ concat blocks" "list_all2 (narrated policy) es blocks"
      by auto
    obtain evs where "loop_events ?st = loop_events st @ evs" "narrated policy e evs"
      using process_event_spec(1) by blast
    with ih have "\<exists>blocks. loop_events st' = loop_events st @ concat blocks \<and>
        list_all2 (narrated policy) (e # es) blocks"
      by (intro exI [of _ "evs # blocks"]) simp
    moreover have "prompts policy (e # es) = prompts policy [e] @ prompts policy es"
      by (simp add: prompts_def List.map_filter_simps split: option.split)
    ultimately show ?thesis
      using ih(1-3) by (subst run_loop.simps) (auto simp: n r Cons process_event_spec(2))
  qed
qed

text \<open>
  Under the default policy only \<open>battery_low\<close> and \<open>button_pressed\<close> events reach the
  agent: for any other event the loop leaves the agent's state alone, whatever the agent is.
\<close>

theorem default_policy_is_quiet:
  assumes "\<forall>e \<in> set (q_events q). ev_kind e \<noteq> ''battery_low'' \<and> ev_kind e \<noteq> ''button_pressed''"
  shows "loop_agent (snd (snd (run_loop (decide show_payload default_kinds) respond now q st))) = loop_agent st"
  using assms
proof (induction "decide show_payload default_kinds" respond now q st rule: run_loop.induct)
  case (1 respond now q st)
  show ?case
  proof (cases "q_events q")
    case Nil
    then show ?thesis by (subst run_loop.simps) (simp add: next_event_def)
  next
    case (Cons e es)
    then have n: "next_event q = (Next e, q\<lparr>q_events := es\<rparr>)" by (simp add: next_event_def)
    have "prompts (decide show_payload default_kinds) [e] = []"
      using 1(2) Cons by (simp add: prompts_def decide_def default_kinds_def List.map_filter_simps)
    with 1(1) [OF n [symmetric] refl] 1(2) show ?thesis
      by (subst run_loop.simps) (simp add: n Cons process_event_spec(2))
  qed
qed

theorem default_policy_is_quiet_witness:
  "loop_agent (snd (snd (run_loop (decide (\<lambda>p. p) default_kinds) (\<lambda>p a. (Inr p, a @ [p])) length
     (snd (publish \<lparr>ev_id = ''1'', ev_source = ''esp32'', ev_kind = ''heartbeat'', ev_payload = ''{}'', ev_observed_at = 7\<rparr>
        (queue_new 4))) \<lparr>loop_agent = [], loop_events = []\<rparr>))) = []"
proof -
  let ?q = "snd (publish \<lparr>ev_id = ''1'', ev_source = ''esp32'', ev_kind = ''heartbeat'', ev_payload = ''{}'',
    ev_observed_at = 7\<rparr> (queue_new 4))"
  have "\<forall>e \<in> set (q_events ?q). ev_kind e \<noteq> ''battery_low'' \<and> ev_kind e \<noteq> ''button_pressed''"
    by (simp add: publish_def queue_new_def)
  then show ?thesis by (subst default_policy_is_quiet) simp_all
qed

end
