(* ===== verification/Device_Server.thy ===== *)
theory Device_Server
  imports Devices Autonomous_Loop
begin

text \<open>
  The device listener of \<open>apps/nala/src/device_server.rs\<close>: each connection runs
  \<open>handle_connection\<close> on its own thread against the shared registry and the shared event
  queue. A state holds every connection accepted so far; a label is one atomic action: an
  accept, one poll of one connection with what it read, or one action of an \<open>invoke\<close> on the
  device of a connection (by an assistant's thread). A change of the registry and the
  publication that follows it are one action here. The socket, the WebSocket framing and
  the JSON codec are the labels' inputs.
\<close>

section \<open>The handshake\<close>

datatype 'v wire_event = WireMessage "'v device_message" | WireIdle | WireClosed

definition HEARTBEAT_INTERVAL_MS :: u64 where "HEARTBEAT_INTERVAL_MS = 20000"

definition validate_hello :: "u16 \<Rightarrow> string \<Rightarrow> string option \<Rightarrow> reject_reason + unit" where
  "validate_hello version tok expected =
     (if version \<noteq> PROTOCOL_VERSION then Inl UnsupportedVersion
      else case expected of
          Some e \<Rightarrow> if e = tok then Inr () else Inl BadToken
        | None \<Rightarrow> Inl BadToken)"

text \<open>
  One poll of \<open>wait_for_hello\<close>: keep waiting, give the connection up, or a first message
  that is a hello.
\<close>

datatype 'v hello_wait = KeepWaiting | NoHello | GotHello "'v hello"

fun wait_for_hello :: "string + 'v wire_event \<Rightarrow> 'v hello_wait" where
  "wait_for_hello (Inr (WireMessage (Hello h))) = GotHello h"
| "wait_for_hello (Inr (WireMessage _)) = NoHello"
| "wait_for_hello (Inr WireIdle) = KeepWaiting"
| "wait_for_hello (Inr WireClosed) = NoHello"
| "wait_for_hello (Inl _) = NoHello"

section \<open>State\<close>

datatype conn_phase = AwaitHello | Serving string | Ended

record 'v conn =
  conn_phase_of :: conn_phase
  conn_device :: "ws_device option"
  conn_capabilities :: "'v capability_definition list"
  conn_replies :: "nala_message list"

record 'v server =
  srv_registry :: "nat device_registry"
  srv_conns :: "'v conn list"
  srv_queue :: "'v event_queue_state option"
  srv_counter :: u64

definition server_new :: "'v event_queue_state option \<Rightarrow> 'v server" where
  "server_new q = \<lparr>srv_registry = device_registry_new, srv_conns = [], srv_queue = q, srv_counter = 0\<rparr>"

definition accept_conn :: "'v server \<Rightarrow> 'v server" where
  "accept_conn st = st\<lparr>srv_conns := srv_conns st @
     [\<lparr>conn_phase_of = AwaitHello, conn_device = None, conn_capabilities = [], conn_replies = []\<rparr>]\<rparr>"

definition conn_update :: "nat \<Rightarrow> ('v conn \<Rightarrow> 'v conn) \<Rightarrow> 'v server \<Rightarrow> 'v server" where
  "conn_update c f st = st\<lparr>srv_conns := (srv_conns st)[c := f (srv_conns st ! c)]\<rparr>"

text \<open>\<open>millis\<close> is the clock of the new event; without a queue publishing does nothing.\<close>

definition publish_device_event ::
  "nat \<Rightarrow> string \<Rightarrow> string \<Rightarrow> 'v \<Rightarrow> 'v server \<Rightarrow> 'v server" where
  "publish_device_event millis did kind payload st =
     (case srv_queue st of
        None \<Rightarrow> st
      | Some q \<Rightarrow>
          (case autonomous_event_new millis millis (srv_counter st) did kind payload of (e, n) \<Rightarrow>
             st\<lparr>srv_queue := Some (snd (publish e q)), srv_counter := n\<rparr>))"

section \<open>One connection\<close>

text \<open>
  From a hello to the main loop; \<open>sent\<close> says whether the write of the reply succeeded, and
  \<open>null\<close> is the JSON null.
\<close>

definition serve_hello ::
  "string option \<Rightarrow> 'v \<Rightarrow> nat \<Rightarrow> bool \<Rightarrow> nat \<Rightarrow> 'v hello \<Rightarrow> 'v server \<Rightarrow> 'v server" where
  "serve_hello expected null millis sent c h st =
     (case validate_hello (protocol_version h) (token h) expected of
        Inl reason \<Rightarrow>
          conn_update c (\<lambda>k. k\<lparr>conn_phase_of := Ended, conn_replies := conn_replies k @ [Reject reason]\<rparr>) st
      | Inr _ \<Rightarrow>
          (let st = conn_update c (\<lambda>k. k\<lparr>conn_replies := conn_replies k @
                 [Welcome (device_id h) HEARTBEAT_INTERVAL_MS]\<rparr>) st in
           if \<not> sent then conn_update c (\<lambda>k. k\<lparr>conn_phase_of := Ended\<rparr>) st
           else publish_device_event millis (device_id h) ''device_connected'' null
             (conn_update c (\<lambda>k. k\<lparr>conn_phase_of := Serving (device_id h),
                  conn_device := Some (ws_device_new (device_name h)),
                  conn_capabilities := capabilities h\<rparr>)
               (st\<lparr>srv_registry := register_device (device_id h) c (srv_registry st)\<rparr>))))"

text \<open>The end of the main loop: remove the device by its id and report it.\<close>

definition end_session :: "'v \<Rightarrow> nat \<Rightarrow> nat \<Rightarrow> string \<Rightarrow> 'v server \<Rightarrow> 'v server" where
  "end_session null millis c did st =
     publish_device_event millis did ''device_disconnected'' null
       (conn_update c (\<lambda>k. k\<lparr>conn_phase_of := Ended\<rparr>)
         (st\<lparr>srv_registry := remove_device did (srv_registry st)\<rparr>))"

definition on_device :: "(ws_device \<Rightarrow> ws_device) \<Rightarrow> nat \<Rightarrow> 'v server \<Rightarrow> 'v server" where
  "on_device f c st = conn_update c (\<lambda>k. k\<lparr>conn_device := map_option f (conn_device k)\<rparr>) st"

text \<open>One iteration of the main loop.\<close>

fun serve_poll :: "'v \<Rightarrow> nat \<Rightarrow> nat \<Rightarrow> string \<Rightarrow> string + 'v wire_event \<Rightarrow> 'v server \<Rightarrow> 'v server" where
  "serve_poll null millis c did (Inr (WireMessage (Result rid x))) st = on_device (deliver_result rid x) c st"
| "serve_poll null millis c did (Inr (WireMessage (Pong _))) st = st"
| "serve_poll null millis c did (Inr (WireMessage (Hello _))) st = st"
| "serve_poll null millis c did (Inr (WireMessage (DeviceEvt kind payload))) st =
     publish_device_event millis did kind payload st"
| "serve_poll null millis c did (Inr WireIdle) st = st"
| "serve_poll null millis c did (Inr WireClosed) st = end_session null millis c did st"
| "serve_poll null millis c did (Inl _) st = end_session null millis c did st"

definition poll_conn ::
  "string option \<Rightarrow> 'v \<Rightarrow> nat \<Rightarrow> bool \<Rightarrow> nat \<Rightarrow> string + 'v wire_event \<Rightarrow> 'v server \<Rightarrow> 'v server" where
  "poll_conn expected null millis sent c ev st =
     (case conn_phase_of (srv_conns st ! c) of
        AwaitHello \<Rightarrow>
          (case wait_for_hello ev of
             KeepWaiting \<Rightarrow> st
           | NoHello \<Rightarrow> conn_update c (\<lambda>k. k\<lparr>conn_phase_of := Ended\<rparr>) st
           | GotHello h \<Rightarrow> serve_hello expected null millis sent c h st)
      | Serving did \<Rightarrow> serve_poll null millis c did ev st
      | Ended \<Rightarrow> st)"

section \<open>Runs of the listener\<close>

datatype 'v server_label =
    AcceptConn
  | PollConn nat "string + 'v wire_event" bool nat
  | DeviceCall nat ws_label

fun is_deliver :: "ws_label \<Rightarrow> bool" where
  "is_deliver (Deliver _ _) = True"
| "is_deliver _ = False"

text \<open>
  An \<open>invoke\<close> acts on the device of a connection that has one (an assistant may keep using
  it after the session ended); only the reading thread delivers.
\<close>

fun srv_do :: "string option \<Rightarrow> 'v \<Rightarrow> 'v server_label \<Rightarrow> 'v server \<Rightarrow> 'v server option" where
  "srv_do expected null AcceptConn st = Some (accept_conn st)"
| "srv_do expected null (PollConn c ev sent millis) st =
     (if c < length (srv_conns st) then Some (poll_conn expected null millis sent c ev st) else None)"
| "srv_do expected null (DeviceCall c l) st =
     (if c < length (srv_conns st) \<and> \<not> is_deliver l then
        (case conn_device (srv_conns st ! c) of
           None \<Rightarrow> None
         | Some d \<Rightarrow> map_option (\<lambda>d'. on_device (\<lambda>_. d') c st) (ws_do l d))
      else None)"

inductive srv_run ::
  "string option \<Rightarrow> 'v \<Rightarrow> 'v event_queue_state option \<Rightarrow> 'v server_label list \<Rightarrow> 'v server \<Rightarrow> bool"
  for expected null q where
  srv_start: "srv_run expected null q [] (server_new q)"
| srv_step: "srv_run expected null q tr st \<Longrightarrow> srv_do expected null l st = Some st' \<Longrightarrow>
    srv_run expected null q (l # tr) st'"

section \<open>The invariant\<close>

definition heard :: "'v server_label list \<Rightarrow> nat \<Rightarrow> 'v device_message \<Rightarrow> bool" where
  "heard tr c m \<longleftrightarrow> (\<exists>sent millis. PollConn c (Inr (WireMessage m)) sent millis \<in> set tr)"

definition device_ok :: "'v server_label list \<Rightarrow> nat \<Rightarrow> ws_device \<Rightarrow> bool" where
  "device_ok tr c d \<longleftrightarrow> (\<exists>n wtr. ws_run n wtr d \<and>
     (\<forall>rid x. Deliver rid x \<in> set wtr \<longrightarrow> heard tr c (Result rid x)))"

text \<open>The hello a device was made from: of the supported version, and with the configured token.\<close>

definition announced ::
  "string option \<Rightarrow> 'v server_label list \<Rightarrow> nat \<Rightarrow> string \<Rightarrow> 'v capability_definition list \<Rightarrow> bool" where
  "announced expected tr c n caps \<longleftrightarrow> (\<exists>h. heard tr c (Hello h) \<and> protocol_version h = PROTOCOL_VERSION \<and>
     expected = Some (token h) \<and> device_name h = n \<and> capabilities h = caps)"

definition conn_ok :: "string option \<Rightarrow> 'v server_label list \<Rightarrow> nat \<Rightarrow> 'v conn \<Rightarrow> bool" where
  "conn_ok expected tr c k \<longleftrightarrow>
     length (conn_replies k) \<le> 1 \<and>
     (case conn_device k of None \<Rightarrow> True | Some d \<Rightarrow> device_ok tr c d \<and> announced expected tr c (ws_name d) (conn_capabilities k)) \<and>
     (case conn_phase_of k of
        AwaitHello \<Rightarrow> conn_replies k = [] \<and> conn_device k = None
      | Serving did \<Rightarrow> conn_replies k = [Welcome did HEARTBEAT_INTERVAL_MS] \<and> conn_device k \<noteq> None \<and>
          (\<exists>h. heard tr c (Hello h) \<and> protocol_version h = PROTOCOL_VERSION \<and>
             expected = Some (token h) \<and> device_id h = did)
      | Ended \<Rightarrow> True)"

definition srv_inv :: "string option \<Rightarrow> 'v server_label list \<Rightarrow> 'v server \<Rightarrow> bool" where
  "srv_inv expected tr st \<longleftrightarrow>
     (\<forall>did c. map_of (srv_registry st) did = Some c \<longrightarrow>
        c < length (srv_conns st) \<and> conn_phase_of (srv_conns st ! c) = Serving did) \<and>
     (\<forall>c < length (srv_conns st). conn_ok expected tr c (srv_conns st ! c))"

lemma publish_device_event_sel [simp]:
  "srv_registry (publish_device_event m did k p st) = srv_registry st"
  "srv_conns (publish_device_event m did k p st) = srv_conns st"
  by (auto simp: publish_device_event_def split: option.split prod.split)

lemma conn_update_sel [simp]:
  "srv_registry (conn_update c f st) = srv_registry st"
  "srv_conns (conn_update c f st) = (srv_conns st)[c := f (srv_conns st ! c)]"
  by (simp_all add: conn_update_def)

lemma heard_mono: "heard tr c m \<Longrightarrow> heard (l # tr) c m"
  by (auto simp: heard_def)

lemma announced_mono: "announced expected tr c n caps \<Longrightarrow> announced expected (l # tr) c n caps"
  unfolding announced_def using heard_mono by fast

lemma announcedI:
  "heard tr c (Hello h) \<Longrightarrow> protocol_version h = PROTOCOL_VERSION \<Longrightarrow> expected = Some (token h) \<Longrightarrow>
    announced expected tr c (device_name h) (capabilities h)"
  unfolding announced_def by blast

lemma ws_name_new [simp]: "ws_name (ws_device_new n) = n"
  by (simp add: ws_device_new_def)

lemma ws_step_name: "ws_step d l d' \<Longrightarrow> ws_name d' = ws_name d"
  by (auto simp: allocate_request_def register_waiter_def set_phase_def deliver_result_def give_up_def
      elim!: ws_step_elims split: option.split)

lemma device_ok_mono: "device_ok tr c d \<Longrightarrow> device_ok (l # tr) c d"
  unfolding device_ok_def using heard_mono by fast

lemma conn_ok_mono: "conn_ok expected tr c k \<Longrightarrow> conn_ok expected (l # tr) c k"
  by (auto simp: conn_ok_def intro: device_ok_mono announced_mono heard_mono split: option.splits conn_phase.splits)

lemma device_ok_new: "device_ok tr c (ws_device_new n)"
  unfolding device_ok_def by (intro exI [of _ n] exI [of _ "[]"]) (simp add: ws_run_start)

lemma device_ok_step:
  assumes "device_ok tr c d" and "ws_step d l d'"
    and "\<And>rid x. l = Deliver rid x \<Longrightarrow> heard tr c (Result rid x)"
  shows "device_ok tr c d'"
proof -
  obtain n wtr where "ws_run n wtr d" "\<forall>rid x. Deliver rid x \<in> set wtr \<longrightarrow> heard tr c (Result rid x)"
    using assms(1) by (auto simp: device_ok_def)
  then show ?thesis
    unfolding device_ok_def using assms(2,3)
    by (intro exI [of _ n] exI [of _ "l # wtr"]) (auto intro: ws_run_step)
qed

text \<open>
  An action on one connection keeps the invariant when it keeps it for that connection and
  the registry changes as the phase does.
\<close>

lemma srv_inv_conn:
  assumes inv: "srv_inv expected tr st" and c: "c < length (srv_conns st)"
    and conns: "srv_conns st' = (srv_conns st)[c := k]"
    and ok: "conn_ok expected (l # tr) c k"
    and reg: "\<And>did c'. map_of (srv_registry st') did = Some c' \<Longrightarrow>
       (if c' = c then conn_phase_of k = Serving did else map_of (srv_registry st) did = Some c')"
  shows "srv_inv expected (l # tr) st'"
  unfolding srv_inv_def
proof (intro conjI allI impI)
  fix did c' assume "map_of (srv_registry st') did = Some c'"
  from reg [OF this] show "c' < length (srv_conns st')" "conn_phase_of (srv_conns st' ! c') = Serving did"
    using inv c conns by (auto simp: srv_inv_def split: if_splits)
next
  fix c' assume "c' < length (srv_conns st')"
  then show "conn_ok expected (l # tr) c' (srv_conns st' ! c')"
    using inv c conns ok by (auto simp: srv_inv_def nth_list_update intro: conn_ok_mono)
qed

lemma srv_inv_mono: "srv_inv expected tr st \<Longrightarrow> srv_registry st' = srv_registry st \<Longrightarrow>
    srv_conns st' = srv_conns st \<Longrightarrow> srv_inv expected (l # tr) st'"
  by (auto simp: srv_inv_def intro: conn_ok_mono)

lemma validate_hello_ok:
  "validate_hello v t expected = Inr u \<longleftrightarrow> v = PROTOCOL_VERSION \<and> expected = Some t"
  by (auto simp: validate_hello_def split: option.splits)

lemma srv_inv_serve_hello:
  assumes inv: "srv_inv expected tr st" and c: "c < length (srv_conns st)"
    and await: "conn_phase_of (srv_conns st ! c) = AwaitHello"
    and l: "l = PollConn c (Inr (WireMessage (Hello h))) sent millis"
  shows "srv_inv expected (l # tr) (serve_hello expected null millis sent c h st)"
proof -
  have k: "conn_replies (srv_conns st ! c) = []" "conn_device (srv_conns st ! c) = None"
    using inv c await by (auto simp: srv_inv_def conn_ok_def)
  have free: "map_of (srv_registry st) did \<noteq> Some c" for did
    using inv await by (auto simp: srv_inv_def)
  have hd: "heard (l # tr) c (Hello h)" by (auto simp: heard_def l)
  show ?thesis
  proof (cases "validate_hello (protocol_version h) (token h) expected")
    case (Inl reason)
    then show ?thesis
      unfolding serve_hello_def
      by (intro srv_inv_conn [OF inv c]) (auto simp: conn_ok_def k free)
  next
    case (Inr u)
    then have v: "protocol_version h = PROTOCOL_VERSION" "expected = Some (token h)"
      by (simp_all add: validate_hello_ok)
    show ?thesis
    proof (cases sent)
      case True
      then show ?thesis
        unfolding serve_hello_def Let_def Inr sum.case
        by (intro srv_inv_conn [OF inv c])
          (use c v hd in \<open>auto simp: conn_ok_def k free device_ok_new announcedI split: if_splits\<close>)
    next
      case False
      then show ?thesis
        unfolding serve_hello_def Let_def Inr sum.case
        by (intro srv_inv_conn [OF inv c])
          (use c v hd in \<open>auto simp: conn_ok_def k free split: if_splits\<close>)
    qed
  qed
qed

lemma srv_inv_end_session:
  assumes inv: "srv_inv expected tr st" and c: "c < length (srv_conns st)"
    and serving: "conn_phase_of (srv_conns st ! c) = Serving did"
  shows "srv_inv expected (l # tr) (end_session null millis c did st)"
proof -
  have ok: "conn_ok expected (l # tr) c (srv_conns st ! c)"
    using inv c by (auto simp: srv_inv_def intro: conn_ok_mono)
  have "map_of (srv_registry st) did' = Some c \<Longrightarrow> did' = did" for did'
    using inv serving by (auto simp: srv_inv_def)
  with ok show ?thesis
    unfolding end_session_def
    by (intro srv_inv_conn [OF inv c, where k = "(srv_conns st ! c)\<lparr>conn_phase_of := Ended\<rparr>"])
      (auto simp: conn_ok_def split: if_splits option.splits)
qed

lemma srv_inv_on_device:
  assumes inv: "srv_inv expected tr st" and c: "c < length (srv_conns st)"
    and d: "\<And>d. conn_device (srv_conns st ! c) = Some d \<Longrightarrow> device_ok (l # tr) c d \<Longrightarrow>
      device_ok (l # tr) c (f d) \<and> ws_name (f d) = ws_name d"
  shows "srv_inv expected (l # tr) (on_device f c st)"
proof -
  have ok: "conn_ok expected (l # tr) c (srv_conns st ! c)"
    using inv c by (auto simp: srv_inv_def intro: conn_ok_mono)
  then have "conn_ok expected (l # tr) c
      ((srv_conns st ! c)\<lparr>conn_device := map_option f (conn_device (srv_conns st ! c))\<rparr>)"
    using d by (cases "conn_device (srv_conns st ! c)") (auto simp: conn_ok_def split: conn_phase.splits)
  moreover have "map_of (srv_registry st) did = Some c' \<Longrightarrow>
      (if c' = c then conn_phase_of (srv_conns st ! c) = Serving did else True)" for did c'
    using inv by (auto simp: srv_inv_def)
  ultimately show ?thesis
    unfolding on_device_def
    by (intro srv_inv_conn [OF inv c, where k = "(srv_conns st ! c)\<lparr>conn_device :=
        map_option f (conn_device (srv_conns st ! c))\<rparr>"]) auto
qed

lemma srv_inv_serve_poll:
  assumes inv: "srv_inv expected tr st" and c: "c < length (srv_conns st)"
    and serving: "conn_phase_of (srv_conns st ! c) = Serving did"
    and l: "l = PollConn c ev sent millis"
  shows "srv_inv expected (l # tr) (serve_poll null millis c did ev st)"
proof (cases "(null, millis, c, did, ev, st)" rule: serve_poll.cases)
  case (1 null millis c did rid x st)
  have "device_ok (l # tr) c (deliver_result rid x d) \<and> ws_name (deliver_result rid x d) = ws_name d"
    if "device_ok (l # tr) c d" for d
    using device_ok_step [OF that step_deliver, of rid x] 1 l
    by (auto simp: heard_def intro: ws_step_name [OF step_deliver])
  with 1 inv c show ?thesis by (auto intro!: srv_inv_on_device)
qed (use inv c serving in \<open>auto intro: srv_inv_mono srv_inv_end_session\<close>)

lemma conn_ok_new: "conn_ok expected tr c \<lparr>conn_phase_of = AwaitHello, conn_device = None, conn_capabilities = [], conn_replies = []\<rparr>"
  by (simp add: conn_ok_def)

lemma srv_inv_step:
  assumes inv: "srv_inv expected tr st" and "srv_do expected null l st = Some st'"
  shows "srv_inv expected (l # tr) st'"
proof (cases l)
  case AcceptConn
  have "conn_ok expected (l # tr) c (srv_conns st ! c)" if "c < length (srv_conns st)" for c
    using inv that by (auto simp: srv_inv_def intro: conn_ok_mono)
  with AcceptConn assms show ?thesis
    by (auto simp: srv_inv_def accept_conn_def nth_append less_Suc_eq conn_ok_new)
next
  case (PollConn c ev sent millis)
  with assms have c: "c < length (srv_conns st)" and st': "st' = poll_conn expected null millis sent c ev st"
    by (auto split: if_splits)
  show ?thesis
  proof (cases "conn_phase_of (srv_conns st ! c)")
    case AwaitHello
    have ended: "srv_inv expected (l # tr) (conn_update c (\<lambda>k. k\<lparr>conn_phase_of := Ended\<rparr>) st)"
    proof -
      have "conn_ok expected (l # tr) c (srv_conns st ! c)"
        using inv c by (auto simp: srv_inv_def intro: conn_ok_mono)
      moreover have "map_of (srv_registry st) did \<noteq> Some c" for did
        using inv AwaitHello by (auto simp: srv_inv_def)
      ultimately show ?thesis
        by (intro srv_inv_conn [OF inv c, where k = "(srv_conns st ! c)\<lparr>conn_phase_of := Ended\<rparr>"])
          (auto simp: conn_ok_def split: option.splits)
    qed
    show ?thesis
      by (cases ev rule: wait_for_hello.cases)
        (use ended inv c AwaitHello PollConn st' in
          \<open>auto simp: poll_conn_def intro: srv_inv_mono srv_inv_serve_hello\<close>)
  next
    case (Serving did)
    with inv c PollConn st' show ?thesis
      by (auto simp: poll_conn_def intro: srv_inv_serve_poll)
  next
    case Ended
    with inv st' show ?thesis by (auto simp: poll_conn_def intro: srv_inv_mono)
  qed
next
  case (DeviceCall c w)
  with assms obtain d d' where c: "c < length (srv_conns st)" "\<not> is_deliver w"
    and d: "conn_device (srv_conns st ! c) = Some d" "ws_do w d = Some d'" and st': "st' = on_device (\<lambda>_. d') c st"
    by (auto split: if_splits option.splits)
  show ?thesis
    unfolding st'
  proof (rule srv_inv_on_device [OF inv c(1)])
    fix d0 assume "conn_device (srv_conns st ! c) = Some d0" "device_ok (l # tr) c d0"
    with d have "device_ok (l # tr) c d" "ws_step d w d'" by (simp_all add: ws_do_iff)
    moreover have "d0 = d" using d(1) \<open>conn_device (srv_conns st ! c) = Some d0\<close> by simp
    ultimately show "device_ok (l # tr) c d' \<and> ws_name d' = ws_name d0"
      using device_ok_step [of "l # tr" c d w d'] ws_step_name [of d w d'] c by (cases w) auto
  qed
qed

lemma srv_run_inv: "srv_run expected null q tr st \<Longrightarrow> srv_inv expected tr st"
proof (induction rule: srv_run.induct)
  case srv_start
  show ?case by (simp add: srv_inv_def server_new_def device_registry_new_def)
next
  case (srv_step tr st l st')
  then show ?case by (blast intro: srv_inv_step)
qed

text \<open>The registry never holds two entries of one id, and an entry always has its device.\<close>

lemma srv_do_registry:
  assumes "srv_do expected null l st = Some st'" and d: "distinct (map fst (srv_registry st))"
  shows "distinct (map fst (srv_registry st'))"
proof (cases l)
  case (PollConn c ev sent millis)
  have "distinct (map fst (srv_registry (serve_poll null millis c did ev st)))" for did
    using d by (cases "(null, millis, c, did, ev, st)" rule: serve_poll.cases) (auto simp: end_session_def on_device_def)
  with assms PollConn show ?thesis
    by (auto simp: poll_conn_def serve_hello_def Let_def split: if_splits conn_phase.splits hello_wait.splits sum.splits)
qed (use assms in \<open>auto simp: accept_conn_def on_device_def split: if_splits option.splits\<close>)

lemma srv_run_registry: "srv_run expected null q tr st \<Longrightarrow> distinct (map fst (srv_registry st))"
proof (induction rule: srv_run.induct)
  case srv_start
  show ?case by (simp add: server_new_def device_registry_new_def)
next
  case (srv_step tr st l st')
  show ?case by (rule srv_do_registry [OF srv_step(2,3)])
qed

lemma registered_connection:
  assumes "srv_run expected null q tr st" and "(did, c) \<in> set (srv_registry st)"
  shows "c < length (srv_conns st) \<and> conn_device (srv_conns st ! c) \<noteq> None"
proof -
  have "map_of (srv_registry st) did = Some c"
    using srv_run_registry [OF assms(1)] assms(2) by simp
  with srv_run_inv [OF assms(1)] show ?thesis by (fastforce simp: srv_inv_def conn_ok_def)
qed

section \<open>Properties\<close>

text \<open>
  C9. The listener fails closed: whatever the connections send and in whatever order, a
  registered device belongs to a connection that is being served, was welcomed, and whose
  hello carried the supported version and exactly the configured token; without a configured
  token nothing is ever registered.
\<close>

theorem registered_devices_authenticated:
  assumes "srv_run expected null q tr st" and "map_of (srv_registry st) did = Some c"
  shows "c < length (srv_conns st) \<and> conn_phase_of (srv_conns st ! c) = Serving did \<and>
    conn_replies (srv_conns st ! c) = [Welcome did HEARTBEAT_INTERVAL_MS] \<and>
    (\<exists>h. heard tr c (Hello h) \<and> protocol_version h = PROTOCOL_VERSION \<and>
       expected = Some (token h) \<and> device_id h = did)"
proof -
  have "c < length (srv_conns st)" "conn_phase_of (srv_conns st ! c) = Serving did"
    using srv_run_inv [OF assms(1)] assms(2) by (auto simp: srv_inv_def)
  moreover from this have "conn_ok expected tr c (srv_conns st ! c)"
    using srv_run_inv [OF assms(1)] by (simp add: srv_inv_def)
  ultimately show ?thesis by (simp add: conn_ok_def)
qed

text \<open>
  Across all connections and all concurrent invocations, what a call on a device returns
  is a result that device's own connection sent for that call's request id, or one of the
  call's two errors: no device can answer a call made to another one.
\<close>

theorem results_stay_on_their_connection:
  assumes "srv_run expected null q tr st" and "c < length (srv_conns st)"
    and "conn_device (srv_conns st ! c) = Some d"
    and "i < length (ws_calls d)" and "call_phase_of (ws_calls d ! i) = Returned x"
  shows "heard tr c (Result (call_request (ws_calls d ! i)) x) \<or>
    (\<exists>e. x = unreachable_outcome d e) \<or> x = timeout_outcome d"
proof -
  have "conn_ok expected tr c (srv_conns st ! c)"
    using srv_run_inv [OF assms(1)] assms(2) by (simp add: srv_inv_def)
  with assms(3) obtain n wtr where w: "ws_run n wtr d"
    "\<forall>rid x. Deliver rid x \<in> set wtr \<longrightarrow> heard tr c (Result rid x)"
    by (auto simp: conn_ok_def device_ok_def)
  show ?thesis
    using ws_run_result [OF w(1) assms(4,5)] w(2) by blast
qed

text \<open>
  C39. When a device reconnects under the same id while its old session is still open, the
  new session takes over the entry; but when the old session then ends, its removal by id
  takes out the new entry: the reconnected device is served and no longer listed.
\<close>

theorem stale_session_removes_reconnected_device:
  assumes "c < length (srv_conns st)" and "c' < length (srv_conns st)" and "c \<noteq> c'"
    and "conn_phase_of (srv_conns st ! c) = Serving did"
    and "conn_phase_of (srv_conns st ! c') = Serving did"
    and "map_of (srv_registry st) did = Some c'"
  shows "map_of (srv_registry (poll_conn expected null millis sent c (Inr WireClosed) st)) did = None \<and>
    conn_phase_of (srv_conns (poll_conn expected null millis sent c (Inr WireClosed) st) ! c') = Serving did"
  using assms by (simp add: poll_conn_def end_session_def)

section \<open>A concrete run\<close>

definition pc_hello :: "unit hello" where
  "pc_hello = \<lparr>protocol_version = 1, device_id = ''pc'', device_name = ''pc'', platform = ''windows'',
     token = ''secret'', capabilities = []\<rparr>"

fun srv_exec ::
  "string option \<Rightarrow> 'v \<Rightarrow> 'v server_label list \<Rightarrow> 'v server \<Rightarrow> 'v server option" where
  "srv_exec expected null [] st = Some st"
| "srv_exec expected null (l # ls) st =
     (case srv_do expected null l st of None \<Rightarrow> None | Some st \<Rightarrow> srv_exec expected null ls st)"

lemma srv_exec_run:
  "srv_exec expected null ls st = Some st' \<Longrightarrow> srv_run expected null q tr st \<Longrightarrow>
     srv_run expected null q (rev ls @ tr) st'"
proof (induction ls arbitrary: st tr)
  case (Cons l ls)
  then obtain st1 where "srv_do expected null l st = Some st1" "srv_exec expected null ls st1 = Some st'"
    by (auto split: option.splits)
  with Cons.IH [of st1 "l # tr"] Cons.prems(2) show ?case by (simp add: srv_step)
qed simp

definition reconnect :: "unit server_label list" where
  "reconnect = [AcceptConn, PollConn 0 (Inr WireIdle) True 0, PollConn 0 (Inr (WireMessage (Hello pc_hello))) True 1,
     AcceptConn, PollConn 1 (Inr (WireMessage (Hello pc_hello))) True 2]"

definition answered :: "unit server_label list" where
  "answered = reconnect @ [DeviceCall 1 Allocate, DeviceCall 1 (Register 0), DeviceCall 1 (SendOk 0),
     PollConn 1 (Inr (WireMessage (Result ''0'' (OutcomeOk ''hi'' False)))) True 3, DeviceCall 1 (Receive 0)]"

lemmas srv_defs = reconnect_def answered_def server_new_def accept_conn_def poll_conn_def conn_update_def
  serve_hello_def validate_hello_def pc_hello_def PROTOCOL_VERSION_def publish_device_event_def
  register_device_def device_registry_new_def

lemma exec_reconnect:
  "\<exists>st. srv_exec (Some ''secret'') () reconnect (server_new None) = Some st \<and> length (srv_conns st) = 2 \<and>
     map_of (srv_registry st) ''pc'' = Some 1 \<and> conn_phase_of (srv_conns st ! 0) = Serving ''pc'' \<and>
     conn_phase_of (srv_conns st ! 1) = Serving ''pc''"
  by (simp add: srv_defs)

lemma exec_answered:
  "\<exists>st d. srv_exec (Some ''secret'') () answered (server_new None) = Some st \<and> length (srv_conns st) = 2 \<and>
     conn_device (srv_conns st ! 1) = Some d \<and> length (ws_calls d) = 1 \<and>
     call_phase_of (ws_calls d ! 0) = Returned (OutcomeOk ''hi'' False) \<and> call_request (ws_calls d ! 0) = ''0''"
proof -
  have digit: "show_nat 0 = ''0''"
    by (simp add: show_nat.simps digit_char_def char_of_def bit_Suc bit_0)
  show ?thesis
    by (simp add: srv_defs ws_device_new_def on_device_def allocate_request_def register_waiter_def set_phase_def
        call_update_def in_phase_def deliver_result_def digit)
qed

theorem registered_devices_authenticated_witness:
  "\<exists>st. srv_run (Some ''secret'') () None (rev reconnect) st \<and> map_of (srv_registry st) ''pc'' = Some 1 \<and>
     conn_replies (srv_conns st ! 1) = [Welcome ''pc'' HEARTBEAT_INTERVAL_MS]"
proof -
  obtain st where st: "srv_exec (Some ''secret'') () reconnect (server_new None) = Some st"
    "map_of (srv_registry st) ''pc'' = Some 1"
    using exec_reconnect by blast
  have run: "srv_run (Some ''secret'') () None (rev reconnect) st"
    using srv_exec_run [OF st(1) srv_start] by simp
  from registered_devices_authenticated [OF run st(2)] run st(2) show ?thesis by blast
qed

theorem results_stay_on_their_connection_witness:
  "\<exists>st d. srv_run (Some ''secret'') () None (rev answered) st \<and> conn_device (srv_conns st ! 1) = Some d \<and>
     call_phase_of (ws_calls d ! 0) = Returned (OutcomeOk ''hi'' False) \<and>
     heard (rev answered) 1 (Result ''0'' (OutcomeOk ''hi'' False))"
proof -
  obtain st d where st: "srv_exec (Some ''secret'') () answered (server_new None) = Some st"
    "length (srv_conns st) = 2" "conn_device (srv_conns st ! 1) = Some d" "length (ws_calls d) = 1"
    "call_phase_of (ws_calls d ! 0) = Returned (OutcomeOk ''hi'' False)" "call_request (ws_calls d ! 0) = ''0''"
    using exec_answered by blast
  have run: "srv_run (Some ''secret'') () None (rev answered) st"
    using srv_exec_run [OF st(1) srv_start] by simp
  have "heard (rev answered) 1 (Result (call_request (ws_calls d ! 0)) (OutcomeOk ''hi'' False)) \<or>
      (\<exists>e. OutcomeOk ''hi'' False = unreachable_outcome d e) \<or> OutcomeOk ''hi'' False = timeout_outcome d"
    by (rule results_stay_on_their_connection [OF run _ st(3)]) (use st in simp_all)
  with run st show ?thesis
    by (auto simp: unreachable_outcome_def timeout_outcome_def)
qed

theorem stale_session_removes_reconnected_device_witness:
  "\<exists>st. srv_run (Some ''secret'') () None (rev reconnect) st \<and>
     map_of (srv_registry (poll_conn (Some ''secret'') () 9 True 0 (Inr WireClosed) st)) ''pc'' = None \<and>
     conn_phase_of (srv_conns (poll_conn (Some ''secret'') () 9 True 0 (Inr WireClosed) st) ! 1) = Serving ''pc''"
proof -
  obtain st where st: "srv_exec (Some ''secret'') () reconnect (server_new None) = Some st"
    "length (srv_conns st) = 2" "map_of (srv_registry st) ''pc'' = Some 1"
    "conn_phase_of (srv_conns st ! 0) = Serving ''pc''" "conn_phase_of (srv_conns st ! 1) = Serving ''pc''"
    using exec_reconnect by blast
  have "srv_run (Some ''secret'') () None (rev reconnect) st"
    using srv_exec_run [OF st(1) srv_start] by simp
  with stale_session_removes_reconnected_device [of 0 st 1 "''pc''" "Some ''secret''" "()" 9 True] st
  show ?thesis by auto
qed

end
