(* ===== verification/Agent_Ports.thy ===== *)
theory Agent_Ports
  imports Agent_Props
begin

text \<open>
  The contract between the agent loop and what it runs on. The locale \<open>agent_ports\<close> fixes the
  ports of an agent, an invariant of their world and what counts as an answer to a tool call in
  it; it assumes that every port keeps the invariant and all earlier answers, and that the
  dispatcher answers. Inside it every operation of the loop, up to a whole conversation of requests,
  is shown to keep the invariant and to report only such results in its \<open>ToolCompleted\<close> events.
\<close>

section \<open>What a completed call reports\<close>

text \<open>The result a \<open>ToolCompleted\<close> event reports, as \<open>execute_call\<close> turns it into text.\<close>

definition reports :: "('e \<Rightarrow> string) \<Rightarrow> 'e + tool_outcome \<Rightarrow> string \<Rightarrow> bool \<Rightarrow> bool" where
  "reports sh r out m \<longleftrightarrow> (case r of
      Inr o1 \<Rightarrow> out = out_text o1 \<and> m = mutated o1
    | Inl e \<Rightarrow> out = ''ERROR: '' @ sh e \<and> \<not> m)"

definition call_answered ::
  "('e \<Rightarrow> string) \<Rightarrow> (tool_call \<Rightarrow> 'e + tool_outcome \<Rightarrow> bool) \<Rightarrow> event \<Rightarrow> bool" where
  "call_answered sh D e = (case e of
      ToolCompleted tid i n d out k args m \<Rightarrow>
        (\<exists>r. D \<lparr>tc_name = n, tc_arguments = args\<rparr> r \<and> reports sh r out m)
    | _ \<Rightarrow> True)"

lemma call_answered_quiet: "quiet tid e \<Longrightarrow> call_answered sh D e"
  by (cases e) (auto simp: call_answered_def quiet_def is_tool_event_def)

lemma call_answered_simps [simp]:
  "call_answered sh D (ToolStarted tid i nm args)" "call_answered sh D (RequestStarted tid input src)"
  "call_answered sh D (RequestCompleted tid d reply)" "call_answered sh D (RequestFailed tid d reason)"
  "call_answered sh D (Cancelled tid)" "call_answered sh D (StateChanged tid st)"
  "call_answered sh D (PlanCreated tid p)" "call_answered sh D (Retrying tid k err)"
  "call_answered sh D (AnsweredUnverified tid)" "call_answered sh D (BudgetPressure tid bs n)"
  "call_answered sh D (TranscriptCompacted tid n)"
  "call_answered sh D (LlmStarted tid cid j n pr mo)" "call_answered sh D (LlmCompleted tid cid j d pr mo)"
  "call_answered sh D (LlmFailed tid cid j d err pr mo)" "call_answered sh D (TokensUsed tid cid j x y)"
  by (simp_all add: call_answered_def)

text \<open>
  A move of the world keeps the invariant and everything that has been answered; \<open>D w tc r\<close> says
  that \<open>r\<close> is an answer to \<open>tc\<close> in the world \<open>w\<close>.
\<close>

definition moves :: "('w \<Rightarrow> bool) \<Rightarrow> ('w \<Rightarrow> 'c \<Rightarrow> 'r \<Rightarrow> bool) \<Rightarrow> 'w \<Rightarrow> 'w \<Rightarrow> bool" where
  "moves W D w w' \<longleftrightarrow> W w' \<and> (\<forall>tc r. D w tc r \<longrightarrow> D w' tc r)"

lemma moves_refl: "W w \<Longrightarrow> moves W D w w"
  by (simp add: moves_def)

lemma moves_trans: "moves W D w w' \<Longrightarrow> moves W D w' w'' \<Longrightarrow> moves W D w w''"
  by (simp add: moves_def)

lemma moves_inv: "moves W D w w' \<Longrightarrow> W w'"
  by (simp add: moves_def)

lemma call_answered_moves: "moves W D w w' \<Longrightarrow> call_answered sh (D w) e \<Longrightarrow> call_answered sh (D w') e"
  by (auto simp: moves_def call_answered_def split: event.splits)

text \<open>A state of the agent: the invariant of the world, and every event so far answered in it.\<close>

definition sound ::
  "('w \<Rightarrow> bool) \<Rightarrow> ('w \<Rightarrow> event \<Rightarrow> bool) \<Rightarrow> ('w, 'v) agent \<Rightarrow> bool" where
  "sound W Q a \<longleftrightarrow> W (world a) \<and> list_all (Q (world a)) (events a)"

lemma sound_emit [simp]: "sound W Q (emit e a) \<longleftrightarrow> Q (world a) e \<and> sound W Q a"
  by (auto simp: sound_def emit_def)

lemma sound_update [simp]:
  "sound W Q (a\<lparr>history := h\<rparr>) = sound W Q a" "sound W Q (a\<lparr>registry := r\<rparr>) = sound W Q a"
  "sound W Q (a\<lparr>current_task := ts\<rparr>) = sound W Q a"
  by (simp_all add: sound_def)

section \<open>The contract\<close>

locale agent_ports =
  fixes env :: "('w, 'v, 'e) agent_env"
    and W :: "'w \<Rightarrow> bool"
    and D :: "'w \<Rightarrow> tool_call \<Rightarrow> 'e + tool_outcome \<Rightarrow> bool"
  assumes keep_now: "W w \<Longrightarrow> moves W D w (snd (env_now env w))"
    and keep_task_id: "W w \<Longrightarrow> moves W D w (snd (env_task_id env w))"
    and keep_is_cancelled: "W w \<Longrightarrow> moves W D w (snd (env_is_cancelled env w))"
    and keep_sleep: "W w \<Longrightarrow> moves W D w (env_sleep env d w)"
    and keep_generate: "W w \<Longrightarrow> moves W D w (snd (env_generate env ms tools w))"
    and keep_dispatch: "W w \<Longrightarrow> moves W D w (snd (env_dispatch env tc w))"
    and dispatch_answers: "W w \<Longrightarrow> D (snd (env_dispatch env tc w)) tc (fst (env_dispatch env tc w))"
    and keep_get_context: "W w \<Longrightarrow> moves W D w (snd (env_get_context env w))"
    and keep_device_tools: "W w \<Longrightarrow> moves W D w (snd (env_device_tools env w))"
    and keep_facts: "W w \<Longrightarrow> moves W D w (snd (env_facts env w))"
begin

abbreviation answered :: "'w \<Rightarrow> event \<Rightarrow> bool" where
  "answered w \<equiv> call_answered (env_show_error env) (D w)"

abbreviation ok :: "('w, 'v) agent \<Rightarrow> bool" where
  "ok \<equiv> sound W answered"

lemma ok_moves: "moves W D (world a) w \<Longrightarrow> ok a \<Longrightarrow> ok (a\<lparr>world := w\<rparr>)"
  by (auto simp: sound_def list_all_iff intro: call_answered_moves moves_inv)

lemma ok_on_world:
  "on_world f a = (x, b) \<Longrightarrow> (\<And>w. W w \<Longrightarrow> moves W D w (snd (f w))) \<Longrightarrow> ok a \<Longrightarrow> ok b"
proof -
  assume f: "on_world f a = (x, b)" and m: "\<And>w. W w \<Longrightarrow> moves W D w (snd (f w))" and a: "ok a"
  have "b = a\<lparr>world := snd (f (world a))\<rparr>" using f by (auto simp: on_world_def split: prod.splits)
  moreover have "W (world a)" using a by (simp add: sound_def)
  ultimately show ?thesis using ok_moves [OF m a] by simp
qed

lemma ok_ports:
  "on_world (env_now env) a = (t, b) \<Longrightarrow> ok a \<Longrightarrow> ok b"
  "on_world (env_task_id env) a = (tid, b) \<Longrightarrow> ok a \<Longrightarrow> ok b"
  "on_world (env_is_cancelled env) a = (c, b) \<Longrightarrow> ok a \<Longrightarrow> ok b"
  "on_world (env_generate env ms tools) a = (g, b) \<Longrightarrow> ok a \<Longrightarrow> ok b"
  "on_world (env_get_context env) a = (ctx, b) \<Longrightarrow> ok a \<Longrightarrow> ok b"
  "on_world (env_device_tools env) a = (ds, b) \<Longrightarrow> ok a \<Longrightarrow> ok b"
  "on_world (env_facts env) a = (fs, b) \<Longrightarrow> ok a \<Longrightarrow> ok b"
  by (erule ok_on_world, erule keep_now keep_task_id keep_is_cancelled keep_generate keep_get_context keep_device_tools keep_facts, assumption)+

lemma ok_elapsed: "elapsed env s a = (d, b) \<Longrightarrow> ok a \<Longrightarrow> ok b"
  by (auto simp: elapsed_def dest: ok_ports(1) split: prod.splits)

lemma ok_is_cancelled: "is_cancelled env a = (c, b) \<Longrightarrow> ok a \<Longrightarrow> ok b"
  by (simp add: is_cancelled_def ok_ports(3))

lemma ok_cancelled: "cancelled env s a = (e, b) \<Longrightarrow> ok a \<Longrightarrow> ok b"
  by (auto simp: cancelled_def dest: ok_elapsed split: prod.splits)

lemma ok_abort: "abort_turn env s reason err a = (e, b) \<Longrightarrow> ok a \<Longrightarrow> ok b"
  by (auto simp: abort_turn_def dest: ok_elapsed split: prod.splits)

lemma ok_set_state: "ok a \<Longrightarrow> ok (set_state st a)"
  by (simp add: set_state_def)

lemma ok_poll_worker: "poll_worker env n r a = (x, b) \<Longrightarrow> ok a \<Longrightarrow> ok b"
  by (induction n arbitrary: a)
    (auto split: option.splits prod.splits if_splits dest: ok_is_cancelled)

lemma ok_instrumented:
  assumes "instrumented_call_llm env ms tools a = (out, b)" "ok a"
  shows "ok b"
proof -
  obtain cid idx ts where n: "next_llm_call (current_task a) = ((cid, idx), ts)"
    by (metis prod.exhaust)
  let ?a1 = "emit (LlmStarted (agent_task a) cid idx (outgoing_images ms) (provider a) (model a))
      (a\<lparr>current_task := ts\<rparr>)"
  obtain start a2 where s2: "on_world (env_now env) ?a1 = (start, a2)" by fastforce
  obtain k r a3 where s3: "on_world (env_generate env ms tools) a2 = (Worker k r, a3)"
    by (metis llm_worker.exhaust prod.exhaust)
  obtain out' a4 where s4: "poll_worker env k r a3 = (out', a4)" by fastforce
  obtain d a5 where s5: "elapsed env start a4 = (d, a5)" by fastforce
  have "ok a5"
    using assms(2) by (intro ok_elapsed [OF s5] ok_poll_worker [OF s4] ok_ports(4) [OF s3] ok_ports(1) [OF s2]) simp
  with assms(1) n s2 s3 s4 s5 show ?thesis
    by (auto simp: instrumented_call_llm_def call_llm_def Let_def split: llm_call_outcome.splits sum.splits)
qed

lemma ok_generate: "generate env ms a = (out, b) \<Longrightarrow> ok a \<Longrightarrow> ok b"
  by (simp add: generate_def ok_instrumented)

lemma ok_retry:
  "generate_with_retry env' ms s attempt a = (res, b) \<Longrightarrow> env' = env \<Longrightarrow> ok a \<Longrightarrow> ok b"
proof (induction env' ms s attempt a arbitrary: res b rule: generate_with_retry.induct)
  case (1 env' ms s attempt a)
  obtain out a1 where g: "generate env ms a = (out, a1)" by fastforce
  have a1: "ok a1" using ok_generate [OF g "1.prems"(3)] .
  obtain c a2 where ic: "is_cancelled env a1 = (c, a2)" by fastforce
  have a2: "ok a2" using ok_is_cancelled [OF ic a1] .
  let ?a3 = "\<lambda>err. let a = emit (Retrying (agent_task a2) (attempt + 1) (show_llm_error err)) a2
         in a\<lparr>world := env_sleep env (retry_delay (limits a) attempt) (world a)\<rparr>"
  have a3: "ok (?a3 err)" for err
    unfolding Let_def using a2 by (intro ok_moves keep_sleep) (simp_all add: sound_def)
  note run = "1.prems"(1) [unfolded "1.prems"(2) generate_with_retry.simps [of env ms s attempt a] g]
  show ?case
  proof (cases "\<exists>err. out = Completed (Inl err) \<and>
      \<not> (\<not> is_retryable err \<or> max_llm_retries (limits a1) \<le> attempt) \<and> \<not> c")
    case False
    with run a1 a2 ic show ?thesis
      by (auto split: llm_call_outcome.splits sum.splits if_splits prod.splits dest: ok_cancelled)
  next
    case True
    then obtain err where err: "out = Completed (Inl err)"
      and retry: "\<not> (\<not> is_retryable err \<or> max_llm_retries (limits a1) \<le> attempt)" and c: "\<not> c" by blast
    from run err retry c ic have "generate_with_retry env ms s (attempt + 1) (?a3 err) = (res, b)" by simp
    from "1.IH" [unfolded "1.prems"(2), OF g [symmetric] err refl retry ic [symmetric] c this refl a3]
    show ?thesis .
  qed
qed

lemma ok_build_plan: "build_plan env ms tools a = (r, b) \<Longrightarrow> ok a \<Longrightarrow> ok b"
  by (auto simp: build_plan_def dest: ok_instrumented
      split: prod.splits llm_call_outcome.splits sum.splits)

lemma ok_compact: "compact env ms p a = (r, b) \<Longrightarrow> ok a \<Longrightarrow> ok b"
  by (auto simp: compact_def Let_def dest: ok_instrumented
      split: prod.splits llm_call_outcome.splits sum.splits option.splits if_splits)

lemma ok_pressure: "ok a \<Longrightarrow> ok (emit_pressure env st n ms a)"
  by (simp add: emit_pressure_def)

lemma ok_fit:
  assumes "fit_to_budget env ms p a = (ms', b)" "ok a"
  shows "ok b"
proof -
  let ?av = "available_tokens (budget a)"
  obtain m1 n1 where e1: "evict_images ms p (keep_recent_images (budget a)) = (m1, n1)" by fastforce
  let ?a1 = "emit_pressure env (DroppedImages n1) n1 m1 a"
  obtain m2 n2 where e2: "truncate_long_tool_results m1 p (truncate_head_chars (budget a))
      (truncate_tail_chars (budget a)) = (m2, n2)" by fastforce
  let ?a2 = "emit_pressure env (TruncatedText n2) n2 m2 ?a1"
  obtain m3 c a3 where e3: "compact env m2 p ?a2 = ((m3, c), a3)" by (metis prod.exhaust)
  obtain m4 n4 where e4: "drop_oldest_until_fits m3 p ?av (env_estimate env) = (m4, n4)" by fastforce
  have a1: "ok ?a1" and a2: "ok ?a2" using assms(2) by (simp_all add: ok_pressure)
  then have "ok a3" using ok_compact [OF e3] by simp
  with a1 a2 assms e1 e2 e3 e4 show ?thesis
    by (auto simp: fit_to_budget_def Let_def ok_pressure split: if_splits option.splits)
qed

lemma ok_build_prompt: "build_prompt_messages env a = (r, b) \<Longrightarrow> ok a \<Longrightarrow> ok b"
  by (auto simp: build_prompt_messages_def dest: ok_ports split: prod.splits sum.splits)

lemma ok_execute:
  assumes "execute_call env tc t a = (t', b)" "ok a"
  shows "ok b"
proof -
  let ?a1 = "emit (ToolStarted (agent_task a) (of_nat (tool_call_count t + 1)) (tc_name tc) (tc_arguments tc)) a"
  obtain start a2 where e2: "on_world (env_now env) ?a1 = (start, a2)" by fastforce
  obtain dr a3 where e3: "on_world (env_dispatch env tc) a2 = (dr, a3)" by fastforce
  obtain d a4 where e4: "elapsed env start a3 = (d, a4)" by fastforce
  have a2: "ok a2" using assms(2) by (intro ok_ports(1) [OF e2]) simp
  then have W2: "W (world a2)" by (simp add: sound_def)
  have dr: "dr = fst (env_dispatch env tc (world a2))" "world a3 = snd (env_dispatch env tc (world a2))"
    using e3 by (auto simp: on_world_def split: prod.splits)
  have a3: "ok a3" using ok_on_world [OF e3 keep_dispatch a2] .
  have "world a4 = snd (env_now env (world a3))"
    using e4 by (auto simp: elapsed_def on_world_def split: prod.splits)
  moreover have "D (world a3) tc dr" using dispatch_answers [OF W2, of tc] dr by simp
  moreover have "W (world a3)" using a3 by (simp add: sound_def)
  ultimately have D: "D (world a4) tc dr" using keep_now [of "world a3"] by (simp add: moves_def)
  have eta: "\<lparr>tc_name = tc_name tc, tc_arguments = tc_arguments tc\<rparr> = tc" by simp
  have "ok a4" by (rule ok_elapsed [OF e4 a3])
  moreover have "answered (world a4) (ToolCompleted (agent_task a4) i (tc_name tc) d (out_text out) k (tc_arguments tc) (mutated out))"
    if "out = (case dr of Inr out \<Rightarrow> out | Inl e \<Rightarrow> outcome_of_text (''ERROR: '' @ env_show_error env e))" for i k out
    using that D by (auto simp: call_answered_def reports_def eta split: sum.splits intro!: exI [of _ dr])
  ultimately show ?thesis
    using assms(1) e2 e3 e4 by (auto simp: execute_call_def Let_def split: sum.splits)
qed

lemma ok_run_tool_call: "run_tool_call env s tc t a = (r, b) \<Longrightarrow> ok a \<Longrightarrow> ok b"
  by (auto simp: run_tool_call_def check_limits_def Let_def dest: ok_execute ok_abort
      split: prod.splits if_splits)

lemma ok_run_tool_calls: "run_tool_calls env s tcs t a = (r, b) \<Longrightarrow> ok a \<Longrightarrow> ok b"
proof (induction tcs arbitrary: t a)
  case (Cons tc tcs)
  then show ?case
    by (auto split: prod.splits if_splits sum.splits dest: ok_is_cancelled ok_cancelled ok_run_tool_call)
qed auto

lemma ok_answer: "answer_step env s txt t a = (st, b) \<Longrightarrow> ok a \<Longrightarrow> ok b"
  by (auto simp: answer_step_def Let_def ok_set_state dest!: ok_elapsed dest: ok_abort
      split: option.splits if_splits prod.splits)

lemma ok_turn_step:
  assumes "turn_step env s p t a = (st, b)" "ok a"
  shows "ok b"
proof -
  obtain c a1 where ic: "is_cancelled env a = (c, a1)" by fastforce
  obtain ms a2 where fb: "fit_to_budget env (messages t) p a1 = (ms, a2)" by fastforce
  obtain r a4 where gr: "generate_with_retry env ms s 0 (set_state Thinking a2) = (r, a4)" by fastforce
  have a1: "ok a1" using ok_is_cancelled [OF ic assms(2)] .
  have a4: "ok a4" using ok_retry [OF gr refl ok_set_state [OF ok_fit [OF fb a1]]] .
  show ?thesis
  proof (cases c)
    case True
    with assms ic a1 show ?thesis
      by (auto simp: turn_step_def dest: ok_cancelled split: prod.splits)
  next
    case False
    with assms ic fb gr a4 ok_set_state [OF a4, of Executing] show ?thesis
      by (auto simp: turn_step_def Let_def split: sum.splits if_splits prod.splits
          dest: ok_run_tool_calls ok_answer)
  qed
qed

lemma ok_process_loop: "process_loop env' s p t a = (res, b) \<Longrightarrow> env' = env \<Longrightarrow> ok a \<Longrightarrow> ok b"
proof (induction env' s p t a arbitrary: res b rule: process_loop.induct)
  case (1 env' s p t a)
  obtain st a1 where st: "turn_step env s p t a = (st, a1)" by fastforce
  have a1: "ok a1" using ok_turn_step [OF st "1.prems"(3)] .
  note run = "1.prems"(1) [unfolded "1.prems"(2) process_loop.simps [of env s p t a] st]
  show ?case
  proof (cases st)
    case (Finished r)
    with run a1 show ?thesis by simp
  next
    case (Continue t')
    with run have "process_loop env s p t' a1 = (res, b)" by simp
    from "1.IH" [unfolded "1.prems"(2), OF st [symmetric] Continue this refl a1] show ?thesis .
  qed
qed

lemma ok_prepare:
  assumes "prepare env input source a = (x, r, b)" "ok a"
  shows "ok b"
proof -
  obtain s a1 where e1: "on_world (env_now env) a = (s, a1)" by fastforce
  obtain tid a2 where e2: "on_world (env_task_id env) a1 = (tid, a2)" by fastforce
  let ?a3 = "(set_state Receiving (emit (RequestStarted tid input source)
      (a2\<lparr>current_task := task_state_new tid\<rparr>)))\<lparr>history := transcript_push (history a2) (user_message input)
                  (env_estimate env) (available_tokens (budget a2))\<rparr>"
  have [simp]: "agent_task (a2\<lparr>current_task := task_state_new tid\<rparr>) = tid"
    by (simp add: agent_task_def task_state_new_def)
  have a3: "ok ?a3"
    using ok_ports(2) [OF e2 ok_ports(1) [OF e1 assms(2)]] by (simp add: ok_set_state)
  obtain r4 a4 where e4: "build_prompt_messages env ?a3 = (r4, a4)" by fastforce
  note a4 = ok_build_prompt [OF e4 a3]
  obtain ds a5 where e5: "on_world (env_device_tools env) a4 = (ds, a5)" by fastforce
  let ?a6 = "set_state Planning (a5\<lparr>registry := set_device_tools (registry a5) ds\<rparr>)"
  have a5: "ok a5" and a6: "ok ?a6"
    using ok_ports(6) [OF e5 a4] by (simp_all add: ok_set_state)
  show ?thesis
    using assms(1) e1 e2 e4 e5 a4 a5 ok_build_plan [OF _ a6]
    by (force simp: prepare_def Let_def split: prod.splits sum.splits option.splits if_splits)
qed

lemma ok_process_from: "process_from env input source a = (res, b) \<Longrightarrow> ok a \<Longrightarrow> ok b"
  by (auto simp: process_from_prepare dest: ok_prepare intro: ok_process_loop split: prod.splits sum.splits)

text \<open>A conversation: requests one after the other.\<close>

lemma ok_requests: "ok a \<Longrightarrow> ok (fold (\<lambda>(input, source) a. snd (process_from env input source a)) rs a)"
proof (induction rs arbitrary: a)
  case (Cons r rs)
  obtain input source where r: "r = (input, source)" by fastforce
  have "ok (snd (process_from env input source a))"
    using ok_process_from [OF prod.collapse [symmetric] Cons.prems] .
  from Cons.IH [OF this] r show ?case by simp
qed simp

end

end
