(* ===== verification/Memory.thy ===== *)
theory Memory
  imports Protocol "HOL-Library.Char_ord" "HOL-Library.List_Lexorder"
begin

text \<open>
  The durable facts of \<open>apps/nala/src/application/memory.rs\<close>, the two stores of
  \<open>adapters/memory/\<close> behind the port \<open>ports/memory.rs\<close>, and the tool of
  \<open>application/tools/remember.rs\<close>. A \<open>BTreeMap\<close> is a list of pairs in strictly
  increasing byte order of the keys. The JSON codec (\<open>serde_json\<close>) and the file system are
  parameters. The locale \<open>memory_store\<close> is the contract of the port; both stores are
  interpreted in it.
\<close>

section \<open>Facts\<close>

type_synonym facts = "(string \<times> string) list"

definition facts_new :: facts where "facts_new = []"

fun facts_remember :: "string \<Rightarrow> string \<Rightarrow> facts \<Rightarrow> facts" where
  "facts_remember k v [] = [(k, v)]"
| "facts_remember k v ((k', v') # fs) =
     (if k < k' then (k, v) # (k', v') # fs
      else if k = k' then (k, v) # fs
      else (k', v') # facts_remember k v fs)"

definition remember_all :: "facts \<Rightarrow> (string \<times> string) list \<Rightarrow> facts" where
  "remember_all fs kvs = foldl (\<lambda>fs (k, v). facts_remember k v fs) fs kvs"

text \<open>
  \<open>decode\<close> is \<open>serde_json::from_str\<close> on a JSON object of strings: its members in the
  order of the text, which serde inserts one by one; \<open>encode\<close> is \<open>to_string_pretty\<close>.
\<close>

definition facts_parse ::
  "(string \<Rightarrow> (string \<times> string) list option) \<Rightarrow> string \<Rightarrow> facts" where
  "facts_parse decode json =
     (if is_blank json then facts_new
      else case decode json of None \<Rightarrow> facts_new | Some kvs \<Rightarrow> remember_all facts_new kvs)"

definition facts_to_json :: "(facts \<Rightarrow> string option) \<Rightarrow> facts \<Rightarrow> string" where
  "facts_to_json encode fs = (case encode fs of None \<Rightarrow> ''{}'' | Some s \<Rightarrow> s)"

definition facts_ordered :: "facts \<Rightarrow> bool" where
  "facts_ordered fs \<longleftrightarrow> sorted_wrt (<) (map fst fs)"

lemma map_of_facts_remember [simp]:
  "facts_ordered fs \<Longrightarrow> map_of (facts_remember k v fs) = (map_of fs)(k \<mapsto> v)"
  by (induction fs) (auto simp: facts_ordered_def fun_eq_iff)

lemma fst_facts_remember: "set (map fst (facts_remember k v fs)) = insert k (set (map fst fs))"
  by (induction k v fs rule: facts_remember.induct) (simp_all add: insert_commute)

lemma facts_remember_ordered [simp]:
  "facts_ordered fs \<Longrightarrow> facts_ordered (facts_remember k v fs)"
proof (induction fs)
  case (Cons p fs)
  obtain k' v' where p: "p = (k', v')" by fastforce
  have "\<forall>x \<in> set (map fst (facts_remember k v fs)). k' < x" if "k' < k"
    using Cons.prems that unfolding fst_facts_remember by (simp add: facts_ordered_def p)
  with Cons show ?case
    by (force simp: facts_ordered_def p not_less_iff_gr_or_eq)
qed (simp add: facts_ordered_def)

lemma facts_new_ordered [simp]: "facts_ordered facts_new"
  by (simp add: facts_ordered_def facts_new_def)

lemma remember_all_ordered: "facts_ordered fs \<Longrightarrow> facts_ordered (remember_all fs kvs)"
  unfolding remember_all_def by (induction kvs arbitrary: fs) auto

lemma map_of_remember_all:
  "facts_ordered fs \<Longrightarrow> map_of (remember_all fs kvs) = map_of fs ++ map_of (rev kvs)"
proof (induction kvs arbitrary: fs)
  case (Cons kv kvs)
  obtain k v where "kv = (k, v)" by fastforce
  with Cons show ?case
    by (simp add: remember_all_def map_add_assoc [symmetric] del: fun_upd_apply)
qed (simp add: remember_all_def)

lemma facts_parse_ordered [simp]: "facts_ordered (facts_parse decode json)"
  by (auto simp: facts_parse_def remember_all_ordered split: option.split)

lemma ordered_distinct: "facts_ordered fs \<Longrightarrow> distinct (map fst fs)"
  by (simp add: facts_ordered_def strict_sorted_iff)

text \<open>The order of a tree of facts is canonical: it is a function of its contents.\<close>

lemma facts_canonical:
  assumes "facts_ordered fs" "facts_ordered gs" "map_of fs = map_of gs"
  shows "fs = gs"
proof (rule map_sorted_distinct_set_unique [of fst])
  show "set fs = set gs"
    using assms by (metis map_of_inject_set ordered_distinct)
  then show "inj_on fst (set fs \<union> set gs)"
    using ordered_distinct [OF assms(1)] by (simp add: distinct_map)
qed (use assms in \<open>auto simp: facts_ordered_def strict_sorted_iff\<close>)

section \<open>The contract of a memory store\<close>

datatype memory_error = SaveError string | MemoryInvalidArguments string

fun show_memory_error :: "memory_error \<Rightarrow> string" where
  "show_memory_error (SaveError m) = ''could not save memory: '' @ m"
| "show_memory_error (MemoryInvalidArguments m) = ''invalid remember arguments: '' @ m"

text \<open>A sequence of \<open>remember\<close> calls on a store.\<close>

fun remember_each ::
  "(string \<Rightarrow> string \<Rightarrow> 's \<Rightarrow> 'r \<times> 's) \<Rightarrow> (string \<times> string) list \<Rightarrow> 's \<Rightarrow> 's" where
  "remember_each remember [] s = s"
| "remember_each remember ((k, v) # kvs) s = remember_each remember kvs (snd (remember k v s))"

text \<open>
  \<open>facts_of\<close> lists the pairs, \<open>remember\<close> records one. A failed save still takes effect in
  memory, so the law on the facts does not depend on the result.
\<close>

locale memory_store =
  fixes inv :: "'s \<Rightarrow> bool"
    and facts_of :: "'s \<Rightarrow> facts"
    and remember :: "string \<Rightarrow> string \<Rightarrow> 's \<Rightarrow> (memory_error + unit) \<times> 's"
  assumes facts_sorted: "inv s \<Longrightarrow> facts_ordered (facts_of s)"
    and remember_inv: "inv s \<Longrightarrow> inv (snd (remember k v s))"
    and remember_facts: "inv s \<Longrightarrow> map_of (facts_of (snd (remember k v s))) = (map_of (facts_of s))(k \<mapsto> v)"
begin

lemma remember_each_inv: "inv s \<Longrightarrow> inv (remember_each remember kvs s)"
  by (induction kvs arbitrary: s) (auto simp: remember_inv)

lemma remember_each_facts:
  "inv s \<Longrightarrow> map_of (facts_of (remember_each remember kvs s)) = map_of (facts_of s) ++ map_of (rev kvs)"
  by (induction kvs arbitrary: s)
    (auto simp: remember_inv remember_facts map_add_assoc [symmetric] simp del: fun_upd_apply)

lemma order_independent:
  assumes "inv s" "map_of (rev kvs) = map_of (rev kvs')"
  shows "facts_of (remember_each remember kvs s) = facts_of (remember_each remember kvs' s)"
  using assms by (intro facts_canonical facts_sorted remember_each_inv) (simp_all add: remember_each_facts)

end

section \<open>The store in memory\<close>

definition in_memory_new :: facts where "in_memory_new = facts_new"

definition in_memory_facts :: "facts \<Rightarrow> facts" where
  "in_memory_facts s = s"

definition in_memory_remember :: "string \<Rightarrow> string \<Rightarrow> facts \<Rightarrow> (memory_error + unit) \<times> facts" where
  "in_memory_remember k v s = (Inr (), facts_remember k v s)"

interpretation in_memory: memory_store facts_ordered in_memory_facts in_memory_remember
  by unfold_locales (simp_all add: in_memory_facts_def in_memory_remember_def)

section \<open>The store in a file\<close>

text \<open>
  The file system calls the store makes on its path: \<open>read_to_string\<close>, \<open>create_dir_all\<close>
  on the parent when the path has one, and \<open>write\<close>, over a world of type \<open>'w\<close>.
\<close>

record 'w file_env =
  fe_read :: "'w \<Rightarrow> string + string"
  fe_make_parent :: "('w \<Rightarrow> (string + unit) \<times> 'w) option"
  fe_write :: "string \<Rightarrow> 'w \<Rightarrow> (string + unit) \<times> 'w"

definition file_store_new ::
  "(string \<Rightarrow> (string \<times> string) list option) \<Rightarrow> 'w file_env \<Rightarrow> 'w \<Rightarrow> facts" where
  "file_store_new decode env w =
     (case fe_read env w of Inl _ \<Rightarrow> facts_new | Inr txt \<Rightarrow> facts_parse decode txt)"

definition file_facts :: "facts \<times> 'w \<Rightarrow> facts" where
  "file_facts s = fst s"

definition file_remember ::
  "(facts \<Rightarrow> string option) \<Rightarrow> 'w file_env \<Rightarrow> string \<Rightarrow> string \<Rightarrow> facts \<times> 'w \<Rightarrow>
     (memory_error + unit) \<times> (facts \<times> 'w)" where
  "file_remember encode env k v s =
     (case s of (fs, w) \<Rightarrow>
      let fs = facts_remember k v fs in
      case (case fe_make_parent env of None \<Rightarrow> (Inr (), w) | Some mk \<Rightarrow> mk w) of
        (Inl e, w) \<Rightarrow> (Inl (SaveError e), (fs, w))
      | (Inr _, w) \<Rightarrow>
          (case fe_write env (facts_to_json encode fs) w of (r, w) \<Rightarrow> (map_err SaveError r, (fs, w))))"

lemma file_facts_remember: "file_facts (snd (file_remember encode env k v s)) = facts_remember k v (file_facts s)"
  by (auto simp: file_remember_def file_facts_def Let_def split: prod.splits sum.splits option.splits)

interpretation file_store: memory_store "\<lambda>s. facts_ordered (file_facts s)" file_facts "file_remember encode env"
  for encode env
  by unfold_locales (simp_all add: file_facts_remember)

section \<open>The tool\<close>

record remember_args =
  arg_key :: string
  arg_value :: string

definition remember_execute ::
  "(string \<Rightarrow> string \<Rightarrow> 's \<Rightarrow> (memory_error + unit) \<times> 's) \<Rightarrow> remember_args \<Rightarrow> 's \<Rightarrow>
     (memory_error + string) \<times> 's" where
  "remember_execute remember args s =
     (case remember (arg_key args) (arg_value args) s of
        (Inl e, s) \<Rightarrow> (Inl e, s)
      | (Inr _, s) \<Rightarrow> (Inr (''Recordado: '' @ arg_key args @ '' = '' @ arg_value args), s))"

text \<open>\<open>from_args\<close> is the serde decoder of \<open>RememberArgs\<close>.\<close>

definition remember_parse_arguments ::
  "(string \<Rightarrow> string + remember_args) \<Rightarrow> string \<Rightarrow> memory_error + remember_args" where
  "remember_parse_arguments from_args arguments = map_err MemoryInvalidArguments (from_args arguments)"

section \<open>Properties\<close>

lemma file_store_new_ordered [simp]: "facts_ordered (file_store_new decode env w)"
  by (auto simp: file_store_new_def split: sum.split)

text \<open>
  What a store holds, and the text the file store writes, depends only on the last value
  remembered for each key and not on the order the facts were remembered in.
\<close>

theorem memory_order_independent:
  assumes "map_of (rev kvs) = map_of (rev kvs')"
  shows "in_memory_facts (remember_each in_memory_remember kvs in_memory_new) =
      in_memory_facts (remember_each in_memory_remember kvs' in_memory_new) \<and>
    facts_to_json encode (file_facts (remember_each (file_remember encode env) kvs (file_store_new decode env w, w))) =
      facts_to_json encode (file_facts (remember_each (file_remember encode env) kvs' (file_store_new decode env w, w)))"
proof -
  have "file_facts (remember_each (file_remember encode env) kvs (file_store_new decode env w, w)) =
      file_facts (remember_each (file_remember encode env) kvs' (file_store_new decode env w, w))"
    using assms by (intro file_store.order_independent) (simp_all add: file_facts_def)
  then show ?thesis
    using in_memory.order_independent [OF _ assms, of in_memory_new] by (simp add: in_memory_new_def)
qed

text \<open>
  What the file store relies on: the codec reads back what it wrote (a JSON text is never
  blank), and a read after a successful write sees the written text.
\<close>

definition codec_reads_back ::
  "(string \<Rightarrow> (string \<times> string) list option) \<Rightarrow> (facts \<Rightarrow> string option) \<Rightarrow> bool" where
  "codec_reads_back decode encode \<longleftrightarrow>
     (\<forall>fs. \<exists>s. encode fs = Some s \<and> \<not> is_blank s \<and> decode s = Some fs)"

definition file_reads_back :: "'w file_env \<Rightarrow> bool" where
  "file_reads_back env \<longleftrightarrow> (\<forall>s w w'. fe_write env s w = (Inr (), w') \<longrightarrow> fe_read env w' = Inr s)"

lemma parse_to_json:
  assumes "codec_reads_back decode encode" "facts_ordered fs"
  shows "facts_parse decode (facts_to_json encode fs) = fs"
proof -
  obtain s where s: "encode fs = Some s" "\<not> is_blank s" "decode s = Some fs"
    using assms(1) by (auto simp: codec_reads_back_def)
  have "map_of (rev fs) = map_of fs"
    using ordered_distinct [OF assms(2)] by (simp add: map_of_inject_set rev_map [symmetric])
  then have "map_of (remember_all facts_new fs) = map_of fs"
    by (simp add: map_of_remember_all) (simp add: facts_new_def)
  then have "remember_all facts_new fs = fs"
    using assms(2) by (intro facts_canonical) (simp_all add: remember_all_ordered)
  with s show ?thesis by (simp add: facts_parse_def facts_to_json_def)
qed

lemma remember_then_new:
  assumes "codec_reads_back decode encode" and "file_reads_back env"
    and "file_remember encode env k v (file_store_new decode env w0, w) = (Inr (), (fs, w'))"
  shows "file_store_new decode env w' = fs \<and> map_of fs = (map_of (file_store_new decode env w0))(k \<mapsto> v)"
proof -
  have fs: "fs = facts_remember k v (file_store_new decode env w0)"
    using file_facts_remember [of encode env k v "(file_store_new decode env w0, w)"] assms(3)
    by (simp add: file_facts_def)
  obtain w1 where "fe_write env (facts_to_json encode fs) w1 = (Inr (), w')"
    using assms(3) fs
    by (auto simp: file_remember_def Let_def split: prod.splits sum.splits option.splits elim: map_err.elims)
  with assms(1,2) fs show ?thesis
    by (simp add: file_reads_back_def file_store_new_def [of decode env w'] parse_to_json)
qed

text \<open>
  C38. Facts survive a restart: after a \<open>remember\<close> that reported success, a store
  constructed on the same path starts with exactly the facts of the running one, the new
  fact among them and every other key unchanged.
\<close>

theorem facts_survive_restart:
  assumes "codec_reads_back decode encode" and "file_reads_back env"
    and "file_remember encode env k v (file_store_new decode env w0, w) = (Inr (), (fs, w'))"
  shows "file_store_new decode env w' = fs \<and> map_of fs = (map_of (file_store_new decode env w0))(k \<mapsto> v)"
  by (rule remember_then_new [OF assms])

text \<open>
  Two stores on one path overwrite each other: a store writes only the facts it was made with
  and its own, so a fact another store has written since is lost with the next write.
\<close>

lemma stores_overwrite_each_other:
  assumes "codec_reads_back decode encode" and "file_reads_back env"
    and "file_remember encode env k v (file_store_new decode env w0, w0) = (Inr (), (fs1, w1))"
    and "file_remember encode env k' v' (file_store_new decode env w0, w1) = (Inr (), (fs2, w2))"
    and "map_of (file_store_new decode env w0) k = None" and "k \<noteq> k'"
  shows "map_of (file_store_new decode env w1) k = Some v \<and> map_of (file_store_new decode env w2) k = None"
  using remember_then_new [OF assms(1-3)] remember_then_new [OF assms(1,2,4)] assms(5,6) by simp

section \<open>A concrete codec and disk\<close>

definition mark :: "string \<Rightarrow> string" where
  "mark s = concat (map (\<lambda>c. [CHR ''x'', c]) s) @ ''.''"

fun unmark :: "string \<Rightarrow> string \<Rightarrow> string list" where
  "unmark (CHR ''x'' # c # s) cur = unmark s (cur @ [c])"
| "unmark (CHR ''.'' # s) cur = cur # unmark s []"
| "unmark _ cur = []"

fun pairs :: "string list \<Rightarrow> (string \<times> string) list" where
  "pairs (k # v # xs) = (k, v) # pairs xs"
| "pairs _ = []"

definition sample_encode :: "facts \<Rightarrow> string option" where
  "sample_encode fs = Some (''{:'' @ concat (map (\<lambda>(k, v). mark k @ mark v) fs))"

definition sample_decode :: "string \<Rightarrow> (string \<times> string) list option" where
  "sample_decode s = (case s of c # d # cs \<Rightarrow> Some (pairs (unmark cs [])) | _ \<Rightarrow> None)"

definition sample_disk :: "string option file_env" where
  "sample_disk = \<lparr>fe_read = (\<lambda>w. case w of None \<Rightarrow> Inl ''not found'' | Some s \<Rightarrow> Inr s),
     fe_make_parent = Some (\<lambda>w. (Inr (), w)), fe_write = (\<lambda>s w. (Inr (), Some s))\<rparr>"

lemma unmark_mark: "unmark (mark k @ s) cur = (cur @ k) # unmark s []"
  by (induction k arbitrary: cur) (simp_all add: mark_def)

lemma sample_codec_reads_back: "codec_reads_back sample_decode sample_encode"
proof -
  have "pairs (unmark (concat (map (\<lambda>(k, v). mark k @ mark v) fs)) []) = fs" for fs
    by (induction fs) (auto simp: unmark_mark)
  moreover have "\<not> is_blank (''{:'' @ s)" for s
    by (simp add: is_blank_iff is_ws_def byte_of_def is_cont_def)
  ultimately show ?thesis
    by (simp add: codec_reads_back_def sample_encode_def sample_decode_def)
qed

theorem memory_order_independent_witness:
  "in_memory_facts (remember_each in_memory_remember [(''a'', ''1''), (''b'', ''2'')] in_memory_new) =
     in_memory_facts (remember_each in_memory_remember [(''b'', ''0''), (''a'', ''1''), (''b'', ''2'')] in_memory_new)"
proof -
  have "map_of (rev [(''a'', ''1''), (''b'', ''2'')]) = map_of (rev [(''b'', ''0''), (''a'', ''1''), (''b'', ''2'')])"
    by (auto simp: fun_eq_iff)
  then show ?thesis by (rule memory_order_independent [THEN conjunct1])
qed

theorem facts_survive_restart_witness:
  "\<exists>fs w'. file_remember sample_encode sample_disk ''ciudad'' ''Lima'' (file_store_new sample_decode sample_disk None, None) =
     (Inr (), (fs, w')) \<and> file_store_new sample_decode sample_disk w' = fs \<and> map_of fs ''ciudad'' = Some ''Lima''"
proof -
  have reads: "file_reads_back sample_disk"
    by (simp add: file_reads_back_def sample_disk_def)
  obtain fs w' where run: "file_remember sample_encode sample_disk ''ciudad'' ''Lima''
      (file_store_new sample_decode sample_disk None, None) = (Inr (), (fs, w'))"
    by (simp add: file_remember_def sample_disk_def Let_def)
  from facts_survive_restart [OF sample_codec_reads_back reads run] run show ?thesis by auto
qed

end
