(* ===== verification/Web_Tools.thy ===== *)
theory Web_Tools
  imports Protocol
begin

text \<open>
  The tools that read the web: \<open>application/tools/get_weather.rs\<close>, \<open>web_search.rs\<close> and
  \<open>fetch_url.rs\<close> over the port \<open>ports/http.rs\<close>. The HTTP client, the JSON decoders, the
  regular expressions, \<open>from_utf8_lossy\<close> and the printing of floats are parameters; the URL
  coding, the redirect decoding and the formatting are the code's own.
\<close>

section \<open>HTTP\<close>

datatype http_error = HttpRequest string | HttpStatus u16 | TooLarge nat

fun show_http_error :: "http_error \<Rightarrow> string" where
  "show_http_error (HttpRequest m) = ''request failed: '' @ m"
| "show_http_error (HttpStatus s) = ''unexpected status '' @ show_nat (unat s)"
| "show_http_error (TooLarge limit) =
     ''response body too large (limit is '' @ show_nat limit @ '' bytes)''"

type_synonym 'w fetcher = "string \<Rightarrow> 'w \<Rightarrow> (http_error + string) \<times> 'w"

section \<open>URL coding\<close>

definition is_unreserved :: "char \<Rightarrow> bool" where
  "is_unreserved c \<longleftrightarrow> (let b = byte_of c in
     65 \<le> b \<and> b \<le> 90 \<or> 97 \<le> b \<and> b \<le> 122 \<or> 48 \<le> b \<and> b \<le> 57 \<or>
     c = CHR ''-'' \<or> c = CHR ''_'' \<or> c = CHR ''.'' \<or> c = CHR ''~'')"

definition hex_digit :: "nat \<Rightarrow> char" where
  "hex_digit d = char_of (if d < 10 then 48 + d else 55 + d)"

definition percent :: "char \<Rightarrow> string" where
  "percent c = [CHR ''%'', hex_digit (byte_of c div 16), hex_digit (byte_of c mod 16)]"

text \<open>\<open>urlencode\<close> of \<open>get_weather.rs\<close> and of \<open>web_search.rs\<close>, which writes a space as a plus.\<close>

definition urlencode_weather :: "string \<Rightarrow> string" where
  "urlencode_weather s = concat (map (\<lambda>c. if is_unreserved c then [c] else percent c) s)"

definition urlencode_search :: "string \<Rightarrow> string" where
  "urlencode_search s = concat (map (\<lambda>c. if is_unreserved c then [c]
     else if c = CHR '' '' then ''+'' else percent c) s)"

definition hex_val :: "char \<Rightarrow> nat option" where
  "hex_val c = (let b = byte_of c in
     if 48 \<le> b \<and> b \<le> 57 then Some (b - 48)
     else if 65 \<le> b \<and> b \<le> 70 then Some (b - 55)
     else if 97 \<le> b \<and> b \<le> 102 then Some (b - 87)
     else None)"

text \<open>\<open>u8::from_str_radix\<close> of two bytes in base 16: a leading plus sign is accepted.\<close>

definition radix16 :: "char \<Rightarrow> char \<Rightarrow> char option" where
  "radix16 hi lo =
     (case hex_val lo of
        None \<Rightarrow> None
      | Some l \<Rightarrow>
          if hi = CHR ''+'' then Some (char_of l)
          else case hex_val hi of None \<Rightarrow> None | Some h \<Rightarrow> Some (char_of (16 * h + l)))"

text \<open>The bytes \<open>url_decode\<close> collects: an escape that is not two digits is dropped whole.\<close>

fun url_decode_bytes :: "string \<Rightarrow> string" where
  "url_decode_bytes [] = []"
| "url_decode_bytes (c # cs) =
     (if c = CHR ''%'' then
        (case cs of
           hi # lo # rest \<Rightarrow>
             (case radix16 hi lo of Some v \<Rightarrow> v # url_decode_bytes rest | None \<Rightarrow> url_decode_bytes rest)
         | _ \<Rightarrow> [])
      else if c = CHR ''+'' then CHR '' '' # url_decode_bytes cs
      else c # url_decode_bytes cs)"

definition url_decode :: "(string \<Rightarrow> string) \<Rightarrow> string \<Rightarrow> string" where
  "url_decode lossy v = lossy (url_decode_bytes v)"

definition decode_ddg_redirect :: "(string \<Rightarrow> string) \<Rightarrow> string \<Rightarrow> string" where
  "decode_ddg_redirect lossy href =
     (case split_once (CHR ''?'') href of
        None \<Rightarrow> href
      | Some (_, query) \<Rightarrow>
          (case List.map_filter (strip_prefix ''uddg='') (split_on (CHR ''&'') query) of
             value # _ \<Rightarrow> url_decode lossy value
           | [] \<Rightarrow> href))"

section \<open>Web search\<close>

record search_result =
  sr_title :: string
  sr_url :: string
  sr_snippet :: string

definition clean_text :: "string \<Rightarrow> string" where
  "clean_text t = join '' '' (split_whitespace t)"

text \<open>
  The captures of the two regular expressions (href and inner text of a link; inner text of a
  snippet) and the removal of tags.
\<close>

record search_regexes =
  link_captures :: "string \<Rightarrow> (string \<times> string) list"
  snippet_captures :: "string \<Rightarrow> string list"
  strip_tags :: "string \<Rightarrow> string"

definition parse_results :: "(string \<Rightarrow> string) \<Rightarrow> search_regexes \<Rightarrow> string \<Rightarrow> search_result list" where
  "parse_results lossy re html =
     (let links = map (\<lambda>(href, inner). (href, clean_text (strip_tags re inner))) (link_captures re html);
          snippets = map (\<lambda>inner. clean_text (strip_tags re inner)) (snippet_captures re html)
      in map (\<lambda>((href, title), snippet).
           \<lparr>sr_title = title, sr_url = decode_ddg_redirect lossy href, sr_snippet = snippet\<rparr>)
           (zip links snippets))"

definition format_result :: "nat \<Rightarrow> search_result \<Rightarrow> string" where
  "format_result i r = show_nat (i + 1) @ ''. '' @ sr_title r @ '' '' @ [CHR 0xE2, CHR 0x80, CHR 0x94] @ '' '' @
     sr_snippet r @ nl @ ''   '' @ sr_url r"

definition web_search_execute ::
  "(string \<Rightarrow> string) \<Rightarrow> search_regexes \<Rightarrow> 'w fetcher \<Rightarrow> string \<Rightarrow> 'w \<Rightarrow> (http_error + string) \<times> 'w" where
  "web_search_execute lossy re fetch query w =
     (case fetch (''https://html.duckduckgo.com/html/?q='' @ urlencode_search query) w of
        (Inl e, w) \<Rightarrow> (Inl e, w)
      | (Inr body, w) \<Rightarrow>
          (let results = parse_results lossy re body in
           if results = []
           then (Inr (''Sin resultados para esa b'' @ [CHR 0xC3, CHR 0xBA] @ ''squeda.''), w)
           else (Inr (join nl (map (\<lambda>(i, r). format_result i r) (enumerate 0 (take 5 results)))), w)))"

section \<open>Weather\<close>

definition describe_weather_code :: "u32 \<Rightarrow> string" where
  "describe_weather_code code =
     (if code = 0 then ''cielo despejado''
      else if code \<in> {1, 2} then ''parcialmente nublado''
      else if code = 3 then ''nublado''
      else if code \<in> {45, 48} then ''niebla''
      else if code \<in> {51, 53, 55} then ''llovizna''
      else if code \<in> {61, 63, 65} then ''lluvia''
      else if code \<in> {71, 73, 75} then ''nieve''
      else if 80 \<le> code \<and> code \<le> 82 then ''chubascos''
      else if code \<in> {95, 96, 99} then ''tormenta''
      else ''condiciones variables'')"

text \<open>The decoded answers of the two services; \<open>'f\<close> is \<open>f64\<close>.\<close>

record 'f geocoding_result =
  latitude :: 'f
  longitude :: 'f
  place_name :: string

record 'f current_weather =
  temperature_2m :: 'f
  relative_humidity_2m :: 'f
  weather_code :: u32
  wind_speed_10m :: 'f

record 'f weather_codec =
  decode_geocoding :: "string \<Rightarrow> string + 'f geocoding_result list"
  decode_forecast :: "string \<Rightarrow> string + 'f current_weather"
  show_float :: "'f \<Rightarrow> string"
  show_rounded :: "'f \<Rightarrow> string"

definition get_weather_execute ::
  "'f weather_codec \<Rightarrow> 'w fetcher \<Rightarrow> string \<Rightarrow> 'w \<Rightarrow> (http_error + string) \<times> 'w" where
  "get_weather_execute codec fetch location w =
     (case fetch (''https://geocoding-api.open-meteo.com/v1/search?name='' @ urlencode_weather location @
                  ''&count=1&language=es'') w of
        (Inl e, w) \<Rightarrow> (Inl e, w)
      | (Inr body, w) \<Rightarrow>
         (case decode_geocoding codec body of
            Inl e \<Rightarrow> (Inl (HttpRequest e), w)
          | Inr [] \<Rightarrow>
              (Inr (''No encontr'' @ [CHR 0xC3, CHR 0xA9] @ '' esa ubicaci'' @ [CHR 0xC3, CHR 0xB3] @ ''n ('' @
                    location @ ''). Prueba con otro nombre.''), w)
          | Inr (place # _) \<Rightarrow>
             (case fetch (''https://api.open-meteo.com/v1/forecast?latitude='' @ show_float codec (latitude place) @
                      ''&longitude='' @ show_float codec (longitude place) @
                      ''&current=temperature_2m,relative_humidity_2m,weather_code,wind_speed_10m&timezone=auto'') w of
                (Inl e, w) \<Rightarrow> (Inl e, w)
              | (Inr body, w) \<Rightarrow>
                 (case decode_forecast codec body of
                    Inl e \<Rightarrow> (Inl (HttpRequest e), w)
                  | Inr cur \<Rightarrow>
                      (Inr (''En '' @ place_name place @ '' hace '' @ show_rounded codec (temperature_2m cur) @
                         [CHR 0xC2, CHR 0xB0] @ ''C con '' @ describe_weather_code (weather_code cur) @
                         '' (humedad '' @ show_rounded codec (relative_humidity_2m cur) @ ''%, viento '' @
                         show_rounded codec (wind_speed_10m cur) @ '' km/h).''), w)))))"

section \<open>Fetching a page\<close>

definition MAX_OUTPUT_CHARS :: nat where "MAX_OUTPUT_CHARS = 4000"

text \<open>The three replacements of \<open>html_to_text\<close>, in the order of the code.\<close>

record html_regexes =
  blank_scripts :: "string \<Rightarrow> string"
  blank_styles :: "string \<Rightarrow> string"
  blank_tags :: "string \<Rightarrow> string"

definition html_to_text :: "html_regexes \<Rightarrow> string \<Rightarrow> string" where
  "html_to_text re html =
     join '' '' (split_whitespace (blank_tags re (blank_styles re (blank_scripts re html))))"

definition TRUNCATED_NOTE :: string where
  "TRUNCATED_NOTE = nl @ nl @ ''[Contenido truncado.]''"

definition fetch_url_execute ::
  "html_regexes \<Rightarrow> 'w fetcher \<Rightarrow> string \<Rightarrow> 'w \<Rightarrow> (http_error + string) \<times> 'w" where
  "fetch_url_execute re fetch url w =
     (if \<not> starts_with ''http://'' url \<and> \<not> starts_with ''https://'' url
      then (Inl (HttpRequest ''only http and https URLs are supported''), w)
      else case fetch url w of
          (Inl e, w) \<Rightarrow> (Inl e, w)
        | (Inr body, w) \<Rightarrow>
            (let txt = html_to_text re body in
             if MAX_OUTPUT_CHARS < char_count txt
             then (Inr (concat (take MAX_OUTPUT_CHARS (chars txt)) @ TRUNCATED_NOTE), w)
             else (Inr txt, w)))"

section \<open>Properties\<close>

lemma byte_of_less: "byte_of c < 256"
  using nat_of_char_less_256 [of c] by (simp add: byte_of_def)

lemma hex_val_hex_digit: "d < 16 \<Longrightarrow> hex_val (hex_digit d) = Some d"
  by (auto simp: hex_val_def hex_digit_def byte_of_def of_char_of Let_def)

lemma hex_digit_not_plus: "d < 16 \<Longrightarrow> hex_digit d \<noteq> CHR ''+''"
  using hex_val_hex_digit [of d] by (auto simp: hex_val_def byte_of_def)

lemma radix16_percent: "radix16 (hex_digit (byte_of c div 16)) (hex_digit (byte_of c mod 16)) = Some c"
proof -
  have d: "byte_of c div 16 < 16" "byte_of c mod 16 < 16"
    using byte_of_less [of c] by (simp_all add: less_mult_imp_div_less)
  show ?thesis
    using d by (simp add: radix16_def hex_val_hex_digit hex_digit_not_plus) (simp add: byte_of_def)
qed

lemma decode_percent: "url_decode_bytes (percent c @ r) = c # url_decode_bytes r"
  by (simp add: percent_def radix16_percent)

lemma unreserved_plain: "is_unreserved c \<Longrightarrow> c \<noteq> CHR ''%'' \<and> c \<noteq> CHR ''+'' \<and> c \<noteq> CHR '' '' \<and> c \<noteq> CHR ''&''"
  by (auto simp: is_unreserved_def byte_of_def Let_def)

lemma decode_weather: "url_decode_bytes (urlencode_weather s) = s"
  by (induction s) (auto simp: urlencode_weather_def decode_percent dest: unreserved_plain)

lemma decode_search: "url_decode_bytes (urlencode_search s) = s"
  by (induction s) (auto simp: urlencode_search_def decode_percent dest: unreserved_plain)

lemma hex_digit_unreserved: "d < 16 \<Longrightarrow> is_unreserved (hex_digit d)"
  by (auto simp: is_unreserved_def hex_digit_def byte_of_def of_char_of Let_def)

lemma percent_safe: "x \<in> set (percent c) \<Longrightarrow> is_unreserved x \<or> x = CHR ''%''"
  using byte_of_less [of c]
  by (auto simp: percent_def hex_digit_unreserved less_mult_imp_div_less)

lemma url_coding_alphabet: "list_all (\<lambda>c. is_unreserved c \<or> c = CHR ''%'') (urlencode_weather s)"
  using percent_safe by (auto simp: list_all_iff urlencode_weather_def split: if_splits)

lemma search_alphabet:
  "list_all (\<lambda>c. is_unreserved c \<or> c = CHR ''%'' \<or> c = CHR ''+'') (urlencode_search s)"
  using percent_safe by (auto simp: list_all_iff urlencode_search_def split: if_splits)

text \<open>
  Both URL encoders are undone by \<open>url_decode\<close>, byte for byte and for every text, and
  write nothing but unreserved characters, percent signs and (in a query) plus signs, so no
  text can add a parameter to the URL it is placed in.
\<close>

theorem url_coding_round_trip:
  "url_decode_bytes (urlencode_weather s) = s \<and> url_decode_bytes (urlencode_search s) = s \<and>
   list_all (\<lambda>c. is_unreserved c \<or> c = CHR ''%'') (urlencode_weather s) \<and>
   list_all (\<lambda>c. is_unreserved c \<or> c = CHR ''%'' \<or> c = CHR ''+'') (urlencode_search s)"
  using url_coding_alphabet [of s] search_alphabet [of s] by (simp add: decode_weather decode_search)

text \<open>
  The redirect decoder recovers the target that the search page wrapped, whatever the
  target and whatever follows it.
\<close>

theorem redirect_round_trip:
  "decode_ddg_redirect lossy (''//duckduckgo.com/l/?uddg='' @ urlencode_weather target @ ''&rut='' @ rest) =
     lossy target"
proof -
  have amp: "CHR ''&'' \<notin> set (''uddg='' @ urlencode_weather target)"
  proof -
    have "\<not> is_unreserved (CHR ''&'')" by (simp add: is_unreserved_def byte_of_def)
    then show ?thesis
      using url_coding_alphabet [of target] by (auto simp: list_all_iff)
  qed
  have "split_on (CHR ''&'') ((''uddg='' @ urlencode_weather target) @ CHR ''&'' # ''rut='' @ rest) =
      (''uddg='' @ urlencode_weather target) # split_on (CHR ''&'') (''rut='' @ rest)"
    using amp by (rule split_on_plain)
  then show ?thesis
    by (simp add: decode_ddg_redirect_def List.map_filter_simps url_decode_def decode_weather strip_prefix_def starts_with_def)
qed

text \<open>
  \<open>fetch_url\<close> contacts nobody for a URL that is not http or https, and whatever the page,
  what it returns has at most 4,000 characters and the truncation note.
\<close>

theorem fetch_url_bounds:
  "case fetch_url_execute re fetch url w of
     (Inl _, w') \<Rightarrow> starts_with ''http://'' url \<or> starts_with ''https://'' url \<or> w' = w
   | (Inr out, _) \<Rightarrow> (starts_with ''http://'' url \<or> starts_with ''https://'' url) \<and>
       char_count out \<le> MAX_OUTPUT_CHARS + char_count TRUNCATED_NOTE"
  using char_count_append_le [of "concat (take MAX_OUTPUT_CHARS (chars t))" TRUNCATED_NOTE for t]
  by (auto simp: fetch_url_execute_def Let_def char_count_take split: prod.split sum.split
      intro: le_trans [OF char_count_append_le])

end
