(* ===== verification/Capabilities.thy ===== *)
theory Capabilities
  imports Protocol "HOL-Library.Char_ord" "HOL-Library.List_Lexorder"
begin

text \<open>
  The capabilities a device runs (\<open>crates/device-capabilities\<close>): the five capabilities over
  the port \<open>Computer\<close>, the Windows adapter of that port over \<open>Process\<close> and
  \<open>Environment\<close>, and the registry with its allowlist. Commands act on a world \<open>'w\<close>; the JSON
  decoders and Rust's \<open>Debug\<close> printing of a string are parameters.
\<close>

section \<open>Ports\<close>

datatype environment_error = VarNotSet string string | CurrentDirUnavailable string

fun show_environment_error :: "environment_error \<Rightarrow> string" where
  "show_environment_error (VarNotSet k e) = ''environment variable '' @ k @ '' is not set: '' @ e"
| "show_environment_error (CurrentDirUnavailable e) = ''current directory unavailable: '' @ e"

datatype process_error = ProcessFailed string | ProcessInvalidArguments string | ProcessTimeout duration

datatype computer_error = CommandFailed string | EnvironmentErr environment_error

fun show_computer_error :: "computer_error \<Rightarrow> string" where
  "show_computer_error (CommandFailed m) = ''command failed: '' @ m"
| "show_computer_error (EnvironmentErr e) = ''environment error: '' @ show_environment_error e"

record computer_context =
  ctx_system :: string
  ctx_username :: string
  ctx_home_dir :: string
  ctx_desktop_dir :: string
  ctx_current_dir :: string

definition show_computer_context :: "computer_context \<Rightarrow> string" where
  "show_computer_context c =
     ''System: '' @ ctx_system c @ nl @ ''Username: '' @ ctx_username c @ nl @
     ''Home directory: '' @ ctx_home_dir c @ nl @ ''Desktop directory: '' @ ctx_desktop_dir c @ nl @
     ''Current directory: '' @ ctx_current_dir c"

record 'w computer =
  c_execute :: "string \<Rightarrow> duration \<Rightarrow> 'w \<Rightarrow> (computer_error + string) \<times> 'w"
  c_execute_detached :: "string \<Rightarrow> duration \<Rightarrow> 'w \<Rightarrow> (computer_error + unit) \<times> 'w"
  c_context :: "'w \<Rightarrow> (computer_error + computer_context) \<times> 'w"
  c_system_description :: string
  c_process_description :: string

record 'w process =
  p_spawn :: "string \<Rightarrow> string list \<Rightarrow> duration \<Rightarrow> 'w \<Rightarrow> (process_error + string) \<times> 'w"
  p_spawn_detached :: "string \<Rightarrow> string list \<Rightarrow> duration \<Rightarrow> 'w \<Rightarrow> (process_error + unit) \<times> 'w"
  p_description :: string

record 'w environment =
  e_var :: "string \<Rightarrow> 'w \<Rightarrow> environment_error + string"
  e_current_dir :: "'w \<Rightarrow> environment_error + string"

section \<open>The Windows computer\<close>

text \<open>\<open>debug\<close> is the \<open>Debug\<close> form of a process error.\<close>

definition WINDOWS_DESCRIPTION :: string where "WINDOWS_DESCRIPTION = ''This is a Windows computer.''"

definition windows_execute ::
  "(process_error \<Rightarrow> string) \<Rightarrow> 'w process \<Rightarrow> string \<Rightarrow> duration \<Rightarrow> 'w \<Rightarrow> (computer_error + string) \<times> 'w" where
  "windows_execute debug p command timeout w =
     (case p_spawn p ''cmd'' [''/C'', command] timeout w of (r, w) \<Rightarrow>
        (map_err (\<lambda>e. CommandFailed (debug e)) r, w))"

definition windows_execute_detached ::
  "(process_error \<Rightarrow> string) \<Rightarrow> 'w process \<Rightarrow> string \<Rightarrow> duration \<Rightarrow> 'w \<Rightarrow> (computer_error + unit) \<times> 'w" where
  "windows_execute_detached debug p command timeout w =
     (case p_spawn_detached p ''cmd'' [''/C'', command] timeout w of (r, w) \<Rightarrow>
        (map_err (\<lambda>e. CommandFailed (debug e)) r, w))"

definition windows_context :: "'w environment \<Rightarrow> 'w \<Rightarrow> (computer_error + computer_context) \<times> 'w" where
  "windows_context e w =
     (map_err EnvironmentErr
       (try_bind (e_var e ''USERNAME'' w) (\<lambda>username.
        try_bind (e_var e ''USERPROFILE'' w) (\<lambda>home.
        try_bind (e_current_dir e w) (\<lambda>cur.
          Inr \<lparr>ctx_system = WINDOWS_DESCRIPTION, ctx_username = username, ctx_home_dir = home,
            ctx_desktop_dir = home @ [CHR 0x5C] @ ''Desktop'', ctx_current_dir = cur\<rparr>)))), w)"

definition windows_computer ::
  "(process_error \<Rightarrow> string) \<Rightarrow> 'w process \<Rightarrow> 'w environment \<Rightarrow> 'w computer" where
  "windows_computer debug p e = \<lparr>c_execute = windows_execute debug p,
     c_execute_detached = windows_execute_detached debug p, c_context = windows_context e,
     c_system_description = WINDOWS_DESCRIPTION, c_process_description = p_description p\<rparr>"

section \<open>Executing a command\<close>

definition DEFAULT_COMMAND_TIMEOUT :: duration where "DEFAULT_COMMAND_TIMEOUT = 30 * 10 ^ 9"

definition RAN_NOTE :: string where
  "RAN_NOTE = ''it does not confirm the requested outcome actually happened. Verify against the before/after state before answering.''"

definition execute_command_execute ::
  "'w computer \<Rightarrow> duration \<Rightarrow> string \<Rightarrow> 'w \<Rightarrow> (computer_error + string) \<times> 'w" where
  "execute_command_execute c timeout command w =
     (case c_execute c command timeout w of
        (Inl e, w) \<Rightarrow> (Inl e, w)
      | (Inr output, w) \<Rightarrow>
          (Inr (if is_blank output
             then ''Command executed, no output. This confirms the command ran; '' @ RAN_NOTE
             else ''Command executed. Output: '' @ output @ nl @ nl @
               ''This confirms the command ran; '' @ RAN_NOTE), w))"

definition execute_command_context :: "'w computer \<Rightarrow> 'w \<Rightarrow> (computer_error + string) \<times> 'w" where
  "execute_command_context c w =
     (case c_context c w of
        (Inl e, w) \<Rightarrow> (Inl e, w)
      | (Inr ctx, w) \<Rightarrow> (Inr (show_computer_context ctx), w))"

definition execute_command_description :: "'w computer \<Rightarrow> string" where
  "execute_command_description c = c_system_description c @ '' '' @ c_process_description c"

section \<open>Opening a URL or an application\<close>

definition dquote :: string where "dquote = [CHR 0x22]"

datatype open_error = InvalidInput string | OpenComputerErr computer_error

fun show_open_url_error :: "open_error \<Rightarrow> string" where
  "show_open_url_error (InvalidInput m) = ''invalid URL: '' @ m"
| "show_open_url_error (OpenComputerErr e) = show_computer_error e"

fun show_open_app_error :: "open_error \<Rightarrow> string" where
  "show_open_app_error (InvalidInput m) = ''invalid argument: '' @ m"
| "show_open_app_error (OpenComputerErr e) = show_computer_error e"

definition DEFAULT_OPEN_TIMEOUT :: duration where "DEFAULT_OPEN_TIMEOUT = 10 * 10 ^ 9"

definition validate_url :: "string \<Rightarrow> open_error + unit" where
  "validate_url url =
     (if \<not> (starts_with ''http://'' url \<or> starts_with ''https://'' url)
      then Inl (InvalidInput (''URL must start with http:// or https://, got: '' @ url))
      else if CHR 0x22 \<in> set url
      then Inl (InvalidInput (''URL must not contain a '' @ dquote @ '' character''))
      else Inr ())"

definition start_command :: "string \<Rightarrow> string" where
  "start_command x = ''start '' @ dquote @ dquote @ '' '' @ dquote @ x @ dquote"

definition rundll_command :: "string \<Rightarrow> string" where
  "rundll_command x = ''rundll32 url.dll,FileProtocolHandler '' @ dquote @ x @ dquote"

definition open_url_execute ::
  "'w computer \<Rightarrow> duration \<Rightarrow> string \<Rightarrow> 'w \<Rightarrow> (open_error + string) \<times> 'w" where
  "open_url_execute c timeout url w =
     (case validate_url url of
        Inl e \<Rightarrow> (Inl e, w)
      | Inr _ \<Rightarrow>
         (case (case c_execute_detached c (start_command url) timeout w of
                  (Inr u, w) \<Rightarrow> (Inr u, w)
                | (Inl _, w) \<Rightarrow> c_execute_detached c (rundll_command url) timeout w) of
            (Inl e, w) \<Rightarrow> (Inl (OpenComputerErr e), w)
          | (Inr _, w) \<Rightarrow>
              (Inr (''The command to open '' @ url @
                 '' ran without an OS-level error. This does not confirm the browser actually opened it -- a missing default browser or a system dialog can fail silently. Verify against the before/after state before answering.''), w)))"

definition validate_app :: "string \<Rightarrow> open_error + unit" where
  "validate_app app =
     (if is_blank app then Inl (InvalidInput ''app must not be empty'')
      else if CHR 0x22 \<in> set app
      then Inl (InvalidInput (''app must not contain a '' @ dquote @ '' character''))
      else Inr ())"

definition open_app_execute ::
  "'w computer \<Rightarrow> duration \<Rightarrow> string \<Rightarrow> 'w \<Rightarrow> (open_error + string) \<times> 'w" where
  "open_app_execute c timeout app w =
     (case validate_app app of
        Inl e \<Rightarrow> (Inl e, w)
      | Inr _ \<Rightarrow>
         (case c_execute_detached c (start_command app) timeout w of
            (Inl e, w) \<Rightarrow> (Inl (OpenComputerErr e), w)
          | (Inr _, w) \<Rightarrow> (Inr (''Opened '' @ app @ ''.''), w)))"

section \<open>Volume\<close>

datatype volume_action = VolumeUp | VolumeDown | VolumeMute

datatype volume_error = InvalidAction string | VolumeComputerErr computer_error

fun show_volume_error :: "volume_error \<Rightarrow> string" where
  "show_volume_error (InvalidAction m) = ''invalid action: '' @ m"
| "show_volume_error (VolumeComputerErr e) = show_computer_error e"

definition parse_volume_action :: "string \<Rightarrow> volume_error + volume_action" where
  "parse_volume_action v =
     (if v = ''up'' then Inr VolumeUp
      else if v = ''down'' then Inr VolumeDown
      else if v = ''mute'' then Inr VolumeMute
      else Inl (InvalidAction (''unknown volume action: '' @ v @ ''. Expected one of '' @
        dquote @ ''up'' @ dquote @ '', '' @ dquote @ ''down'' @ dquote @ '', '' @ dquote @ ''mute'' @ dquote @ ''.'')))"

definition volume_key :: "volume_action \<Rightarrow> nat" where
  "volume_key a = (case a of VolumeUp \<Rightarrow> 175 | VolumeDown \<Rightarrow> 174 | VolumeMute \<Rightarrow> 173)"

definition volume_command :: "volume_action \<Rightarrow> string" where
  "volume_command a = ''powershell -Command '' @ dquote @
     ''(New-Object -ComObject WScript.Shell).SendKeys([char]'' @ show_nat (volume_key a) @ '')'' @ dquote"

definition volume_execute ::
  "'w computer \<Rightarrow> duration \<Rightarrow> string \<Rightarrow> 'w \<Rightarrow> (volume_error + string) \<times> 'w" where
  "volume_execute c timeout action w =
     (case parse_volume_action action of
        Inl e \<Rightarrow> (Inl e, w)
      | Inr a \<Rightarrow>
         (case c_execute_detached c (volume_command a) timeout w of
            (Inl e, w) \<Rightarrow> (Inl (VolumeComputerErr e), w)
          | (Inr _, w) \<Rightarrow> (Inr (''Volume action '' @ quote @ action @ quote @ '' sent.''), w)))"

section \<open>Listing applications\<close>

definition LIST_APPS_COMMAND :: string where
  "LIST_APPS_COMMAND = ''powershell -Command '' @ dquote @
     ''[Console]::OutputEncoding=[System.Text.Encoding]::UTF8; Get-StartApps | ConvertTo-Json -Compress'' @ dquote"

definition DEFAULT_LIST_APPS_TIMEOUT :: duration where "DEFAULT_LIST_APPS_TIMEOUT = 15 * 10 ^ 9"

definition MAX_APPS :: nat where "MAX_APPS = 150"

datatype list_apps_error = ListAppsComputerErr computer_error | ParseErr string

fun show_list_apps_error :: "list_apps_error \<Rightarrow> string" where
  "show_list_apps_error (ListAppsComputerErr e) = show_computer_error e"
| "show_list_apps_error (ParseErr m) = ''could not parse Get-StartApps output: '' @ m"

text \<open>
  What \<open>serde_json\<close> makes of the text: a value of one of three shapes, with what decoding
  its \<open>Name\<close>s as a list of entries, or as one entry, gives.
\<close>

datatype start_apps_json = AppsArray "string + string list" | AppsObject "string + string" | AppsOther

definition dedup :: "'a list \<Rightarrow> 'a list" where
  "dedup xs = remdups_adj xs"

definition parse_start_apps :: "(string \<Rightarrow> string + start_apps_json) \<Rightarrow> string \<Rightarrow> string + string list" where
  "parse_start_apps decode json =
     try_bind (decode json) (\<lambda>value.
     try_bind (case value of
         AppsArray names \<Rightarrow> names
       | AppsObject name \<Rightarrow> (case name of Inl e \<Rightarrow> Inl e | Inr n \<Rightarrow> Inr [n])
       | AppsOther \<Rightarrow> Inl ''expected a JSON array or object'') (\<lambda>names.
     Inr (dedup (sort names))))"

definition format_output :: "string list \<Rightarrow> string" where
  "format_output names =
     (if names = [] then ''No apps found.''
      else join nl (take (min (length names) MAX_APPS) names) @
        (if MAX_APPS < length names
         then nl @ ''(+'' @ show_nat (length names - MAX_APPS) @ '' more, ask about a specific app if you don'' @
           quote @ ''t see it)''
         else []))"

definition list_apps_execute ::
  "(string \<Rightarrow> string + start_apps_json) \<Rightarrow> 'w computer \<Rightarrow> duration \<Rightarrow> 'w \<Rightarrow> (list_apps_error + string) \<times> 'w" where
  "list_apps_execute decode c timeout w =
     (case c_execute c LIST_APPS_COMMAND timeout w of
        (Inl e, w) \<Rightarrow> (Inl (ListAppsComputerErr e), w)
      | (Inr raw, w) \<Rightarrow> (map_err ParseErr (map_sum id format_output (parse_start_apps decode raw)), w))"

section \<open>The registry and its allowlist\<close>

text \<open>
  A registered capability: \<open>cap_run\<close> is the boxed closure. \<open>capability_entry\<close> is what
  \<open>register\<close> builds of a capability whose arguments parse by \<open>parse\<close> and whose execution is
  \<open>execute\<close>, with the printing of their error.
\<close>

record ('w, 'v) capability_entry =
  entry_name :: string
  entry_definition :: "'v capability_definition"
  entry_run :: "string \<Rightarrow> 'w \<Rightarrow> outcome \<times> 'w"

definition capability_entry_new ::
  "'v capability_definition \<Rightarrow> bool \<Rightarrow> (string \<Rightarrow> 'e + 'a) \<Rightarrow> ('a \<Rightarrow> 'w \<Rightarrow> ('e + string) \<times> 'w) \<Rightarrow> ('e \<Rightarrow> string) \<Rightarrow>
     ('w, 'v) capability_entry" where
  "capability_entry_new d mutating parse execute show_error =
     \<lparr>entry_name = cap_name d, entry_definition = d,
      entry_run = (\<lambda>arguments w.
        case parse arguments of
          Inl e \<Rightarrow> (OutcomeErr BadArguments (show_error e), w)
        | Inr args \<Rightarrow>
            (case execute args w of
               (Inr output, w) \<Rightarrow> (OutcomeOk output mutating, w)
             | (Inl e, w) \<Rightarrow> (OutcomeErr Failed (show_error e), w)))\<rparr>"

record ('w, 'v) capability_registry =
  cr_entries :: "('w, 'v) capability_entry list"
  cr_allowed :: "string list option"

definition capability_registry_new :: "string list option \<Rightarrow> ('w, 'v) capability_registry" where
  "capability_registry_new allowed = \<lparr>cr_entries = [], cr_allowed = allowed\<rparr>"

definition register_capability ::
  "('w, 'v) capability_entry \<Rightarrow> ('w, 'v) capability_registry \<Rightarrow> ('w, 'v) capability_registry" where
  "register_capability e r = r\<lparr>cr_entries := cr_entries r @ [e]\<rparr>"

definition is_allowed :: "('w, 'v) capability_registry \<Rightarrow> string \<Rightarrow> bool" where
  "is_allowed r n = (case cr_allowed r of None \<Rightarrow> True | Some ns \<Rightarrow> n \<in> set ns)"

definition capability_definitions :: "('w, 'v) capability_registry \<Rightarrow> 'v capability_definition list" where
  "capability_definitions r =
     map entry_definition (filter (\<lambda>e. is_allowed r (entry_name e)) (cr_entries r))"

definition invoke_capability ::
  "('w, 'v) capability_registry \<Rightarrow> string \<Rightarrow> string \<Rightarrow> 'w \<Rightarrow> outcome \<times> 'w" where
  "invoke_capability r n arguments w =
     (if \<not> is_allowed r n
      then (OutcomeErr Denied (''capability '' @ quote @ n @ quote @ '' is not allowed''), w)
      else case List.find (\<lambda>e. entry_name e = n) (cr_entries r) of
          Some e \<Rightarrow> entry_run e arguments w
        | None \<Rightarrow> (OutcomeErr NotFound (''unknown capability: '' @ n), w))"

section \<open>Properties\<close>

lemma strict_sorted_remdups_adj: "sorted xs \<Longrightarrow> sorted_wrt (<) (remdups_adj xs)"
  for xs :: "'a :: linorder list"
  by (induction xs rule: remdups_adj.induct) (auto simp: order.strict_iff_order)

lemma find_entry:
  "List.find (\<lambda>e. entry_name e = n) es = Some e \<Longrightarrow> e \<in> set es \<and> entry_name e = n"
  by (auto dest: find_Some_mem)

text \<open>
  C25. The allowlist gates both what is announced and what runs: invoking a capability that
  is not announced runs nothing and reports why, and invoking an announced one runs a
  registered capability of that name. (Entries are built by \<open>register\<close>, so their names are
  those of their definitions.)
\<close>

theorem only_announced_capabilities_run:
  assumes "\<forall>e \<in> set (cr_entries r). entry_name e = cap_name (entry_definition e)"
  shows "if n \<in> cap_name ` set (capability_definitions r)
    then \<exists>e \<in> set (cr_entries r). entry_name e = n \<and> is_allowed r n \<and>
      invoke_capability r n arguments w = entry_run e arguments w
    else \<exists>code msg. code \<in> {Denied, NotFound} \<and> invoke_capability r n arguments w = (OutcomeErr code msg, w)"
proof -
  have announced: "n \<in> cap_name ` set (capability_definitions r) \<longleftrightarrow>
      is_allowed r n \<and> (\<exists>e \<in> set (cr_entries r). entry_name e = n)"
    using assms by (auto simp: capability_definitions_def image_iff)
  show ?thesis
  proof (cases "List.find (\<lambda>e. entry_name e = n) (cr_entries r)")
    case None
    with announced show ?thesis
      by (cases "is_allowed r n") (auto simp: invoke_capability_def, auto simp: find_None_iff)
  next
    case (Some e)
    with find_entry [OF Some] announced show ?thesis
      by (auto simp: invoke_capability_def)
  qed
qed

definition shy_registry :: "(string list, unit) capability_registry" where
  "shy_registry =
     register_capability (capability_entry_new \<lparr>cap_name = ''execute_command'', cap_description = '''', cap_parameters = ()\<rparr>
        True (Inr :: string \<Rightarrow> string + string) (\<lambda>a w. (Inr a, w @ [a])) (\<lambda>e. e))
     (register_capability (capability_entry_new \<lparr>cap_name = ''volume'', cap_description = '''', cap_parameters = ()\<rparr>
        True (Inr :: string \<Rightarrow> string + string) (\<lambda>a w. (Inr a, w @ [a])) (\<lambda>e. e))
     (capability_registry_new (Some [''volume''])))"

theorem only_announced_capabilities_run_witness:
  "(\<exists>e \<in> set (cr_entries shy_registry). entry_name e = ''volume'' \<and> is_allowed shy_registry ''volume'' \<and>
      invoke_capability shy_registry ''volume'' ''up'' [] = entry_run e ''up'' []) \<and>
   (\<exists>code msg. code \<in> {Denied, NotFound} \<and>
      invoke_capability shy_registry ''execute_command'' ''del'' [] = (OutcomeErr code msg, []))"
proof -
  have wf: "\<forall>e \<in> set (cr_entries shy_registry). entry_name e = cap_name (entry_definition e)"
    by (simp add: shy_registry_def register_capability_def capability_entry_new_def capability_registry_new_def)
  have "''volume'' \<in> cap_name ` set (capability_definitions shy_registry)"
    "''execute_command'' \<notin> cap_name ` set (capability_definitions shy_registry)"
    by (simp_all add: shy_registry_def register_capability_def capability_entry_new_def capability_registry_new_def
        capability_definitions_def is_allowed_def)
  with only_announced_capabilities_run [OF wf, of "''volume''" "''up''" "[]"]
    only_announced_capabilities_run [OF wf, of "''execute_command''" "''del''" "[]"]
  show ?thesis by simp
qed

text \<open>A computer that records the commands it is given; \<open>ok\<close> says which of them succeed.\<close>

definition recording :: "(string \<Rightarrow> bool) \<Rightarrow> string list computer" where
  "recording ok = \<lparr>c_execute = (\<lambda>c t w. (if ok c then Inr [] else Inl (CommandFailed []), w @ [c])),
     c_execute_detached = (\<lambda>c t w. (if ok c then Inr () else Inl (CommandFailed []), w @ [c])),
     c_context = (\<lambda>w. (Inl (CommandFailed []), w)), c_system_description = [], c_process_description = []\<rparr>"

text \<open>
  The launchers run nothing for a refused input, and otherwise exactly the commands in
  which the input stands between double quotes without containing one, so it cannot close
  them; \<open>rundll32\<close> is tried only after \<open>start\<close> failed.
\<close>

theorem launchers_quote_their_input:
  "snd (open_url_execute (recording ok) t url []) =
     (if (starts_with ''http://'' url \<or> starts_with ''https://'' url) \<and> CHR 0x22 \<notin> set url
      then start_command url # (if ok (start_command url) then [] else [rundll_command url])
      else []) \<and>
   snd (open_app_execute (recording ok) t app []) =
     (if \<not> is_blank app \<and> CHR 0x22 \<notin> set app then [start_command app] else [])"
  by (auto simp: open_url_execute_def open_app_execute_def validate_url_def validate_app_def recording_def
      split: prod.split sum.split)

text \<open>
  However \<open>Get-StartApps\<close> orders or repeats them, the parsed names are strictly
  increasing and are exactly the reported ones; up to 150 of them are listed, and the note
  is there exactly when some are not.
\<close>

theorem list_apps_sorted:
  "case parse_start_apps (\<lambda>_. Inr (AppsArray (Inr raw))) json of
     Inl _ \<Rightarrow> False
   | Inr names \<Rightarrow> sorted_wrt (<) names \<and> set names = set raw \<and>
       (\<exists>note. format_output names =
          (if names = [] then ''No apps found.'' else join nl (take MAX_APPS names) @ note) \<and>
          (note = []) = (card (set raw) \<le> MAX_APPS))"
proof -
  let ?names = "dedup (sort raw)"
  have sorted: "sorted_wrt (<) ?names"
    by (simp add: dedup_def strict_sorted_remdups_adj)
  then have "length ?names = card (set raw)"
    by (metis dedup_def distinct_card remdups_adj_set set_sort strict_sorted_iff)
  moreover have "take (min (length xs) MAX_APPS) xs = take MAX_APPS xs" for xs :: "string list"
    by (cases "length xs \<le> MAX_APPS") (auto simp: min_def)
  ultimately show ?thesis
    using sorted by (auto simp: parse_start_apps_def format_output_def dedup_def nl_def)
qed

end
