(* ===== verification/Mcp.thy ===== *)
theory Mcp
  imports Protocol
begin

text \<open>
  The MCP client of \<open>crates/mcp\<close> (\<open>types.rs\<close>, \<open>stdio.rs\<close>) and the set of tools of one server
  (\<open>apps/nala/src/application/tools/mcp_toolset.rs\<close>). A client's transport is what is left of
  the server's output, line by line (a line or an I/O error), and the lines sent; the JSON
  codec over values \<open>'v\<close> is a parameter. When the output ends without an answer the code
  blocks: the result is \<open>None\<close>.
\<close>

section \<open>Types\<close>

record 'v mcp_tool_info =
  mt_name :: string
  mt_description :: string
  mt_parameters :: 'v

record mcp_tool_result =
  mr_text :: string
  mr_images :: "string list"

datatype mcp_error = McpTransport string | McpProtocol string | McpToolFailed string

fun show_mcp_error :: "mcp_error \<Rightarrow> string" where
  "show_mcp_error (McpTransport m) = ''transport error: '' @ m"
| "show_mcp_error (McpProtocol m) = ''protocol error: '' @ m"
| "show_mcp_error (McpToolFailed m) = ''tool call failed: '' @ m"

section \<open>JSON-RPC over lines\<close>

record 'v rpc_response =
  rpc_id :: "u64 option"
  rpc_result :: "'v option"
  rpc_error :: "string option"

datatype content_item = ContentText string | ContentImage string | ContentOther

record 'v tool_info_wire =
  tw_name :: string
  tw_description :: "string option"
  tw_input_schema :: "'v option"

text \<open>
  The codec: the request line of an id, a method and parameters; a response line; the
  results of the two methods; the parameters of a call and the default schema.
\<close>

record 'v rpc_codec =
  encode_request :: "u64 \<Rightarrow> string \<Rightarrow> 'v \<Rightarrow> string + string"
  decode_response :: "string \<Rightarrow> string + 'v rpc_response"
  decode_tools :: "'v \<Rightarrow> string + 'v tool_info_wire list"
  decode_call_result :: "'v \<Rightarrow> string + (content_item list \<times> bool)"
  empty_params :: 'v
  call_params :: "string \<Rightarrow> 'v \<Rightarrow> 'v"
  object_schema :: 'v

record mcp_client =
  mc_next_id :: u64
  mc_incoming :: "(string + string) list"
  mc_sent :: "string list"

definition mcp_client_new :: "(string + string) list \<Rightarrow> mcp_client" where
  "mcp_client_new incoming = \<lparr>mc_next_id = 1, mc_incoming = incoming, mc_sent = []\<rparr>"

text \<open>
  The body of the reading loop of \<open>request\<close> after a line was read: the result it returns with, or
  \<open>None\<close> when it continues.
\<close>

definition read_response :: "'v rpc_codec \<Rightarrow> u64 \<Rightarrow> string \<Rightarrow> (mcp_error + 'v) option" where
  "read_response codec i line =
     (case decode_response codec line of
        Inl e \<Rightarrow> Some (Inl (McpProtocol e))
      | Inr r \<Rightarrow>
          if rpc_id r \<noteq> Some i then None
          else Some (case rpc_error r of
              Some m \<Rightarrow> Inl (McpProtocol m)
            | None \<Rightarrow>
                (case rpc_result r of
                   Some v \<Rightarrow> Inr v
                 | None \<Rightarrow> Inl (McpProtocol ''response had no result''))))"

text \<open>The loop over a transport that is a list of lines, with what it leaves of them.\<close>

fun await_response ::
  "'v rpc_codec \<Rightarrow> u64 \<Rightarrow> (string + string) list \<Rightarrow> ((mcp_error + 'v) \<times> (string + string) list) option" where
  "await_response codec i [] = None"
| "await_response codec i (Inl e # rest) = Some (Inl (McpTransport e), rest)"
| "await_response codec i (Inr line # rest) =
     (case read_response codec i line of
        None \<Rightarrow> await_response codec i rest
      | Some res \<Rightarrow> Some (res, rest))"

text \<open>\<open>send\<close> is the result of writing the line.\<close>

definition mcp_request ::
  "'v rpc_codec \<Rightarrow> (string \<Rightarrow> string + unit) \<Rightarrow> string \<Rightarrow> 'v \<Rightarrow> mcp_client \<Rightarrow> ((mcp_error + 'v) \<times> mcp_client) option" where
  "mcp_request codec send meth params c =
     (let i = mc_next_id c; c = c\<lparr>mc_next_id := i + 1\<rparr> in
      case encode_request codec i meth params of
        Inl e \<Rightarrow> Some (Inl (McpProtocol e), c)
      | Inr line \<Rightarrow>
          (case send line of
             Inl e \<Rightarrow> Some (Inl (McpTransport e), c)
           | Inr _ \<Rightarrow>
               (case await_response codec i (mc_incoming c) of
                  None \<Rightarrow> None
                | Some (res, rest) \<Rightarrow> Some (res, c\<lparr>mc_incoming := rest, mc_sent := mc_sent c @ [line]\<rparr>))))"

definition mcp_list_tools ::
  "'v rpc_codec \<Rightarrow> (string \<Rightarrow> string + unit) \<Rightarrow> mcp_client \<Rightarrow> ((mcp_error + 'v mcp_tool_info list) \<times> mcp_client) option" where
  "mcp_list_tools codec send c =
     (case mcp_request codec send ''tools/list'' (empty_params codec) c of
        None \<Rightarrow> None
      | Some (res, c) \<Rightarrow>
          Some (try_bind res (\<lambda>v. map_sum McpProtocol (map (\<lambda>t. \<lparr>mt_name = tw_name t,
            mt_description = (case tw_description t of None \<Rightarrow> [] | Some d \<Rightarrow> d),
            mt_parameters = (case tw_input_schema t of None \<Rightarrow> object_schema codec | Some s \<Rightarrow> s)\<rparr>))
            (decode_tools codec v)), c))"

fun text_parts :: "content_item list \<Rightarrow> string list" where
  "text_parts [] = []"
| "text_parts (ContentText t # items) = t # text_parts items"
| "text_parts (_ # items) = text_parts items"

fun image_parts :: "content_item list \<Rightarrow> string list" where
  "image_parts [] = []"
| "image_parts (ContentImage d # items) = d # image_parts items"
| "image_parts (_ # items) = image_parts items"

definition tool_result_of_content :: "content_item list \<Rightarrow> bool \<Rightarrow> mcp_error + mcp_tool_result" where
  "tool_result_of_content items is_error =
     (let t = join nl (text_parts items) in
      if is_error then Inl (McpToolFailed t) else Inr \<lparr>mr_text = t, mr_images = image_parts items\<rparr>)"

definition mcp_call_tool ::
  "'v rpc_codec \<Rightarrow> (string \<Rightarrow> string + unit) \<Rightarrow> string \<Rightarrow> 'v \<Rightarrow> mcp_client \<Rightarrow>
     ((mcp_error + mcp_tool_result) \<times> mcp_client) option" where
  "mcp_call_tool codec send n args c =
     (case mcp_request codec send ''tools/call'' (call_params codec n args) c of
        None \<Rightarrow> None
      | Some (res, c) \<Rightarrow>
          Some (try_bind res (\<lambda>v.
            try_bind (map_err McpProtocol (decode_call_result codec v)) (\<lambda>(items, is_error).
              tool_result_of_content items is_error)), c))"

section \<open>A server's tools\<close>

text \<open>A client as the dispatcher sees it, over a world \<open>'w\<close>, with the tools found on connecting.\<close>

record ('w, 'v) mcp_toolset =
  ts_call :: "string \<Rightarrow> 'v \<Rightarrow> 'w \<Rightarrow> (mcp_error + mcp_tool_result) \<times> 'w"
  ts_definitions :: "'v tool_definition list"

definition mcp_toolset_connect ::
  "('w \<Rightarrow> (mcp_error + 'v mcp_tool_info list) \<times> 'w) \<Rightarrow>
     (string \<Rightarrow> 'v \<Rightarrow> 'w \<Rightarrow> (mcp_error + mcp_tool_result) \<times> 'w) \<Rightarrow>
     string list option \<Rightarrow> 'w \<Rightarrow> (mcp_error + ('w, 'v) mcp_toolset) \<times> 'w" where
  "mcp_toolset_connect list_tools call allowed w =
     (case list_tools w of
        (Inl e, w) \<Rightarrow> (Inl e, w)
      | (Inr tools, w) \<Rightarrow>
          (Inr \<lparr>ts_call = call, ts_definitions =
             map (\<lambda>t. \<lparr>td_name = mt_name t, td_description = mt_description t, td_parameters = mt_parameters t\<rparr>)
               (filter (\<lambda>t. case allowed of None \<Rightarrow> True | Some ns \<Rightarrow> mt_name t \<in> set ns) tools)\<rparr>, w))"

definition mcp_handles :: "('w, 'v) mcp_toolset \<Rightarrow> string \<Rightarrow> bool" where
  "mcp_handles ts n \<longleftrightarrow> list_ex (\<lambda>t. td_name t = n) (ts_definitions ts)"

definition mcp_toolset_call ::
  "(string \<Rightarrow> string + 'v) \<Rightarrow> ('w, 'v) mcp_toolset \<Rightarrow> string \<Rightarrow> string \<Rightarrow> 'w \<Rightarrow> (mcp_error + mcp_tool_result) \<times> 'w" where
  "mcp_toolset_call decode ts n arguments w =
     (case decode arguments of
        Inl e \<Rightarrow> (Inl (McpProtocol e), w)
      | Inr v \<Rightarrow> ts_call ts n v w)"

section \<open>Properties\<close>

declare read_response_def [simp]

lemma await_response_char:
  "await_response codec i inc = Some (Inr v, rest) \<Longrightarrow>
     \<exists>skipped line r. inc = map Inr skipped @ Inr line # rest \<and> decode_response codec line = Inr r \<and>
       rpc_id r = Some i \<and> rpc_error r = None \<and> rpc_result r = Some v \<and>
       (\<forall>l \<in> set skipped. \<exists>r'. decode_response codec l = Inr r' \<and> rpc_id r' \<noteq> Some i)"
proof (induction codec i inc rule: await_response.induct)
  case (3 codec i line inc)
  show ?case
  proof (cases "decode_response codec line")
    case (Inl e)
    with 3 show ?thesis by simp
  next
    case (Inr r)
    show ?thesis
    proof (cases "rpc_id r = Some i")
      case True
      with 3 Inr show ?thesis
        by (intro exI [of _ "[]"] exI [of _ line] exI [of _ r]) (auto split: option.splits)
    next
      case False
      with 3 Inr obtain skipped l r' where "inc = map Inr skipped @ Inr l # rest" "decode_response codec l = Inr r'"
        "rpc_id r' = Some i" "rpc_error r' = None" "rpc_result r' = Some v"
        "\<forall>l \<in> set skipped. \<exists>r'. decode_response codec l = Inr r' \<and> rpc_id r' \<noteq> Some i"
        by auto
      with Inr False show ?thesis
        by (intro exI [of _ "line # skipped"] exI [of _ l] exI [of _ r']) auto
    qed
  qed
qed simp_all

text \<open>
  A request's answer is the result of the first incoming message that carries its id:
  what came before it were well-formed messages of other ids (notifications, or late answers
  to earlier requests), which are consumed and dropped, and nothing after it is read. Each
  request takes a fresh id.
\<close>

theorem mcp_request_matches_id:
  assumes "mcp_request codec send meth params c = Some (Inr v, c')"
  shows "mc_next_id c' = mc_next_id c + 1 \<and>
    (\<exists>skipped line r. mc_incoming c = map Inr skipped @ Inr line # mc_incoming c' \<and>
       decode_response codec line = Inr r \<and> rpc_id r = Some (mc_next_id c) \<and>
       rpc_error r = None \<and> rpc_result r = Some v \<and>
       (\<forall>l \<in> set skipped. \<exists>r'. decode_response codec l = Inr r' \<and> rpc_id r' \<noteq> Some (mc_next_id c)))"
proof -
  obtain rest where "await_response codec (mc_next_id c) (mc_incoming c) = Some (Inr v, rest)"
      "mc_incoming c' = rest" "mc_next_id c' = mc_next_id c + 1"
    using assms by (auto simp: mcp_request_def Let_def split: sum.splits option.splits)
  with await_response_char [of codec "mc_next_id c" "mc_incoming c" v rest] show ?thesis by simp
qed

definition digit_codec :: "unit rpc_codec" where
  "digit_codec = \<lparr>encode_request = (\<lambda>i m v. Inr (show_nat (unat i))),
     decode_response = (\<lambda>l. case l of [] \<Rightarrow> Inl ''eof''
       | c # cs \<Rightarrow> Inr \<lparr>rpc_id = (if c = CHR ''n'' then None else Some (of_nat (read_nat [c]))),
           rpc_result = Some (), rpc_error = None\<rparr>),
     decode_tools = (\<lambda>v. Inr []), decode_call_result = (\<lambda>v. Inr ([], False)),
     empty_params = (), call_params = (\<lambda>n v. ()), object_schema = ()\<rparr>"

theorem mcp_request_matches_id_witness:
  "\<exists>c'. mcp_request digit_codec (\<lambda>l. Inr ()) ''tools/list'' () (mcp_client_new [Inr ''n'', Inr ''0'', Inr ''1'', Inr ''9'']) =
      Some (Inr (), c') \<and> mc_next_id c' = 2 \<and> mc_incoming c' = [Inr ''9'']"
proof -
  have d: "read_nat ''0'' = 0" "read_nat ''1'' = 1" by (simp_all add: read_nat_def digit_val_def byte_of_def)
  obtain c' where run: "mcp_request digit_codec (\<lambda>l. Inr ()) ''tools/list'' ()
      (mcp_client_new [Inr ''n'', Inr ''0'', Inr ''1'', Inr ''9'']) = Some (Inr (), c')"
    by (simp add: mcp_request_def digit_codec_def mcp_client_new_def d)
  moreover have "mc_incoming c' = [Inr ''9'']"
    using run by (auto simp: mcp_request_def digit_codec_def mcp_client_new_def d)
  ultimately show ?thesis
    using mcp_request_matches_id [OF run] by (simp add: mcp_client_new_def)
qed

end
