(* ===== verification/Dispatcher.thy ===== *)
theory Dispatcher
  imports Devices Memory Web_Tools Capabilities Mcp Registry
begin

text \<open>
  The tool dispatcher of \<open>apps/nala/src/application/tools/dispatcher.rs\<close>, with the two
  smallest tools (\<open>ping.rs\<close>, \<open>current_time.rs\<close>). A dispatcher is the list of its tools and,
  when one is wired up, the shared device registry; everything the tools act on is the world
  \<open>'w\<close>. The memory store of \<open>remember\<close> is an operation on that world; the decoders of the
  arguments, which serde derives, are the record \<open>arg_codec\<close>.
\<close>

section \<open>Small tools\<close>

definition ping_execute :: string where "ping_execute = ''pong''"

text \<open>The four formatted parts of the local time (\<open>%H:%M\<close>, \<open>%-d\<close>, \<open>%m\<close>, \<open>%Y\<close>).\<close>

record wall_time =
  wt_hour_minute :: string
  wt_day :: string
  wt_month :: string
  wt_year :: string

definition MONTHS :: "string list" where
  "MONTHS = [''enero'', ''febrero'', ''marzo'', ''abril'', ''mayo'', ''junio'', ''julio'', ''agosto'',
     ''septiembre'', ''octubre'', ''noviembre'', ''diciembre'']"

text \<open>
  The index into the months: \<open>parse::<usize>().unwrap_or(1) - 1\<close>, clamped to 0..11; the
  subtraction wraps in a release build.
\<close>

definition month_index :: "string \<Rightarrow> nat" where
  "month_index m =
     (let n = (case parse_unsigned 64 m of Some n \<Rightarrow> n | None \<Rightarrow> 1) in
      min 11 (unat (of_nat n - 1 :: u64)))"

definition current_time_execute :: "wall_time \<Rightarrow> string" where
  "current_time_execute t = ''Son las '' @ wt_hour_minute t @ '' del '' @ wt_day t @ '' de '' @
     MONTHS ! month_index (wt_month t) @ '' de '' @ wt_year t @ ''.''"

section \<open>Tools\<close>

datatype dispatcher_error = ToolNotFound | ToolErrorParsingArguments string | ToolExecuteError string

fun show_dispatcher_error :: "dispatcher_error \<Rightarrow> string" where
  "show_dispatcher_error ToolNotFound = ''tool not found''"
| "show_dispatcher_error (ToolErrorParsingArguments e) = ''failed to parse tool call arguments: '' @ e"
| "show_dispatcher_error (ToolExecuteError e) = ''tool execution failed: '' @ e"

text \<open>
  The tools, with what each owns: a computer, a timeout, an HTTP client with the decoders and
  regular expressions of the tool, the store, the clock, or a list of toolsets.
\<close>

datatype ('w, 'v, 'f) tools =
    ExecuteCommand "'w computer" duration
  | OpenUrl "'w computer" duration
  | OpenApp "'w computer" duration
  | VolumeControl "'w computer" duration
  | ListApps "string \<Rightarrow> string + start_apps_json" "'w computer" duration
  | PingTool
  | CurrentTime "'w \<Rightarrow> wall_time \<times> 'w"
  | GetWeather "'f weather_codec" "'w fetcher"
  | WebSearch "string \<Rightarrow> string" search_regexes "'w fetcher"
  | FetchUrl html_regexes "'w fetcher"
  | Remember "string \<Rightarrow> string \<Rightarrow> 'w \<Rightarrow> (memory_error + unit) \<times> 'w"
  | McpTools "('w, 'v) mcp_toolset list"
  | DeviceTools "('w, 'v) remote_device list"

record 'v arg_codec =
  arg_command :: "string \<Rightarrow> string + string"
  arg_url :: "string \<Rightarrow> string + string"
  arg_app :: "string \<Rightarrow> string + string"
  arg_action :: "string \<Rightarrow> string + string"
  arg_location :: "string \<Rightarrow> string + string"
  arg_query :: "string \<Rightarrow> string + string"
  arg_fetch :: "string \<Rightarrow> string + string"
  arg_fact :: "string \<Rightarrow> string + remember_args"
  arg_json :: "string \<Rightarrow> string + 'v"

fun is_device_tools :: "('w, 'v, 'f) tools \<Rightarrow> bool" where
  "is_device_tools (DeviceTools _) = True"
| "is_device_tools _ = False"

text \<open>
  The registry is shared with the device server, so it is read from the world: \<open>live\<close> gives
  the connected devices in the order of the map's iteration.
\<close>

record ('w, 'v, 'f) dispatcher =
  disp_tools :: "('w, 'v, 'f) tools list"
  disp_live :: "('w \<Rightarrow> ('w, 'v) remote_device list) option"

definition dispatcher_new :: "('w, 'v, 'f) dispatcher" where
  "dispatcher_new = \<lparr>disp_tools = [], disp_live = None\<rparr>"

definition register_tool :: "('w, 'v, 'f) tools \<Rightarrow> ('w, 'v, 'f) dispatcher \<Rightarrow> ('w, 'v, 'f) dispatcher" where
  "register_tool t d = d\<lparr>disp_tools := disp_tools d @ [t]\<rparr>"

definition with_device_registry ::
  "('w \<Rightarrow> ('w, 'v) remote_device list) \<Rightarrow> ('w, 'v, 'f) dispatcher \<Rightarrow> ('w, 'v, 'f) dispatcher" where
  "with_device_registry live d = d\<lparr>disp_live := Some live\<rparr>"

definition sync_devices :: "'w \<Rightarrow> ('w, 'v, 'f) dispatcher \<Rightarrow> ('w, 'v, 'f) dispatcher" where
  "sync_devices w d =
     (case disp_live d of
        None \<Rightarrow> d
      | Some live \<Rightarrow>
          (let kept = filter (\<lambda>t. \<not> is_device_tools t) (disp_tools d); devices = live w in
           d\<lparr>disp_tools := (if devices = [] then kept else kept @ [DeviceTools devices])\<rparr>))"

section \<open>Routing to devices\<close>

fun dispatch_to_device ::
  "tool_call \<Rightarrow> ('w, 'v, 'f) tools list \<Rightarrow> 'w \<Rightarrow> (tool_outcome \<times> 'w) option" where
  "dispatch_to_device tc [] w = None"
| "dispatch_to_device tc (DeviceTools ds # rest) w =
     (case List.find (\<lambda>d. toolset_handles d (tc_name tc)) ds of
        Some d \<Rightarrow> Some (toolset_call d (tc_name tc) (tc_arguments tc) w)
      | None \<Rightarrow>
          (case filter (\<lambda>d. toolset_handles_bare d (tc_name tc)) ds of
             [d] \<Rightarrow> Some (toolset_call d (tc_name tc) (tc_arguments tc) w)
           | _ \<Rightarrow> None))"
| "dispatch_to_device tc (_ # rest) w = dispatch_to_device tc rest w"

section \<open>Native tools\<close>

text \<open>The two error constructors and the two ways an output becomes an outcome.\<close>

definition parse_args :: "('e \<Rightarrow> string) \<Rightarrow> 'e + 'a \<Rightarrow> dispatcher_error + 'a" where
  "parse_args sh r = map_err (\<lambda>e. ToolErrorParsingArguments (sh e)) r"

definition ran :: "('e \<Rightarrow> string) \<Rightarrow> bool \<Rightarrow> ('e + string) \<times> 'w \<Rightarrow> (dispatcher_error + tool_outcome) \<times> 'w" where
  "ran sh mutating r = (case r of (res, w) \<Rightarrow>
     (map_sum (\<lambda>e. ToolExecuteError (sh e)) (\<lambda>t. \<lparr>out_text = t, out_images = [], mutated = mutating\<rparr>) res, w))"

text \<open>\<open>execute_command\<close> with the snapshots of the computer's state around it.\<close>

definition with_evidence :: "string option \<Rightarrow> string option \<Rightarrow> string \<Rightarrow> string" where
  "with_evidence before after output =
     (case (before, after) of
        (Some b, Some a) \<Rightarrow>
          if b \<noteq> a then output @ nl @ nl @ ''State before:'' @ nl @ b @ nl @ nl @ ''State after:'' @ nl @ a
          else output @ nl @ nl @ ''State unchanged:'' @ nl @ a
      | _ \<Rightarrow> output)"

definition dispatch_command ::
  "'v arg_codec \<Rightarrow> 'w computer \<Rightarrow> duration \<Rightarrow> string \<Rightarrow> 'w \<Rightarrow> (dispatcher_error + tool_outcome) \<times> 'w" where
  "dispatch_command codec c timeout arguments w =
     (case parse_args show_computer_error (map_err CommandFailed (arg_command codec arguments)) of
        Inl e \<Rightarrow> (Inl e, w)
      | Inr command \<Rightarrow>
         (case execute_command_context c w of (before, w) \<Rightarrow>
          case execute_command_execute c timeout command w of
            (Inl e, w) \<Rightarrow> (Inl (ToolExecuteError (show_computer_error e)), w)
          | (Inr output, w) \<Rightarrow>
             (case execute_command_context c w of (after, w) \<Rightarrow>
                (Inr \<lparr>out_text = with_evidence (result_ok before) (result_ok after) output,
                   out_images = [], mutated = True\<rparr>, w))))"

text \<open>A tool's name, and one native call with the arguments of a tool call.\<close>

fun native_name :: "('w, 'v, 'f) tools \<Rightarrow> string option" where
  "native_name (ExecuteCommand _ _) = Some ''execute_command''"
| "native_name (OpenUrl _ _) = Some ''open_url''"
| "native_name (OpenApp _ _) = Some ''open_app''"
| "native_name (VolumeControl _ _) = Some ''volume''"
| "native_name (ListApps _ _ _) = Some ''list_apps''"
| "native_name PingTool = Some ''ping''"
| "native_name (CurrentTime _) = Some ''current_time''"
| "native_name (GetWeather _ _) = Some ''get_weather''"
| "native_name (WebSearch _ _ _) = Some ''web_search''"
| "native_name (FetchUrl _ _) = Some ''fetch_url''"
| "native_name (Remember _) = Some ''remember''"
| "native_name (McpTools _) = None"
| "native_name (DeviceTools _) = None"

definition could_not_parse :: "string \<Rightarrow> string" where
  "could_not_parse e = ''could not parse arguments: '' @ e"

fun run_native ::
  "'v arg_codec \<Rightarrow> ('w, 'v, 'f) tools \<Rightarrow> string \<Rightarrow> 'w \<Rightarrow> (dispatcher_error + tool_outcome) \<times> 'w" where
  "run_native codec (ExecuteCommand c t) args w = dispatch_command codec c t args w"
| "run_native codec (OpenUrl c t) args w =
     (case parse_args show_open_url_error (map_err (InvalidInput \<circ> could_not_parse) (arg_url codec args)) of
        Inl e \<Rightarrow> (Inl e, w) | Inr url \<Rightarrow> ran show_open_url_error True (open_url_execute c t url w))"
| "run_native codec (OpenApp c t) args w =
     (case parse_args show_open_app_error (map_err (InvalidInput \<circ> could_not_parse) (arg_app codec args)) of
        Inl e \<Rightarrow> (Inl e, w) | Inr app \<Rightarrow> ran show_open_app_error True (open_app_execute c t app w))"
| "run_native codec (VolumeControl c t) args w =
     (case parse_args show_volume_error (map_err (InvalidAction \<circ> could_not_parse) (arg_action codec args)) of
        Inl e \<Rightarrow> (Inl e, w) | Inr action \<Rightarrow> ran show_volume_error True (volume_execute c t action w))"
| "run_native codec (ListApps dec c t) args w = ran show_list_apps_error False (list_apps_execute dec c t w)"
| "run_native codec PingTool args w = (Inr (outcome_of_text ping_execute), w)"
| "run_native codec (CurrentTime now) args w =
     (case now w of (t, w) \<Rightarrow> (Inr (outcome_of_text (current_time_execute t)), w))"
| "run_native codec (GetWeather wc fetch) args w =
     (case parse_args show_http_error (map_err HttpRequest (arg_location codec args)) of
        Inl e \<Rightarrow> (Inl e, w) | Inr loc \<Rightarrow> ran show_http_error False (get_weather_execute wc fetch loc w))"
| "run_native codec (WebSearch lossy re fetch) args w =
     (case parse_args show_http_error (map_err HttpRequest (arg_query codec args)) of
        Inl e \<Rightarrow> (Inl e, w) | Inr q \<Rightarrow> ran show_http_error False (web_search_execute lossy re fetch q w))"
| "run_native codec (FetchUrl re fetch) args w =
     (case parse_args show_http_error (map_err HttpRequest (arg_fetch codec args)) of
        Inl e \<Rightarrow> (Inl e, w) | Inr url \<Rightarrow> ran show_http_error False (fetch_url_execute re fetch url w))"
| "run_native codec (Remember store) args w =
     (case parse_args show_memory_error (remember_parse_arguments (arg_fact codec) args) of
        Inl e \<Rightarrow> (Inl e, w) | Inr known \<Rightarrow> ran show_memory_error True (remember_execute store known w))"
| "run_native codec (McpTools _) args w = (Inl ToolNotFound, w)"
| "run_native codec (DeviceTools _) args w = (Inl ToolNotFound, w)"

section \<open>Dispatch\<close>

text \<open>The loop over the tools: the first that takes the name; MCP servers by their own names.\<close>

fun dispatch_native ::
  "'v arg_codec \<Rightarrow> tool_call \<Rightarrow> ('w, 'v, 'f) tools list \<Rightarrow> 'w \<Rightarrow> (dispatcher_error + tool_outcome) \<times> 'w" where
  "dispatch_native codec tc [] w = (Inl ToolNotFound, w)"
| "dispatch_native codec tc (McpTools servers # rest) w =
     (case List.find (\<lambda>s. mcp_handles s (tc_name tc)) servers of
        None \<Rightarrow> dispatch_native codec tc rest w
      | Some s \<Rightarrow>
          (case mcp_toolset_call (arg_json codec) s (tc_name tc) (tc_arguments tc) w of (res, w) \<Rightarrow>
             (map_sum (\<lambda>e. ToolExecuteError (show_mcp_error e))
               (\<lambda>r. \<lparr>out_text = mr_text r, out_images = mr_images r, mutated = False\<rparr>) res, w)))"
| "dispatch_native codec tc (t # rest) w =
     (if native_name t = Some (tc_name tc) then run_native codec t (tc_arguments tc) w
      else dispatch_native codec tc rest w)"

definition dispatch ::
  "'v arg_codec \<Rightarrow> tool_call \<Rightarrow> ('w, 'v, 'f) dispatcher \<Rightarrow> 'w \<Rightarrow>
     ((dispatcher_error + tool_outcome) \<times> 'w) \<times> ('w, 'v, 'f) dispatcher" where
  "dispatch codec tc d w =
     (let d = sync_devices w d in
      (case dispatch_to_device tc (disp_tools d) w of
         Some (out, w) \<Rightarrow> (Inr out, w)
       | None \<Rightarrow> dispatch_native codec tc (disp_tools d) w, d))"

fun device_definitions :: "('w, 'v, 'f) tools \<Rightarrow> 'v tool_definition list" where
  "device_definitions (DeviceTools ds) = concat (map toolset_definitions ds)"
| "device_definitions _ = []"

definition device_tools ::
  "('w, 'v, 'f) dispatcher \<Rightarrow> 'w \<Rightarrow> 'v tool_definition list \<times> ('w, 'v, 'f) dispatcher" where
  "device_tools d w =
     (let d = sync_devices w d in (concat (map device_definitions (disp_tools d)), d))"

fun get_context :: "('w, 'v, 'f) tools list \<Rightarrow> 'w \<Rightarrow> (dispatcher_error + string) \<times> 'w" where
  "get_context [] w = (Inl ToolNotFound, w)"
| "get_context (ExecuteCommand c t # rest) w =
     (case execute_command_context c w of (res, w) \<Rightarrow>
        (map_err (\<lambda>e. ToolExecuteError (show_computer_error e)) res, w))"
| "get_context (_ # rest) w = get_context rest w"

section \<open>Properties\<close>

lemma sync_devices_live:
  "disp_live d = Some live \<Longrightarrow>
    disp_tools (sync_devices w d) = filter (\<lambda>t. \<not> is_device_tools t) (disp_tools d) @
      (if live w = [] then [] else [DeviceTools (live w)])"
  by (simp add: sync_devices_def Let_def)

lemma device_definitions_native: "\<not> is_device_tools t \<Longrightarrow> device_definitions t = []"
  by (cases t) simp_all

lemma concat_device_definitions:
  "\<forall>t \<in> set ts. \<not> is_device_tools t \<Longrightarrow> concat (map device_definitions ts) = []"
  by (induction ts) (auto simp: device_definitions_native)

lemma dispatch_to_device_native:
  "\<forall>t \<in> set ts. \<not> is_device_tools t \<Longrightarrow> dispatch_to_device tc (ts @ us) w = dispatch_to_device tc us w"
proof (induction ts)
  case (Cons t ts)
  then show ?case by (cases t) simp_all
qed simp

lemma dispatch_native_append:
  "\<forall>t \<in> set us. is_device_tools t \<Longrightarrow> dispatch_native codec tc (ts @ us) w = dispatch_native codec tc ts w"
proof (induction ts)
  case Nil
  then show ?case
  proof (induction us)
    case (Cons u us)
    then show ?case by (cases u) simp_all
  qed simp
next
  case (Cons t ts)
  then show ?case by (cases t) (auto split: option.split)
qed

lemma device_tools_live:
  "disp_live d = Some live \<Longrightarrow> fst (device_tools d w) = concat (map toolset_definitions (live w))"
  by (simp add: device_tools_def Let_def sync_devices_live concat_device_definitions)

lemma dispatch_route:
  assumes "disp_live d = Some live"
  shows "fst (dispatch codec tc d w) =
    (case List.find (\<lambda>r. toolset_handles r (tc_name tc)) (live w) of
       Some r \<Rightarrow> apfst Inr (toolset_call r (tc_name tc) (tc_arguments tc) w)
     | None \<Rightarrow>
        (case filter (\<lambda>r. toolset_handles_bare r (tc_name tc)) (live w) of
           [r] \<Rightarrow> apfst Inr (toolset_call r (tc_name tc) (tc_arguments tc) w)
         | _ \<Rightarrow> dispatch_native codec tc (filter (\<lambda>t. \<not> is_device_tools t) (disp_tools d)) w)) \<and>
    (tc_name tc \<in> td_name ` set (fst (device_tools d w)) \<longrightarrow>
      (\<exists>r \<in> set (live w). toolset_handles r (tc_name tc) \<and>
         fst (dispatch codec tc d w) = apfst Inr (toolset_call r (tc_name tc) (tc_arguments tc) w)))"
proof -
  let ?native = "filter (\<lambda>t. \<not> is_device_tools t) (disp_tools d)"
  have native: "dispatch_native codec tc (?native @ (if live w = [] then [] else [DeviceTools (live w)])) w =
      dispatch_native codec tc ?native w"
    by (rule dispatch_native_append) simp
  have route: "fst (dispatch codec tc d w) =
    (case List.find (\<lambda>r. toolset_handles r (tc_name tc)) (live w) of
       Some r \<Rightarrow> apfst Inr (toolset_call r (tc_name tc) (tc_arguments tc) w)
     | None \<Rightarrow>
        (case filter (\<lambda>r. toolset_handles_bare r (tc_name tc)) (live w) of
           [r] \<Rightarrow> apfst Inr (toolset_call r (tc_name tc) (tc_arguments tc) w)
         | _ \<Rightarrow> dispatch_native codec tc ?native w))"
    using native
    by (auto simp: dispatch_def Let_def sync_devices_live [OF assms] dispatch_to_device_native apfst_def map_prod_def
        split: option.split list.split prod.split)
  have "\<exists>r \<in> set (live w). toolset_handles r (tc_name tc) \<and>
      fst (dispatch codec tc d w) = apfst Inr (toolset_call r (tc_name tc) (tc_arguments tc) w)"
    if published: "tc_name tc \<in> td_name ` set (fst (device_tools d w))"
  proof -
    have "\<exists>r \<in> set (live w). toolset_handles r (tc_name tc)"
      using published
      by (force simp: device_tools_live [OF assms] toolset_handles_def list_ex_iff)
    then obtain r where r: "List.find (\<lambda>r. toolset_handles r (tc_name tc)) (live w) = Some r"
      by (metis find_None_iff not_None_eq)
    with find_Some_mem [OF r] route show ?thesis by auto
  qed
  with route show ?thesis by blast
qed

text \<open>
  C11. Where a call goes: the first connected device with a tool of that name; else the only
  connected device with a capability of that bare name; else, also when several devices have
  such a capability, the native tools as if there were no devices. So every published device
  tool is run by a device that publishes it.
\<close>

theorem dispatch_routing:
  assumes "disp_live d = Some live"
  shows "fst (dispatch codec tc d w) =
    (case List.find (\<lambda>r. toolset_handles r (tc_name tc)) (live w) of
       Some r \<Rightarrow> apfst Inr (toolset_call r (tc_name tc) (tc_arguments tc) w)
     | None \<Rightarrow>
        (case filter (\<lambda>r. toolset_handles_bare r (tc_name tc)) (live w) of
           [r] \<Rightarrow> apfst Inr (toolset_call r (tc_name tc) (tc_arguments tc) w)
         | _ \<Rightarrow> dispatch_native codec tc (filter (\<lambda>t. \<not> is_device_tools t) (disp_tools d)) w)) \<and>
    (tc_name tc \<in> td_name ` set (fst (device_tools d w)) \<longrightarrow>
      (\<exists>r \<in> set (live w). toolset_handles r (tc_name tc) \<and>
         fst (dispatch codec tc d w) = apfst Inr (toolset_call r (tc_name tc) (tc_arguments tc) w)))"
  by (rule dispatch_route [OF assms])

definition clean :: "'w \<Rightarrow> (dispatcher_error + tool_outcome) \<times> 'w \<Rightarrow> bool" where
  "clean w r \<longleftrightarrow> (case r of
     (Inl (ToolErrorParsingArguments _), w') \<Rightarrow> w' = w
   | (Inr out, _) \<Rightarrow> out_images out = []
   | _ \<Rightarrow> True)"

lemma clean_intros [simp]:
  "clean w (Inl e, w)" "clean w (Inl (ToolExecuteError m), w')" "clean w (Inr (outcome_of_text txt), w')"
  "clean w (Inr \<lparr>out_text = txt, out_images = [], mutated = b\<rparr>, w')"
  by (auto simp: clean_def split: dispatcher_error.split)

lemma clean_ran [simp]: "clean w (ran sh m r)"
  by (cases r; cases "fst r") (auto simp: ran_def clean_def)

text \<open>
  A native call whose arguments do not parse touches nothing: the error says so and the
  world is the one before the call.
\<close>

theorem bad_arguments_touch_nothing:
  "case run_native codec t args w of
     (Inl (ToolErrorParsingArguments _), w') \<Rightarrow> w' = w
   | (Inr out, _) \<Rightarrow> out_images out = []
   | _ \<Rightarrow> True"
proof -
  have "clean w (run_native codec t args w)"
    by (cases t) (auto simp: dispatch_command_def split: prod.split sum.split)
  then show ?thesis by (simp add: clean_def)
qed

definition sample_codec :: "unit arg_codec" where
  "sample_codec = \<lparr>arg_command = Inr, arg_url = Inr, arg_app = Inr, arg_action = Inr, arg_location = Inr,
     arg_query = Inr, arg_fetch = Inr, arg_fact = (\<lambda>s. Inr \<lparr>arg_key = s, arg_value = s\<rparr>), arg_json = (\<lambda>s. Inr ())\<rparr>"

definition sample_dispatcher :: "(string list, unit, unit) dispatcher" where
  "sample_dispatcher = with_device_registry (\<lambda>w. [sample_device]) (register_tool PingTool dispatcher_new)"

theorem dispatch_routing_witness:
  "fst (dispatch sample_codec \<lparr>tc_name = ''volume'', tc_arguments = ''{}''\<rparr> sample_dispatcher []) =
     (Inr \<lparr>out_text = ''volume'', out_images = [], mutated = True\<rparr>, [''volume'']) \<and>
   fst (dispatch sample_codec \<lparr>tc_name = ''ping'', tc_arguments = ''{}''\<rparr> sample_dispatcher []) =
     (Inr (outcome_of_text ''pong''), [])"
proof -
  have live: "disp_live sample_dispatcher = Some (\<lambda>w. [sample_device])"
    by (simp add: sample_dispatcher_def with_device_registry_def)
  have handles: "\<not> toolset_handles sample_device ''volume''" "toolset_handles_bare sample_device ''volume''"
    "\<not> toolset_handles sample_device ''ping''" "\<not> toolset_handles_bare sample_device ''ping''"
    by (simp_all add: toolset_handles_iff toolset_handles_bare_def sample_device_def device_prefix_def)
  have volume: "toolset_call sample_device ''volume'' ''{}'' [] =
      (\<lparr>out_text = ''volume'', out_images = [], mutated = True\<rparr>, [''volume''])"
    by (simp add: toolset_call_def capability_called_def strip_prefix_def sample_device_def device_prefix_def starts_with_def)
  have tools: "filter (\<lambda>t. \<not> is_device_tools t) (disp_tools sample_dispatcher) = [PingTool]"
    by (simp add: sample_dispatcher_def with_device_registry_def register_tool_def dispatcher_new_def)
  show ?thesis
    using dispatch_routing [OF live, of sample_codec "\<lparr>tc_name = ''volume'', tc_arguments = ''{}''\<rparr>" "[]"]
      dispatch_routing [OF live, of sample_codec "\<lparr>tc_name = ''ping'', tc_arguments = ''{}''\<rparr>" "[]"]
    by (simp add: handles volume tools apfst_def map_prod_def ping_execute_def)
qed

end
