(* ===== verification/Bootstrap.thy ===== *)
theory Bootstrap
  imports Dispatcher
begin

text \<open>
  The composition root of the agent (\<open>apps/nala/src/bootstrap.rs\<close>): which tools the model is
  offered and which the dispatcher can run, the configuration of the MCP servers and their
  start-up. Descriptions and JSON schemas of the tools are texts for the model that no code looks
  at: they are the functions of the record \<open>tool_texts\<close>. The decoder of \<open>mcp.json\<close> gives the
  servers in the order in which the source's hash map lists them.
\<close>

section \<open>Native tools\<close>

record 'v tool_texts =
  tx_description :: "string \<Rightarrow> string"
  tx_parameters :: "string \<Rightarrow> 'v"

definition native_definition :: "'v tool_texts \<Rightarrow> string \<Rightarrow> 'v tool_definition" where
  "native_definition tx n = \<lparr>td_name = n, td_description = tx_description tx n, td_parameters = tx_parameters tx n\<rparr>"

definition NATIVE_TOOLS :: "string list" where
  "NATIVE_TOOLS = [''execute_command'', ''open_url'', ''open_app'', ''volume'', ''list_apps'', ''ping'',
     ''current_time'', ''get_weather'', ''web_search'', ''fetch_url'', ''remember'']"

definition native_registry :: "'v tool_texts \<Rightarrow> 'v tool_registry" where
  "native_registry tx = register_all registry_new (map (native_definition tx) NATIVE_TOOLS)"

text \<open>What the native tools own; every tool that needs a computer gets its own instance of the same one.\<close>

record ('w, 'f) tool_parts =
  tp_computer :: "'w computer"
  tp_apps :: "string \<Rightarrow> string + start_apps_json"
  tp_now :: "'w \<Rightarrow> wall_time \<times> 'w"
  tp_weather :: "'f weather_codec"
  tp_lossy :: "string \<Rightarrow> string"
  tp_search :: search_regexes
  tp_html :: html_regexes
  tp_fetcher :: "'w fetcher"
  tp_remember :: "string \<Rightarrow> string \<Rightarrow> 'w \<Rightarrow> (memory_error + unit) \<times> 'w"

definition native_dispatcher ::
  "('w, 'f) tool_parts \<Rightarrow> ('w \<Rightarrow> ('w, 'v) remote_device list) \<Rightarrow> ('w, 'v, 'f) dispatcher" where
  "native_dispatcher tp devices =
     foldl (\<lambda>d t. register_tool t d) (with_device_registry devices dispatcher_new)
       [ExecuteCommand (tp_computer tp) DEFAULT_COMMAND_TIMEOUT, OpenUrl (tp_computer tp) DEFAULT_OPEN_TIMEOUT,
        OpenApp (tp_computer tp) DEFAULT_OPEN_TIMEOUT, VolumeControl (tp_computer tp) DEFAULT_OPEN_TIMEOUT,
        ListApps (tp_apps tp) (tp_computer tp) DEFAULT_LIST_APPS_TIMEOUT, PingTool, CurrentTime (tp_now tp),
        GetWeather (tp_weather tp) (tp_fetcher tp), WebSearch (tp_lossy tp) (tp_search tp) (tp_fetcher tp),
        FetchUrl (tp_html tp) (tp_fetcher tp), Remember (tp_remember tp)]"

section \<open>MCP servers\<close>

record mcp_server_config =
  ms_name :: string
  ms_command :: string
  ms_args :: "string list"
  ms_tools :: "string list option"

record raw_mcp_server =
  raw_command :: string
  raw_args :: "string list"
  raw_tools :: "string list option"

definition parse_mcp_config ::
  "(string \<Rightarrow> string + (string \<times> raw_mcp_server) list) \<Rightarrow> string \<Rightarrow> string + mcp_server_config list" where
  "parse_mcp_config decode json =
     (case decode json of
        Inl e \<Rightarrow> Inl e
      | Inr raw \<Rightarrow>
          Inr (map (\<lambda>(name, server).
                 \<lparr>ms_name = name, ms_command = raw_command server, ms_args = raw_args server,
                  ms_tools = raw_tools server\<rparr>) raw))"

definition read_mcp_config_file ::
  "(string \<Rightarrow> string + (string \<times> raw_mcp_server) list) \<Rightarrow> (string \<Rightarrow> string option) \<Rightarrow> (string \<Rightarrow> string option) \<Rightarrow>
     mcp_server_config list" where
  "read_mcp_config_file decode env read =
     (let path = (case env ''NALA_MCP_CONFIG'' of Some p \<Rightarrow> p | None \<Rightarrow> ''mcp.json'')
      in case read path of
           None \<Rightarrow> []
         | Some contents \<Rightarrow> (case parse_mcp_config decode contents of Inr servers \<Rightarrow> servers | Inl e \<Rightarrow> []))"

definition legacy_env_mcp_server :: "(string \<Rightarrow> string option) \<Rightarrow> mcp_server_config option" where
  "legacy_env_mcp_server env =
     (if env ''NALA_MCP'' \<noteq> Some ''on'' then None
      else case env ''NALA_MCP_COMMAND'' of
          None \<Rightarrow> None
        | Some command \<Rightarrow>
            (case split_whitespace command of
               [] \<Rightarrow> None
             | program # args \<Rightarrow>
                 Some \<lparr>ms_name = ''legacy-env'', ms_command = program, ms_args = args,
                       ms_tools = map_option (\<lambda>v. map trim (split_on (CHR '','') v)) (env ''NALA_MCP_TOOLS'')\<rparr>))"

text \<open>
  A started server: what listing its tools gives, and its call operation; \<open>spawn\<close> starts the
  process of a configuration.
\<close>

record ('w, 'v) mcp_process =
  mp_list :: "'w \<Rightarrow> (mcp_error + 'v mcp_tool_info list) \<times> 'w"
  mp_call :: "string \<Rightarrow> 'v \<Rightarrow> 'w \<Rightarrow> (mcp_error + mcp_tool_result) \<times> 'w"

definition connect_mcp_server ::
  "(string \<Rightarrow> string list \<Rightarrow> 'w \<Rightarrow> (string + ('w, 'v) mcp_process) \<times> 'w) \<Rightarrow> mcp_server_config \<Rightarrow> 'w \<Rightarrow>
     (string + ('w, 'v) mcp_toolset) \<times> 'w" where
  "connect_mcp_server spawn config w =
     (case spawn (ms_command config) (ms_args config) w of
        (Inl e, w) \<Rightarrow> (Inl e, w)
      | (Inr p, w) \<Rightarrow>
          (case mcp_toolset_connect (mp_list p) (mp_call p) (ms_tools config) w of
             (res, w) \<Rightarrow> (map_err show_mcp_error res, w)))"

fun connect_mcp_configs ::
  "(string \<Rightarrow> string list \<Rightarrow> 'w \<Rightarrow> (string + ('w, 'v) mcp_process) \<times> 'w) \<Rightarrow> mcp_server_config list \<Rightarrow> 'w \<Rightarrow>
     ('w, 'v) mcp_toolset list \<times> 'w" where
  "connect_mcp_configs spawn [] w = ([], w)"
| "connect_mcp_configs spawn (config # configs) w =
     (case connect_mcp_server spawn config w of
        (Inl e, w) \<Rightarrow> connect_mcp_configs spawn configs w
      | (Inr toolset, w) \<Rightarrow>
          (case connect_mcp_configs spawn configs w of (toolsets, w) \<Rightarrow> (toolset # toolsets, w)))"

definition connect_mcp_servers ::
  "(string \<Rightarrow> string + (string \<times> raw_mcp_server) list) \<Rightarrow> (string \<Rightarrow> string option) \<Rightarrow> (string \<Rightarrow> string option) \<Rightarrow>
     (string \<Rightarrow> string list \<Rightarrow> 'w \<Rightarrow> (string + ('w, 'v) mcp_process) \<times> 'w) \<Rightarrow> 'w \<Rightarrow>
     ('w, 'v) mcp_toolset list \<times> 'w" where
  "connect_mcp_servers decode env read spawn w =
     connect_mcp_configs spawn
       (read_mcp_config_file decode env read @
        (case legacy_env_mcp_server env of None \<Rightarrow> [] | Some config \<Rightarrow> [config])) w"

section \<open>The assembled assistant\<close>

fun first_published :: "string list \<Rightarrow> 'v tool_definition list \<Rightarrow> 'v tool_definition list" where
  "first_published seen [] = []"
| "first_published seen (d # ds) =
     (if td_name d \<in> set seen then first_published seen ds
      else d # first_published (td_name d # seen) ds)"

text \<open>The registry and the dispatcher of \<open>build_assistant\<close>, from the toolsets that connected.\<close>

definition assemble ::
  "'v tool_texts \<Rightarrow> ('w, 'f) tool_parts \<Rightarrow> ('w \<Rightarrow> ('w, 'v) remote_device list) \<Rightarrow> ('w, 'v) mcp_toolset list \<Rightarrow>
     'v tool_registry \<times> ('w, 'v, 'f) dispatcher" where
  "assemble tx tp devices toolsets =
     (let r = native_registry tx; d = native_dispatcher tp devices
      in if toolsets = [] then (r, d)
         else (register_all r (first_published [] (concat (map ts_definitions toolsets))),
               register_tool (McpTools toolsets) d))"

definition DEFAULT_MODEL :: string where "DEFAULT_MODEL = ''llama3.2''"

record boot_settings =
  bs_model :: string
  bs_planning :: bool
  bs_memory_path :: string

definition boot_settings_from_env :: "(string \<Rightarrow> string option) \<Rightarrow> boot_settings" where
  "boot_settings_from_env env =
     \<lparr>bs_model = (case env ''NALA_MODEL'' of Some m \<Rightarrow> m | None \<Rightarrow> DEFAULT_MODEL),
      bs_planning = (env ''NALA_PLANNING'' = Some ''on''),
      bs_memory_path = (case env ''NALA_MEMORY_FILE'' of Some p \<Rightarrow> p | None \<Rightarrow> ''data/memory.json'')\<rparr>"

text \<open>What the model is offered in a turn: the registry with the live device tools.\<close>

definition offered ::
  "'v tool_registry \<times> ('w, 'v, 'f) dispatcher \<Rightarrow> 'w \<Rightarrow> 'v tool_definition list" where
  "offered rd w = (case rd of (r, d) \<Rightarrow> definitions (set_device_tools r (fst (device_tools d w))))"

section \<open>Everything offered can be run\<close>

lemma first_published_names:
  "td_name ` set (first_published seen ds) = td_name ` set ds - set seen"
  by (induction ds arbitrary: seen) auto

lemma register_all_names: "td_name ` set (reg_tools (register_all r ds)) = td_name ` set (reg_tools r) \<union> td_name ` set ds"
proof (induction ds rule: rev_induct)
  case Nil
  then show ?case by (simp add: register_all_def)
next
  case (snoc d ds)
  have "td_name ` set (replace_or_push ts d) = insert (td_name d) (td_name ` set ts)" for ts :: "'a tool_definition list"
    using arg_cong [OF map_name_replace_or_push [of ts d], of set] by (auto split: if_splits)
  with snoc show ?case by (auto simp: register_all_snoc register_def)
qed

lemma native_registry_names: "td_name ` set (reg_tools (native_registry tx)) = set NATIVE_TOOLS"
  by (simp add: native_registry_def register_all_names registry_new_def native_definition_def image_image)

lemma native_dispatcher_sel:
  "disp_live (native_dispatcher tp devices) = Some devices"
  "set (List.map_filter native_name (disp_tools (native_dispatcher tp devices))) = set NATIVE_TOOLS"
  "\<forall>t \<in> set (disp_tools (native_dispatcher tp devices)). \<not> is_device_tools t"
  by (auto simp: native_dispatcher_def register_tool_def with_device_registry_def dispatcher_new_def NATIVE_TOOLS_def
      List.map_filter_def)

lemma run_native_found: "native_name t \<noteq> None \<Longrightarrow> fst (run_native codec t args w) \<noteq> Inl ToolNotFound"
  by (cases t)
    (auto simp: dispatch_command_def ran_def parse_args_def map_sum_eq_Inl map_err_eq_Inl split: prod.splits sum.splits)

lemma set_map_filter_append: "set (List.map_filter f (xs @ ys)) = set (List.map_filter f xs) \<union> set (List.map_filter f ys)"
  by (simp add: List.map_filter_def)

lemma dispatch_native_found:
  assumes "n \<in> set (List.map_filter native_name ts) \<or>
    (\<exists>ss. McpTools ss \<in> set ts \<and> (\<exists>s \<in> set ss. mcp_handles s n))"
  shows "fst (dispatch_native codec \<lparr>tc_name = n, tc_arguments = args\<rparr> ts w) \<noteq> Inl ToolNotFound"
  using assms
proof (induction ts)
  case (Cons t ts)
  show ?case
  proof (cases "\<exists>ss. t = McpTools ss")
    case True
    then obtain ss where t: "t = McpTools ss" by blast
    show ?thesis
    proof (cases "List.find (\<lambda>s. mcp_handles s n) ss")
      case None
      then have "\<not> (\<exists>s \<in> set ss. mcp_handles s n)" by (auto simp: find_None_iff)
      with Cons.prems t have "n \<in> set (List.map_filter native_name ts) \<or>
          (\<exists>ss. McpTools ss \<in> set ts \<and> (\<exists>s \<in> set ss. mcp_handles s n))"
        by (auto simp: List.map_filter_def)
      from Cons.IH [OF this] None t show ?thesis by simp
    next
      case (Some s)
      with t show ?thesis by (auto simp: map_sum_eq_Inl split: prod.split)
    qed
  next
    case False
    then have step: "dispatch_native codec \<lparr>tc_name = n, tc_arguments = args\<rparr> (t # ts) w =
        (if native_name t = Some n then run_native codec t args w
         else dispatch_native codec \<lparr>tc_name = n, tc_arguments = args\<rparr> ts w)"
      by (cases t) simp_all
    show ?thesis
    proof (cases "native_name t = Some n")
      case True
      then show ?thesis using run_native_found [of t codec args w] step by simp
    next
      case other: False
      with Cons.prems False have "n \<in> set (List.map_filter native_name ts) \<or>
          (\<exists>ss. McpTools ss \<in> set ts \<and> (\<exists>s \<in> set ss. mcp_handles s n))"
        by (auto simp: List.map_filter_def split: if_splits)
      from Cons.IH [OF this] other step show ?thesis by simp
    qed
  qed
qed (simp add: List.map_filter_def)

lemma assemble_sel:
  "disp_live (snd (assemble tx tp devices toolsets)) = Some devices"
  "filter (\<lambda>t. \<not> is_device_tools t) (disp_tools (snd (assemble tx tp devices toolsets))) =
     disp_tools (native_dispatcher tp devices) @ (if toolsets = [] then [] else [McpTools toolsets])"
  using native_dispatcher_sel [of tp devices]
  by (auto simp: assemble_def Let_def register_tool_def)

lemma assemble_names:
  "td_name ` set (reg_tools (fst (assemble tx tp devices toolsets))) =
     set NATIVE_TOOLS \<union> td_name ` set (concat (map ts_definitions toolsets))"
  by (auto simp: assemble_def Let_def register_all_names native_registry_names first_published_names)

lemma assemble_runs:
  assumes "n \<in> td_name ` set (reg_tools (fst (assemble tx tp devices toolsets)))"
  shows "n \<in> set (List.map_filter native_name
      (filter (\<lambda>t. \<not> is_device_tools t) (disp_tools (snd (assemble tx tp devices toolsets))))) \<or>
    (\<exists>ss. McpTools ss \<in> set (filter (\<lambda>t. \<not> is_device_tools t) (disp_tools (snd (assemble tx tp devices toolsets)))) \<and>
      (\<exists>s \<in> set ss. mcp_handles s n))"
proof (cases "n \<in> set NATIVE_TOOLS")
  case True
  then show ?thesis by (simp add: assemble_sel(2) set_map_filter_append native_dispatcher_sel(2))
next
  case False
  with assms have named: "\<exists>s \<in> set toolsets. mcp_handles s n"
    by (auto simp: assemble_names mcp_handles_def list_ex_iff)
  then have "toolsets \<noteq> []" by auto
  with named show ?thesis unfolding assemble_sel(2) by (intro disjI2 exI [of _ toolsets]) simp
qed

lemma dispatch_native_absent:
  assumes "n \<notin> set (List.map_filter native_name ts)" and "\<forall>t \<in> set ts. \<not> is_device_tools t"
    and "\<forall>ss. McpTools ss \<in> set ts \<longrightarrow> \<not> list_ex (\<lambda>s. mcp_handles s n) ss"
  shows "dispatch_native codec \<lparr>tc_name = n, tc_arguments = args\<rparr> ts w = (Inl ToolNotFound, w)"
  using assms
proof (induction ts)
  case (Cons t ts)
  then have IH: "dispatch_native codec \<lparr>tc_name = n, tc_arguments = args\<rparr> ts w = (Inl ToolNotFound, w)"
    by (auto simp: List.map_filter_def split: if_splits)
  show ?case
  proof (cases "\<exists>ss. t = McpTools ss")
    case True
    then obtain ss where t: "t = McpTools ss" by blast
    with Cons.prems(3) have "List.find (\<lambda>s. mcp_handles s n) ss = None"
      by (auto simp: find_None_iff list_ex_iff)
    with t IH show ?thesis by simp
  next
    case False
    with Cons.prems(1,2) IH show ?thesis by (cases t) (auto simp: List.map_filter_def)
  qed
qed simp

lemma assembled_static_found:
  assumes "n \<in> td_name ` set (reg_tools (fst (assemble tx tp devices toolsets)))"
  shows "fst (fst (dispatch codec \<lparr>tc_name = n, tc_arguments = args\<rparr>
    (snd (assemble tx tp devices toolsets)) w)) \<noteq> Inl ToolNotFound"
proof -
  let ?tc = "\<lparr>tc_name = n, tc_arguments = args\<rparr>"
  note route = dispatch_route [OF assemble_sel(1), of codec ?tc tx tp devices toolsets w]
  from dispatch_native_found [OF assemble_runs [OF assms], of codec args w] show ?thesis
    unfolding conjunct1 [OF route] by (auto split: option.split list.split simp del: dispatch_native.simps)
qed

text \<open>The dispatcher after earlier calls, each in the world of its time: a call leaves it synchronised.\<close>

definition used_dispatcher ::
  "'v arg_codec \<Rightarrow> (tool_call \<times> 'w) list \<Rightarrow> ('w, 'v, 'f) dispatcher \<Rightarrow> ('w, 'v, 'f) dispatcher" where
  "used_dispatcher codec uses d = fold (\<lambda>(tc, w) d. snd (dispatch codec tc d w)) uses d"

text \<open>Whether one of the connected devices takes a call: by its published name, or alone by the bare one.\<close>

definition device_takes :: "('w, 'v) remote_device list \<Rightarrow> string \<Rightarrow> bool" where
  "device_takes ds n \<longleftrightarrow> list_ex (\<lambda>r. toolset_handles r n) ds \<or> length (filter (\<lambda>r. toolset_handles_bare r n) ds) = 1"

lemma used_dispatcher_sel:
  "disp_live d = Some live \<Longrightarrow> disp_live (used_dispatcher codec uses d) = Some live"
  "disp_live d = Some live \<Longrightarrow> filter (\<lambda>t. \<not> is_device_tools t) (disp_tools (used_dispatcher codec uses d)) =
     filter (\<lambda>t. \<not> is_device_tools t) (disp_tools d)"
proof -
  have sync: "disp_live (snd (dispatch codec tc d w)) = Some live \<and>
      filter (\<lambda>t. \<not> is_device_tools t) (disp_tools (snd (dispatch codec tc d w))) =
      filter (\<lambda>t. \<not> is_device_tools t) (disp_tools d)" if "disp_live d = Some live" for tc w and d :: "('a, 'b, 'c) dispatcher"
    using that by (auto simp: dispatch_def sync_devices_def Let_def)
  have "disp_live d = Some live \<Longrightarrow> disp_live (used_dispatcher codec uses d) = Some live \<and>
      filter (\<lambda>t. \<not> is_device_tools t) (disp_tools (used_dispatcher codec uses d)) =
      filter (\<lambda>t. \<not> is_device_tools t) (disp_tools d)"
    unfolding used_dispatcher_def by (induction uses arbitrary: d) (auto simp: sync)
  then show "disp_live d = Some live \<Longrightarrow> disp_live (used_dispatcher codec uses d) = Some live"
    "disp_live d = Some live \<Longrightarrow> filter (\<lambda>t. \<not> is_device_tools t) (disp_tools (used_dispatcher codec uses d)) =
      filter (\<lambda>t. \<not> is_device_tools t) (disp_tools d)" by simp_all
qed

lemma assemble_absent:
  assumes "n \<notin> td_name ` set (reg_tools (fst (assemble tx tp devices toolsets)))"
  shows "dispatch_native codec \<lparr>tc_name = n, tc_arguments = args\<rparr>
      (filter (\<lambda>t. \<not> is_device_tools t) (disp_tools (snd (assemble tx tp devices toolsets)))) w = (Inl ToolNotFound, w)"
proof (rule dispatch_native_absent)
  show "n \<notin> set (List.map_filter native_name
      (filter (\<lambda>t. \<not> is_device_tools t) (disp_tools (snd (assemble tx tp devices toolsets)))))"
    using assms unfolding assemble_sel(2) assemble_names set_map_filter_append native_dispatcher_sel(2)
    by (auto simp: List.map_filter_def)
  have "McpTools ss \<notin> set (disp_tools (native_dispatcher tp devices))" for ss
    by (auto simp: native_dispatcher_def register_tool_def with_device_registry_def dispatcher_new_def)
  then show "\<forall>ss. McpTools ss \<in> set (filter (\<lambda>t. \<not> is_device_tools t) (disp_tools (snd (assemble tx tp devices toolsets)))) \<longrightarrow>
      \<not> list_ex (\<lambda>s. mcp_handles s n) ss"
    using assms unfolding assemble_sel(2) assemble_names
    by (auto simp: mcp_handles_def list_ex_iff split: if_splits)
qed simp

lemma dispatch_assembled:
  fixes tx tp devices toolsets codec uses args w
  assumes "assemble tx tp devices toolsets = (r, disp)"
  shows "fst (fst (dispatch codec \<lparr>tc_name = n, tc_arguments = args\<rparr> (used_dispatcher codec uses disp) w)) = Inl ToolNotFound \<longleftrightarrow>
    n \<notin> td_name ` set (reg_tools r) \<and> \<not> device_takes (devices w) n"
proof -
  let ?tc = "\<lparr>tc_name = n, tc_arguments = args\<rparr>" and ?static = "filter (\<lambda>t. \<not> is_device_tools t) (disp_tools disp)"
  have sel: "disp_live disp = Some devices" "r = fst (assemble tx tp devices toolsets)"
      "disp = snd (assemble tx tp devices toolsets)"
    using assemble_sel(1) [of tx tp devices toolsets] assms by simp_all
  have native: "fst (dispatch_native codec ?tc ?static w) = Inl ToolNotFound \<longleftrightarrow> n \<notin> td_name ` set (reg_tools r)"
    using dispatch_native_found [OF assemble_runs, of n tx tp devices toolsets codec args w]
      assemble_absent [of n tx tp devices toolsets codec args w] sel(2,3) by (metis fst_conv)
  note route = dispatch_route [OF used_dispatcher_sel(1) [OF sel(1)], of codec ?tc codec uses w,
      unfolded used_dispatcher_sel(2) [OF sel(1)]]
  show ?thesis
  proof (cases "device_takes (devices w) n")
    case True
    then show ?thesis
      unfolding conjunct1 [OF route]
      by (auto simp: device_takes_def list_ex_iff length_Suc_conv find_None_iff split: option.split)
  next
    case False
    then have "List.find (\<lambda>x. toolset_handles x n) (devices w) = None"
        "\<And>x. filter (\<lambda>x. toolset_handles_bare x n) (devices w) \<noteq> [x]"
      by (auto simp: device_takes_def list_ex_iff find_None_iff)
    with False native show ?thesis
      unfolding conjunct1 [OF route] by (auto split: list.split simp del: dispatch_native.simps)
  qed
qed

text \<open>
  C14. Every tool the assembled assistant offers to the model can be run at the time of the offer: a
  call to it, with any arguments, is not answered that there is no such tool. Whenever it is
  dispatched later, after any other calls, it is answered so in one case only: the tool is not a
  native or an MCP one, so it was the tool of a device that was connected when it was offered, and
  none of the devices connected by then takes it.
\<close>

theorem offered_tools_run:
  assumes "assemble tx tp devices toolsets = (r, disp)"
    and "d \<in> set (offered (r, used_dispatcher codec uses disp) w)"
  shows "fst (fst (dispatch codec \<lparr>tc_name = td_name d, tc_arguments = args\<rparr> (used_dispatcher codec uses disp) w)) \<noteq>
      Inl ToolNotFound \<and>
    (td_name d \<in> td_name ` set (reg_tools r) \<or> list_ex (\<lambda>x. toolset_handles x (td_name d)) (devices w)) \<and>
    (fst (fst (dispatch codec \<lparr>tc_name = td_name d, tc_arguments = args\<rparr> (used_dispatcher codec uses' disp) w')) =
        Inl ToolNotFound \<longleftrightarrow>
      td_name d \<notin> td_name ` set (reg_tools r) \<and> \<not> device_takes (devices w') (td_name d))"
proof -
  have live: "disp_live (used_dispatcher codec uses disp) = Some devices"
    using assemble_sel(1) [of tx tp devices toolsets] assms(1) by (simp add: used_dispatcher_sel)
  have "td_name d \<in> td_name ` set (reg_tools r) \<or> list_ex (\<lambda>x. toolset_handles x (td_name d)) (devices w)"
    using assms(2)
    by (auto simp: offered_def definitions_def device_tools_live [OF live] list_ex_iff toolset_handles_def)
  then show ?thesis by (auto simp: dispatch_assembled [OF assms(1)] device_takes_def)
qed

definition sample_parts :: "(string list, unit) tool_parts" where
  "sample_parts = \<lparr>tp_computer = recording (\<lambda>_. True), tp_apps = (\<lambda>_. Inr AppsOther),
     tp_now = (\<lambda>w. (\<lparr>wt_hour_minute = ''09:30'', wt_day = ''7'', wt_month = ''05'', wt_year = ''2025''\<rparr>, w)),
     tp_weather = \<lparr>decode_geocoding = (\<lambda>_. Inr []), decode_forecast = (\<lambda>_. Inl ''offline''),
       show_float = (\<lambda>_. []), show_rounded = (\<lambda>_. [])\<rparr>,
     tp_lossy = id,
     tp_search = \<lparr>link_captures = (\<lambda>_. []), snippet_captures = (\<lambda>_. []), strip_tags = id\<rparr>,
     tp_html = \<lparr>blank_scripts = id, blank_styles = id, blank_tags = id\<rparr>,
     tp_fetcher = (\<lambda>_ w. (Inr [], w)), tp_remember = (\<lambda>_ _ w. (Inr (), w))\<rparr>"

definition sample_texts :: "unit tool_texts" where
  "sample_texts = \<lparr>tx_description = (\<lambda>n. n), tx_parameters = (\<lambda>_. ())\<rparr>"

definition sample_toolset :: "string \<Rightarrow> string \<Rightarrow> (string list, unit) mcp_toolset" where
  "sample_toolset name description = \<lparr>ts_call = (\<lambda>_ _ w. (Inr \<lparr>mr_text = ''mcp'', mr_images = []\<rparr>, w)),
     ts_definitions = [\<lparr>td_name = name, td_description = description, td_parameters = ()\<rparr>]\<rparr>"

theorem offered_tools_run_witness:
  "case assemble sample_texts sample_parts (\<lambda>w. if w = [] then [sample_device] else []) [sample_toolset ''click'' ''Click''] of
    (r, disp) \<Rightarrow>
      fst (fst (dispatch sample_codec \<lparr>tc_name = device_prefix sample_device @ ''volume'', tc_arguments = ''{}''\<rparr> disp [])) \<noteq>
        Inl ToolNotFound \<and>
      fst (fst (dispatch sample_codec \<lparr>tc_name = device_prefix sample_device @ ''volume'', tc_arguments = ''{}''\<rparr> disp [''later''])) =
        Inl ToolNotFound"
proof -
  let ?ds = "\<lambda>w. if w = [] then [sample_device] else []" and ?n = "device_prefix sample_device @ ''volume''"
  obtain r disp where a: "assemble sample_texts sample_parts ?ds [sample_toolset ''click'' ''Click''] = (r, disp)"
    by fastforce
  have static: "?n \<notin> td_name ` set (reg_tools r)"
    using assemble_names [of sample_texts sample_parts ?ds "[sample_toolset ''click'' ''Click'']"] a
    by (auto simp: sample_toolset_def NATIVE_TOOLS_def sample_device_def device_prefix_def)
  have live: "disp_live disp = Some ?ds"
    using assemble_sel(1) [of sample_texts sample_parts ?ds] a by (metis snd_conv)
  have "set (toolset_definitions sample_device) \<subseteq> set (offered (r, used_dispatcher sample_codec [] disp) [])"
    by (auto simp: offered_def definitions_def set_device_tools_def used_dispatcher_def device_tools_live [OF live])
  moreover obtain d where "d \<in> set (toolset_definitions sample_device)" "td_name d = ?n"
    by (force simp: toolset_definitions_def sample_device_def bare_capability_def)
  ultimately show ?thesis
    using offered_tools_run [OF a, of d sample_codec "[]" "[]" "''{}''" "[]" "[''later'']"] a static
    by (auto simp: used_dispatcher_def device_takes_def)
qed

section \<open>A native name published by an MCP server\<close>

lemma first_published_distinct: "distinct (map td_name (first_published seen ds))"
proof (induction ds arbitrary: seen)
  case (Cons d ds)
  have "td_name d \<notin> td_name ` set (first_published (td_name d # seen) ds)"
    unfolding first_published_names by simp
  with Cons show ?case by simp
qed simp

lemma register_all_keeps: "d \<in> set (reg_tools r) \<Longrightarrow> td_name d \<notin> td_name ` set ds \<Longrightarrow> d \<in> set (reg_tools (register_all r ds))"
proof (induction ds rule: rev_induct)
  case (snoc e ds)
  have "d \<in> set ts \<Longrightarrow> td_name d \<noteq> td_name e \<Longrightarrow> d \<in> set (replace_or_push ts e)" for ts :: "'a tool_definition list"
    by (induction ts) auto
  with snoc show ?case by (simp add: register_all_snoc register_def)
qed (simp add: register_all_def)

lemma register_all_adds:
  "distinct (map td_name ds) \<Longrightarrow> d \<in> set ds \<Longrightarrow> d \<in> set (reg_tools (register_all r ds))"
proof (induction ds rule: rev_induct)
  case (snoc e ds)
  have new: "e \<in> set (replace_or_push ts e)" for ts :: "'a tool_definition list"
    by (induction ts) auto
  have keep: "d \<in> set ts \<Longrightarrow> td_name d \<noteq> td_name e \<Longrightarrow> d \<in> set (replace_or_push ts e)" for ts :: "'a tool_definition list"
    by (induction ts) auto
  show ?case
  proof (cases "d = e")
    case True
    with new show ?thesis by (simp add: register_all_snoc register_def)
  next
    case False
    with snoc.prems have "d \<in> set ds" "td_name d \<noteq> td_name e" by (auto simp: image_iff)
    with snoc keep show ?thesis by (simp add: register_all_snoc register_def)
  qed
qed simp

lemma dispatch_native_named:
  assumes "n \<in> set (List.map_filter native_name ts)" "\<forall>t \<in> set ts. \<forall>ss. t \<noteq> McpTools ss"
  shows "dispatch_native codec \<lparr>tc_name = n, tc_arguments = args\<rparr> (ts @ us) w =
    dispatch_native codec \<lparr>tc_name = n, tc_arguments = args\<rparr> ts w"
  using assms
proof (induction ts)
  case (Cons t ts)
  then have "n \<in> set (List.map_filter native_name ts)" if "native_name t \<noteq> Some n"
    using that by (auto simp: List.map_filter_def split: if_splits)
  with Cons show ?case by (cases t) simp_all
qed (simp add: List.map_filter_def)

lemma native_dispatcher_no_mcp: "\<forall>t \<in> set (disp_tools (native_dispatcher tp devices)). \<forall>ss. t \<noteq> McpTools ss"
  by (simp add: native_dispatcher_def register_tool_def with_device_registry_def dispatcher_new_def)

lemma assemble_keeps_definition:
  assumes "d \<in> set (first_published [] (concat (map ts_definitions toolsets)))"
  shows "d \<in> set (reg_tools (fst (assemble tx tp devices toolsets)))"
proof -
  from assms have "toolsets \<noteq> []" by auto
  with assms show ?thesis by (simp add: assemble_def Let_def register_all_adds first_published_distinct)
qed

text \<open>
  When an MCP server publishes a tool under the name of a native one, the model is offered the
  server's definition, and a call to it still runs the native tool: without devices its
  outcome and its effect are those of the assistant without MCP servers.
\<close>

theorem mcp_name_clash:
  assumes "d \<in> set (first_published [] (concat (map ts_definitions toolsets)))"
    and "td_name d \<in> set NATIVE_TOOLS" and "devices w = []"
  shows "d \<in> set (offered (assemble tx tp devices toolsets) w) \<and>
    fst (dispatch codec \<lparr>tc_name = td_name d, tc_arguments = args\<rparr> (snd (assemble tx tp devices toolsets)) w) =
    fst (dispatch codec \<lparr>tc_name = td_name d, tc_arguments = args\<rparr> (snd (assemble tx tp devices [])) w)"
proof (rule conjI)
  have none: "fst (device_tools (snd (assemble tx tp devices toolsets)) w) = []"
    using assms(3) by (simp add: device_tools_live [OF assemble_sel(1)])
  with assemble_keeps_definition [OF assms(1), of tx tp devices]
  show "d \<in> set (offered (assemble tx tp devices toolsets) w)"
    by (cases "assemble tx tp devices toolsets") (simp add: offered_def definitions_def shadowed_def)
  have "fst (dispatch codec \<lparr>tc_name = td_name d, tc_arguments = args\<rparr> (snd (assemble tx tp devices tss)) w) =
      dispatch_native codec \<lparr>tc_name = td_name d, tc_arguments = args\<rparr> (disp_tools (native_dispatcher tp devices)) w" for tss
  proof -
    have "td_name d \<in> set (List.map_filter native_name (disp_tools (native_dispatcher tp devices)))"
      using assms(2) by (simp add: native_dispatcher_sel(2))
    note named = dispatch_native_named [OF this native_dispatcher_no_mcp]
    show ?thesis
      unfolding conjunct1 [OF dispatch_route [OF assemble_sel(1)]] assemble_sel(2) assms(3)
      by (simp add: named del: dispatch_native.simps)
  qed
  then show "fst (dispatch codec \<lparr>tc_name = td_name d, tc_arguments = args\<rparr> (snd (assemble tx tp devices toolsets)) w) =
      fst (dispatch codec \<lparr>tc_name = td_name d, tc_arguments = args\<rparr> (snd (assemble tx tp devices [])) w)"
    by simp
qed

theorem mcp_name_clash_witness:
  "\<lparr>td_name = ''ping'', td_description = ''Ping a host'', td_parameters = ()\<rparr> \<in>
     set (offered (assemble sample_texts sample_parts (\<lambda>w. []) [sample_toolset ''ping'' ''Ping a host'']) []) \<and>
   fst (dispatch sample_codec \<lparr>tc_name = ''ping'', tc_arguments = ''{}''\<rparr>
     (snd (assemble sample_texts sample_parts (\<lambda>w. []) [sample_toolset ''ping'' ''Ping a host''])) []) =
     (Inr (outcome_of_text ''pong''), [])"
proof -
  have "\<lparr>td_name = ''ping'', td_description = ''Ping a host'', td_parameters = ()\<rparr> \<in>
      set (first_published [] (concat (map ts_definitions [sample_toolset ''ping'' ''Ping a host''])))"
    by (simp add: sample_toolset_def)
  from mcp_name_clash [OF this, of "\<lambda>_. []" "[]" sample_texts sample_parts sample_codec "''{}''"]
  show ?thesis
    by (simp add: NATIVE_TOOLS_def assemble_def Let_def dispatch_def sync_devices_def native_dispatcher_def
        with_device_registry_def register_tool_def dispatcher_new_def ping_execute_def)
qed

end
