(* ===== verification/Nala_Server.thy ===== *)
theory Nala_Server
  imports Agent_Props
begin

text \<open>
  Both ends of a turn connection: the session loop of \<open>apps/nala/src/server.rs\<close> around one
  assistant, and the client of \<open>apps/voice/src/client.rs\<close> that the voice service talks through.
  What a peer receives is the list of the results of its reads, the end of the list being a
  read that still blocks. A failed send is logged and ignored by the server, so what the
  server sends is the list of the messages it tries to send. The sockets, the accept loop
  and the wrapped console and metrics sinks are not modelled here.
\<close>

section \<open>The server\<close>

definition GREETING_TEXT :: string where
  "GREETING_TEXT = ''Hola, en que te puedo ayudar?''"

text \<open>
  \<open>WsEventSink::emit\<close>: an event goes to the wire and to the inner sink; the agent's
  \<open>events\<close> are what the inner sink has got.
\<close>

definition ws_emit :: "event \<Rightarrow> server_message list \<times> event list \<Rightarrow> server_message list \<times> event list" where
  "ws_emit ev out = (case out of (wire, inner) \<Rightarrow> (wire @ [EventMsg ev], inner @ [ev]))"

definition events_since :: "('w, 'v) agent \<Rightarrow> ('w, 'v) agent \<Rightarrow> event list" where
  "events_since a b = drop (length (events a)) (events b)"

definition turn_answer :: "('w, 'v, 'e) agent_env \<Rightarrow> 'e assistant_error + string \<Rightarrow> server_message" where
  "turn_answer env res =
     (case res of
        Inr reply \<Rightarrow> Reply reply
      | Inl e \<Rightarrow> ErrorMsg (show_assistant_error (env_show_error env) e))"

fun run_session ::
  "('w, 'v, 'e) agent_env \<Rightarrow> (string + client_message option) list \<Rightarrow> ('w, 'v) agent \<Rightarrow>
     server_message list \<times> ('w, 'v) agent" where
  "run_session env [] a = ([], a)"
| "run_session env (Inr (Some (Input input source)) # incoming) a =
     (let (res, b) = process_from env input source a;
          sent = fst (fold ws_emit (events_since a b) ([], events a)) @ [turn_answer env res];
          (more, c) = run_session env incoming b
      in (sent @ more, c))"
| "run_session env (Inr (Some Cancel) # incoming) a = run_session env incoming a"
| "run_session env (Inr None # incoming) a = ([], a)"
| "run_session env (Inl e # incoming) a = ([], a)"

text \<open>\<open>handle_connection\<close> after the handshake, with the assistant just built.\<close>

definition handle_connection ::
  "('w, 'v, 'e) agent_env \<Rightarrow> (string + client_message option) list \<Rightarrow> ('w, 'v) agent \<Rightarrow>
     server_message list \<times> ('w, 'v) agent" where
  "handle_connection env incoming a =
     (let (wire, inner) = ws_emit (Greeting GREETING_TEXT) ([], events a);
          (sent, b) = run_session env incoming (a\<lparr>events := inner\<rparr>)
      in (wire @ sent, b))"

lemma fold_ws_emit:
  "fold ws_emit evs (wire, inner) = (wire @ map EventMsg evs, inner @ evs)"
  by (induction evs arbitrary: wire inner) (simp_all add: ws_emit_def)

lemma events_appended:
  "process_from env input source a = (res, b) \<Longrightarrow> events b = events a @ events_since a b"
  using process_from_outcome [where env = env and input = input and source = source and a = a] by (auto simp: events_since_def)

section \<open>The client\<close>

datatype client_error = ConnectFailed string | ClientIo string | ServerError string | ClosedWithoutReply

record nala_client =
  nc_incoming :: "(client_error + server_message option) list"
  nc_sent :: "client_message list"

definition nala_client_new :: "(client_error + server_message option) list \<Rightarrow> nala_client" where
  "nala_client_new incoming = \<lparr>nc_incoming = incoming, nc_sent = []\<rparr>"

text \<open>\<open>None\<close> is a call that is still waiting for a message.\<close>

definition recv_greeting :: "nala_client \<Rightarrow> (client_error + string) option \<times> nala_client" where
  "recv_greeting c =
     (case nc_incoming c of
        [] \<Rightarrow> (None, c)
      | msg # rest \<Rightarrow>
          (Some (case msg of
             Inl e \<Rightarrow> Inl e
           | Inr (Some (EventMsg (Greeting greeting))) \<Rightarrow> Inr greeting
           | Inr (Some _) \<Rightarrow> Inl (ServerError ''expected a Greeting right after connecting'')
           | Inr None \<Rightarrow> Inl ClosedWithoutReply), c\<lparr>nc_incoming := rest\<rparr>))"

text \<open>The loop of \<open>send\<close>: the events handed to \<open>on_event\<close>, and the result unless still waiting.\<close>

fun await_reply ::
  "(client_error + server_message option) list \<Rightarrow>
     event list \<times> (client_error + string) option \<times> (client_error + server_message option) list" where
  "await_reply [] = ([], None, [])"
| "await_reply (Inr (Some (EventMsg ev)) # rest) =
     (let (evs, res, rest) = await_reply rest in (ev # evs, res, rest))"
| "await_reply (Inr (Some (Reply reply)) # rest) = ([], Some (Inr reply), rest)"
| "await_reply (Inr (Some (ErrorMsg m)) # rest) = ([], Some (Inl (ServerError m)), rest)"
| "await_reply (Inr None # rest) = ([], Some (Inl ClosedWithoutReply), rest)"
| "await_reply (Inl e # rest) = ([], Some (Inl e), rest)"

definition client_send ::
  "(client_message \<Rightarrow> client_error + unit) \<Rightarrow> string \<Rightarrow> request_source \<Rightarrow> nala_client \<Rightarrow>
     event list \<times> (client_error + string) option \<times> nala_client" where
  "client_send put input source c =
     (case put (Input input source) of
        Inl e \<Rightarrow> ([], Some (Inl e), c)
      | Inr _ \<Rightarrow>
          let (evs, res, rest) = await_reply (nc_incoming c)
          in (evs, res, \<lparr>nc_incoming = rest, nc_sent = nc_sent c @ [Input input source]\<rparr>))"

section \<open>A conversation\<close>

text \<open>The turns a client takes one after the other, until one does not return.\<close>

fun client_turns ::
  "(string \<times> request_source) list \<Rightarrow> nala_client \<Rightarrow> (event list \<times> (client_error + string) option) list" where
  "client_turns [] c = []"
| "client_turns ((input, source) # turns) c =
     (let (evs, res, c) = client_send (\<lambda>_. Inr ()) input source c
      in (evs, res) # (if res = None then [] else client_turns turns c))"

text \<open>What the assistant does with the same turns, as calls of \<open>process_from\<close>.\<close>

fun assistant_turns ::
  "('w, 'v, 'e) agent_env \<Rightarrow> (string \<times> request_source) list \<Rightarrow> ('w, 'v) agent \<Rightarrow>
     (event list \<times> ('e assistant_error + string)) list" where
  "assistant_turns env [] a = []"
| "assistant_turns env ((input, source) # turns) a =
     (let (res, b) = process_from env input source a in (events_since a b, res) # assistant_turns env turns b)"

definition client_view :: "('w, 'v, 'e) agent_env \<Rightarrow> 'e assistant_error + string \<Rightarrow> (client_error + string) option" where
  "client_view env res =
     Some (map_err (\<lambda>e. ServerError (show_assistant_error (env_show_error env) e)) res)"

abbreviation inputs_of :: "(string \<times> request_source) list \<Rightarrow> (string + client_message option) list" where
  "inputs_of turns \<equiv> map (\<lambda>(input, source). Inr (Some (Input input source))) turns"

abbreviation received :: "server_message list \<Rightarrow> (client_error + server_message option) list" where
  "received msgs \<equiv> map (\<lambda>m. Inr (Some m)) msgs"

lemma await_turn:
  "await_reply (map (\<lambda>ev. Inr (Some (EventMsg ev))) evs @ Inr (Some (turn_answer env res)) # rest) =
    (evs, client_view env res, rest)"
proof (induction evs)
  case Nil
  show ?case by (cases res) (simp_all add: turn_answer_def client_view_def)
qed simp

lemma client_turns_session:
  "client_turns turns \<lparr>nc_incoming = received (fst (run_session env (inputs_of turns) a)), nc_sent = sent\<rparr> =
    map (\<lambda>(evs, res). (evs, client_view env res)) (assistant_turns env turns a)"
proof (induction turns arbitrary: a sent)
  case (Cons t turns)
  obtain input source where t: "t = (input, source)" by (cases t)
  obtain res b where p: "process_from env input source a = (res, b)" by fastforce
  have out: "fst (run_session env (inputs_of (t # turns)) a) =
      map EventMsg (events_since a b) @ turn_answer env res # fst (run_session env (inputs_of turns) b)"
    by (simp add: t p fold_ws_emit case_prod_unfold Let_def)
  show ?case
    unfolding out
    using Cons.IH [of b "sent @ [Input input source]"]
    by (simp add: t client_send_def comp_def await_turn p) (simp add: client_view_def)
qed simp

section \<open>Properties\<close>

text \<open>
  A conversation over the wire is a conversation with the assistant: whoever connects is
  greeted first, and then each of its turns hands the client exactly the events of that turn,
  in order, and returns that turn's reply, or the text of its error, as the assistant gives
  them when the same inputs are processed one after the other.
\<close>

theorem conversation_is_the_assistants:
  fixes turns a and env :: "('w, 'v, 'e) agent_env"
  defines "c \<equiv> nala_client_new (received (fst (handle_connection env (inputs_of turns) a)))"
    and "a' \<equiv> a\<lparr>events := events a @ [Greeting GREETING_TEXT]\<rparr>"
  shows "fst (recv_greeting c) = Some (Inr GREETING_TEXT) \<and>
    client_turns turns (snd (recv_greeting c)) =
      map (\<lambda>(evs, res). (evs, client_view env res)) (assistant_turns env turns a')"
  using client_turns_session [of turns env a' "[]"]
  by (simp add: c_def a'_def nala_client_new_def handle_connection_def ws_emit_def recv_greeting_def Let_def
      case_prod_unfold)

text \<open>
  The session loop ends only when the client closed the connection or its read failed: a
  failed turn does not end it, and cancel messages change nothing, however many there are.
\<close>

lemma session_survives_failures:
  assumes "\<forall>msg \<in> set incoming. msg = Inr (Some Cancel) \<or> (\<exists>input source. msg = Inr (Some (Input input source)))"
  shows "run_session env (incoming @ later) a =
      (let (sent, b) = run_session env incoming a; (later_sent, c) = run_session env later b
       in (sent @ later_sent, c)) \<and>
    run_session env incoming a = run_session env (filter (\<lambda>msg. msg \<noteq> Inr (Some Cancel)) incoming) a"
  using assms
proof (induction incoming arbitrary: a)
  case (Cons msg incoming)
  show ?case
  proof (cases "msg = Inr (Some Cancel)")
    case True
    with Cons show ?thesis by simp
  next
    case False
    with Cons.prems obtain input source where msg: "msg = Inr (Some (Input input source))" by auto
    obtain res b where "process_from env input source a = (res, b)" by fastforce
    with Cons.IH [of b] Cons.prems msg show ?thesis by (simp add: case_prod_unfold Let_def)
  qed
qed simp

end
