(* ===== verification/Assistant.thy ===== *)
theory Assistant
  imports Agent_Ports Bootstrap Memory Nala_Server
begin

text \<open>
  The assistant as \<open>bootstrap.rs\<close> builds it (\<open>build_assistant\<close>, with \<open>Assistant::new\<close> and the
  \<open>with_\<close> methods of \<open>assistant.rs\<close>): the agent loop over the tool dispatcher, with the two
  stores of the memory file that it owns, one in the \<open>remember\<close> tool and one for the prompts.
  The contract \<open>agent_ports\<close> is interpreted on this composition, and gives what a whole
  connection to the server guarantees. The model, the clock, the cancel signal and the
  connected devices are parameters.
\<close>

section \<open>The assistant and its world\<close>

text \<open>
  Beside the world outside, the assistant's own state behind its ports: the store its prompts
  are made from, the dispatcher, and the facts of the store in the \<open>remember\<close> tool.
\<close>

record ('w, 'v, 'f) assistant_world =
  aw_memory :: facts
  aw_dispatcher :: "(facts \<times> 'w, 'v, 'f) dispatcher"
  aw_world :: "facts \<times> 'w"

record ('w, 'v) outside_ports =
  op_now :: "'w \<Rightarrow> duration \<times> 'w"
  op_task_id :: "'w \<Rightarrow> task_id \<times> 'w"
  op_is_cancelled :: "'w \<Rightarrow> bool \<times> 'w"
  op_sleep :: "duration \<Rightarrow> 'w \<Rightarrow> 'w"
  op_generate :: "message list \<Rightarrow> 'v tool_definition list \<Rightarrow> 'w \<Rightarrow> llm_worker \<times> 'w"

definition on_outside :: "('w \<Rightarrow> 'a \<times> 'w) \<Rightarrow> ('w, 'v, 'f) assistant_world \<Rightarrow> 'a \<times> ('w, 'v, 'f) assistant_world" where
  "on_outside f s = (case aw_world s of (kept, w) \<Rightarrow>
     (case f w of (x, w) \<Rightarrow> (x, s\<lparr>aw_world := (kept, w)\<rparr>)))"

definition assistant_env ::
  "'v arg_codec \<Rightarrow> ('w, 'v) outside_ports \<Rightarrow> (('w, 'v, 'f) assistant_world, 'v, dispatcher_error) agent_env" where
  "assistant_env codec out =
     \<lparr>env_now = on_outside (op_now out), env_task_id = on_outside (op_task_id out),
      env_is_cancelled = on_outside (op_is_cancelled out),
      env_sleep = (\<lambda>d s. snd (on_outside (\<lambda>w. ((), op_sleep out d w)) s)),
      env_generate = (\<lambda>ms tools. on_outside (op_generate out ms tools)),
      env_dispatch = (\<lambda>tc s. case dispatch codec tc (aw_dispatcher s) (aw_world s) of
         ((res, w), d) \<Rightarrow> (res, s\<lparr>aw_dispatcher := d, aw_world := w\<rparr>)),
      env_get_context = (\<lambda>s. case get_context (disp_tools (aw_dispatcher s)) (aw_world s) of
         (res, w) \<Rightarrow> (res, s\<lparr>aw_world := w\<rparr>)),
      env_device_tools = (\<lambda>s. case device_tools (aw_dispatcher s) (aw_world s) of
         (defs, d) \<Rightarrow> (defs, s\<lparr>aw_dispatcher := d\<rparr>)),
      env_facts = (\<lambda>s. (aw_memory s, s)),
      env_show_error = show_dispatcher_error, env_estimate = heuristic_estimate_message\<rparr>"

section \<open>Building it\<close>

definition SYSTEM_PROMPT :: string where
  \<open>SYSTEM_PROMPT =
     ''<role>'' @ nl @
     ''You are Nala, a general-purpose assistant. You have tools available '' @ [CHR 0xE2, CHR 0x80, CHR 0x94] @ '' including a shell on the user'' @ quote @ ''s computer via execute_command, plus whatever other tools are listed below '' @ [CHR 0xE2, CHR 0x80, CHR 0x94] @ '' and you use them to actually accomplish what'' @ quote @ ''s asked instead of just describing how it could be done.'' @ nl @
     ''</role>'' @ nl @
     nl @
     ''<core_rules>'' @ nl @
     ''- ALWAYS use a tool to perform an action the user asked for, when one is available for it. NEVER describe how the user could do it manually if a tool can do it.'' @ nl @
     ''- If a tool call fails, do NOT repeat the exact same call. Read the error and change your approach.'' @ nl @
     ''- NEVER guess usernames, paths, directories, operating systems, or shells '' @ [CHR 0xE2, CHR 0x80, CHR 0x94] @ '' read them from the computer context provided in each request.'' @ nl @
     ''- NEVER answer with a tool'' @ quote @ ''s raw output verbatim. Rephrase it as a direct, natural-language answer to what the user asked.'' @ nl @
     ''- ALWAYS answer in the same language the user wrote their request in. If they wrote in Spanish, answer in Spanish '' @ [CHR 0xE2, CHR 0x80, CHR 0x94] @ '' never switch to English mid-conversation regardless of what language tool output happens to be in.'' @ nl @
     ''- For factual or current-events questions, use web_search (and fetch_url to read a promising result in detail) instead of guessing from memory. Do NOT use execute_command for that.'' @ nl @
     ''- The open_url, open_app, and volume capabilities (as open_url/open_app/volume, or prefixed with a connected device'' @ quote @ ''s name, e.g. pc_open_url) act directly on a real machine (opening a real URL/app, changing real system volume). Use them directly when the user asks for that action '' @ [CHR 0xE2, CHR 0x80, CHR 0x94] @ '' unlike execute_command, they are narrowly scoped and safe by design, so there'' @ quote @ ''s no need to ask for confirmation before calling them. Only one form of each capability is ever offered at a time '' @ [CHR 0xE2, CHR 0x80, CHR 0x94] @ '' call it exactly as listed in your tools, whichever name that is.'' @ nl @
     ''- If you aren'' @ quote @ ''t sure of the exact name of the app the user wants opened, call the list_apps capability first to look up its real installed name, then pass that confirmed name to open_app '' @ [CHR 0xE2, CHR 0x80, CHR 0x94] @ '' don'' @ quote @ ''t guess.'' @ nl @
     ''- If the user shares a durable fact about themselves worth keeping for future conversations (their name, a preference, where they live, ...), call remember with a short key and the value. If they later correct a fact you already know, call remember again with the same key '' @ [CHR 0xE2, CHR 0x80, CHR 0x94] @ '' it replaces the old value.'' @ nl @
     ''</core_rules>'' @ nl @
     nl @
     ''<verification>'' @ nl @
     ''A tool call that changes something comes back with evidence of its effect attached to the result '' @ [CHR 0xE2, CHR 0x80, CHR 0x94] @ '' e.g. a before/after state comparison for a shell command. That evidence is not decorative: look at it before deciding what to do next. "The call ran" and "the task is done" are different facts '' @ [CHR 0xE2, CHR 0x80, CHR 0x94] @ '' an action can fail silently, target the wrong thing, or have no visible effect. If the attached evidence doesn'' @ quote @ ''t show the expected effect, do not proceed or claim success '' @ [CHR 0xE2, CHR 0x80, CHR 0x94] @ '' retry with a different approach instead. If you answer without having genuinely checked the last action'' @ quote @ ''s attached evidence, you will be asked to verify before your answer is accepted.'' @ nl @
     ''</verification>'' @ nl @
     nl @
     ''<plan_usage>'' @ nl @
     ''You will see a Plan message before you start: a short numbered plan you generated for this request. Follow it, but adjust on the fly as tool results come in '' @ [CHR 0xE2, CHR 0x80, CHR 0x94] @ '' it is a starting point, not a script to repeat verbatim if reality does not match it.'' @ nl @
     ''</plan_usage>''\<close>

type_synonym ('w, 'v, 'f) assistant = "(('w, 'v, 'f) assistant_world, 'v) agent"

text \<open>\<open>Assistant::new\<close>; \<open>tid\<close> is the identity of the placeholder task it starts with.\<close>

definition assistant_new ::
  "(string \<Rightarrow> string option) \<Rightarrow> task_id \<Rightarrow> (facts \<times> 'w, 'v, 'f) dispatcher \<Rightarrow> 'v tool_registry \<Rightarrow> facts \<times> 'w \<Rightarrow>
     ('w, 'v, 'f) assistant" where
  "assistant_new env tid disp reg w =
     \<lparr>world = \<lparr>aw_memory = in_memory_new, aw_dispatcher = disp, aw_world = w\<rparr>, registry = reg,
      history = transcript_new (system_message SYSTEM_PROMPT), events = [],
      limits = loop_limits_from_env env, budget = context_budget_from_env env, planning_enabled = True,
      current_task = task_state_new tid, provider = ''unknown'', model = ''unknown''\<rparr>"

definition with_planning_enabled :: "bool \<Rightarrow> ('w, 'v, 'f) assistant \<Rightarrow> ('w, 'v, 'f) assistant" where
  "with_planning_enabled p a = a\<lparr>planning_enabled := p\<rparr>"

definition with_memory :: "facts \<Rightarrow> ('w, 'v, 'f) assistant \<Rightarrow> ('w, 'v, 'f) assistant" where
  "with_memory store a = a\<lparr>world := (world a)\<lparr>aw_memory := store\<rparr>\<rparr>"

definition with_llm_info :: "string \<Rightarrow> string \<Rightarrow> ('w, 'v, 'f) assistant \<Rightarrow> ('w, 'v, 'f) assistant" where
  "with_llm_info p m a = a\<lparr>provider := p, model := m\<rparr>"

text \<open>
  What \<open>build_assistant\<close> is given and reads: the tools with what they own (the store of the
  \<open>remember\<close> tool is made here), the registry of devices, the MCP servers, the decoder and
  encoder of the memory file and the file system at its path.
\<close>

record ('w, 'v, 'f) boot_parts =
  bp_texts :: "'v tool_texts"
  bp_tools :: "(facts \<times> 'w, 'f) tool_parts"
  bp_devices :: "facts \<times> 'w \<Rightarrow> (facts \<times> 'w, 'v) remote_device list"
  bp_mcp_decode :: "string \<Rightarrow> string + (string \<times> raw_mcp_server) list"
  bp_read :: "string \<Rightarrow> string option"
  bp_spawn :: "string \<Rightarrow> string list \<Rightarrow> facts \<times> 'w \<Rightarrow> (string + (facts \<times> 'w, 'v) mcp_process) \<times> facts \<times> 'w"
  bp_decode :: "string \<Rightarrow> (string \<times> string) list option"
  bp_encode :: "facts \<Rightarrow> string option"
  bp_file :: "string \<Rightarrow> 'w file_env"

definition memory_file :: "('w, 'v, 'f) boot_parts \<Rightarrow> (string \<Rightarrow> string option) \<Rightarrow> 'w file_env" where
  "memory_file bp env = bp_file bp (bs_memory_path (boot_settings_from_env env))"

definition build_assistant ::
  "('w, 'v, 'f) boot_parts \<Rightarrow> (string \<Rightarrow> string option) \<Rightarrow> task_id \<Rightarrow> 'w \<Rightarrow> ('w, 'v, 'f) assistant" where
  "build_assistant bp env tid w =
     (let file = memory_file bp env;
          tools = (bp_tools bp)\<lparr>tp_remember := file_remember (bp_encode bp) file\<rparr>;
          tool_facts = file_store_new (bp_decode bp) file w
      in case connect_mcp_servers (bp_mcp_decode bp) env (bp_read bp) (bp_spawn bp) (tool_facts, w) of
           (toolsets, kept, w) \<Rightarrow>
         case assemble (bp_texts bp) tools (bp_devices bp) toolsets of
           (reg, disp) \<Rightarrow>
             with_llm_info ''ollama'' (bs_model (boot_settings_from_env env))
               (with_memory (file_store_new (bp_decode bp) file w)
                 (with_planning_enabled (bs_planning (boot_settings_from_env env))
                   (assistant_new env tid disp reg (kept, w)))))"

section \<open>The dispatcher in use\<close>

text \<open>
  A dispatcher in use differs from the one it was built as only by the device tools of its last
  synchronisation, and every use synchronises them first: it works as if it were new.
\<close>

definition same_tools :: "('w, 'v, 'f) dispatcher \<Rightarrow> ('w, 'v, 'f) dispatcher \<Rightarrow> bool" where
  "same_tools d d' \<longleftrightarrow> disp_live d' = disp_live d \<and> disp_live d \<noteq> None \<and>
     filter (\<lambda>t. \<not> is_device_tools t) (disp_tools d') = filter (\<lambda>t. \<not> is_device_tools t) (disp_tools d)"

lemma same_tools_sync: "same_tools d d' \<Longrightarrow> sync_devices w d' = sync_devices w d"
  by (cases d, cases d') (auto simp: same_tools_def sync_devices_def Let_def split: option.splits)

lemma same_tools_synced: "disp_live d \<noteq> None \<Longrightarrow> same_tools d (sync_devices w d)"
  by (auto simp: same_tools_def sync_devices_def Let_def)

lemma dispatch_same_tools: "same_tools d d' \<Longrightarrow> dispatch codec tc d' w = dispatch codec tc d w"
  by (simp add: dispatch_def same_tools_sync)

lemma device_tools_same_tools: "same_tools d d' \<Longrightarrow> device_tools d' w = device_tools d w"
  by (simp add: device_tools_def same_tools_sync)

lemma snd_dispatch: "snd (dispatch codec tc d w) = sync_devices w d"
  by (simp add: dispatch_def Let_def)

lemma snd_device_tools: "snd (device_tools d w) = sync_devices w d"
  by (simp add: device_tools_def Let_def)

text \<open>The tools that are not a device's.\<close>

definition native_tools :: "('w, 'v, 'f) dispatcher \<Rightarrow> ('w, 'v, 'f) tools list" where
  "native_tools d = filter (\<lambda>t. \<not> is_device_tools t) (disp_tools d)"

lemma get_context_filter: "get_context (filter (\<lambda>t. \<not> is_device_tools t) ts) w = get_context ts w"
proof (induction ts)
  case (Cons t ts)
  then show ?case by (cases t) simp_all
qed simp

lemma get_context_native: "get_context (disp_tools d) w = get_context (native_tools d) w"
  by (simp add: native_tools_def get_context_filter)

section \<open>The ports of the assistant\<close>

text \<open>What never changes behind the ports of an assistant, and what a call to it is answered.\<close>

definition running ::
  "facts \<Rightarrow> (facts \<times> 'w, 'v, 'f) dispatcher \<Rightarrow> ('w, 'v, 'f) assistant_world \<Rightarrow> bool" where
  "running facts d s \<longleftrightarrow> aw_memory s = facts \<and> same_tools d (aw_dispatcher s)"

definition dispatched_by ::
  "'v arg_codec \<Rightarrow> ('w, 'v, 'f) dispatcher \<Rightarrow> tool_call \<Rightarrow> dispatcher_error + tool_outcome \<Rightarrow> bool" where
  "dispatched_by codec d tc r \<longleftrightarrow> (\<exists>w. r = fst (fst (dispatch codec tc d w)))"

lemma dispatched_byI: "dispatched_by codec d tc (fst (fst (dispatch codec tc d w)))"
  unfolding dispatched_by_def by blast

lemma running_outside: "running facts d s \<Longrightarrow> running facts d (snd (on_outside f s))"
  by (auto simp: running_def on_outside_def split: prod.splits)

text \<open>
  The contract for any invariant \<open>P\<close> of the world the tools act on and any answers \<open>A\<close> in it that
  the outside, the dispatcher as it was built and the computer context of its tools keep.
\<close>

lemma assistant_ports:
  assumes outside:
      "\<And>k w. P (k, w) \<Longrightarrow> moves P A (k, w) (k, snd (op_now out w))"
      "\<And>k w. P (k, w) \<Longrightarrow> moves P A (k, w) (k, snd (op_task_id out w))"
      "\<And>k w. P (k, w) \<Longrightarrow> moves P A (k, w) (k, snd (op_is_cancelled out w))"
      "\<And>k w t. P (k, w) \<Longrightarrow> moves P A (k, w) (k, op_sleep out t w)"
      "\<And>k w ms tools. P (k, w) \<Longrightarrow> moves P A (k, w) (k, snd (op_generate out ms tools w))"
    and dispatched: "\<And>tc w. P w \<Longrightarrow> moves P A w (snd (fst (dispatch codec tc d w)))"
      "\<And>tc w. P w \<Longrightarrow> A (snd (fst (dispatch codec tc d w))) tc (fst (fst (dispatch codec tc d w)))"
    and described: "\<And>w. P w \<Longrightarrow> moves P A w (snd (get_context (native_tools d) w))"
  shows "agent_ports (assistant_env codec out) (\<lambda>s. running facts d s \<and> P (aw_world s)) (\<lambda>s. A (aw_world s))"
proof -
  have lift: "moves (\<lambda>s. running facts d s \<and> P (aw_world s)) (\<lambda>s. A (aw_world s)) s (snd (on_outside f s))"
    if f: "\<And>k w. P (k, w) \<Longrightarrow> moves P A (k, w) (k, snd (f w))" and s: "running facts d s \<and> P (aw_world s)" for f s
    using f [of "fst (aw_world s)" "snd (aw_world s)"] s
    by (auto simp: moves_def on_outside_def running_def split: prod.splits)
  show ?thesis
  proof
    fix s tc
    assume run: "running facts d s \<and> P (aw_world s)"
    let ?m = "moves (\<lambda>s. running facts d s \<and> P (aw_world s)) (\<lambda>s. A (aw_world s)) s"
    have same: "same_tools d (aw_dispatcher s)" using run by (simp add: running_def)
    then have live: "disp_live d \<noteq> None" by (simp add: same_tools_def)
    note sync = same_tools_synced [OF live, of "aw_world s"]
    have env: "env_dispatch (assistant_env codec out) tc s =
        (fst (fst (dispatch codec tc d (aw_world s))),
         s\<lparr>aw_dispatcher := sync_devices (aw_world s) d, aw_world := snd (fst (dispatch codec tc d (aw_world s)))\<rparr>)"
      using snd_dispatch [of codec tc d "aw_world s"]
      by (auto simp: assistant_env_def dispatch_same_tools [OF same] split: prod.splits)
    show "?m (snd (env_dispatch (assistant_env codec out) tc s))"
      using run sync dispatched(1) [of "aw_world s" tc] by (simp add: env moves_def running_def)
    show "A (aw_world (snd (env_dispatch (assistant_env codec out) tc s))) tc
        (fst (env_dispatch (assistant_env codec out) tc s))"
      using run dispatched(2) [of "aw_world s" tc] by (simp add: env)
    show "?m (snd (env_device_tools (assistant_env codec out) s))"
      using run live snd_device_tools [of d "aw_world s"] sync
      by (auto simp: assistant_env_def device_tools_same_tools [OF same] running_def moves_def split: prod.splits)
    show "?m (snd (env_get_context (assistant_env codec out) s))"
      using run described [of "aw_world s"] get_context_native [of "aw_dispatcher s" "aw_world s"] same
      by (auto simp: assistant_env_def running_def moves_def same_tools_def native_tools_def split: prod.splits)
    show "?m (snd (env_now (assistant_env codec out) s))" "?m (snd (env_task_id (assistant_env codec out) s))"
      "?m (snd (env_is_cancelled (assistant_env codec out) s))" "?m (env_sleep (assistant_env codec out) t s)"
      "?m (snd (env_generate (assistant_env codec out) ms tools s))" "?m (snd (env_facts (assistant_env codec out) s))"
      for t ms tools
      using run outside by (auto simp: assistant_env_def intro!: lift moves_refl)
  qed
qed

interpretation assistant: agent_ports "assistant_env codec out" "\<lambda>s. running facts d s \<and> True" "\<lambda>s. dispatched_by codec d"
  for codec out facts d
  by (rule assistant_ports) (simp_all add: moves_def dispatched_byI)

text \<open>A session of the server in the contract: what it sends reports only such results.\<close>

lemma session_events:
  "run_session env incoming a = (sent, b) \<Longrightarrow>
    set (events a) \<subseteq> set (events b) \<and> {e. EventMsg e \<in> set sent} \<subseteq> set (events b)"
proof (induction incoming arbitrary: a sent b)
  case (Cons m incoming)
  show ?case
  proof (cases "\<exists>input source. m = Inr (Some (Input input source))")
    case True
    then obtain input source where m: "m = Inr (Some (Input input source))" by blast
    obtain res a1 where p: "process_from env input source a = (res, a1)" by fastforce
    obtain more c where rest: "run_session env incoming a1 = (more, c)" by fastforce
    have "sent = map EventMsg (events_since a a1) @ [turn_answer env res] @ more" "b = c"
      using Cons.prems m p rest by (simp_all add: fold_ws_emit)
    with Cons.IH [OF rest] events_appended [OF p] show ?thesis
      by (auto simp: turn_answer_def split: sum.splits)
  next
    case False
    with Cons show ?thesis
      by (cases m; cases "projr m"; cases "the (projr m)") (auto simp: sum.case_eq_if)
  qed
qed simp

context agent_ports
begin

lemma ok_session: "run_session env incoming a = (sent, b) \<Longrightarrow> ok a \<Longrightarrow> ok b"
proof (induction incoming arbitrary: a sent)
  case (Cons m incoming)
  show ?case
  proof (cases "\<exists>input source. m = Inr (Some (Input input source))")
    case True
    then obtain input source where m: "m = Inr (Some (Input input source))" by blast
    obtain res a1 where p: "process_from env input source a = (res, a1)" by fastforce
    obtain more c where rest: "run_session env incoming a1 = (more, c)" by fastforce
    have "b = c" using Cons.prems(1) m p rest by simp
    from Cons.IH [OF rest [folded this] ok_process_from [OF p Cons.prems(2)]] show ?thesis .
  next
    case False
    with Cons show ?thesis
      by (cases m; cases "projr m"; cases "the (projr m)") (auto simp: sum.case_eq_if)
  qed
qed simp

text \<open>A whole connection: its final state is sound, and so is everything it reports.\<close>

lemma ok_connection:
  assumes "handle_connection env incoming a = (sent, b)" and "W (world a)" and "events a = []"
  shows "ok b \<and> (\<forall>e. EventMsg e \<in> set sent \<longrightarrow> answered (world b) e)"
proof -
  obtain more where s: "run_session env incoming (a\<lparr>events := [Greeting GREETING_TEXT]\<rparr>) = (more, b)"
    and sent: "sent = EventMsg (Greeting GREETING_TEXT) # more"
    using assms(1,3) by (auto simp: handle_connection_def ws_emit_def split: prod.splits)
  have "answered w (Greeting GREETING_TEXT)" for w by (simp add: call_answered_def)
  then have "ok (a\<lparr>events := [Greeting GREETING_TEXT]\<rparr>)" using assms(2) by (simp add: sound_def)
  then have b: "ok b" by (rule ok_session [OF s])
  moreover have "e \<in> set (events b)" if "EventMsg e \<in> set sent" for e
    using session_events [OF s] that by (auto simp: sent)
  ultimately show ?thesis by (auto simp: sound_def list_all_iff)
qed

end

section \<open>A connection to the server\<close>

lemma assemble_live: "disp_live (snd (assemble tx tp devices toolsets)) \<noteq> None"
  by (simp add: assemble_sel(1))

text \<open>What the assistant is built from: the facts in the file, and the assembled tools.\<close>

lemma build_assistant_parts:
  obtains tp toolsets where
    "aw_dispatcher (world (build_assistant bp env tid w)) = snd (assemble (bp_texts bp) tp (bp_devices bp) toolsets)"
    "registry (build_assistant bp env tid w) = fst (assemble (bp_texts bp) tp (bp_devices bp) toolsets)"
proof -
  let ?tp = "(bp_tools bp)\<lparr>tp_remember := file_remember (bp_encode bp) (memory_file bp env)\<rparr>"
  obtain toolsets kept w' where c: "connect_mcp_servers (bp_mcp_decode bp) env (bp_read bp) (bp_spawn bp)
      (file_store_new (bp_decode bp) (memory_file bp env) w, w) = (toolsets, kept, w')"
    by (metis prod.exhaust)
  show ?thesis
    by (rule that [of ?tp toolsets])
      (simp_all add: build_assistant_def Let_def c with_llm_info_def with_memory_def with_planning_enabled_def
        assistant_new_def split: prod.split)
qed

lemma build_assistant_events: "events (build_assistant bp env tid w) = []"
  by (auto simp: build_assistant_def Let_def with_llm_info_def with_memory_def with_planning_enabled_def
      assistant_new_def split: prod.splits)

lemma build_assistant_running:
  "running (aw_memory (world (build_assistant bp env tid w)))
    (aw_dispatcher (world (build_assistant bp env tid w))) (world (build_assistant bp env tid w))"
  by (rule build_assistant_parts [of bp env tid w]) (simp add: running_def same_tools_def assemble_sel(1))

lemma build_assistant_memory:
  "aw_memory (world (build_assistant bp env tid w)) =
    file_store_new (bp_decode bp) (memory_file bp env) (snd (aw_world (world (build_assistant bp env tid w))))"
  by (auto simp: build_assistant_def Let_def with_llm_info_def with_memory_def with_planning_enabled_def
      assistant_new_def split: prod.splits)

text \<open>A connection to the server keeps the assistant's parts, and tells its client only real answers.\<close>

lemma connection_sound:
  assumes "handle_connection (assistant_env codec out) incoming (build_assistant bp env tid w) = (sent, b)"
  shows "running (aw_memory (world (build_assistant bp env tid w)))
      (aw_dispatcher (world (build_assistant bp env tid w))) (world b) \<and>
    (\<forall>e. EventMsg e \<in> set sent \<longrightarrow> call_answered show_dispatcher_error
      (dispatched_by codec (aw_dispatcher (world (build_assistant bp env tid w)))) e)"
  using assistant.ok_connection [OF assms _ build_assistant_events, of
      "aw_memory (world (build_assistant bp env tid w))" "aw_dispatcher (world (build_assistant bp env tid w))"]
    build_assistant_running [of bp env tid w]
  by (simp add: sound_def assistant_env_def)

text \<open>
  C15. What a client of the server is told about a tool call is what its tool answered: every
  completed call that a connection reports, whatever the model, the devices and the client do,
  carries the result of dispatching that call to the dispatcher the assistant was built with,
  and a call to a native tool or to a tool of an MCP server is never answered by "tool not found".
\<close>

theorem connection_reports_real_answers:
  assumes "handle_connection (assistant_env codec out) incoming (build_assistant bp env tid w) = (sent, b)"
    and "EventMsg (ToolCompleted t i n d txt k args m) \<in> set sent"
  shows "\<exists>r. (\<exists>w'. r = fst (fst (dispatch codec \<lparr>tc_name = n, tc_arguments = args\<rparr>
        (aw_dispatcher (world (build_assistant bp env tid w))) w'))) \<and>
    reports show_dispatcher_error r txt m \<and>
    (n \<in> td_name ` set (reg_tools (registry (build_assistant bp env tid w))) \<longrightarrow> r \<noteq> Inl ToolNotFound)"
proof -
  let ?a = "build_assistant bp env tid w"
  let ?tc = "\<lparr>tc_name = n, tc_arguments = args\<rparr>"
  from connection_sound [OF assms(1)] assms(2)
  obtain w' r where r: "r = fst (fst (dispatch codec ?tc (aw_dispatcher (world ?a)) w'))"
    "reports show_dispatcher_error r txt m"
    by (fastforce simp: call_answered_def dispatched_by_def)
  moreover have "r \<noteq> Inl ToolNotFound" if "n \<in> td_name ` set (reg_tools (registry ?a))"
  proof -
    obtain tp toolsets where "aw_dispatcher (world ?a) = snd (assemble (bp_texts bp) tp (bp_devices bp) toolsets)"
      and "registry ?a = fst (assemble (bp_texts bp) tp (bp_devices bp) toolsets)"
      by (rule build_assistant_parts [of bp env tid w])
    with that r(1) assembled_static_found show ?thesis by metis
  qed
  ultimately show ?thesis by blast
qed

text \<open>
  C37. The prompts of an assistant list the facts its memory file held when it was built, and
  never one remembered since: the \<open>remember\<close> tool and the prompts have a store each, a store
  reads the file only when it is made, and the connection keeps both stores for its lifetime.
\<close>

theorem prompts_list_the_facts_of_the_start:
  assumes "handle_connection (assistant_env codec out) incoming (build_assistant bp env tid w) = (sent, b)"
    and "build_prompt_messages (assistant_env codec out) b = (Inr ms, c)"
  shows "\<exists>ctx. let start = file_store_new (bp_decode bp) (memory_file bp env)
                       (snd (aw_world (world (build_assistant bp env tid w))))
    in ms = system_message (''Computer context:'' @ nl @ ctx @ nl @ nl @
                     ''Use this context when generating commands.'') #
          (if start = [] then []
           else [system_message (''Remembered facts:'' @ nl @ join nl (map (\<lambda>(k, v). ''- '' @ k @ '': '' @ v) start))]) @
          transcript_snapshot (history b)"
proof -
  have "aw_memory (world b) = file_store_new (bp_decode bp) (memory_file bp env)
      (snd (aw_world (world (build_assistant bp env tid w))))"
    using connection_sound [OF assms(1)] build_assistant_memory [of bp env tid w] by (simp add: running_def)
  with assms(2) show ?thesis
    by (auto simp: build_prompt_messages_def on_world_def assistant_env_def Let_def
        split: prod.splits sum.splits)
qed

section \<open>A concrete connection\<close>

text \<open>
  The model calls \<open>remember\<close> and then answers; the memory file is missing at the start. No MCP
  server is configured and no device is connected.
\<close>

lemma length_SYSTEM_PROMPT: "length SYSTEM_PROMPT = 3266"
  by (simp add: SYSTEM_PROMPT_def quote_def nl_def)

lemma length_VERIFY_NUDGE: "length VERIFY_NUDGE = 353"
  by (simp add: VERIFY_NUDGE_def quote_def)

definition sample_computer :: "'w computer" where
  "sample_computer = \<lparr>c_execute = (\<lambda>c t w. (Inr [], w)), c_execute_detached = (\<lambda>c t w. (Inr (), w)),
     c_context = (\<lambda>w. (Inr \<lparr>ctx_system = ''Windows'', ctx_username = ''ana'', ctx_home_dir = [],
       ctx_desktop_dir = [], ctx_current_dir = []\<rparr>, w)), c_system_description = [], c_process_description = []\<rparr>"

type_synonym sample_world = "(llm_error + llm_response) list \<times> string option"

definition sample_boot :: "(sample_world, unit, unit) boot_parts" where
  "sample_boot = \<lparr>bp_texts = sample_texts,
     bp_tools = \<lparr>tp_computer = sample_computer, tp_apps = (\<lambda>_. Inr AppsOther),
       tp_now = (\<lambda>w. (\<lparr>wt_hour_minute = [], wt_day = [], wt_month = [], wt_year = []\<rparr>, w)),
       tp_weather = tp_weather sample_parts, tp_lossy = id, tp_search = tp_search sample_parts,
       tp_html = tp_html sample_parts, tp_fetcher = (\<lambda>_ w. (Inr [], w)), tp_remember = (\<lambda>_ _ w. (Inr (), w))\<rparr>,
     bp_devices = (\<lambda>w. []), bp_mcp_decode = (\<lambda>_. Inl []), bp_read = (\<lambda>_. None),
     bp_spawn = (\<lambda>c args w. (Inl [], w)), bp_decode = sample_decode, bp_encode = sample_encode,
     bp_file = (\<lambda>path. \<lparr>fe_read = (\<lambda>w. case snd w of None \<Rightarrow> Inl ''not found'' | Some s \<Rightarrow> Inr s),
       fe_make_parent = None, fe_write = (\<lambda>s w. (Inr (), (fst w, Some s)))\<rparr>)\<rparr>"

definition sample_outside :: "(sample_world, unit) outside_ports" where
  "sample_outside = \<lparr>op_now = (\<lambda>w. (0, w)), op_task_id = (\<lambda>w. (''1-1'', w)), op_is_cancelled = (\<lambda>w. (False, w)),
     op_sleep = (\<lambda>d w. w),
     op_generate = (\<lambda>ms tools w. (Worker 0 (case fst w of [] \<Rightarrow> None | r # rs \<Rightarrow> Some r), (tl (fst w), snd w)))\<rparr>"

definition remembering_script :: "(llm_error + llm_response) list" where
  "remembering_script = [scripted_response None [\<lparr>tc_name = ''remember'', tc_arguments = ''Lima''\<rparr>],
     scripted_response (Some ''ok'') [], scripted_response (Some ''ok'') []]"

lemma sample_assistant:
  "build_assistant sample_boot (\<lambda>_. None) ''0-0'' (rs, None) =
    \<lparr>world = \<lparr>aw_memory = [], aw_dispatcher = snd (assemble sample_texts ((bp_tools sample_boot)
        \<lparr>tp_remember := file_remember sample_encode (bp_file sample_boot ''data/memory.json'')\<rparr>) (\<lambda>w. []) []),
       aw_world = ([], rs, None)\<rparr>,
     registry = native_registry sample_texts, history = transcript_new (system_message SYSTEM_PROMPT),
     events = [], limits = loop_limits_default, budget = context_budget_default, planning_enabled = False,
     current_task = task_state_new ''0-0'', provider = ''ollama'', model = ''llama3.2''\<rparr>"
  by (simp add: build_assistant_def memory_file_def sample_boot_def boot_settings_from_env_def
      connect_mcp_servers_def read_mcp_config_file_def legacy_env_mcp_server_def file_store_new_def facts_new_def
      with_llm_info_def with_memory_def with_planning_enabled_def assistant_new_def assemble_def Let_def
      loop_limits_from_env_def context_budget_from_env_def env_parse_def DEFAULT_MODEL_def loop_limits_default_def
      context_budget_default_def)


lemmas sample_defs = sample_outside_def sample_computer_def remembering_script_def
  assistant_env_def on_outside_def dispatch_def device_tools_def sync_devices_def get_context.simps
  execute_command_context_def show_computer_context_def remember_execute_def remember_parse_arguments_def
  file_remember_def facts_to_json_def sample_codec_def ran_def parse_args_def
  handle_connection_def ws_emit_def turn_answer_def events_since_def

lemma remembering_run:
  "\<exists>sent b. handle_connection (assistant_env sample_codec sample_outside) [Inr (Some (Input ''go'' Cli))]
      (build_assistant sample_boot (\<lambda>_. None) ''0-0'' (remembering_script, None)) = (sent, b) \<and>
    EventMsg (ToolCompleted ''1-1'' 1 ''remember'' 0 ''Recordado: Lima = Lima'' 0 ''Lima'' True) \<in> set sent \<and>
    aw_world (world b) = ([(''Lima'', ''Lima'')], [], Some (facts_to_json sample_encode [(''Lima'', ''Lima'')])) \<and>
    (\<exists>ms c. build_prompt_messages (assistant_env sample_codec sample_outside) b = (Inr ms, c))"
  supply process_loop.simps [simp] generate_with_retry.simps [simp]
  apply (simp add: sample_assistant assemble_def native_dispatcher_def register_tool_def with_device_registry_def dispatcher_new_def)
  apply (simp add: sample_defs scripted_response_def sample_boot_def)
  apply (simp add: sample_defs sample_boot_def scripted_defs length_SYSTEM_PROMPT length_VERIFY_NUDGE native_registry_def NATIVE_TOOLS_def native_definition_def sample_texts_def)
  done

theorem connection_reports_real_answers_witness:
  "\<exists>r. (\<exists>w'. r = fst (fst (dispatch sample_codec \<lparr>tc_name = ''remember'', tc_arguments = ''Lima''\<rparr>
        (aw_dispatcher (world (build_assistant sample_boot (\<lambda>_. None) ''0-0'' (remembering_script, None)))) w'))) \<and>
    reports show_dispatcher_error r ''Recordado: Lima = Lima'' True \<and> r \<noteq> Inl ToolNotFound"
proof -
  have "''remember'' \<in> td_name ` set (reg_tools (registry
      (build_assistant sample_boot (\<lambda>_. None) ''0-0'' (remembering_script, None))))"
    by (simp add: sample_assistant native_registry_names NATIVE_TOOLS_def)
  with remembering_run show ?thesis
    by (blast dest: connection_reports_real_answers)
qed

theorem prompts_list_the_facts_of_the_start_witness:
  "\<exists>sent b ms c ctx. handle_connection (assistant_env sample_codec sample_outside) [Inr (Some (Input ''go'' Cli))]
      (build_assistant sample_boot (\<lambda>_. None) ''0-0'' (remembering_script, None)) = (sent, b) \<and>
    file_store_new sample_decode (memory_file sample_boot (\<lambda>_. None)) (snd (aw_world (world b))) = [(''Lima'', ''Lima'')] \<and>
    build_prompt_messages (assistant_env sample_codec sample_outside) b = (Inr ms, c) \<and>
    ms = system_message (''Computer context:'' @ nl @ ctx @ nl @ nl @
        ''Use this context when generating commands.'') # transcript_snapshot (history b)"
proof -
  obtain sent b ms c where run: "handle_connection (assistant_env sample_codec sample_outside) [Inr (Some (Input ''go'' Cli))]
      (build_assistant sample_boot (\<lambda>_. None) ''0-0'' (remembering_script, None)) = (sent, b)"
    and disk: "aw_world (world b) = ([(''Lima'', ''Lima'')], [], Some (facts_to_json sample_encode [(''Lima'', ''Lima'')]))"
    and prompt: "build_prompt_messages (assistant_env sample_codec sample_outside) b = (Inr ms, c)"
    using remembering_run by blast
  have "facts_ordered [(''Lima'', ''Lima'')]"
    using facts_remember_ordered [OF facts_new_ordered, of "''Lima''" "''Lima''"] by (simp add: facts_new_def)
  from parse_to_json [OF sample_codec_reads_back this] disk
  have "file_store_new sample_decode (memory_file sample_boot (\<lambda>_. None)) (snd (aw_world (world b))) = [(''Lima'', ''Lima'')]"
    by (simp add: file_store_new_def memory_file_def sample_boot_def)
  moreover have "file_store_new (bp_decode sample_boot) (memory_file sample_boot (\<lambda>_. None)) (snd (aw_world
      (world (build_assistant sample_boot (\<lambda>_. None) ''0-0'' (remembering_script, None))))) = []"
    unfolding sample_assistant by (simp add: file_store_new_def memory_file_def sample_boot_def facts_new_def)
  ultimately show ?thesis
    using prompts_list_the_facts_of_the_start [OF run prompt] run prompt by (auto simp: Let_def)
qed

end
