(* ===== verification/Tool_Worlds.thy ===== *)
theory Tool_Worlds
  imports Bootstrap
begin

text \<open>
  What the tools do to the world is what the operations they own do to it: a relation on worlds
  that is reflexive and transitive, and that the operations of the computer, the fetcher, the
  store, the clock and the MCP processes keep, is kept by every native tool, by the dispatcher
  of the native and the MCP tools, by the computer context and by connecting the servers. The
  locale \<open>world_steps\<close> is the contract of such a relation.
\<close>

definition keeps :: "('w \<Rightarrow> 'w \<Rightarrow> bool) \<Rightarrow> ('w \<Rightarrow> 'a \<times> 'w) \<Rightarrow> bool" where
  "keeps R f \<longleftrightarrow> (\<forall>w. R w (snd (f w)))"

lemma keepsD: "keeps R f \<Longrightarrow> f w = (x, w') \<Longrightarrow> R w w'"
  unfolding keeps_def by (metis snd_conv)

definition computer_keeps :: "('w \<Rightarrow> 'w \<Rightarrow> bool) \<Rightarrow> 'w computer \<Rightarrow> bool" where
  "computer_keeps R c \<longleftrightarrow> (\<forall>command t. keeps R (c_execute c command t)) \<and>
     (\<forall>command t. keeps R (c_execute_detached c command t)) \<and> keeps R (c_context c)"

definition toolset_keeps :: "('w \<Rightarrow> 'w \<Rightarrow> bool) \<Rightarrow> ('w, 'v) mcp_toolset \<Rightarrow> bool" where
  "toolset_keeps R ts \<longleftrightarrow> (\<forall>n v. keeps R (ts_call ts n v))"

text \<open>What a tool owns keeps the relation; a list of devices is none of the native tools.\<close>

fun tool_keeps :: "('w \<Rightarrow> 'w \<Rightarrow> bool) \<Rightarrow> ('w, 'v, 'f) tools \<Rightarrow> bool" where
  "tool_keeps R (ExecuteCommand c t) = computer_keeps R c"
| "tool_keeps R (OpenUrl c t) = computer_keeps R c"
| "tool_keeps R (OpenApp c t) = computer_keeps R c"
| "tool_keeps R (VolumeControl c t) = computer_keeps R c"
| "tool_keeps R (ListApps dec c t) = computer_keeps R c"
| "tool_keeps R PingTool = True"
| "tool_keeps R (CurrentTime now) = keeps R now"
| "tool_keeps R (GetWeather wc fetch) = (\<forall>url. keeps R (fetch url))"
| "tool_keeps R (WebSearch lossy re fetch) = (\<forall>url. keeps R (fetch url))"
| "tool_keeps R (FetchUrl re fetch) = (\<forall>url. keeps R (fetch url))"
| "tool_keeps R (Remember store) = (\<forall>k v. keeps R (store k v))"
| "tool_keeps R (McpTools servers) = list_all (toolset_keeps R) servers"
| "tool_keeps R (DeviceTools ds) = True"

definition process_keeps :: "('w \<Rightarrow> 'w \<Rightarrow> bool) \<Rightarrow> ('w, 'v) mcp_process \<Rightarrow> bool" where
  "process_keeps R p \<longleftrightarrow> keeps R (mp_list p) \<and> (\<forall>n v. keeps R (mp_call p n v))"

definition spawn_keeps ::
  "('w \<Rightarrow> 'w \<Rightarrow> bool) \<Rightarrow> (string \<Rightarrow> string list \<Rightarrow> 'w \<Rightarrow> (string + ('w, 'v) mcp_process) \<times> 'w) \<Rightarrow> bool" where
  "spawn_keeps R spawn \<longleftrightarrow> (\<forall>command args. keeps R (spawn command args)) \<and>
     (\<forall>command args w p. fst (spawn command args w) = Inr p \<longrightarrow> process_keeps R p)"

locale world_steps =
  fixes R :: "'w \<Rightarrow> 'w \<Rightarrow> bool"
  assumes step_refl: "R w w"
    and step_trans: "R w w' \<Longrightarrow> R w' w'' \<Longrightarrow> R w w''"
begin

lemma keepsI: "(\<And>w. R w w \<Longrightarrow> R w (snd (f w))) \<Longrightarrow> keeps R f"
  by (simp add: keeps_def step_refl)

text \<open>One operation after the other, and the branches between them.\<close>

lemma step_bind:
  assumes "\<And>v. R v (snd (f v))" and "R w0 w" and "\<And>x w'. R w0 w' \<Longrightarrow> R w0 (snd (g x w'))"
  shows "R w0 (snd (case f w of (x, w') \<Rightarrow> g x w'))"
proof -
  obtain x w' where f: "f w = (x, w')" by fastforce
  have "R w0 w'" using step_trans [OF assms(2) assms(1)] f by simp
  with f assms(3) show ?thesis by simp
qed

lemma step_sum:
  "(\<And>e. R w0 (snd (f e))) \<Longrightarrow> (\<And>x. R w0 (snd (g x))) \<Longrightarrow> R w0 (snd (case r of Inl e \<Rightarrow> f e | Inr x \<Rightarrow> g x))"
  by (cases r) simp_all

lemma step_list:
  "R w0 (snd a) \<Longrightarrow> (\<And>x xs. R w0 (snd (g x xs))) \<Longrightarrow> R w0 (snd (case r of [] \<Rightarrow> a | x # xs \<Rightarrow> g x xs))"
  by (cases r) simp_all

lemma step_if: "R w0 (snd a) \<Longrightarrow> R w0 (snd b) \<Longrightarrow> R w0 (snd (if c then a else b))"
  by simp

lemma step_end: "R w0 w \<Longrightarrow> R w0 (snd (x, w))"
  by simp

lemmas step_rules = step_sum step_list step_if step_end

lemma context_keeps: "computer_keeps R c \<Longrightarrow> keeps R (execute_command_context c)"
  unfolding execute_command_context_def computer_keeps_def by (intro keepsI step_bind step_rules) (simp_all add: keeps_def)

lemma execute_keeps: "computer_keeps R c \<Longrightarrow> keeps R (execute_command_execute c t command)"
  unfolding execute_command_execute_def computer_keeps_def by (intro keepsI step_bind step_rules) (simp_all add: keeps_def)

lemma open_url_keeps:
  assumes "computer_keeps R c"
  shows "keeps R (open_url_execute c t url)"
proof -
  let ?open = "\<lambda>w. case c_execute_detached c (start_command url) t w of
      (Inr u, w) \<Rightarrow> (Inr u, w) | (Inl _, w) \<Rightarrow> c_execute_detached c (rundll_command url) t w"
  have d: "keeps R (c_execute_detached c command t)" for command using assms by (simp add: computer_keeps_def)
  have "keeps R ?open"
    by (intro keepsI step_bind [where f = "c_execute_detached c (start_command url) t"] step_rules)
      (use d in \<open>auto simp: keeps_def intro: step_trans\<close>)
  then show ?thesis
    unfolding open_url_execute_def by (intro keepsI step_rules step_bind [where f = ?open]) (simp_all add: keeps_def)
qed

lemma launchers_keep:
  assumes "computer_keeps R c"
  shows "keeps R (open_app_execute c t app)" "keeps R (volume_execute c t action)" "keeps R (list_apps_execute dec c t)"
  using assms unfolding computer_keeps_def open_app_execute_def volume_execute_def list_apps_execute_def
  by (intro keepsI step_bind step_rules; simp add: keeps_def)+

lemma fetchers_keep:
  assumes "\<And>url. keeps R (fetch url)"
  shows "keeps R (get_weather_execute wc fetch location)" "keeps R (web_search_execute lossy re fetch query)"
    "keeps R (fetch_url_execute html fetch url)"
  unfolding get_weather_execute_def web_search_execute_def fetch_url_execute_def Let_def
  using assms by (intro keepsI step_bind step_rules; simp add: keeps_def)+

lemma ran_keeps: "keeps R f \<Longrightarrow> R w (snd (ran sh mutating (f w)))"
  by (auto simp: ran_def keeps_def dest!: spec [of _ w] split: prod.split)

lemma command_keeps:
  assumes "computer_keeps R c"
  shows "keeps R (dispatch_command codec c t args)"
  unfolding dispatch_command_def
  by (intro keepsI step_bind step_rules)
    (simp_all add: context_keeps [OF assms, unfolded keeps_def, rule_format] execute_keeps [OF assms, unfolded keeps_def, rule_format])

lemma remember_keeps: "(\<And>k v. keeps R (store k v)) \<Longrightarrow> keeps R (remember_execute store known)"
  unfolding remember_execute_def by (intro keepsI step_bind step_rules) (simp_all add: keeps_def)

lemma native_keeps:
  assumes t: "tool_keeps R t"
  shows "keeps R (run_native codec t args)"
proof -
  have "R w (snd (run_native codec t args w))" for w
  proof (cases t)
    case (CurrentTime now)
    with t show ?thesis by (simp, intro step_bind step_end) (simp_all add: keeps_def step_refl)
  next
    case (ExecuteCommand c d)
    with t command_keeps [of c codec d args] show ?thesis by (simp add: keeps_def)
  qed (use t in \<open>auto simp: step_refl intro!: step_sum ran_keeps [OF open_url_keeps] ran_keeps [OF launchers_keep(1)]
        ran_keeps [OF launchers_keep(2)] ran_keeps [OF launchers_keep(3)] ran_keeps [OF fetchers_keep(1)]
        ran_keeps [OF fetchers_keep(2)] ran_keeps [OF fetchers_keep(3)] ran_keeps [OF remember_keeps]\<close>)
  then show ?thesis by (simp add: keeps_def)
qed

lemma dispatch_native_keeps: "list_all (tool_keeps R) ts \<Longrightarrow> keeps R (dispatch_native codec tc ts)"
proof (induction ts)
  case Nil
  show ?case by (simp add: keeps_def step_refl)
next
  case (Cons t ts)
  then have t: "tool_keeps R t" and rest: "keeps R (dispatch_native codec tc ts)" by simp_all
  show ?case
  proof (cases "\<exists>servers. t = McpTools servers")
    case True
    then obtain servers where servers: "t = McpTools servers" by blast
    have call: "keeps R (mcp_toolset_call dec s n args)"
      if "List.find (\<lambda>s. mcp_handles s (tc_name tc)) servers = Some s" for s dec n args
    proof -
      have "toolset_keeps R s" using t that servers by (auto simp: list_all_iff find_Some_iff)
      then show ?thesis
        unfolding mcp_toolset_call_def by (intro keepsI step_sum step_end) (simp_all add: toolset_keeps_def keeps_def)
    qed
    show ?thesis
    proof (cases "List.find (\<lambda>s. mcp_handles s (tc_name tc)) servers")
      case None
      with rest servers show ?thesis by (simp add: keeps_def)
    next
      case (Some s)
      with servers show ?thesis
        using call [OF Some] by (intro keepsI) (simp, intro step_bind step_end, simp_all add: keeps_def)
    qed
  next
    case False
    then have "dispatch_native codec tc (t # ts) w =
        (if native_name t = Some (tc_name tc) then run_native codec t (tc_arguments tc) w else dispatch_native codec tc ts w)" for w
      by (cases t) auto
    with native_keeps [OF t] rest show ?thesis by (simp add: keeps_def)
  qed
qed

lemma get_context_keeps: "list_all (tool_keeps R) ts \<Longrightarrow> keeps R (get_context ts)"
proof (induction ts)
  case (Cons t ts)
  show ?case
  proof (cases "\<exists>c d. t = ExecuteCommand c d")
    case True
    then obtain c d where t: "t = ExecuteCommand c d" by blast
    with Cons.prems context_keeps [of c] show ?thesis
      by (intro keepsI) (simp, intro step_bind step_rules, simp_all add: keeps_def)
  next
    case False
    with Cons show ?thesis by (cases t) (simp_all add: keeps_def)
  qed
qed (simp add: keeps_def step_refl)

lemma connect_server_keeps:
  assumes "spawn_keeps R spawn" and one: "connect_mcp_server spawn config w = (r, w')"
  shows "R w w' \<and> (\<forall>ts. r = Inr ts \<longrightarrow> toolset_keeps R ts)"
proof -
  obtain p w0 where p: "spawn (ms_command config) (ms_args config) w = (p, w0)" by fastforce
  have w0: "R w w0" using assms(1) keepsD [where R = R and f = "spawn (ms_command config) (ms_args config)", OF _ p]
    by (simp add: spawn_keeps_def)
  show ?thesis
  proof (cases p)
    case (Inl e)
    with one p w0 show ?thesis by (auto simp: connect_mcp_server_def)
  next
    case (Inr proc)
    then have "fst (spawn (ms_command config) (ms_args config) w) = Inr proc" using p by simp
    then have proc: "process_keeps R proc" using assms(1) unfolding spawn_keeps_def by blast
    obtain l w1 where l: "mp_list proc w0 = (l, w1)" by fastforce
    have "R w0 w1" using proc keepsD [where R = R and f = "mp_list proc", OF _ l] by (simp add: process_keeps_def)
    with w0 have "R w w1" by (rule step_trans)
    with one p l Inr proc show ?thesis
      by (auto simp: connect_mcp_server_def mcp_toolset_connect_def process_keeps_def toolset_keeps_def
          split: sum.splits)
  qed
qed

lemma connect_keeps:
  assumes "spawn_keeps R spawn"
  shows "R w (snd (connect_mcp_configs spawn configs w)) \<and>
    list_all (toolset_keeps R) (fst (connect_mcp_configs spawn configs w))"
proof (induction configs arbitrary: w)
  case Nil
  show ?case by (simp add: step_refl)
next
  case (Cons config configs)
  obtain r w1 where one: "connect_mcp_server spawn config w = (r, w1)" by fastforce
  obtain ts w2 where rest: "connect_mcp_configs spawn configs w1 = (ts, w2)" by fastforce
  from Cons.IH [of w1] rest have "R w1 w2" "list_all (toolset_keeps R) ts" by simp_all
  with connect_server_keeps [OF assms one] one rest step_trans [of w w1 w2] show ?case
    by (cases r) simp_all
qed

text \<open>The dispatcher as it is assembled.\<close>

definition parts_keep :: "('w, 'f) tool_parts \<Rightarrow> bool" where
  "parts_keep tp \<longleftrightarrow> computer_keeps R (tp_computer tp) \<and> keeps R (tp_now tp) \<and>
     (\<forall>url. keeps R (tp_fetcher tp url)) \<and> (\<forall>k v. keeps R (tp_remember tp k v))"

lemma assembled_keep:
  "parts_keep tp \<Longrightarrow> list_all (toolset_keeps R) toolsets \<Longrightarrow>
    list_all (tool_keeps R) (disp_tools (snd (assemble tx tp devices toolsets)))"
  by (simp add: parts_keep_def assemble_def Let_def native_dispatcher_def register_tool_def with_device_registry_def
      dispatcher_new_def)

end

end
