(* ===== verification/Device_Calls.thy ===== *)
theory Device_Calls
  imports Device_Server Assistant Tool_Worlds
begin

text \<open>
  A tool call that goes to a device, from the assistant's dispatcher to the device and back: the
  registry's devices as the dispatcher sees them (\<open>application/devices/registry.rs\<close>), and
  \<open>WsDevice::invoke\<close> as the sequence of the atomic actions of \<open>Devices.ws_do\<close> it makes on the
  listener's state, with whatever the other threads of the process do between two of them.
\<close>

section \<open>The process\<close>

text \<open>
  The state that the threads of \<open>nala --serve\<close> share: the listener and its run so far; what the
  other threads will do, one list of actions per pause of the thread at hand; what the coming
  sends to devices give; the messages written to the connections (latest first); and the rest
  of the world.
\<close>

record ('v, 'x) process_world =
  pw_trace :: "'v server_label list"
  pw_server :: "'v server"
  pw_threads :: "'v server_label list list"
  pw_sends :: "(string + unit) list"
  pw_sent :: "(nat \<times> nala_message) list"
  pw_rest :: 'x

definition srv_act ::
  "string option \<Rightarrow> 'v \<Rightarrow> 'v server_label \<Rightarrow> ('v, 'x) process_world \<Rightarrow> ('v, 'x) process_world" where
  "srv_act expected null l w =
     (case srv_do expected null l (pw_server w) of
        None \<Rightarrow> w
      | Some st \<Rightarrow> w\<lparr>pw_trace := l # pw_trace w, pw_server := st\<rparr>)"

text \<open>The actions that only the thread of a call makes.\<close>

fun acts_on :: "nat \<Rightarrow> ws_label \<Rightarrow> bool" where
  "acts_on i (Register j) = (i = j)"
| "acts_on i (SendOk j) = (i = j)"
| "acts_on i (SendErr j e) = (i = j)"
| "acts_on i (Receive j) = (i = j)"
| "acts_on i (Expire j) = (i = j)"
| "acts_on i (GiveUp j) = (i = j)"
| "acts_on i _ = False"

fun own_call :: "nat \<Rightarrow> nat \<Rightarrow> 'v server_label \<Rightarrow> bool" where
  "own_call c i (DeviceCall c' l) = (c = c' \<and> acts_on i l)"
| "own_call c i _ = False"

text \<open>A pause: the other threads' next actions, as far as they are possible and theirs to make.\<close>

definition others ::
  "string option \<Rightarrow> 'v \<Rightarrow> ('v server_label \<Rightarrow> bool) \<Rightarrow> ('v, 'x) process_world \<Rightarrow> ('v, 'x) process_world" where
  "others expected null own w =
     (case pw_threads w of
        [] \<Rightarrow> w
      | ls # rest \<Rightarrow> fold (srv_act expected null) (filter (\<lambda>l. \<not> own l) ls) (w\<lparr>pw_threads := rest\<rparr>))"

definition device_of :: "nat \<Rightarrow> 'v server \<Rightarrow> ws_device" where
  "device_of c st = (case conn_device (srv_conns st ! c) of Some d \<Rightarrow> d | None \<Rightarrow> ws_device_new [])"

section \<open>Invoking a capability\<close>

text \<open>
  \<open>invoke\<close> on the device of the connection \<open>c\<close>: its request id, the waiter in the table, the send;
  when that fails, the waiter is taken out and the device is unreachable; otherwise the wait,
  which gives the outcome that arrived or, with the waiter taken out, a timeout.
\<close>

definition invoke_device ::
  "string option \<Rightarrow> 'v \<Rightarrow> nat \<Rightarrow> string \<Rightarrow> string \<Rightarrow> ('v, 'x) process_world \<Rightarrow> outcome \<times> ('v, 'x) process_world" where
  "invoke_device expected null c capability arguments w =
     (let i = length (ws_calls (device_of c (pw_server w)));
          act = (\<lambda>l. srv_act expected null (DeviceCall c l));
          pause = others expected null (own_call c i);
          call = (\<lambda>w. ws_calls (device_of c (pw_server w)) ! i);
          w = pause (act Allocate w);
          w = pause (act (Register i) w);
          message = Invoke (call_request (call w)) capability arguments
      in case pw_sends w of
           Inl e # sends \<Rightarrow>
             let w = pause (act (SendErr i e) (w\<lparr>pw_sends := sends\<rparr>));
                 w = act (GiveUp i) w
             in (unreachable_outcome (device_of c (pw_server w)) e, w)
         | sends \<Rightarrow>
             let w = pause (act (SendOk i) (w\<lparr>pw_sends := tl sends, pw_sent := (c, message) # pw_sent w\<rparr>))
             in case call_inbox (call w) of
                  x # _ \<Rightarrow> (x, act (Receive i) w)
                | [] \<Rightarrow>
                    let w = pause (act (Expire i) w);
                        w = act (GiveUp i) w
                    in (timeout_outcome (device_of c (pw_server w)), w))"

text \<open>The devices of the registry, as the dispatcher of an assistant gets them.\<close>

definition connected_device ::
  "string option \<Rightarrow> 'v \<Rightarrow> nat \<Rightarrow> 'v server \<Rightarrow> (facts \<times> ('v, 'x) process_world, 'v) remote_device" where
  "connected_device expected null c st =
     \<lparr>rd_name = ws_name (device_of c st), rd_capabilities = conn_capabilities (srv_conns st ! c),
      rd_invoke = (\<lambda>capability arguments (kept, w).
        case invoke_device expected null c capability arguments w of (x, w) \<Rightarrow> (x, kept, w))\<rparr>"

definition connected_devices ::
  "string option \<Rightarrow> 'v \<Rightarrow> ((string \<times> nat) list \<Rightarrow> (string \<times> nat) list) \<Rightarrow> facts \<times> ('v, 'x) process_world \<Rightarrow>
     (facts \<times> ('v, 'x) process_world, 'v) remote_device list" where
  "connected_devices expected null iter w =
     (let st = pw_server (snd w)
      in map (\<lambda>c. connected_device expected null c st) (snapshot_devices iter (srv_registry st)))"

section \<open>The other threads\<close>

text \<open>A state the listener can reach, and what stays of a state as it runs on.\<close>

definition listening :: "string option \<Rightarrow> 'v \<Rightarrow> 'v event_queue_state option \<Rightarrow> ('v, 'x) process_world \<Rightarrow> bool" where
  "listening expected null q w \<longleftrightarrow> srv_run expected null q (pw_trace w) (pw_server w)"

definition later :: "('v, 'x) process_world \<Rightarrow> ('v, 'x) process_world \<Rightarrow> bool" where
  "later w w' \<longleftrightarrow> set (pw_trace w) \<subseteq> set (pw_trace w') \<and> set (pw_sent w) \<subseteq> set (pw_sent w')"

lemma later_refl [simp]: "later w w"
  by (simp add: later_def)

lemma later_trans: "later w w' \<Longrightarrow> later w' w'' \<Longrightarrow> later w w''"
  by (auto simp: later_def)

lemma heard_later: "later w w' \<Longrightarrow> heard (pw_trace w) c m \<Longrightarrow> heard (pw_trace w') c m"
  by (auto simp: later_def heard_def)

lemma announced_later:
  "later w w' \<Longrightarrow> announced expected (pw_trace w) c n caps \<Longrightarrow> announced expected (pw_trace w') c n caps"
  using heard_later unfolding announced_def by blast

lemma later_sends: "later w (w\<lparr>pw_sends := s\<rparr>)"
  by (simp add: later_def)

lemma listening_sends [simp]:
  "listening expected null q (w\<lparr>pw_sends := s\<rparr>) = listening expected null q w"
  "listening expected null q (w\<lparr>pw_sent := m\<rparr>) = listening expected null q w"
  by (simp_all add: listening_def)

lemma srv_act_listening: "listening expected null q w \<Longrightarrow> listening expected null q (srv_act expected null l w)"
  by (auto simp: listening_def srv_act_def intro: srv_step split: option.splits)

lemma srv_act_later: "later w (srv_act expected null l w)"
  by (auto simp: srv_act_def later_def split: option.splits)

lemma others_runs:
  assumes step: "\<And>l w. \<not> own l \<Longrightarrow> P w \<Longrightarrow> P (srv_act expected null l w)"
    and threads: "\<And>w ls. P (w\<lparr>pw_threads := ls\<rparr>) = P w" and start: "P w"
  shows "P (others expected null own w)"
proof -
  have "P w \<Longrightarrow> P (fold (srv_act expected null) (filter (\<lambda>l. \<not> own l) ls) w)" for ls w
    by (induction ls arbitrary: w) (simp_all add: step)
  with start threads show ?thesis by (auto simp: others_def split: list.splits)
qed

lemma others_listening: "listening expected null q w \<Longrightarrow> listening expected null q (others expected null own w)"
  by (rule others_runs [where P = "listening expected null q"]) (simp_all add: srv_act_listening, simp add: listening_def)

lemma others_later: "later w (others expected null own w)"
  by (rule others_runs [where P = "later w"]) (auto intro: later_trans srv_act_later, auto simp: later_def)

lemma turn_later: "later w (others expected null own (srv_act expected null l w))"
  by (rule later_trans [OF srv_act_later others_later])

text \<open>
  A call in a phase: only its own thread moves it on. \<open>call_in\<close> also keeps the device's name and
  the request id.
\<close>

definition call_in :: "'v server \<Rightarrow> nat \<Rightarrow> string \<Rightarrow> nat \<Rightarrow> string \<Rightarrow> call_phase \<Rightarrow> bool" where
  "call_in st c n i rid ph \<longleftrightarrow> c < length (srv_conns st) \<and>
     (case conn_device (srv_conns st ! c) of
        None \<Rightarrow> False
      | Some d \<Rightarrow> ws_name d = n \<and> i < length (ws_calls d) \<and> call_phase_of (ws_calls d ! i) = ph \<and>
          call_request (ws_calls d ! i) = rid)"

lemma nth_update_same: "(\<And>k. h (g k) = h k) \<Longrightarrow> h (xs[j := g (xs ! j)] ! i) = h (xs ! i)"
  by (cases "i = j"; cases "j < length xs") (auto simp: list_update_beyond)

lemma deliver_call:
  "ws_name (deliver_result rid x d) = ws_name d \<and> length (ws_calls (deliver_result rid x d)) = length (ws_calls d) \<and>
    call_phase_of (ws_calls (deliver_result rid x d) ! i) = call_phase_of (ws_calls d ! i) \<and>
    call_request (ws_calls (deliver_result rid x d) ! i) = call_request (ws_calls d ! i)"
  by (auto simp: deliver_result_def split: option.split
      intro: nth_update_same [of call_phase_of] nth_update_same [of call_request])

lemma ws_step_call:
  assumes "ws_step d l d'" and "\<not> acts_on i l" and "i < length (ws_calls d)"
  shows "i < length (ws_calls d') \<and> call_phase_of (ws_calls d' ! i) = call_phase_of (ws_calls d ! i) \<and>
    call_request (ws_calls d' ! i) = call_request (ws_calls d ! i)"
  using assms deliver_call
  by (auto simp: allocate_request_def register_waiter_def set_phase_def give_up_def nth_append elim!: ws_step_elims)

lemma call_in_on_device:
  assumes "call_in st c n i rid ph"
    and "\<And>d. ws_name (f d) = ws_name d \<and> length (ws_calls (f d)) = length (ws_calls d) \<and>
      call_phase_of (ws_calls (f d) ! i) = call_phase_of (ws_calls d ! i) \<and>
      call_request (ws_calls (f d) ! i) = call_request (ws_calls d ! i)"
  shows "call_in (on_device f c' st) c n i rid ph"
  using assms by (cases "c = c'") (auto simp: call_in_def on_device_def split: option.splits)

lemma call_in_conn:
  assumes "call_in st c n i rid ph"
    and "c < length (srv_conns st')" and "conn_device (srv_conns st' ! c) = conn_device (srv_conns st ! c)"
  shows "call_in st' c n i rid ph"
  using assms by (simp add: call_in_def)

lemma call_in_others:
  assumes run: "srv_run expected null q tr st" and call: "call_in st c n i rid ph"
    and step: "srv_do expected null l st = Some st'" and own: "\<not> own_call c i l"
  shows "call_in st' c n i rid ph"
proof (cases l)
  case AcceptConn
  with call step show ?thesis by (auto simp: call_in_def accept_conn_def nth_append)
next
  case (PollConn c' ev sent millis)
  with step have st': "st' = poll_conn expected null millis sent c' ev st" and c': "c' < length (srv_conns st)"
    by (auto split: if_splits)
  have c: "c < length (srv_conns st)" "conn_device (srv_conns st ! c) \<noteq> None"
    using call by (auto simp: call_in_def split: option.splits)
  have serving: "call_in (serve_poll null millis c' did ev st) c n i rid ph" for did
  proof (cases "(null, millis, c', did, ev, st)" rule: serve_poll.cases)
    case (1 _ _ _ _ rid' x)
    with call show ?thesis by (simp add: call_in_on_device deliver_call)
  qed (use call c in \<open>auto simp: end_session_def intro!: call_in_conn [OF call] nth_update_same [of conn_device, THEN trans]\<close>)
  show ?thesis
  proof (cases "c = c'")
    case True
    have "conn_phase_of (srv_conns st ! c) \<noteq> AwaitHello"
      using srv_run_inv [OF run] c by (auto simp: srv_inv_def conn_ok_def)
    with serving call True st' show ?thesis by (auto simp: poll_conn_def split: conn_phase.splits)
  next
    case False
    with serving c st' show ?thesis
      by (auto simp: poll_conn_def serve_hello_def Let_def split: conn_phase.splits hello_wait.splits sum.splits
          intro!: call_in_conn [OF call])
  qed
next
  case (DeviceCall c' w)
  with step obtain d d' where d: "conn_device (srv_conns st ! c') = Some d" "ws_step d w d'"
    and st': "st' = on_device (\<lambda>_. d') c' st"
    by (auto simp: ws_do_iff split: if_splits option.splits)
  show ?thesis
  proof (cases "c = c'")
    case True
    with own DeviceCall have "\<not> acts_on i w" by simp
    with ws_step_call [OF d(2) this] ws_step_name [OF d(2)] d(1) call True show ?thesis
      by (auto simp: st' call_in_def on_device_def)
  next
    case False
    with call show ?thesis by (auto simp: st' call_in_def on_device_def)
  qed
qed

lemma others_call:
  assumes "listening expected null q w" and "call_in (pw_server w) c n i rid ph"
  shows "call_in (pw_server (others expected null (own_call c i) w)) c n i rid ph"
proof -
  let ?P = "\<lambda>w. listening expected null q w \<and> call_in (pw_server w) c n i rid ph"
  have "?P (srv_act expected null l w)" if "\<not> own_call c i l" "?P w" for l and w :: "('a, 'b) process_world"
    using that call_in_others [of expected null q "pw_trace w" "pw_server w" c n i rid ph l]
      srv_act_listening [of expected null q w l]
    by (auto simp: srv_act_def listening_def split: option.splits)
  then have "?P (others expected null (own_call c i) w)"
    by (rule others_runs) (use assms in \<open>simp_all add: listening_def\<close>)
  then show ?thesis by blast
qed

section \<open>The actions of a call\<close>

lemma call_inD:
  assumes "call_in st c n i rid ph"
  shows "c < length (srv_conns st)" "conn_device (srv_conns st ! c) = Some (device_of c st)"
    "ws_name (device_of c st) = n" "i < length (ws_calls (device_of c st))"
    "call_phase_of (ws_calls (device_of c st) ! i) = ph" "call_request (ws_calls (device_of c st) ! i) = rid"
  using assms by (auto simp: call_in_def device_of_def split: option.splits)

lemma srv_act_device:
  assumes "c < length (srv_conns (pw_server w))" and "conn_device (srv_conns (pw_server w) ! c) = Some d"
    and "\<not> is_deliver l"
    and "case ws_do l d of None \<Rightarrow> False | Some d' \<Rightarrow> ws_name d' = n \<and> i < length (ws_calls d') \<and>
      call_phase_of (ws_calls d' ! i) = ph \<and> call_request (ws_calls d' ! i) = rid"
  shows "call_in (pw_server (srv_act expected null (DeviceCall c l) w)) c n i rid ph"
  using assms by (auto simp: srv_act_def call_in_def on_device_def split: option.splits)

lemma act_allocate:
  assumes "c < length (srv_conns (pw_server w))" and "conn_device (srv_conns (pw_server w) ! c) = Some d"
  shows "call_in (pw_server (srv_act expected null (DeviceCall c Allocate) w)) c (ws_name d)
    (length (ws_calls d)) (show_nat (unat (ws_next_request d))) Allocated"
  using assms by (auto intro!: srv_act_device simp: allocate_request_def)

lemma act_phases:
  assumes "call_in (pw_server w) c n i rid ph"
  shows "ph = Allocated \<Longrightarrow> call_in (pw_server (srv_act expected null (DeviceCall c (Register i)) w)) c n i rid Registered"
    "ph = Registered \<Longrightarrow> call_in (pw_server (srv_act expected null (DeviceCall c (SendOk i)) w)) c n i rid Sent"
    "ph = Registered \<Longrightarrow> call_in (pw_server (srv_act expected null (DeviceCall c (SendErr i e)) w)) c n i rid (Unsent e)"
    "ph = Unsent e \<Longrightarrow> call_in (pw_server (srv_act expected null (DeviceCall c (GiveUp i)) w)) c n i rid
      (Returned (unreachable_outcome (ws_device_new n) e))"
    "ph = Sent \<Longrightarrow> call_inbox (ws_calls (device_of c (pw_server w)) ! i) = x # xs \<Longrightarrow>
      call_in (pw_server (srv_act expected null (DeviceCall c (Receive i)) w)) c n i rid (Returned x)"
    "ph = Sent \<Longrightarrow> call_inbox (ws_calls (device_of c (pw_server w)) ! i) = [] \<Longrightarrow>
      call_in (pw_server (srv_act expected null (DeviceCall c (Expire i)) w)) c n i rid Expired"
    "ph = Expired \<Longrightarrow> call_in (pw_server (srv_act expected null (DeviceCall c (GiveUp i)) w)) c n i rid
      (Returned (timeout_outcome (ws_device_new n)))"
  using call_inD [OF assms]
  by (auto intro!: srv_act_device simp: in_phase_def register_waiter_def give_up_def set_phase_def unreachable_outcome_def
      timeout_outcome_def)

lemma inbox_heard:
  assumes "listening expected null q w" and "call_in (pw_server w) c n i rid ph"
    and "x \<in> set (call_inbox (ws_calls (device_of c (pw_server w)) ! i))"
  shows "heard (pw_trace w) c (Result rid x)"
proof -
  note d = call_inD [OF assms(2)]
  have "conn_ok expected (pw_trace w) c (srv_conns (pw_server w) ! c)"
    using srv_run_inv [OF assms(1) [unfolded listening_def]] d(1) by (simp add: srv_inv_def)
  then obtain m wtr where run: "ws_run m wtr (device_of c (pw_server w))"
    and delivered: "\<forall>rid x. Deliver rid x \<in> set wtr \<longrightarrow> heard (pw_trace w) c (Result rid x)"
    using d(2) by (auto simp: conn_ok_def device_ok_def)
  from ws_inv_call [OF ws_run_inv [OF run] d(4)] assms(3) d(6) delivered show ?thesis by (auto simp: call_ok_def)
qed

text \<open>
  What an invocation gives: the listener has only run on, the call is over with that outcome, and
  the outcome is a result of the connection's own, to the message sent to it, or one of two errors.
\<close>

lemma invoke_device_spec:
  assumes "listening expected null q w" and c: "c < length (srv_conns (pw_server w))"
    and d: "conn_device (srv_conns (pw_server w) ! c) = Some d"
    and run: "invoke_device expected null c capability arguments w = (x, w')"
  shows "listening expected null q w' \<and> later w w' \<and>
    (\<exists>i rid. call_in (pw_server w') c (ws_name d) i rid (Returned x) \<and>
      ((\<exists>e. x = unreachable_outcome (ws_device_new (ws_name d)) e) \<or>
       (c, Invoke rid capability arguments) \<in> set (pw_sent w') \<and>
       (heard (pw_trace w') c (Result rid x) \<or> x = timeout_outcome (ws_device_new (ws_name d)))))"
proof -
  define i where "i = length (ws_calls d)"
  define n where "n = ws_name d"
  let ?act = "\<lambda>l. srv_act expected null (DeviceCall c l)"
  let ?pause = "others expected null (own_call c i)"
  define w1 where "w1 = ?pause (?act Allocate w)"
  define w2 where "w2 = ?pause (?act (Register i) w1)"
  have dev: "device_of c (pw_server w) = d" using d by (simp add: device_of_def)
  define rid where "rid = show_nat (unat (ws_next_request d))"
  have "call_in (pw_server (?act Allocate w)) c n i rid Allocated"
    using act_allocate [OF c d] unfolding n_def i_def rid_def by blast
  then have w1: "listening expected null q w1" "call_in (pw_server w1) c n i rid Allocated"
    unfolding w1_def using assms(1) by (blast intro: others_listening others_call srv_act_listening)+
  then have w2: "listening expected null q w2" "call_in (pw_server w2) c n i rid Registered"
    unfolding w2_def by (blast intro: others_listening others_call srv_act_listening act_phases(1))+
  have w02: "later w w2" unfolding w1_def w2_def by (rule later_trans [OF turn_later turn_later])
  have rid: "call_request (ws_calls (device_of c (pw_server w2)) ! i) = rid" using call_inD(6) [OF w2(2)] .
  have name: "unreachable_outcome (device_of c (pw_server v)) e = unreachable_outcome (ws_device_new n) e"
    "timeout_outcome (device_of c (pw_server v)) = timeout_outcome (ws_device_new n)"
    if "call_in (pw_server v) c n i rid ph" for v :: "('a, 'b) process_world" and ph e
    using call_inD(3) [OF that] by (simp_all add: unreachable_outcome_def timeout_outcome_def)
  show ?thesis
  proof (cases "\<exists>e sends. pw_sends w2 = Inl e # sends")
    case True
    then obtain e sends where sends: "pw_sends w2 = Inl e # sends" by blast
    define w3 where "w3 = ?pause (?act (SendErr i e) (w2\<lparr>pw_sends := sends\<rparr>))"
    define w4 where "w4 = ?act (GiveUp i) w3"
    have result: "x = unreachable_outcome (device_of c (pw_server w4)) e" "w' = w4"
      using run sends unfolding w4_def w3_def w2_def w1_def i_def
      by (auto simp: invoke_device_def Let_def dev)
    have w3: "listening expected null q w3" "call_in (pw_server w3) c n i rid (Unsent e)"
      unfolding w3_def using w2
      by (auto intro!: others_listening others_call [where q = q] srv_act_listening act_phases(3))
    have w4: "listening expected null q w4" "call_in (pw_server w4) c n i rid (Returned (unreachable_outcome (ws_device_new n) e))"
      unfolding w4_def using w3 by (blast intro: srv_act_listening act_phases(4))+
    have "later w2 w4"
      unfolding w4_def w3_def by (rule later_trans [OF later_sends later_trans [OF turn_later srv_act_later]])
    from later_trans [OF w02 this] w4 name(1) [OF w4(2)] show ?thesis unfolding result n_def by auto
  next
    case False
    define w3 where "w3 = ?pause (?act (SendOk i) (w2\<lparr>pw_sends := tl (pw_sends w2),
        pw_sent := (c, Invoke rid capability arguments) # pw_sent w2\<rparr>))"
    have w3: "listening expected null q w3" "call_in (pw_server w3) c n i rid Sent"
      unfolding w3_def using w2
      by (auto intro!: others_listening others_call [where q = q] srv_act_listening act_phases(2))
    have "later (w2\<lparr>pw_sends := tl (pw_sends w2), pw_sent := (c, Invoke rid capability arguments) # pw_sent w2\<rparr>) w3"
      unfolding w3_def by (rule turn_later)
    then have w23: "later w2 w3" and sent: "(c, Invoke rid capability arguments) \<in> set (pw_sent w3)"
      by (auto simp: later_def)
    have run3: "(x, w') = (case call_inbox (ws_calls (device_of c (pw_server w3)) ! i) of
        y # ys \<Rightarrow> (y, ?act (Receive i) w3)
      | [] \<Rightarrow> let w = ?act (GiveUp i) (?pause (?act (Expire i) w3)) in (timeout_outcome (device_of c (pw_server w)), w))"
      using run False rid unfolding w3_def w2_def w1_def i_def
      by (auto simp: invoke_device_def Let_def dev split: list.splits sum.splits)
    show ?thesis
    proof (cases "call_inbox (ws_calls (device_of c (pw_server w3)) ! i)")
      case (Cons y ys)
      define w4 where "w4 = ?act (Receive i) w3"
      have result: "x = y" "w' = w4" using run3 Cons by (simp_all add: w4_def)
      have w4: "listening expected null q w4" "call_in (pw_server w4) c n i rid (Returned x)"
        unfolding w4_def using w3 Cons result(1) by (blast intro: srv_act_listening act_phases(5))+
      have w34: "later w3 w4" unfolding w4_def by (rule srv_act_later)
      have "heard (pw_trace w4) c (Result rid x)"
        using inbox_heard [OF w3] Cons result(1) heard_later [OF w34] by simp
      moreover have "(c, Invoke rid capability arguments) \<in> set (pw_sent w4)"
        using sent w34 by (auto simp: later_def)
      ultimately show ?thesis
        using w4 later_trans [OF w02 later_trans [OF w23 w34]] unfolding result(2) n_def by auto
    next
      case Nil
      define w4 where "w4 = ?pause (?act (Expire i) w3)"
      define w5 where "w5 = ?act (GiveUp i) w4"
      have result: "x = timeout_outcome (device_of c (pw_server w5))" "w' = w5"
        using run3 Nil by (simp_all add: w5_def w4_def Let_def)
      have w4: "listening expected null q w4" "call_in (pw_server w4) c n i rid Expired"
        unfolding w4_def using w3 Nil by (blast intro: others_listening others_call srv_act_listening act_phases(6))+
      have w5: "listening expected null q w5" "call_in (pw_server w5) c n i rid (Returned (timeout_outcome (ws_device_new n)))"
        unfolding w5_def using w4 by (blast intro: srv_act_listening act_phases(7))+
      have w35: "later w3 w5" unfolding w5_def w4_def by (rule later_trans [OF turn_later srv_act_later])
      have "(c, Invoke rid capability arguments) \<in> set (pw_sent w5)"
        using sent w35 by (auto simp: later_def)
      then show ?thesis
        using w5 name(2) [OF w5(2)] later_trans [OF w02 later_trans [OF w23 w35]] unfolding result n_def by auto
    qed
  qed
qed

section \<open>The calls of an assistant\<close>

text \<open>
  What everything outside the model may do while it runs: the listener's other threads go on. The
  relation is the contract of \<open>Tool_Worlds.world_steps\<close>, so all native tools keep it.
\<close>

definition goes_on ::
  "string option \<Rightarrow> 'v \<Rightarrow> 'v event_queue_state option \<Rightarrow> ('v, 'x) process_world \<Rightarrow> ('v, 'x) process_world \<Rightarrow> bool" where
  "goes_on expected null q w w' \<longleftrightarrow>
     (listening expected null q w \<longrightarrow> listening expected null q w' \<and> later w w')"

definition goes_on_behind ::
  "string option \<Rightarrow> 'v \<Rightarrow> 'v event_queue_state option \<Rightarrow> facts \<times> ('v, 'x) process_world \<Rightarrow>
     facts \<times> ('v, 'x) process_world \<Rightarrow> bool" where
  "goes_on_behind expected null q s s' \<longleftrightarrow> goes_on expected null q (snd s) (snd s')"

interpretation listener: world_steps "goes_on_behind expected null q" for expected null q
  by unfold_locales (auto simp: goes_on_behind_def goes_on_def intro: later_trans)

definition file_keeps :: "('w \<Rightarrow> 'w \<Rightarrow> bool) \<Rightarrow> 'w file_env \<Rightarrow> bool" where
  "file_keeps R file \<longleftrightarrow> (\<forall>txt. keeps R (fe_write file txt)) \<and>
     (case fe_make_parent file of None \<Rightarrow> True | Some mk \<Rightarrow> keeps R mk)"

definition ports_keep :: "('w \<Rightarrow> 'w \<Rightarrow> bool) \<Rightarrow> ('w, 'v) outside_ports \<Rightarrow> bool" where
  "ports_keep R out \<longleftrightarrow> keeps R (op_now out) \<and> keeps R (op_task_id out) \<and> keeps R (op_is_cancelled out) \<and>
     (\<forall>t w. R w (op_sleep out t w)) \<and> (\<forall>ms tools. keeps R (op_generate out ms tools))"

text \<open>The computer, the clock, the fetcher, the MCP processes, the memory file and the agent's ports.\<close>

definition lets_run ::
  "string option \<Rightarrow> 'v \<Rightarrow> 'v event_queue_state option \<Rightarrow> (('v, 'x) process_world, 'v, 'f) boot_parts \<Rightarrow>
     (string \<Rightarrow> string option) \<Rightarrow> (('v, 'x) process_world, 'v) outside_ports \<Rightarrow> bool" where
  "lets_run expected null q bp env out \<longleftrightarrow>
     (let R = goes_on_behind expected null q
      in computer_keeps R (tp_computer (bp_tools bp)) \<and> keeps R (tp_now (bp_tools bp)) \<and>
         (\<forall>url. keeps R (tp_fetcher (bp_tools bp) url)) \<and> spawn_keeps R (bp_spawn bp)) \<and>
     file_keeps (goes_on expected null q) (memory_file bp env) \<and> ports_keep (goes_on expected null q) out"

lemma file_remember_keeps:
  assumes "file_keeps (goes_on expected null q) file"
  shows "keeps (goes_on_behind expected null q) (file_remember encode file k v)"
proof -
  let ?R = "goes_on expected null q"
  have save: "?R w (snd (fe_write file contents w))" for w contents using assms by (simp add: file_keeps_def keeps_def)
  have make: "fe_make_parent file = Some mk \<Longrightarrow> ?R w (snd (mk w))" for mk w using assms by (simp add: file_keeps_def keeps_def)
  have trans: "?R w1 w2 \<Longrightarrow> ?R w2 w3 \<Longrightarrow> ?R w1 w3" for w1 w2 w3 :: "('a, 'b) process_world"
    by (auto simp: goes_on_def intro: later_trans)
  have "goes_on_behind expected null q (fs, w) (snd (file_remember encode file k v (fs, w)))" for fs w
  proof (cases "fe_make_parent file")
    case None
    with save [of w] show ?thesis
      by (auto simp: file_remember_def goes_on_behind_def Let_def split: prod.splits) (metis snd_conv)
  next
    case (Some mk)
    obtain r w1 where mk: "mk w = (r, w1)" by fastforce
    obtain r' w2 where wr: "fe_write file (facts_to_json encode (facts_remember k v fs)) w1 = (r', w2)" by fastforce
    have "?R w w1" "?R w1 w2" using make [OF Some, of w] mk save [of w1] wr by (metis snd_conv)+
    with trans [of w w1 w2] Some mk wr show ?thesis
      by (auto simp: file_remember_def goes_on_behind_def Let_def split: sum.split)
  qed
  then show ?thesis by (auto simp: keeps_def)
qed

section \<open>Routing\<close>

text \<open>A call dispatched by a dispatcher that looks the devices up is a device's or a native tool's.\<close>

lemma dispatch_cases:
  assumes "disp_live d = Some live"
  obtains (device) dev where "dev \<in> set (live w)" "toolset_handles dev (tc_name tc) \<or> toolset_handles_bare dev (tc_name tc)"
      "fst (dispatch codec tc d w) = apfst Inr (toolset_call dev (tc_name tc) (tc_arguments tc) w)"
    | (native) "fst (dispatch codec tc d w) = dispatch_native codec tc (native_tools d) w"
proof (cases "List.find (\<lambda>r. toolset_handles r (tc_name tc)) (live w)")
  case (Some dev)
  with dispatch_route [OF assms, of codec tc w] device [of dev] show thesis
    by (auto simp: find_Some_iff)
next
  case None
  let ?bare = "filter (\<lambda>r. toolset_handles_bare r (tc_name tc)) (live w)"
  show thesis
  proof (cases "\<exists>dev. ?bare = [dev]")
    case True
    then obtain dev where bare: "?bare = [dev]" by blast
    then have "dev \<in> set ?bare" by (simp only: list.set_intros)
    then have "dev \<in> set (live w)" "toolset_handles_bare dev (tc_name tc)" unfolding set_filter by simp_all
    moreover have "fst (dispatch codec tc d w) = apfst Inr (toolset_call dev (tc_name tc) (tc_arguments tc) w)"
      using dispatch_route [OF assms, of codec tc w] None bare by simp
    ultimately show thesis using device by blast
  next
    case False
    with dispatch_route [OF assms, of codec tc w] None native show thesis
      by (auto simp: native_tools_def split: list.splits)
  qed
qed

section \<open>What a call is answered\<close>

text \<open>
  An answer of a device: it was announced by an authentic hello with its name and capabilities, the
  call names one of them, and the outcome is a result that its connection sent for a request that was
  written to that connection with the call's arguments, a timeout of such a request, or that the
  device could not be reached.
\<close>

definition answered_by_device ::
  "string option \<Rightarrow> ('v, 'x) process_world \<Rightarrow> tool_call \<Rightarrow> dispatcher_error + tool_outcome \<Rightarrow> bool" where
  "answered_by_device expected w tc r \<longleftrightarrow> (\<exists>c n caps capability rid x.
     announced expected (pw_trace w) c n caps \<and>
     (\<exists>cap \<in> set caps. tc_name tc = n @ ''_'' @ cap_name cap \<or> tc_name tc = cap_name cap) \<and>
     (tc_name tc = n @ ''_'' @ capability \<or> tc_name tc = capability) \<and>
     r = Inr (tool_outcome_of_outcome x) \<and>
     ((\<exists>e. x = unreachable_outcome (ws_device_new n) e) \<or>
      (c, Invoke rid capability (tc_arguments tc)) \<in> set (pw_sent w) \<and>
      (heard (pw_trace w) c (Result rid x) \<or> x = timeout_outcome (ws_device_new n))))"

definition answered_natively ::
  "'v arg_codec \<Rightarrow> (facts \<times> 'w, 'v, 'f) dispatcher \<Rightarrow> tool_call \<Rightarrow> dispatcher_error + tool_outcome \<Rightarrow> bool" where
  "answered_natively codec d tc r \<longleftrightarrow> (\<exists>w. r = fst (dispatch_native codec tc (native_tools d) w))"

lemma answered_nativelyI: "answered_natively codec d tc (fst (dispatch_native codec tc (native_tools d) w))"
  unfolding answered_natively_def by blast

lemma answered_later: "later w w' \<Longrightarrow> answered_by_device expected w tc r \<Longrightarrow> answered_by_device expected w' tc r"
proof -
  assume later: "later w w'" and "answered_by_device expected w tc r"
  then obtain c n caps capability rid x where a: "announced expected (pw_trace w) c n caps"
    "\<exists>cap \<in> set caps. tc_name tc = n @ ''_'' @ cap_name cap \<or> tc_name tc = cap_name cap"
    "tc_name tc = n @ ''_'' @ capability \<or> tc_name tc = capability" "r = Inr (tool_outcome_of_outcome x)"
    "(\<exists>e. x = unreachable_outcome (ws_device_new n) e) \<or>
      (c, Invoke rid capability (tc_arguments tc)) \<in> set (pw_sent w) \<and>
      (heard (pw_trace w) c (Result rid x) \<or> x = timeout_outcome (ws_device_new n))"
    unfolding answered_by_device_def by blast
  have "set (pw_sent w) \<subseteq> set (pw_sent w')" using later by (simp add: later_def)
  with a announced_later [OF later a(1)] heard_later [OF later] show ?thesis
    unfolding answered_by_device_def by blast
qed

lemma called_name:
  "tc_name tc = rd_name d @ ''_'' @ capability_called d (tc_name tc) \<or> tc_name tc = capability_called d (tc_name tc)"
  by (auto simp: capability_called_def device_prefix_def strip_prefix_Some split: option.split)

lemma device_answers:
  assumes run: "listening expected null q w" and iter: "\<And>r. set (iter r) \<subseteq> set r"
    and dev: "dev \<in> set (connected_devices expected null iter (kept, w))"
    and handles: "toolset_handles dev (tc_name tc) \<or> toolset_handles_bare dev (tc_name tc)"
    and call: "toolset_call dev (tc_name tc) (tc_arguments tc) (kept, w) = (out, kept', w')"
  shows "listening expected null q w' \<and> later w w' \<and> answered_by_device expected w' tc (Inr out)"
proof -
  let ?st = "pw_server w"
  obtain did c where reg: "(did, c) \<in> set (srv_registry ?st)" and dev: "dev = connected_device expected null c ?st"
    using dev iter [of "srv_registry ?st"]
    by (fastforce simp: connected_devices_def snapshot_devices_def Let_def)
  obtain d where c: "c < length (srv_conns ?st)" and d: "conn_device (srv_conns ?st ! c) = Some d"
    using registered_connection [OF run [unfolded listening_def] reg] by blast
  have name: "rd_name dev = ws_name d" "rd_capabilities dev = conn_capabilities (srv_conns ?st ! c)"
    using d by (simp_all add: dev connected_device_def device_of_def)
  have "conn_ok expected (pw_trace w) c (srv_conns ?st ! c)"
    using srv_run_inv [OF run [unfolded listening_def]] c by (simp add: srv_inv_def)
  then have hello: "announced expected (pw_trace w) c (ws_name d) (rd_capabilities dev)"
    using d by (simp add: conn_ok_def name)
  let ?cap = "capability_called dev (tc_name tc)"
  obtain x where inv: "invoke_device expected null c ?cap (tc_arguments tc) w = (x, w')"
    and out: "out = tool_outcome_of_outcome x"
    using call by (auto simp: toolset_call_def dev connected_device_def split: prod.splits)
  from invoke_device_spec [OF run c d inv] obtain rid where w': "listening expected null q w'" "later w w'"
    and result: "(\<exists>e. x = unreachable_outcome (ws_device_new (ws_name d)) e) \<or>
      (c, Invoke rid ?cap (tc_arguments tc)) \<in> set (pw_sent w') \<and>
      (heard (pw_trace w') c (Result rid x) \<or> x = timeout_outcome (ws_device_new (ws_name d)))"
    by blast
  have "\<exists>cap \<in> set (rd_capabilities dev). tc_name tc = ws_name d @ ''_'' @ cap_name cap \<or> tc_name tc = cap_name cap"
    using handles unfolding toolset_handles_iff toolset_handles_bare_def list_ex_iff device_prefix_def name(1)
    by (metis append.assoc)
  with announced_later [OF w'(2) hello] called_name [of tc dev] result out w' show ?thesis
    unfolding answered_by_device_def name(1) by blast
qed

text \<open>The contract of the agent's ports, for an assistant that runs in the process.\<close>

lemma device_ports:
  assumes live: "disp_live d = Some (connected_devices expected null iter)" and iter: "\<And>r. set (iter r) \<subseteq> set r"
    and native: "list_all (tool_keeps (goes_on_behind expected null q)) (native_tools d)"
    and ports: "ports_keep (goes_on expected null q) out"
  shows "agent_ports (assistant_env codec out)
    (\<lambda>s. running facts d s \<and> listening expected null q (snd (aw_world s)))
    (\<lambda>s tc r. answered_by_device expected (snd (aw_world s)) tc r \<or> answered_natively codec d tc r)"
proof -
  let ?P = "\<lambda>s :: facts \<times> ('a, 'b) process_world. listening expected null q (snd s)"
  let ?A = "\<lambda>s tc r. answered_by_device expected (snd s) tc r \<or> answered_natively codec d tc r"
  have move: "moves ?P ?A s s'" if "?P s" "goes_on expected null q (snd s) (snd s')" for s s'
    using that answered_later [of "snd s" "snd s'"] by (auto simp: moves_def goes_on_def)
  have behind: "moves ?P ?A s s'" if "?P s" "goes_on_behind expected null q s s'" for s s'
    using move that by (simp add: goes_on_behind_def)
  have disp: "moves ?P ?A s (snd (fst (dispatch codec tc d s))) \<and>
      ?A (snd (fst (dispatch codec tc d s))) tc (fst (fst (dispatch codec tc d s)))" if P: "?P s" for s tc
  proof (rule dispatch_cases [OF live, where w = s and tc = tc and codec = codec])
    fix dev assume dev: "dev \<in> set (connected_devices expected null iter s)"
      and handles: "toolset_handles dev (tc_name tc) \<or> toolset_handles_bare dev (tc_name tc)"
      and run: "fst (dispatch codec tc d s) = apfst Inr (toolset_call dev (tc_name tc) (tc_arguments tc) s)"
    obtain kept w where s: "s = (kept, w)" by fastforce
    obtain out' kept' w' where call: "toolset_call dev (tc_name tc) (tc_arguments tc) (kept, w) = (out', kept', w')"
      by (metis prod.exhaust)
    from device_answers [OF _ iter dev [unfolded s] handles call] P
    have "listening expected null q w'" "later w w'" "answered_by_device expected w' tc (Inr out')" by (simp_all add: s)
    with move [of s "(kept', w')"] P run call show ?thesis by (simp add: s goes_on_def)
  next
    assume run: "fst (dispatch codec tc d s) = dispatch_native codec tc (native_tools d) s"
    have "goes_on_behind expected null q s (snd (dispatch_native codec tc (native_tools d) s))"
      using listener.dispatch_native_keeps [OF native] unfolding keeps_def by blast
    with behind [OF P] run answered_nativelyI [of codec d tc s] show ?thesis by simp
  qed
  have described: "moves ?P ?A s (snd (get_context (native_tools d) s))" if "?P s" for s
    by (rule behind [OF that]) (use listener.get_context_keeps [OF native] in \<open>unfold keeps_def, blast\<close>)
  have outside: "moves ?P ?A (k, w) (k, snd (f w))" if "?P (k, w)" "keeps (goes_on expected null q) f" for k w and f :: "_ \<Rightarrow> 'c \<times> _"
    using move [of "(k, w)" "(k, snd (f w))"] that by (simp add: keeps_def)
  have outside2: "moves ?P ?A (k, w) (k, w')" if "?P (k, w)" "goes_on expected null q w w'" for k w w'
    using move [of "(k, w)" "(k, w')"] that by simp
  show ?thesis
    by (rule assistant_ports [where P = ?P and A = ?A])
      (use disp described ports in \<open>auto simp: ports_keep_def keeps_def intro!: outside2\<close>)
qed

text \<open>What the assistant's parts are, for the process it is built in.\<close>

lemma build_assistant_keeps:
  assumes "lets_run expected null q bp env out" and "listening expected null q w"
  shows "list_all (tool_keeps (goes_on_behind expected null q))
      (native_tools (aw_dispatcher (world (build_assistant bp env tid w)))) \<and>
    listening expected null q (snd (aw_world (world (build_assistant bp env tid w)))) \<and>
    disp_live (aw_dispatcher (world (build_assistant bp env tid w))) = Some (bp_devices bp)"
proof -
  let ?R = "goes_on_behind expected null q"
  let ?tp = "(bp_tools bp)\<lparr>tp_remember := file_remember (bp_encode bp) (memory_file bp env)\<rparr>"
  let ?start = "(file_store_new (bp_decode bp) (memory_file bp env) w, w)"
  obtain toolsets kept w' where c: "connect_mcp_servers (bp_mcp_decode bp) env (bp_read bp) (bp_spawn bp) ?start =
      (toolsets, kept, w')" by (metis prod.exhaust)
  have "world (build_assistant bp env tid w) = \<lparr>aw_memory = file_store_new (bp_decode bp) (memory_file bp env) w',
      aw_dispatcher = snd (assemble (bp_texts bp) ?tp (bp_devices bp) toolsets), aw_world = (kept, w')\<rparr>"
    by (simp add: build_assistant_def Let_def c with_llm_info_def with_memory_def with_planning_enabled_def
        assistant_new_def split: prod.split)
  moreover have "?R ?start (kept, w')" "list_all (toolset_keeps ?R) toolsets"
    using assms(1) listener.connect_keeps [of expected null q "bp_spawn bp" ?start] c
    unfolding lets_run_def connect_mcp_servers_def by (metis fst_conv snd_conv)+
  moreover have "listener.parts_keep expected null q ?tp"
    using assms(1) file_remember_keeps [of expected null q "memory_file bp env"]
    by (simp add: lets_run_def Let_def listener.parts_keep_def)
  ultimately show ?thesis
    using listener.assembled_keep [of expected null q ?tp toolsets] assms(2)
    by (auto simp: native_tools_def list_all_iff goes_on_behind_def goes_on_def assemble_sel(1))
qed

text \<open>
  C2. A device call of a whole connection, end to end: whatever the model, the client, the other
  connections and the other threads do and in whatever order, every completed call that a client is
  told of was answered by a native or MCP tool, or by a device: one whose hello carried the
  supported version and the configured token and announced a capability the call names; and the
  answer is a result that very connection sent for a request written to it with the call's
  arguments, a timeout of that request, or that the device could not be reached. The listener
  has only moved to a state it can reach.
\<close>

theorem device_calls_end_to_end:
  assumes "lets_run expected null q bp env out" and "bp_devices bp = connected_devices expected null iter"
    and "\<And>r. set (iter r) \<subseteq> set r" and "srv_run expected null q (pw_trace w) (pw_server w)"
    and "handle_connection (assistant_env codec out) incoming (build_assistant bp env tid w) = (sent, b)"
    and "EventMsg (ToolCompleted t i n d txt k args m) \<in> set sent"
  shows "(let w' = snd (aw_world (world b)) in
      srv_run expected null q (pw_trace w') (pw_server w') \<and>
      (\<exists>r. reports show_dispatcher_error r txt m \<and>
        (answered_by_device expected w' \<lparr>tc_name = n, tc_arguments = args\<rparr> r \<or>
         answered_natively codec (aw_dispatcher (world (build_assistant bp env tid w)))
           \<lparr>tc_name = n, tc_arguments = args\<rparr> r)))"
proof -
  let ?a = "build_assistant bp env tid w"
  let ?d = "aw_dispatcher (world ?a)" and ?f = "aw_memory (world ?a)"
  have w: "listening expected null q w" using assms(4) by (simp add: listening_def)
  note keep = build_assistant_keeps [OF assms(1) w, of tid]
  have live: "disp_live ?d = Some (connected_devices expected null iter)" using keep assms(2) by simp
  have ports: "ports_keep (goes_on expected null q) out" using assms(1) by (simp add: lets_run_def)
  note contract = device_ports [OF live assms(3) _ ports, of codec ?f]
  have native: "list_all (tool_keeps (goes_on_behind expected null q)) (native_tools ?d)" using keep by blast
  from agent_ports.ok_connection [OF contract [OF native] assms(5) _ build_assistant_events] keep
    build_assistant_running [of bp env tid w]
  have final: "running ?f ?d (world b) \<and> listening expected null q (snd (aw_world (world b)))"
    and told: "\<forall>e. EventMsg e \<in> set sent \<longrightarrow> call_answered show_dispatcher_error
      (\<lambda>tc r. answered_by_device expected (snd (aw_world (world b))) tc r \<or> answered_natively codec ?d tc r) e"
    by (auto simp: sound_def assistant_env_def)
  from told assms(6) final show ?thesis
    by (fastforce simp: call_answered_def listening_def Let_def)
qed

section \<open>A concrete connection\<close>

text \<open>
  A device with one capability is connected; the model calls it and then answers. The device's
  result arrives while the call waits.
\<close>

type_synonym script_world = "(unit, (llm_error + llm_response) list \<times> string option) process_world"

definition echo_hello :: "unit hello" where
  "echo_hello = \<lparr>protocol_version = 1, device_id = ''pc'', device_name = ''pc'', platform = ''windows'',
     token = ''secret'', capabilities = [\<lparr>cap_name = ''echo'', cap_description = ''d'', cap_parameters = ()\<rparr>]\<rparr>"

definition echo_labels :: "unit server_label list" where
  "echo_labels = [AcceptConn, PollConn 0 (Inr (WireMessage (Hello echo_hello))) True 1]"

definition echo_result :: "unit server_label" where
  "echo_result = PollConn 0 (Inr (WireMessage (Result ''0'' (OutcomeOk ''hi'' False)))) True 3"

definition echo_world :: "(llm_error + llm_response) list \<Rightarrow> script_world" where
  "echo_world rs = \<lparr>pw_trace = rev echo_labels,
     pw_server = the (srv_exec (Some ''secret'') () echo_labels (server_new None)),
     pw_threads = [[], [], [echo_result]], pw_sends = [], pw_sent = [], pw_rest = (rs, None)\<rparr>"

definition echo_boot :: "(script_world, unit, unit) boot_parts" where
  "echo_boot = \<lparr>bp_texts = sample_texts,
     bp_tools = \<lparr>tp_computer = sample_computer, tp_apps = (\<lambda>_. Inr AppsOther),
       tp_now = (\<lambda>w. (\<lparr>wt_hour_minute = [], wt_day = [], wt_month = [], wt_year = []\<rparr>, w)),
       tp_weather = tp_weather sample_parts, tp_lossy = id, tp_search = tp_search sample_parts,
       tp_html = tp_html sample_parts, tp_fetcher = (\<lambda>_ w. (Inr [], w)), tp_remember = (\<lambda>_ _ w. (Inr (), w))\<rparr>,
     bp_devices = connected_devices (Some ''secret'') () id, bp_mcp_decode = (\<lambda>_. Inl []), bp_read = (\<lambda>_. None),
     bp_spawn = (\<lambda>c args w. (Inl [], w)), bp_decode = sample_decode, bp_encode = sample_encode,
     bp_file = (\<lambda>path. \<lparr>fe_read = (\<lambda>w. case snd (pw_rest w) of None \<Rightarrow> Inl ''not found'' | Some s \<Rightarrow> Inr s),
       fe_make_parent = None, fe_write = (\<lambda>s w. (Inr (), w\<lparr>pw_rest := (fst (pw_rest w), Some s)\<rparr>))\<rparr>)\<rparr>"

definition echo_outside :: "(script_world, unit) outside_ports" where
  "echo_outside = \<lparr>op_now = (\<lambda>w. (0, w)), op_task_id = (\<lambda>w. (''1-1'', w)), op_is_cancelled = (\<lambda>w. (False, w)),
     op_sleep = (\<lambda>d w. w),
     op_generate = (\<lambda>ms tools w. (Worker 0 (case fst (pw_rest w) of [] \<Rightarrow> None | r # rs \<Rightarrow> Some r),
       w\<lparr>pw_rest := (tl (fst (pw_rest w)), snd (pw_rest w))\<rparr>))\<rparr>"

definition echo_script :: "(llm_error + llm_response) list" where
  "echo_script = [scripted_response None [\<lparr>tc_name = ''pc_echo'', tc_arguments = ''{}''\<rparr>],
     scripted_response (Some ''ok'') []]"

lemma echo_lets_run: "lets_run (Some ''secret'') () None echo_boot (\<lambda>_. None) echo_outside"
  by (auto simp: lets_run_def echo_boot_def echo_outside_def Let_def computer_keeps_def sample_computer_def keeps_def
      goes_on_behind_def goes_on_def spawn_keeps_def file_keeps_def memory_file_def ports_keep_def later_def listening_def)

lemma echo_started: "srv_run (Some ''secret'') () None (pw_trace (echo_world rs)) (pw_server (echo_world rs))"
proof -
  obtain st where st: "srv_exec (Some ''secret'') () echo_labels (server_new None) = Some st"
    by (simp add: echo_labels_def srv_defs echo_hello_def)
  from srv_exec_run [OF st srv_start] st show ?thesis by (simp add: echo_world_def)
qed

lemma echo_assistant:
  "build_assistant echo_boot (\<lambda>_. None) ''0-0'' (echo_world rs) =
    \<lparr>world = \<lparr>aw_memory = [], aw_dispatcher = snd (assemble sample_texts ((bp_tools echo_boot)
        \<lparr>tp_remember := file_remember sample_encode (bp_file echo_boot ''data/memory.json'')\<rparr>) (bp_devices echo_boot) []),
       aw_world = ([], echo_world rs)\<rparr>,
     registry = native_registry sample_texts, history = transcript_new (system_message SYSTEM_PROMPT),
     events = [], limits = loop_limits_default, budget = context_budget_default, planning_enabled = False,
     current_task = task_state_new ''0-0'', provider = ''ollama'', model = ''llama3.2''\<rparr>"
  by (simp add: build_assistant_def memory_file_def echo_boot_def boot_settings_from_env_def
      connect_mcp_servers_def read_mcp_config_file_def legacy_env_mcp_server_def file_store_new_def facts_new_def
      with_llm_info_def with_memory_def with_planning_enabled_def assistant_new_def assemble_def Let_def echo_world_def
      loop_limits_from_env_def context_budget_from_env_def env_parse_def DEFAULT_MODEL_def loop_limits_default_def
      context_budget_default_def)

text \<open>The world with another rest, and after the invocation.\<close>

definition echo_at :: "(llm_error + llm_response) list \<times> string option \<Rightarrow> script_world" where
  "echo_at r = (echo_world [])\<lparr>pw_rest := r\<rparr>"

definition echo_after :: "(llm_error + llm_response) list \<times> string option \<Rightarrow> script_world" where
  "echo_after r = (snd (invoke_device (Some ''secret'') () 0 ''echo'' ''{}'' (echo_at ([], None))))\<lparr>pw_rest := r\<rparr>"

lemma show_nat_zero: "show_nat 0 = ''0''"
  by (simp add: show_nat.simps digit_char_def char_of_def bit_Suc bit_0)

lemmas echo_defs = echo_world_def echo_labels_def echo_hello_def srv_defs ws_device_new_def on_device_def
  allocate_request_def register_waiter_def set_phase_def call_update_def in_phase_def deliver_result_def show_nat_zero

lemmas echo_run_defs = invoke_device_def others_def srv_act_def device_of_def echo_after_def echo_at_def echo_result_def echo_defs

lemma echo_invoke:
  "invoke_device (Some ''secret'') () 0 ''echo'' ''{}'' (echo_at r) = (OutcomeOk ''hi'' False, echo_after r)"
  by (simp add: echo_run_defs Let_def)

lemma echo_rest [simp]:
  "pw_rest (echo_at r) = r" "(echo_at r)\<lparr>pw_rest := r'\<rparr> = echo_at r'"
  "pw_rest (echo_after r) = r" "(echo_after r)\<lparr>pw_rest := r'\<rparr> = echo_after r'"
  by (simp_all add: echo_at_def echo_after_def)

definition echo_device :: "(facts \<times> script_world, unit) remote_device" where
  "echo_device = connected_device (Some ''secret'') () 0 (pw_server (echo_at ([], None)))"

lemma echo_server:
  "srv_registry (pw_server (echo_at r)) = [(''pc'', 0)]" "ws_name (device_of 0 (pw_server (echo_at r))) = ''pc''"
  "conn_capabilities (srv_conns (pw_server (echo_at r)) ! 0) = [\<lparr>cap_name = ''echo'', cap_description = ''d'', cap_parameters = ()\<rparr>]"
  "srv_registry (pw_server (echo_after r)) = [(''pc'', 0)]" "ws_name (device_of 0 (pw_server (echo_after r))) = ''pc''"
  "conn_capabilities (srv_conns (pw_server (echo_after r)) ! 0) = [\<lparr>cap_name = ''echo'', cap_description = ''d'', cap_parameters = ()\<rparr>]"
  by (simp_all add: echo_run_defs Let_def)

lemma echo_devices:
  "connected_devices (Some ''secret'') () id (kept, echo_at r) = [echo_device]"
  "connected_devices (Some ''secret'') () id (kept, echo_after r) = [echo_device]"
  by (simp_all add: connected_devices_def connected_device_def echo_device_def snapshot_devices_def echo_server)

lemma echo_device_sel:
  "rd_name echo_device = ''pc''"
  "rd_capabilities echo_device = [\<lparr>cap_name = ''echo'', cap_description = ''d'', cap_parameters = ()\<rparr>]"
  "rd_invoke echo_device ''echo'' ''{}'' (kept, echo_at r) = (OutcomeOk ''hi'' False, kept, echo_after r)"
  by (simp_all add: echo_device_def connected_device_def echo_invoke echo_server)

lemma echo_tools:
  "toolset_definitions echo_device = [\<lparr>td_name = ''pc_echo'', td_description = ''d'', td_parameters = ()\<rparr>]"
  "toolset_call echo_device ''pc_echo'' ''{}'' (kept, echo_at r) =
    (\<lparr>out_text = ''hi'', out_images = [], mutated = False\<rparr>, kept, echo_after r)"
  by (simp_all add: toolset_definitions_def toolset_call_def capability_called_def device_prefix_def echo_device_sel
      strip_prefix_def starts_with_def)


lemma echo_world_at: "echo_world rs = echo_at (rs, None)"
  by (simp add: echo_at_def echo_world_def)

lemmas echo_sim_defs = echo_outside_def sample_computer_def echo_script_def scripted_response_def
  assistant_env_def on_outside_def dispatch_def device_tools_def sync_devices_def get_context.simps
  execute_command_context_def show_computer_context_def sample_codec_def handle_connection_def ws_emit_def turn_answer_def events_since_def
  echo_devices echo_tools toolset_handles_def

lemma echo_run:
  "\<exists>sent b. handle_connection (assistant_env sample_codec echo_outside) [Inr (Some (Input ''go'' Cli))]
      (build_assistant echo_boot (\<lambda>_. None) ''0-0'' (echo_world echo_script)) = (sent, b) \<and>
    EventMsg (ToolCompleted ''1-1'' 1 ''pc_echo'' 0 ''hi'' 0 ''{}'' False) \<in> set sent \<and>
    aw_world (world b) = ([], echo_after ([], None))"
  supply process_loop.simps [simp] generate_with_retry.simps [simp]
  apply (simp add: echo_assistant assemble_def native_dispatcher_def register_tool_def with_device_registry_def dispatcher_new_def)
  apply (simp add: echo_world_at)
  apply (simp add: echo_sim_defs echo_boot_def)
  apply (simp add: echo_sim_defs echo_boot_def scripted_defs length_SYSTEM_PROMPT length_VERIFY_NUDGE native_registry_def NATIVE_TOOLS_def native_definition_def sample_texts_def)
  done

lemma echo_not_native:
  "\<not> (answered_natively sample_codec (aw_dispatcher (world (build_assistant echo_boot (\<lambda>_. None) ''0-0'' (echo_world rs))))
      \<lparr>tc_name = ''pc_echo'', tc_arguments = ''{}''\<rparr> r \<and> reports show_dispatcher_error r ''hi'' False)"
  by (auto simp: answered_natively_def native_tools_def echo_assistant assemble_def native_dispatcher_def register_tool_def
      with_device_registry_def dispatcher_new_def reports_def Let_def)

theorem device_calls_end_to_end_witness:
  "\<exists>sent b r. handle_connection (assistant_env sample_codec echo_outside) [Inr (Some (Input ''go'' Cli))]
      (build_assistant echo_boot (\<lambda>_. None) ''0-0'' (echo_world echo_script)) = (sent, b) \<and>
    EventMsg (ToolCompleted ''1-1'' 1 ''pc_echo'' 0 ''hi'' 0 ''{}'' False) \<in> set sent \<and>
    reports show_dispatcher_error r ''hi'' False \<and>
    answered_by_device (Some ''secret'') (snd (aw_world (world b))) \<lparr>tc_name = ''pc_echo'', tc_arguments = ''{}''\<rparr> r"
proof -
  obtain sent b where run: "handle_connection (assistant_env sample_codec echo_outside) [Inr (Some (Input ''go'' Cli))]
      (build_assistant echo_boot (\<lambda>_. None) ''0-0'' (echo_world echo_script)) = (sent, b)"
    and told: "EventMsg (ToolCompleted ''1-1'' 1 ''pc_echo'' 0 ''hi'' 0 ''{}'' False) \<in> set sent"
    using echo_run by blast
  have devices: "bp_devices echo_boot = connected_devices (Some ''secret'') () id" by (simp add: echo_boot_def)
  have iter: "set (id r) \<subseteq> set r" for r :: "(string \<times> nat) list" by simp
  from device_calls_end_to_end [OF echo_lets_run devices iter echo_started run told] run told echo_not_native
  show ?thesis unfolding Let_def by blast
qed

end
