(* ===== verification/Wake.thy ===== *)
theory Wake
  imports Rust_Text
begin

text \<open>
  The wake phrase of \<open>crates/stt/src/wake.rs\<close>: how a transcript is matched and stripped, and
  the detector that has a background thread transcribe the audio it collects. The Unicode
  tables behind \<open>char::is_alphanumeric\<close> and \<open>str::to_lowercase\<close> are the two fields of a
  parameter; nothing is assumed of them. The generation counter is a natural number: a
  process does not reset its detector \<open>2^64\<close> times.
\<close>

section \<open>Words of a transcript\<close>

record unicode =
  is_alphanumeric :: "string \<Rightarrow> bool"
  to_lowercase :: "string \<Rightarrow> string"

definition WAKE_PHRASES :: "string list" where
  "WAKE_PHRASES = [''oye nala'', ''ey nala'', ''ve nala'']"

text \<open>The loop over \<open>char_indices\<close>: the offset, and the word begun before it.\<close>

fun scan_words :: "unicode \<Rightarrow> string list \<Rightarrow> nat \<Rightarrow> string option \<Rightarrow> (string \<times> nat) list" where
  "scan_words u [] i None = []"
| "scan_words u [] i (Some w) = [(to_lowercase u w, i)]"
| "scan_words u (c # cs) i None =
     (if is_alphanumeric u c then scan_words u cs (i + length c) (Some c)
      else scan_words u cs (i + length c) None)"
| "scan_words u (c # cs) i (Some w) =
     (if is_alphanumeric u c then scan_words u cs (i + length c) (Some (w @ c))
      else (to_lowercase u w, i) # scan_words u cs (i + length c) None)"

definition words_with_end_offsets :: "unicode \<Rightarrow> string \<Rightarrow> (string \<times> nat) list" where
  "words_with_end_offsets u text = scan_words u (chars text) 0 None"

text \<open>\<open>str::split\<close> at a character.\<close>

fun split_at_char :: "char \<Rightarrow> string \<Rightarrow> string \<Rightarrow> string list" where
  "split_at_char d [] acc = [acc]"
| "split_at_char d (c # cs) acc =
     (if c = d then acc # split_at_char d cs [] else split_at_char d cs (acc @ [c]))"

fun find_map :: "('a \<Rightarrow> 'b option) \<Rightarrow> 'a list \<Rightarrow> 'b option" where
  "find_map f [] = None"
| "find_map f (x # xs) = (case f x of Some y \<Rightarrow> Some y | None \<Rightarrow> find_map f xs)"

definition matching_wake_phrase_len :: "(string \<times> nat) list \<Rightarrow> nat option" where
  "matching_wake_phrase_len words =
     find_map (\<lambda>phrase.
       let phrase_words = split_at_char (CHR '' '') phrase []
       in if length phrase_words \<le> length words \<and>
             list_all (\<lambda>i. fst (words ! i) = phrase_words ! i) [0..<length phrase_words]
          then Some (length phrase_words) else None) WAKE_PHRASES"

definition is_wake_phrase :: "unicode \<Rightarrow> string \<Rightarrow> bool" where
  "is_wake_phrase u text \<longleftrightarrow> matching_wake_phrase_len (words_with_end_offsets u text) \<noteq> None"

definition strip_wake_prefix :: "unicode \<Rightarrow> string \<Rightarrow> string" where
  "strip_wake_prefix u transcript =
     (let words = words_with_end_offsets u transcript
      in case matching_wake_phrase_len words of
           Some prefix_len \<Rightarrow>
             trim (concat (dropWhile (\<lambda>c. \<not> is_alphanumeric u c)
               (chars (drop (snd (words ! (prefix_len - 1))) transcript))))
         | None \<Rightarrow> trim transcript)"

lemma matching_wake_phrase_len_eq:
  "matching_wake_phrase_len words =
     (case words of
        (w1, _) # (w2, _) # _ \<Rightarrow> if w1 \<in> {''oye'', ''ey'', ''ve''} \<and> w2 = ''nala'' then Some 2 else None
      | _ \<Rightarrow> None)"
  by (auto simp: matching_wake_phrase_len_def WAKE_PHRASES_def upt_rec split: list.splits)

lemma scan_words_begun:
  "list_all (is_alphanumeric u) w \<Longrightarrow>
    scan_words u (w @ rest) i (Some acc) = scan_words u rest (i + length (concat w)) (Some (acc @ concat w))"
  by (induction w arbitrary: i acc) (simp_all add: add.assoc)

lemma scan_words_skip:
  "list_all (\<lambda>c. \<not> is_alphanumeric u c) p \<Longrightarrow>
    scan_words u (p @ rest) i None = scan_words u rest (i + length (concat p)) None"
  by (induction p arbitrary: i) (simp_all add: add.assoc)

lemma scan_words_next:
  assumes "list_all (\<lambda>c. \<not> is_alphanumeric u c) p" and "list_all (is_alphanumeric u) w" and "w \<noteq> []"
    and "rest = [] \<or> \<not> is_alphanumeric u (hd rest)"
  shows "scan_words u (p @ w @ rest) i None =
    (to_lowercase u (concat w), i + length (concat (p @ w))) # scan_words u rest (i + length (concat (p @ w))) None"
proof -
  obtain c w' where w: "w = c # w'" using assms(3) by (cases w) auto
  have end_word: "scan_words u rest j (Some v) = (to_lowercase u v, j) # scan_words u rest j None" for j v
    using assms(4) by (cases rest) auto
  show ?thesis
    using assms(2) w
    by (simp add: scan_words_skip [OF assms(1)] scan_words_begun end_word add.assoc)
qed

text \<open>The first word of a list of scalar values, with what is before and after it.\<close>

lemma word_cases:
  obtains (none) "list_all (\<lambda>c. \<not> is_alphanumeric u c) cs"
  | (word) p w rest where "cs = p @ w @ rest" "list_all (\<lambda>c. \<not> is_alphanumeric u c) p"
      "list_all (is_alphanumeric u) w" "w \<noteq> []" "rest = [] \<or> \<not> is_alphanumeric u (hd rest)"
proof (cases "list_all (\<lambda>c. \<not> is_alphanumeric u c) cs")
  case True
  then show ?thesis by (rule none)
next
  case False
  let ?n = "\<lambda>c. \<not> is_alphanumeric u c"
  let ?d = "dropWhile ?n cs"
  have "?d \<noteq> []" using False by (auto simp: dropWhile_eq_Nil_conv list_all_iff)
  then have "is_alphanumeric u (hd ?d)" using hd_dropWhile [of ?n cs] by simp
  with \<open>?d \<noteq> []\<close> have "takeWhile (is_alphanumeric u) ?d \<noteq> []" by (cases ?d) auto
  moreover have "list_all ?n (takeWhile ?n cs)" "list_all (is_alphanumeric u) (takeWhile (is_alphanumeric u) ?d)"
    by (auto simp: list_all_iff dest: set_takeWhileD)
  moreover have "dropWhile (is_alphanumeric u) ?d = [] \<or> \<not> is_alphanumeric u (hd (dropWhile (is_alphanumeric u) ?d))"
    using hd_dropWhile by blast
  ultimately show ?thesis
    using word [of "takeWhile ?n cs" "takeWhile (is_alphanumeric u) ?d" "dropWhile (is_alphanumeric u) ?d"] by simp
qed

lemma scan_words_none:
  "list_all (\<lambda>c. \<not> is_alphanumeric u c) cs \<Longrightarrow> scan_words u cs i None = []"
  using scan_words_skip [of u cs "[]" i] by simp

lemma chars_suffix: "chars s = xs @ ys \<Longrightarrow> chars (concat ys) = ys"
proof (induction s arbitrary: xs rule: chars.induct)
  case (2 c cs)
  show ?case
  proof (cases xs)
    case Nil
    with "2.prems" show ?thesis by (metis append_Nil concat_chars)
  next
    case (Cons x xs')
    with 2 show ?thesis by simp
  qed
qed simp

lemma chars_drop:
  assumes "chars s = xs @ ys"
  shows "chars (drop (length (concat xs)) s) = ys"
proof -
  have "s = concat xs @ concat ys" using assms by (metis concat_append concat_chars)
  then show ?thesis using chars_suffix [OF assms] by simp
qed

text \<open>
  The reference: a text leads with a wake phrase when its first two words, whatever stands
  before and between them, are one of the three prefixes and the name; \<open>rest\<close> follows.
\<close>

definition leads_with_wake :: "unicode \<Rightarrow> string \<Rightarrow> string list \<Rightarrow> bool" where
  "leads_with_wake u text rest \<longleftrightarrow>
     (\<exists>p w1 gap w2. chars text = p @ w1 @ gap @ w2 @ rest \<and> w1 \<noteq> [] \<and> gap \<noteq> [] \<and> w2 \<noteq> [] \<and>
        list_all (\<lambda>c. \<not> is_alphanumeric u c) (p @ gap) \<and> list_all (is_alphanumeric u) (w1 @ w2) \<and>
        (rest = [] \<or> \<not> is_alphanumeric u (hd rest)) \<and>
        to_lowercase u (concat w1) \<in> {''oye'', ''ey'', ''ve''} \<and> to_lowercase u (concat w2) = ''nala'')"

lemma leads_with_wake_words:
  assumes "leads_with_wake u text rest"
  shows "\<exists>w1 i xs w2 j ws. words_with_end_offsets u text = (w1, i) # (w2, j) # ws \<and> w1 \<in> {''oye'', ''ey'', ''ve''} \<and>
    w2 = ''nala'' \<and> chars text = xs @ rest \<and> j = length (concat xs)"
proof -
  obtain p w1 gap w2 where d: "chars text = p @ w1 @ gap @ w2 @ rest" "w1 \<noteq> []" "gap \<noteq> []" "w2 \<noteq> []"
      "list_all (\<lambda>c. \<not> is_alphanumeric u c) (p @ gap)" "list_all (is_alphanumeric u) (w1 @ w2)"
      "rest = [] \<or> \<not> is_alphanumeric u (hd rest)"
      "to_lowercase u (concat w1) \<in> {''oye'', ''ey'', ''ve''}" "to_lowercase u (concat w2) = ''nala''"
    using assms by (auto simp: leads_with_wake_def)
  have "\<not> is_alphanumeric u (hd (gap @ w2 @ rest))" using d(3,5) by (cases gap) auto
  then have "words_with_end_offsets u text =
      (to_lowercase u (concat w1), length (concat (p @ w1))) #
      (to_lowercase u (concat w2), length (concat (p @ w1)) + length (concat (gap @ w2))) #
      scan_words u rest (length (concat (p @ w1)) + length (concat (gap @ w2))) None"
    using d by (simp add: words_with_end_offsets_def scan_words_next)
  then show ?thesis using d by (intro exI conjI) (auto intro: exI [of _ "p @ w1 @ gap @ w2"])
qed

lemma words_leads_with_wake:
  assumes "words_with_end_offsets u text = (v1, i) # (v2, j) # ws"
    and "v1 \<in> {''oye'', ''ey'', ''ve''}" and "v2 = ''nala''"
  shows "\<exists>rest. leads_with_wake u text rest"
proof (cases rule: word_cases [of u "chars text"])
  case none
  with assms(1) show ?thesis by (simp add: words_with_end_offsets_def scan_words_none)
next
  case (word p w rest)
  then have first: "words_with_end_offsets u text =
      (to_lowercase u (concat w), length (concat (p @ w))) # scan_words u rest (length (concat (p @ w))) None"
    by (simp add: words_with_end_offsets_def scan_words_next)
  show ?thesis
  proof (cases rule: word_cases [of u rest])
    case none
    with assms(1) first show ?thesis by (simp add: scan_words_none)
  next
    case w2: (word gap w' rest')
    then have "gap \<noteq> []" using word(5) by (cases w') auto
    moreover have "to_lowercase u (concat w) = v1" "to_lowercase u (concat w') = v2"
      using assms(1) first w2 by (auto simp: scan_words_next)
    moreover have "chars text = p @ w @ gap @ w' @ rest'" using word(1) w2(1) by simp
    moreover have "list_all (\<lambda>c. \<not> is_alphanumeric u c) (p @ gap)" "list_all (is_alphanumeric u) (w @ w')"
      using word(2,3) w2(2,3) by simp_all
    ultimately have "leads_with_wake u text rest'"
      unfolding leads_with_wake_def using word(4) w2(4,5) assms(2,3) by blast
    then show ?thesis ..
  qed
qed

text \<open>
  C31. A transcript wakes the assistant exactly when its first two words, whatever punctuation
  and letter case the transcriber chose, are one of the three wake phrases: the name alone,
  or a phrase further into the text, does not. What is handed on is the trimmed text after
  the phrase and the punctuation behind it, and the trimmed transcript when there is none.
\<close>

theorem wake_phrase_spec:
  "(is_wake_phrase u tr \<longleftrightarrow> (\<exists>rest. leads_with_wake u tr rest)) \<and>
   (\<forall>rest. leads_with_wake u tr rest \<longrightarrow>
      strip_wake_prefix u tr = trim (concat (dropWhile (\<lambda>c. \<not> is_alphanumeric u c) rest))) \<and>
   (\<not> is_wake_phrase u tr \<longrightarrow> strip_wake_prefix u tr = trim tr)"
proof -
  have strip: "is_wake_phrase u tr \<and>
      strip_wake_prefix u tr = trim (concat (dropWhile (\<lambda>c. \<not> is_alphanumeric u c) rest))"
    if "leads_with_wake u tr rest" for rest
  proof -
    from leads_with_wake_words [OF that] obtain w1 i xs w2 j ws where
      w: "words_with_end_offsets u tr = (w1, i) # (w2, j) # ws" "w1 \<in> {''oye'', ''ey'', ''ve''}"
        "w2 = ''nala''" "chars tr = xs @ rest" "j = length (concat xs)" by blast
    then have "matching_wake_phrase_len (words_with_end_offsets u tr) = Some 2"
      by (simp add: matching_wake_phrase_len_eq)
    with w chars_drop [OF w(4)] show ?thesis
      by (simp add: is_wake_phrase_def strip_wake_prefix_def Let_def)
  qed
  moreover have "\<exists>rest. leads_with_wake u tr rest" if "is_wake_phrase u tr"
    using that words_leads_with_wake
    by (auto simp: is_wake_phrase_def matching_wake_phrase_len_eq split: list.splits if_splits)
  moreover have "strip_wake_prefix u tr = trim tr" if "\<not> is_wake_phrase u tr"
    using that by (simp add: is_wake_phrase_def strip_wake_prefix_def Let_def)
  ultimately show ?thesis by blast
qed

definition ascii :: unicode where
  "ascii =
     \<lparr>is_alphanumeric = (\<lambda>c. case c of [b] \<Rightarrow> byte_of b \<in> {48..57} \<union> {65..90} \<union> {97..122} | _ \<Rightarrow> False),
      to_lowercase = map (\<lambda>b. if byte_of b \<in> {65..90} then char_of (byte_of b + 32) else b)\<rparr>"

theorem wake_phrase_spec_witness:
  "(\<exists>rest. leads_with_wake ascii ''Oye, Nala. Hola'' rest) \<and>
   strip_wake_prefix ascii ''Oye, Nala. Hola'' = ''Hola'' \<and>
   \<not> (\<exists>rest. leads_with_wake ascii ''Nala, hola'' rest)"
proof -
  have "is_wake_phrase ascii ''Oye, Nala. Hola''" "\<not> is_wake_phrase ascii ''Nala, hola''"
    "strip_wake_prefix ascii ''Oye, Nala. Hola'' = ''Hola''"
    by code_simp+
  then show ?thesis
    using wake_phrase_spec [where u = ascii and tr = "''Oye, Nala. Hola''"]
      wake_phrase_spec [where u = ascii and tr = "''Nala, hola''"] by blast
qed

end
