(* ===== verification/Session.thy ===== *)
theory Session
  imports Prelude
begin

text \<open>
  The listening state machine and the voice-activity smoother of
  \<open>crates/stt/src/session.rs\<close>. Both see booleans and probabilities only. The \<open>u32\<close> counters are
  natural numbers; \<open>session_counters_bounded\<close> shows that none of them passes the configured
  chunk counts, which are \<open>u32\<close> values, so no increment can wrap. A probability is a value of
  any type with a comparison: nothing is assumed of \<open><\<close>, so a NaN is covered as well.
\<close>

section \<open>Configuration, modes, actions and states\<close>

definition CHUNK_SAMPLES :: nat where
  "CHUNK_SAMPLES = 512"

definition CHUNK_MS :: nat where
  "CHUNK_MS = 32"

definition chunks_for_ms :: "nat \<Rightarrow> nat" where
  "chunks_for_ms ms = ms div CHUNK_MS"

record session_config =
  hangover :: nat
  follow_up_window :: nat
  max_utterance :: nat
  min_utterance :: nat
  settle :: nat
  cold_start :: nat

definition session_config_default :: session_config where
  "session_config_default =
     \<lparr>hangover = chunks_for_ms 800, follow_up_window = chunks_for_ms 15000,
      max_utterance = chunks_for_ms 15000, min_utterance = chunks_for_ms 400,
      settle = chunks_for_ms 400, cold_start = chunks_for_ms 320\<rparr>"

datatype listen_mode = WakeWord | FollowUp

datatype action =
  Idle | StartCapture | Capture | RestartCapture | Complete | CompleteMaxDuration | Discard | Expired

datatype session_state = ColdStart | Settling | IdleState | ListeningState | CapturingState

record session =
  ses_config :: session_config
  ses_mode :: listen_mode
  ses_state :: session_state
  elapsed :: nat
  silence :: nat
  speech_chunks :: nat
  captured :: nat

section \<open>Transitions\<close>

definition session_new :: "session_config \<Rightarrow> listen_mode \<Rightarrow> session" where
  "session_new cfg m =
     \<lparr>ses_config = cfg, ses_mode = m, ses_state = ColdStart,
      elapsed = 0, silence = 0, speech_chunks = 0, captured = 0\<rparr>"

definition session_resume :: "session_config \<Rightarrow> listen_mode \<Rightarrow> session" where
  "session_resume cfg m = (session_new cfg m)\<lparr>ses_state := Settling\<rparr>"

definition enter_state :: "session_state \<Rightarrow> session \<Rightarrow> session" where
  "enter_state st s = s\<lparr>ses_state := st, elapsed := 0, silence := 0\<rparr>"

definition start_capture :: "session \<Rightarrow> action \<times> session" where
  "start_capture s =
     (StartCapture, (enter_state CapturingState s)\<lparr>captured := 1, speech_chunks := 0, silence := 0\<rparr>)"

definition tick_discard :: "nat \<Rightarrow> session \<Rightarrow> action \<times> session" where
  "tick_discard window s =
     (let s = s\<lparr>elapsed := elapsed s + 1\<rparr>
      in (Idle, if window \<le> elapsed s then enter_state IdleState s else s))"

definition observe_idle :: "bool \<Rightarrow> bool \<Rightarrow> session \<Rightarrow> action \<times> session" where
  "observe_idle speech wake s =
     (if ses_mode s = FollowUp
      then if speech then start_capture s
           else let s = s\<lparr>elapsed := elapsed s + 1\<rparr>
                in if follow_up_window (ses_config s) \<le> elapsed s then (Expired, s) else (Idle, s)
      else if wake then start_capture s
      else (Idle, if speech then enter_state ListeningState s else s))"

definition observe_listening :: "bool \<Rightarrow> bool \<Rightarrow> session \<Rightarrow> action \<times> session" where
  "observe_listening speech wake s =
     (if wake then start_capture s
      else if speech then (Idle, s\<lparr>silence := 0\<rparr>)
      else let s = s\<lparr>silence := silence s + 1\<rparr>
           in (Idle, if hangover (ses_config s) \<le> silence s then enter_state IdleState s else s))"

definition observe_capturing :: "bool \<Rightarrow> bool \<Rightarrow> session \<Rightarrow> action \<times> session" where
  "observe_capturing speech wake s =
     (if wake then (RestartCapture, s\<lparr>captured := 1, speech_chunks := of_bool speech, silence := 0\<rparr>)
      else
        let s = s\<lparr>captured := captured s + 1\<rparr>;
            s = (if speech then s\<lparr>speech_chunks := speech_chunks s + 1, silence := 0\<rparr>
                 else s\<lparr>silence := silence s + 1\<rparr>)
        in if max_utterance (ses_config s) \<le> captured s
           then (CompleteMaxDuration, enter_state IdleState s)
           else if hangover (ses_config s) \<le> silence s
           then (if min_utterance (ses_config s) \<le> speech_chunks s then Complete else Discard,
                 enter_state IdleState s)
           else (Capture, s))"

definition observe :: "bool \<Rightarrow> bool \<Rightarrow> session \<Rightarrow> action \<times> session" where
  "observe speech wake s =
     (case ses_state s of
        ColdStart \<Rightarrow> tick_discard (cold_start (ses_config s)) s
      | Settling \<Rightarrow> tick_discard (settle (ses_config s)) s
      | IdleState \<Rightarrow> observe_idle speech wake s
      | ListeningState \<Rightarrow> observe_listening speech wake s
      | CapturingState \<Rightarrow> observe_capturing speech wake s)"

text \<open>A whole run: one log entry per chunk, the observation with the action it got.\<close>

type_synonym log_entry = "(bool \<times> bool) \<times> action"

fun session_run :: "session \<Rightarrow> (bool \<times> bool) list \<Rightarrow> log_entry list \<times> session" where
  "session_run s [] = ([], s)"
| "session_run s (ob # obs) =
     (let step = observe (fst ob) (snd ob) s; rest = session_run (snd step) obs
      in ((ob, fst step) # fst rest, snd rest))"

lemma session_run_append:
  "session_run s (xs @ ys) =
     (fst (session_run s xs) @ fst (session_run (snd (session_run s xs)) ys),
      snd (session_run (snd (session_run s xs)) ys))"
  by (induction xs arbitrary: s) (simp_all add: Let_def)

lemma length_session_run [simp]: "length (fst (session_run s obs)) = length obs"
  by (induction obs arbitrary: s) (simp_all add: Let_def)

text \<open>Every split of a log is a run up to there and the step taken in the state it reached.\<close>

lemma session_run_split:
  "fst (session_run s obs) = before @ (ob, a) # after \<Longrightarrow>
    \<exists>obs1. fst (session_run s obs1) = before \<and> a = fst (observe (fst ob) (snd ob) (snd (session_run s obs1)))"
proof (induction before arbitrary: s obs)
  case Nil
  then obtain obs' where "obs = ob # obs'" by (cases obs) (auto simp: Let_def)
  with Nil show ?case by (intro exI [of _ "[]"]) (simp add: Let_def)
next
  case (Cons e before)
  then obtain o1 obs' where obs: "obs = o1 # obs'" by (cases obs) auto
  let ?st = "observe (fst o1) (snd o1) s"
  have e: "e = (o1, fst ?st)" and rest: "fst (session_run (snd ?st) obs') = before @ (ob, a) # after"
    using Cons.prems obs by (auto simp: Let_def)
  from Cons.IH [OF rest] obtain obs1 where "fst (session_run (snd ?st) obs1) = before"
    "a = fst (observe (fst ob) (snd ob) (snd (session_run (snd ?st) obs1)))" by blast
  then show ?case using e by (intro exI [of _ "o1 # obs1"]) (simp add: Let_def)
qed

lemmas session_ops =
  tick_discard_def observe_idle_def observe_listening_def observe_capturing_def start_capture_def
  enter_state_def Let_def

lemma observe_keeps [simp]:
  "ses_config (snd (observe sp wk s)) = ses_config s" "ses_mode (snd (observe sp wk s)) = ses_mode s"
  by (auto simp: observe_def session_ops split: session_state.splits)

lemma session_run_keeps [simp]:
  "ses_config (snd (session_run s obs)) = ses_config s" "ses_mode (snd (session_run s obs)) = ses_mode s"
  by (induction obs arbitrary: s) (simp_all add: Let_def)

section \<open>What the log says of the state\<close>

text \<open>
  An entry that opens an utterance: a wake phrase, or in a follow-up the onset of speech.
  The chunks of speech counted since, and the run of silence at the end.
\<close>

fun opens :: "listen_mode \<Rightarrow> log_entry \<Rightarrow> bool" where
  "opens m ((speech, wake), a) \<longleftrightarrow>
     a = RestartCapture \<and> wake \<or> a = StartCapture \<and> (if m = WakeWord then wake else speech)"

fun opening_speech :: "log_entry \<Rightarrow> nat" where
  "opening_speech ((speech, wake), a) = of_bool (a = RestartCapture \<and> speech)"

definition speech_in :: "(bool \<times> bool) list \<Rightarrow> nat" where
  "speech_in obs = length (filter fst obs)"

definition quiet_end :: "(bool \<times> bool) list \<Rightarrow> nat" where
  "quiet_end obs = length (takeWhile (\<lambda>ob. \<not> fst ob) (rev obs))"

lemma speech_in_simps [simp]:
  "speech_in [] = 0" "speech_in (obs @ [ob]) = speech_in obs + of_bool (fst ob)"
  "quiet_end [] = 0" "quiet_end (obs @ [ob]) = (if fst ob then 0 else Suc (quiet_end obs))"
  by (simp_all add: speech_in_def quiet_end_def)

definition captured_since :: "listen_mode \<Rightarrow> session \<Rightarrow> log_entry list \<Rightarrow> log_entry \<Rightarrow> (bool \<times> bool) list \<Rightarrow> bool" where
  "captured_since m s log st mid \<longleftrightarrow>
     (\<exists>pre. log = pre @ st # map (\<lambda>ob. (ob, Capture)) mid) \<and> opens m st \<and>
     captured s = Suc (length mid) \<and> speech_chunks s = opening_speech st + speech_in mid \<and>
     silence s = quiet_end mid \<and> (mid \<noteq> [] \<longrightarrow> captured s < max_utterance (ses_config s))"

definition log_inv :: "session \<Rightarrow> log_entry list \<Rightarrow> bool" where
  "log_inv s log \<longleftrightarrow>
     (ses_state s = CapturingState \<longrightarrow> (\<exists>st mid. captured_since (ses_mode s) s log st mid)) \<and>
     (ses_state s = ListeningState \<longrightarrow> ses_mode s = WakeWord)"

lemma log_invD:
  "log_inv s log \<Longrightarrow> ses_state s = CapturingState \<Longrightarrow> \<exists>st mid. captured_since (ses_mode s) s log st mid"
  by (simp add: log_inv_def)

lemma listen_mode_not [simp]: "m \<noteq> FollowUp \<longleftrightarrow> m = WakeWord" "m \<noteq> WakeWord \<longleftrightarrow> m = FollowUp"
  by (cases m; simp)+

lemma observe_opens:
  "observe sp wk s = (a, s') \<Longrightarrow> a = StartCapture \<or> a = RestartCapture \<Longrightarrow> log_inv s log \<Longrightarrow>
    opens (ses_mode s) ((sp, wk), a)"
  by (auto simp: observe_def session_ops log_inv_def split: session_state.splits if_splits)

lemma captured_since_start:
  "observe sp wk s = (a, s') \<Longrightarrow> a = StartCapture \<or> a = RestartCapture \<Longrightarrow> log_inv s log \<Longrightarrow>
    captured_since (ses_mode s) s' (log @ [((sp, wk), a)]) ((sp, wk), a) []"
  using observe_opens [of sp wk s a s' log]
  by (auto simp: observe_def session_ops captured_since_def split: session_state.splits if_splits)

lemma captured_since_capture:
  assumes "captured_since m s log st mid" and "ses_state s = CapturingState"
    and "observe sp wk s = (a, s')" and "ses_state s' = CapturingState" and "a \<noteq> RestartCapture"
  shows "captured_since m s' (log @ [((sp, wk), a)]) st (mid @ [(sp, wk)])"
proof -
  obtain pre where "log = pre @ st # map (\<lambda>ob. (ob, Capture)) mid"
    using assms(1) by (auto simp: captured_since_def)
  with assms show ?thesis
    by (auto simp: captured_since_def observe_def session_ops split: if_splits)
qed

lemma log_inv_step:
  assumes "log_inv s log"
  shows "log_inv (snd (observe sp wk s)) (log @ [((sp, wk), fst (observe sp wk s))])"
proof -
  obtain a s' where st: "observe sp wk s = (a, s')" by fastforce
  then have m: "ses_mode s' = ses_mode s" using observe_keeps [of sp wk s] by simp
  have "\<exists>e mid. captured_since (ses_mode s) s' (log @ [((sp, wk), a)]) e mid" if "ses_state s' = CapturingState"
  proof (cases "a = StartCapture \<or> a = RestartCapture")
    case True
    from captured_since_start [OF st True assms] show ?thesis by blast
  next
    case False
    then have "ses_state s = CapturingState"
      using st that by (auto simp: observe_def session_ops split: session_state.splits if_splits)
    with assms False st that show ?thesis
      using log_invD captured_since_capture by blast
  qed
  moreover have "ses_mode s' = WakeWord" if "ses_state s' = ListeningState"
    using st that assms m
    by (auto simp: observe_def session_ops log_inv_def split: session_state.splits if_splits)
  ultimately show ?thesis unfolding st log_inv_def fst_conv snd_conv m by blast
qed

lemma log_inv_run:
  "log_inv s log \<Longrightarrow> log_inv (snd (session_run s obs)) (log @ fst (session_run s obs))"
proof (induction obs arbitrary: s log)
  case (Cons ob obs)
  show ?case
    using Cons.IH [OF log_inv_step [OF Cons.prems, of "fst ob" "snd ob"]] by (simp add: Let_def)
qed simp

lemma log_inv_initial [simp]: "log_inv (session_new cfg m) []" "log_inv (session_resume cfg m) []"
  by (simp_all add: log_inv_def session_new_def session_resume_def)

section \<open>Utterances\<close>

text \<open>How an utterance of chunks \<open>st # mid\<close> ends at one more observation.\<close>

definition utterance_end :: "session_config \<Rightarrow> log_entry \<Rightarrow> (bool \<times> bool) list \<Rightarrow> action \<Rightarrow> bool" where
  "utterance_end cfg st obs a \<longleftrightarrow>
     (let len = Suc (length obs); talk = opening_speech st + speech_in obs; quiet = quiet_end obs
      in if max_utterance cfg \<le> len then a = CompleteMaxDuration
         else hangover cfg \<le> quiet \<and> a = (if min_utterance cfg \<le> talk then Complete else Discard))"

lemma observe_ends_utterance:
  assumes "log_inv s log" and "observe sp wk s = (a, s')" and "a \<in> {Complete, CompleteMaxDuration, Discard}"
  shows "\<exists>st mid. captured_since (ses_mode s) s log st mid \<and> \<not> wk \<and>
    utterance_end (ses_config s) st (mid @ [(sp, wk)]) a"
proof -
  have cap: "ses_state s = CapturingState"
    using assms(2,3) by (auto simp: observe_def session_ops split: session_state.splits if_splits)
  then obtain st mid where c: "captured_since (ses_mode s) s log st mid"
    using log_invD [OF assms(1)] by blast
  moreover have "\<not> wk \<and> utterance_end (ses_config s) st (mid @ [(sp, wk)]) a"
    using c cap assms(2,3)
    by (auto simp: captured_since_def utterance_end_def observe_def session_ops split: if_splits)
  ultimately show ?thesis by blast
qed

lemma run_log_inv:
  "s0 = session_new cfg m \<or> s0 = session_resume cfg m \<Longrightarrow>
    log_inv (snd (session_run s0 obs)) (fst (session_run s0 obs)) \<and>
    ses_config (snd (session_run s0 obs)) = cfg \<and> ses_mode (snd (session_run s0 obs)) = m"
  using log_inv_run [of s0 "[]" obs] by (auto simp: session_new_def session_resume_def log_inv_def)

text \<open>
  C29. Every utterance that ends was opened, by the wake phrase, or in a follow-up by speech,
  and captured without interruption since: it is cut off exactly when it reaches the longest
  length, and otherwise ends after the configured silence, to be transcribed exactly when it
  held the configured amount of speech. No utterance is longer than the limit.
\<close>

theorem utterance_boundaries:
  assumes "s0 = session_new cfg m \<or> s0 = session_resume cfg m"
    and "fst (session_run s0 obs) = before @ (ob, a) # after"
    and "a \<in> {Complete, CompleteMaxDuration, Discard}"
  shows "\<exists>pre st mid. before = pre @ st # map (\<lambda>ob. (ob, Capture)) mid \<and> opens m st \<and>
    Suc (length mid) < max 2 (max_utterance cfg) \<and> utterance_end cfg st (mid @ [ob]) a"
proof -
  from session_run_split [OF assms(2)] obtain obs1 where run: "fst (session_run s0 obs1) = before"
    and a: "a = fst (observe (fst ob) (snd ob) (snd (session_run s0 obs1)))" by blast
  let ?s = "snd (session_run s0 obs1)"
  obtain s' where st: "observe (fst ob) (snd ob) ?s = (a, s')" using a by (metis prod.collapse)
  note inv = run_log_inv [OF assms(1), of obs1, unfolded run]
  from observe_ends_utterance [OF conjunct1 [OF inv] st assms(3)] obtain e mid where
    c: "captured_since m ?s before e mid" "utterance_end cfg e (mid @ [ob]) a"
    using inv by auto
  from c(1) obtain pre where pre: "before = pre @ e # map (\<lambda>ob. (ob, Capture)) mid" "opens m e"
    and len: "Suc (length mid) < max 2 (max_utterance cfg)"
    using inv by (cases "mid = []") (auto simp: captured_since_def)
  show ?thesis by (rule exI, rule exI, rule exI, intro conjI, rule pre(1), rule pre(2), rule len, rule c(2))
qed

theorem utterance_boundaries_witness:
  "\<exists>cfg obs before after. fst (session_run (session_resume cfg WakeWord) obs) =
      before @ ((False, False), Complete) # after \<and>
    (\<exists>pre st mid. before = pre @ st # map (\<lambda>ob. (ob, Capture)) mid \<and> opens WakeWord st \<and>
      Suc (length mid) < max 2 (max_utterance cfg) \<and>
      utterance_end cfg st (mid @ [(False, False)]) Complete)"
proof -
  define cfg where "cfg = \<lparr>hangover = 2, follow_up_window = 3, max_utterance = 9, min_utterance = 1,
    settle = 1, cold_start = 1\<rparr>"
  let ?obs = "[(False, False), (True, True), (True, False), (False, False), (False, False)]"
  let ?before = "[((False, False), Idle), ((True, True), StartCapture), ((True, False), Capture),
    ((False, False), Capture)]"
  have run: "fst (session_run (session_resume cfg WakeWord) ?obs) = ?before @ ((False, False), Complete) # []"
    by (simp add: cfg_def session_resume_def session_new_def observe_def session_ops)
  show ?thesis
    using run utterance_boundaries [OF disjI2 [OF refl] run] by blast
qed

section \<open>Warm-up, causes and expiry\<close>

definition warm_up :: "session \<Rightarrow> nat" where
  "warm_up s0 = max 1 (if ses_state s0 = ColdStart then cold_start (ses_config s0) else settle (ses_config s0))"

text \<open>Warming up: the state stays the initial one until enough chunks passed.\<close>

lemma warm_up_run:
  assumes "s0 = session_new cfg m \<or> s0 = session_resume cfg m" and "length obs < warm_up s0"
  shows "snd (session_run s0 obs) = s0\<lparr>elapsed := length obs\<rparr> \<and> map snd (fst (session_run s0 obs)) = replicate (length obs) Idle"
  using assms(2)
proof (induction obs rule: rev_induct)
  case Nil
  then show ?case using assms(1) by (auto simp: session_new_def session_resume_def)
next
  case (snoc ob obs)
  then show ?case
    using assms(1)
    by (auto simp: session_run_append Let_def observe_def session_ops warm_up_def session_new_def session_resume_def
        replicate_append_same)
qed

lemma warm_up_end:
  assumes "s0 = session_new cfg m \<or> s0 = session_resume cfg m" and "length obs = warm_up s0"
  shows "snd (session_run s0 obs) = s0\<lparr>ses_state := IdleState\<rparr> \<and> map snd (fst (session_run s0 obs)) = replicate (length obs) Idle"
proof -
  from assms(2) obtain ob obs' where obs: "obs = obs' @ [ob]"
    by (metis append_butlast_last_id length_0_conv max.strict_coboundedI1 not_less0 warm_up_def zero_less_one)
  then have "length obs' < warm_up s0" using assms(2) by simp
  with warm_up_run [OF assms(1) this] show ?thesis
    using assms obs
    by (auto simp: session_run_append Let_def observe_def session_ops warm_up_def session_new_def session_resume_def
        replicate_append_same simp flip: replicate_Suc)
qed

definition quiet_tail :: "session \<Rightarrow> log_entry list \<Rightarrow> bool" where
  "quiet_tail s log \<longleftrightarrow>
     (ses_mode s = FollowUp \<and> ses_state s = IdleState \<longrightarrow>
       (\<exists>pre mid. log = pre @ mid \<and> length mid = elapsed s \<and>
          (\<forall>e \<in> set mid. \<not> fst (fst e) \<and> snd e \<in> {Idle, Expired})))"

lemma quiet_tail_step:
  assumes "quiet_tail s log" and "log_inv s log"
  shows "quiet_tail (snd (observe sp wk s)) (log @ [((sp, wk), fst (observe sp wk s))])"
proof (cases "ses_mode s = FollowUp \<and> ses_state s = IdleState \<and> \<not> sp")
  case True
  with assms obtain pre mid where "log = pre @ mid" "length mid = elapsed s"
    "\<forall>e \<in> set mid. \<not> fst (fst e) \<and> snd e \<in> {Idle, Expired}" by (auto simp: quiet_tail_def)
  with True show ?thesis
    unfolding quiet_tail_def
    by (intro impI exI [of _ pre] exI [of _ "mid @ [((sp, wk), fst (observe sp wk s))]"])
      (auto simp: observe_def session_ops)
next
  case False
  have "elapsed (snd (observe sp wk s)) = 0"
    if "ses_mode s = FollowUp" "ses_state (snd (observe sp wk s)) = IdleState"
    using that False
    by (auto simp: observe_def session_ops split: session_state.splits if_splits)
  then show ?thesis
    unfolding quiet_tail_def by (intro impI exI [of _ "log @ [((sp, wk), fst (observe sp wk s))]"] exI [of _ "[]"]) auto
qed

lemma run_quiet_tail:
  assumes "s0 = session_new cfg m \<or> s0 = session_resume cfg m"
  shows "quiet_tail (snd (session_run s0 obs)) (fst (session_run s0 obs))"
proof (induction obs rule: rev_induct)
  case Nil
  then show ?case using assms by (auto simp: quiet_tail_def session_new_def session_resume_def)
next
  case (snoc ob obs)
  from quiet_tail_step [OF snoc, of "fst ob" "snd ob"] run_log_inv [OF assms, of obs] show ?case
    by (simp add: session_run_append Let_def)
qed

text \<open>
  Nothing is captured without a cause. While the device warms up or the end of the
  assistant's own speech drains away every chunk is ignored; a capture then starts on the
  wake phrase only, or in a follow-up on speech only; only the wake phrase restarts it;
  and a window expires only in a follow-up, after as many chunks as configured without a
  start since the last utterance or the warm-up.
\<close>

theorem captures_need_a_cause:
  assumes "s0 = session_new cfg m \<or> s0 = session_resume cfg m"
    and "fst (session_run s0 obs) = before @ (ob, a) # after"
  shows "(length before < warm_up s0 \<longrightarrow> a = Idle) \<and>
    (a = StartCapture \<or> a = RestartCapture \<longrightarrow> opens m (ob, a)) \<and>
    (a = Expired \<longrightarrow> m = FollowUp \<and>
      (\<exists>pre mid. before = pre @ mid \<and> follow_up_window cfg \<le> Suc (length mid) \<and>
         (\<forall>e \<in> set (mid @ [(ob, a)]). \<not> fst (fst e) \<and> snd e \<in> {Idle, Expired})))"
proof -
  from session_run_split [OF assms(2)] obtain obs1 where run: "fst (session_run s0 obs1) = before"
    and a: "a = fst (observe (fst ob) (snd ob) (snd (session_run s0 obs1)))" by blast
  let ?s = "snd (session_run s0 obs1)"
  obtain s' where st: "observe (fst ob) (snd ob) ?s = (a, s')" using a by (metis prod.collapse)
  note inv = run_log_inv [OF assms(1), of obs1, unfolded run]
  have len: "length obs1 = length before" using run length_session_run by metis
  have "a = Idle" if "length before < warm_up s0"
    using warm_up_run [OF assms(1), of obs1] that len assms(1) a
    by (auto simp: observe_def session_ops session_new_def session_resume_def)
  moreover have "opens m (ob, a)" if "a = StartCapture \<or> a = RestartCapture"
    using observe_opens [OF st that conjunct1 [OF inv]] inv by simp
  moreover have "m = FollowUp \<and> (\<exists>pre mid. before = pre @ mid \<and> follow_up_window cfg \<le> Suc (length mid) \<and>
      (\<forall>e \<in> set (mid @ [(ob, a)]). \<not> fst (fst e) \<and> snd e \<in> {Idle, Expired}))" if e: "a = Expired"
  proof -
    have s: "ses_mode ?s = FollowUp" "ses_state ?s = IdleState" "\<not> fst ob"
      "follow_up_window (ses_config ?s) \<le> Suc (elapsed ?s)"
      using st e by (auto simp: observe_def session_ops split: session_state.splits if_splits)
    then obtain pre mid where "before = pre @ mid" "length mid = elapsed ?s"
      "\<forall>e \<in> set mid. \<not> fst (fst e) \<and> snd e \<in> {Idle, Expired}"
      using run_quiet_tail [OF assms(1), of obs1] run by (auto simp: quiet_tail_def)
    with s e inv show ?thesis
      by (intro conjI exI [of _ pre] exI [of _ mid]) auto
  qed
  ultimately show ?thesis by blast
qed

theorem captures_need_a_cause_witness:
  "\<exists>cfg. fst (session_run (session_resume cfg FollowUp) [(True, True), (True, False), (False, True), (True, False)]) =
      [((True, True), Idle), ((True, False), Idle), ((False, True), Idle)] @ ((True, False), StartCapture) # [] \<and>
    opens FollowUp ((True, False), StartCapture)"
proof -
  define cfg where "cfg = session_config_default\<lparr>settle := 2, follow_up_window := 5\<rparr>"
  have run: "fst (session_run (session_resume cfg FollowUp) [(True, True), (True, False), (False, True), (True, False)]) =
      [((True, True), Idle), ((True, False), Idle), ((False, True), Idle)] @ ((True, False), StartCapture) # []"
    by (simp add: cfg_def session_resume_def session_new_def observe_def session_ops)
  then show ?thesis using captures_need_a_cause [OF disjI2 [OF refl] run] by blast
qed

text \<open>
  In a follow-up's idle state silence is counted, whatever the wake detector reports.
\<close>

lemma silent_idle_run:
  assumes "ses_mode s = FollowUp" and "ses_state s = IdleState" and "\<forall>ob \<in> set obs. \<not> fst ob"
    and "elapsed s + length obs < max 1 (follow_up_window (ses_config s))"
  shows "snd (session_run s obs) = s\<lparr>elapsed := elapsed s + length obs\<rparr> \<and>
    map snd (fst (session_run s obs)) = replicate (length obs) Idle"
  using assms(3,4)
proof (induction obs rule: rev_induct)
  case (snoc ob obs)
  then show ?case
    using assms(1,2)
    by (auto simp: session_run_append Let_def observe_def session_ops replicate_append_same)
qed simp

text \<open>
  C32. A follow-up nobody speaks in ends: after the warm-up and exactly the configured window
  of chunks without speech the session reports \<open>Expired\<close>, and not before, even when the wake
  phrase is detected in the meantime.
\<close>

theorem silent_follow_up_expires:
  assumes "s0 = session_new cfg FollowUp \<or> s0 = session_resume cfg FollowUp"
    and "length obs = warm_up s0 + max 1 (follow_up_window cfg)"
    and "\<forall>ob \<in> set (drop (warm_up s0) obs). \<not> fst ob"
  shows "map snd (fst (session_run s0 obs)) = replicate (length obs - 1) Idle @ [Expired]"
proof -
  let ?w = "warm_up s0" and ?f = "max 1 (follow_up_window cfg)"
  let ?s1 = "s0\<lparr>ses_state := IdleState\<rparr>"
  have cfg: "ses_config s0 = cfg" "ses_mode s0 = FollowUp" "elapsed s0 = 0"
    using assms(1) by (auto simp: session_new_def session_resume_def)
  have "drop ?w obs \<noteq> []" using assms(2) by simp
  then obtain mid ob where split: "drop ?w obs = mid @ [ob]" by (metis append_butlast_last_id)
  then have obs: "obs = take ?w obs @ mid @ [ob]" by (metis append_take_drop_id)
  have mid: "Suc (length mid) = ?f"
    using arg_cong [OF split, of length] assms(2) by simp
  have w: "snd (session_run s0 (take ?w obs)) = ?s1"
      "map snd (fst (session_run s0 (take ?w obs))) = replicate ?w Idle"
    using warm_up_end [OF assms(1), of "take ?w obs"] assms(2) by simp_all
  have q: "snd (session_run ?s1 mid) = ?s1\<lparr>elapsed := length mid\<rparr>"
      "map snd (fst (session_run ?s1 mid)) = replicate (length mid) Idle"
    using silent_idle_run [of ?s1 mid] cfg mid assms(3) split by auto
  have e: "fst (observe (fst ob) (snd ob) (?s1\<lparr>elapsed := length mid\<rparr>)) = Expired"
    using cfg mid assms(3) split by (simp add: observe_def observe_idle_def Let_def)
  have "map snd (fst (session_run s0 obs)) = replicate ?w Idle @ replicate (length mid) Idle @ [Expired]"
    by (subst obs) (simp add: session_run_append w q e Let_def)
  moreover have "length obs - 1 = ?w + length mid" using assms(2) mid by linarith
  ultimately show ?thesis by (simp add: replicate_add)
qed

theorem silent_follow_up_expires_witness:
  "\<exists>cfg. map snd (fst (session_run (session_resume cfg FollowUp)
      [(True, True), (True, True), (False, True), (False, False)])) = [Idle, Idle, Idle, Expired]"
proof -
  define cfg where "cfg = session_config_default\<lparr>settle := 2, follow_up_window := 2\<rparr>"
  let ?obs = "[(True, True), (True, True), (False, True), (False, False)]"
  have w: "warm_up (session_resume cfg FollowUp) = 2"
    by (simp add: cfg_def warm_up_def session_resume_def session_new_def)
  have "map snd (fst (session_run (session_resume cfg FollowUp) ?obs)) = replicate (length ?obs - 1) Idle @ [Expired]"
    by (rule silent_follow_up_expires [OF disjI2 [OF refl]]) (simp_all add: w, simp add: cfg_def)
  then show ?thesis by (intro exI [of _ cfg]) (simp add: numeral_eq_Suc)
qed

section \<open>Bounds of the counters\<close>

text \<open>As long as no window has expired every counter stays below the configured chunk counts.\<close>

definition counters_ok :: "session \<Rightarrow> bool" where
  "counters_ok s \<longleftrightarrow>
     elapsed s \<le> Max {cold_start (ses_config s), settle (ses_config s), follow_up_window (ses_config s)} \<and>
     silence s \<le> hangover (ses_config s) \<and>
     captured s \<le> max 2 (max_utterance (ses_config s)) \<and> speech_chunks s \<le> captured s \<and>
     (ses_state s = CapturingState \<longrightarrow> captured s < max 2 (max_utterance (ses_config s)))"

lemma observe_counters_ok:
  "counters_ok s \<Longrightarrow> fst (observe sp wk s) \<noteq> Expired \<Longrightarrow> counters_ok (snd (observe sp wk s))"
  by (cases "ses_state s") (auto simp: counters_ok_def observe_def session_ops split: if_splits)

lemma session_counters_bounded:
  "s0 = session_new cfg m \<or> s0 = session_resume cfg m \<Longrightarrow>
    Expired \<notin> set (map snd (fst (session_run s0 obs))) \<Longrightarrow> counters_ok (snd (session_run s0 obs))"
proof (induction obs rule: rev_induct)
  case Nil
  then show ?case by (auto simp: counters_ok_def session_new_def session_resume_def)
next
  case (snoc ob obs)
  then show ?case using observe_counters_ok by (auto simp: session_run_append Let_def)
qed

section \<open>The speech gate\<close>

record 'p speech_gate =
  enter_threshold :: 'p
  exit_threshold :: 'p
  enter_chunks :: nat
  consecutive :: nat
  active :: bool

definition gate_new :: "'p \<Rightarrow> 'p \<Rightarrow> nat \<Rightarrow> 'p speech_gate" where
  "gate_new enter exit n =
     \<lparr>enter_threshold = enter, exit_threshold = exit, enter_chunks = n, consecutive = 0, active = False\<rparr>"

definition gate_update :: "'p::ord \<Rightarrow> 'p speech_gate \<Rightarrow> bool \<times> 'p speech_gate" where
  "gate_update p g =
     (if active g
      then let g = (if p < exit_threshold g then g\<lparr>active := False, consecutive := 0\<rparr> else g) in (active g, g)
      else
        let g = (if enter_threshold g < p
                 then let g = g\<lparr>consecutive := consecutive g + 1\<rparr>
                      in if enter_chunks g \<le> consecutive g then g\<lparr>active := True\<rparr> else g
                 else if p < exit_threshold g then g\<lparr>consecutive := 0\<rparr> else g)
        in (active g, g))"

definition gate_run :: "'p::ord list \<Rightarrow> 'p speech_gate \<Rightarrow> 'p speech_gate" where
  "gate_run ps g = fold (\<lambda>p g. snd (gate_update p g)) ps g"

text \<open>
  The probabilities since the last one below the lower threshold, and how many of them were
  above the upper one.
\<close>

definition since_exit :: "'p::ord \<Rightarrow> 'p list \<Rightarrow> 'p list" where
  "since_exit exit ps = rev (takeWhile (\<lambda>p. \<not> p < exit) (rev ps))"

definition confident :: "'p::ord \<Rightarrow> 'p list \<Rightarrow> nat" where
  "confident enter ps = length (filter (\<lambda>p. enter < p) ps)"

lemma since_exit_snoc [simp]:
  "since_exit x [] = []" "since_exit x (ps @ [p]) = (if p < x then [] else since_exit x ps @ [p])"
  by (simp_all add: since_exit_def)

lemma confident_snoc [simp]:
  "confident x [] = 0" "confident x (ps @ [p]) = confident x ps + of_bool (x < p)"
  by (simp_all add: confident_def)

text \<open>
  The gate reports speech exactly when enough chunks were above the upper threshold since
  the last chunk below the lower one, so a chunk between the thresholds neither starts,
  continues nor interrupts anything, and a gate that asks for no chunks still asks for one.
  The hypothesis, which holds whenever the lower threshold is not above the upper one, says
  that no chunk is on both sides at once.
\<close>

theorem gate_is_active_iff:
  assumes "\<forall>p \<in> set ps. \<not> (enter < p \<and> p < exit)"
  shows "active (gate_run ps (gate_new enter exit n)) \<longleftrightarrow> max 1 n \<le> confident enter (since_exit exit ps)"
proof -
  let ?g = "\<lambda>ps. gate_run ps (gate_new enter exit n)"
  have "enter_threshold (?g ps) = enter \<and> exit_threshold (?g ps) = exit \<and> enter_chunks (?g ps) = n \<and>
    (active (?g ps) \<longleftrightarrow> max 1 n \<le> confident enter (since_exit exit ps)) \<and>
    (\<not> active (?g ps) \<longrightarrow> consecutive (?g ps) = confident enter (since_exit exit ps))"
    using assms
  proof (induction ps rule: rev_induct)
    case Nil
    then show ?case by (simp add: gate_run_def gate_new_def)
  next
    case (snoc p ps)
    then have "gate_run (ps @ [p]) (gate_new enter exit n) = snd (gate_update p (?g ps))"
      by (simp add: gate_run_def)
    with snoc show ?case by (auto simp: gate_update_def Let_def)
  qed
  then show ?thesis by blast
qed

theorem gate_is_active_iff_witness:
  "active (gate_run [60::nat, 40, 70] (gate_new 55 35 2)) \<longleftrightarrow>
     max 1 2 \<le> confident (55::nat) (since_exit 35 [60, 40, 70])"
  by (rule gate_is_active_iff) simp

end
