(* ===== verification/Ring.thy ===== *)
theory Ring
  imports Prelude
begin

text \<open>
  The overwrite-oldest buffer of \<open>crates/stt/src/ring.rs\<close> over samples of any type. The locale
  \<open>recent_buffer\<close> is the contract its users rely on: the buffer holds the last samples
  written, up to its capacity. The ring is interpreted in it, through the abstraction
  \<open>ring_contents\<close>. Capacities and lengths are sizes of slices in memory, far below
  \<open>usize::MAX\<close>, so they are natural numbers; the relaxed atomic flag is a boolean.
\<close>

section \<open>The ring\<close>

record 'a ring =
  samples :: "'a list"
  head :: nat
  filled :: nat
  overrun :: bool

text \<open>\<open>with_capacity\<close>; the assertion on the capacity is the \<open>None\<close> branch.\<close>

definition ring_with_capacity :: "'a \<Rightarrow> nat \<Rightarrow> 'a ring option" where
  "ring_with_capacity zero cap =
     (if 0 < cap then Some \<lparr>samples = replicate cap zero, head = 0, filled = 0, overrun = False\<rparr> else None)"

definition ring_capacity :: "'a ring \<Rightarrow> nat" where
  "ring_capacity r = length (samples r)"

definition ring_is_empty :: "'a ring \<Rightarrow> bool" where
  "ring_is_empty r \<longleftrightarrow> filled r = 0"

text \<open>The store of one sample at the head, and the loop over the input.\<close>

definition put_sample :: "'a \<Rightarrow> 'a ring \<Rightarrow> 'a ring" where
  "put_sample x r = r\<lparr>samples := (samples r)[head r := x], head := (head r + 1) mod ring_capacity r\<rparr>"

definition ring_write :: "'a list \<Rightarrow> 'a ring \<Rightarrow> 'a ring" where
  "ring_write input r =
     (let cap = ring_capacity r;
          r = (if cap < length input then r\<lparr>overrun := True\<rparr> else r);
          input = (if cap < length input then drop (length input - cap) input else input);
          r = (if cap < filled r + length input then r\<lparr>overrun := True\<rparr> else r);
          r = fold put_sample input r
      in r\<lparr>filled := min (filled r + length input) cap\<rparr>)"

definition ring_copy_from :: "nat \<Rightarrow> nat \<Rightarrow> 'a ring \<Rightarrow> 'a list" where
  "ring_copy_from start n r = map (\<lambda>i. samples r ! ((start + i) mod ring_capacity r)) [0..<n]"

text \<open>\<open>read\<close> and \<open>peek_last\<close> into a buffer of \<open>n\<close> samples: \<open>None\<close> is the result \<open>false\<close>.\<close>

definition ring_read :: "nat \<Rightarrow> 'a ring \<Rightarrow> 'a list option \<times> 'a ring" where
  "ring_read n r =
     (if filled r < n then (None, r)
      else (Some (ring_copy_from ((head r + ring_capacity r - filled r) mod ring_capacity r) n r),
            r\<lparr>filled := filled r - n\<rparr>))"

definition ring_peek_last :: "nat \<Rightarrow> 'a ring \<Rightarrow> 'a list option" where
  "ring_peek_last n r =
     (if filled r < n then None
      else Some (ring_copy_from ((head r + ring_capacity r - n) mod ring_capacity r) n r))"

definition ring_clear :: "'a ring \<Rightarrow> 'a ring" where
  "ring_clear r = r\<lparr>head := 0, filled := 0\<rparr>"

definition ring_take_overrun :: "'a ring \<Rightarrow> bool \<times> 'a ring" where
  "ring_take_overrun r = (overrun r, r\<lparr>overrun := False\<rparr>)"

section \<open>Abstraction\<close>

definition ring_wf :: "'a ring \<Rightarrow> bool" where
  "ring_wf r \<longleftrightarrow> 0 < ring_capacity r \<and> head r < ring_capacity r \<and> filled r \<le> ring_capacity r"

text \<open>The sample written \<open>k\<close> writes before the head, and the readable samples, oldest first.\<close>

definition nth_back :: "'a ring \<Rightarrow> nat \<Rightarrow> 'a" where
  "nth_back r k = samples r ! ((head r + ring_capacity r - k) mod ring_capacity r)"

definition ring_contents :: "'a ring \<Rightarrow> 'a list" where
  "ring_contents r = rev (map (\<lambda>k. nth_back r (k + 1)) [0..<filled r])"

lemma length_ring_contents [simp]: "length (ring_contents r) = filled r"
  by (simp add: ring_contents_def)

lemma nth_ring_contents:
  "i < filled r \<Longrightarrow> ring_contents r ! i = nth_back r (filled r - i)"
  by (simp add: ring_contents_def rev_nth Suc_diff_Suc)

lemma capacity_put [simp]: "ring_capacity (put_sample x r) = ring_capacity r"
  by (simp add: put_sample_def ring_capacity_def)

lemma filled_put [simp]: "filled (put_sample x r) = filled r" "overrun (put_sample x r) = overrun r"
  by (simp_all add: put_sample_def)

lemma fold_put_sel [simp]:
  "ring_capacity (fold put_sample xs r) = ring_capacity r" "filled (fold put_sample xs r) = filled r"
  "overrun (fold put_sample xs r) = overrun r"
  by (induction xs arbitrary: r) simp_all

lemma back_index:
  fixes h c k :: nat
  assumes "h < c" and "k \<le> c"
  shows "(h + c - k) mod c = (if k \<le> h then h - k else h + c - k)"
proof (cases "k \<le> h")
  case True
  then have e: "h + c - k = (h - k) + c" by simp
  have "(h + c - k) mod c = (h - k) mod c" unfolding e by (rule mod_add_self2)
  also have "\<dots> = h - k" using assms by (intro mod_less) simp
  finally show ?thesis using True by simp
next
  case False
  with assms show ?thesis by simp
qed

lemma succ_index:
  fixes h c :: nat
  shows "h < c \<Longrightarrow> (h + 1) mod c = (if h + 1 = c then 0 else h + 1)"
  by simp

lemma back_put:
  assumes "head r < ring_capacity r" and "1 \<le> k" and "k \<le> ring_capacity r"
  shows "nth_back (put_sample x r) k = (if k = 1 then x else nth_back r (k - 1))"
proof -
  let ?c = "ring_capacity r" and ?h = "head r"
  have h': "(?h + 1) mod ?c < ?c" using assms by simp
  have "nth_back (put_sample x r) k =
      (samples r)[?h := x] ! (if k \<le> (?h + 1) mod ?c then (?h + 1) mod ?c - k else (?h + 1) mod ?c + ?c - k)"
    using back_index [OF h' assms(3)]
    by (simp add: nth_back_def put_sample_def ring_capacity_def)
  moreover have "nth_back r (k - 1) =
      samples r ! (if k - 1 \<le> ?h then ?h - (k - 1) else ?h + ?c - (k - 1))"
    using back_index [of ?h ?c "k - 1"] assms by (simp add: nth_back_def)
  ultimately show ?thesis
    using assms succ_index [OF assms(1)]
    by (cases "?h + 1 = ?c") (auto simp: nth_list_update ring_capacity_def split: if_splits)
qed

lemma head_put: "0 < ring_capacity r \<Longrightarrow> head (put_sample x r) < ring_capacity r"
  by (simp add: put_sample_def)

lemma head_fold_put: "head r < ring_capacity r \<Longrightarrow> head (fold put_sample xs r) < ring_capacity r"
proof (induction xs arbitrary: r)
  case (Cons x xs)
  have "head (put_sample x r) < ring_capacity (put_sample x r)"
    using Cons.prems head_put [of r x] by simp
  from Cons.IH [OF this] show ?case by simp
qed simp

text \<open>After writing \<open>xs\<close>, looking back \<open>k\<close> finds \<open>xs\<close> from its end, then the old samples.\<close>

lemma back_fold_put:
  "head r < ring_capacity r \<Longrightarrow> 1 \<le> k \<Longrightarrow> k \<le> ring_capacity r \<Longrightarrow> length xs \<le> ring_capacity r \<Longrightarrow>
    nth_back (fold put_sample xs r) k =
      (if k \<le> length xs then xs ! (length xs - k) else nth_back r (k - length xs))"
proof (induction xs arbitrary: r)
  case (Cons x xs)
  then have "nth_back (fold put_sample xs (put_sample x r)) k =
      (if k \<le> length xs then xs ! (length xs - k) else nth_back (put_sample x r) (k - length xs))"
    using head_put [of r x] by simp
  also have "\<dots> = (if k \<le> length (x # xs) then (x # xs) ! (length (x # xs) - k) else nth_back r (k - length (x # xs)))"
    using Cons.prems by (auto simp: back_put nth_Cons' Suc_diff_le)
  finally show ?case by simp
qed simp

text \<open>What a write stores: the last \<open>capacity\<close> samples of its input.\<close>

lemma ring_write_alt:
  "ring_write xs r =
     (fold put_sample (take_last (ring_capacity r) xs)
       (r\<lparr>overrun := overrun r \<or> ring_capacity r < filled r + length xs\<rparr>))
     \<lparr>filled := min (filled r + length xs) (ring_capacity r)\<rparr>"
proof (cases "ring_capacity r < length xs")
  case True
  then show ?thesis
    by (simp add: ring_write_def Let_def take_last_def ring_capacity_def min_def)
next
  case False
  then show ?thesis
    by (cases "ring_capacity r < filled r + length xs")
      (simp_all add: ring_write_def Let_def take_last_def ring_capacity_def)
qed

lemma capacity_update [simp]:
  "ring_capacity (r\<lparr>filled := n\<rparr>) = ring_capacity r" "ring_capacity (r\<lparr>overrun := b\<rparr>) = ring_capacity r"
  "ring_capacity (r\<lparr>head := h\<rparr>) = ring_capacity r"
  "nth_back (r\<lparr>filled := n\<rparr>) = nth_back r" "nth_back (r\<lparr>overrun := b\<rparr>) = nth_back r"
  by (simp_all add: ring_capacity_def nth_back_def fun_eq_iff)

lemma ring_write_sel [simp]:
  "ring_capacity (ring_write xs r) = ring_capacity r"
  "filled (ring_write xs r) = min (filled r + length xs) (ring_capacity r)"
  "overrun (ring_write xs r) \<longleftrightarrow> overrun r \<or> ring_capacity r < filled r + length xs"
  by (simp_all add: ring_write_alt)

lemma ring_write_wf: "ring_wf r \<Longrightarrow> ring_wf (ring_write xs r)"
  using head_fold_put [of "r\<lparr>overrun := overrun r \<or> ring_capacity r < filled r + length xs\<rparr>"
      "take_last (ring_capacity r) xs"]
  by (simp add: ring_wf_def) (simp add: ring_write_alt)

lemma ring_contents_write:
  assumes "ring_wf r"
  shows "ring_contents (ring_write xs r) = take_last (ring_capacity r) (ring_contents r @ xs)"
proof (rule nth_equalityI)
  show "length (ring_contents (ring_write xs r)) = length (take_last (ring_capacity r) (ring_contents r @ xs))"
    by (simp add: min.commute)
next
  fix i
  let ?c = "ring_capacity r" and ?n = "min (filled r + length xs) (ring_capacity r)"
  assume "i < length (ring_contents (ring_write xs r))"
  then have i: "i < ?n" by simp
  then have n: "Suc 0 \<le> ?n - i" by linarith
  let ?ys = "take_last ?c xs"
  have wf: "0 < ?c" "head r < ?c" "filled r \<le> ?c" using assms by (auto simp: ring_wf_def)
  have "ring_contents (ring_write xs r) ! i = nth_back (ring_write xs r) (?n - i)"
    using i by (simp add: nth_ring_contents)
  also have "\<dots> = (if ?n - i \<le> length ?ys then ?ys ! (length ?ys - (?n - i)) else nth_back r (?n - i - length ?ys))"
    unfolding ring_write_alt capacity_update by (subst back_fold_put) (use n wf in simp_all)
  also have "\<dots> = take_last ?c (ring_contents r @ xs) ! i"
  proof (cases "?n - i \<le> length ?ys")
    case True
    have k: "filled r \<le> filled r + length xs - ?c + i" and l: "length ?ys - (?n - i) < min ?c (length xs)"
      using True i by (auto simp: min_def split: if_splits)
    have "length xs - ?c + (length ?ys - (?n - i)) = filled r + length xs - ?c + i - filled r"
      using True i by (auto simp: min_def split: if_splits)
    then show ?thesis
      using True i k l by (simp add: nth_take_last nth_append)
  next
    case False
    then have j: "filled r + length xs - ?c + i < filled r"
      and k: "filled r - (filled r + length xs - ?c + i) = ?n - i - length ?ys"
      using i wf by (auto simp: min_def split: if_splits)
    then show ?thesis
      using False i by (simp add: nth_take_last nth_append nth_ring_contents)
  qed
  finally show "ring_contents (ring_write xs r) ! i = take_last ?c (ring_contents r @ xs) ! i" .
qed

lemma ring_copy_back:
  assumes "ring_wf r" and "n \<le> k" and "k \<le> filled r"
  shows "ring_copy_from ((head r + ring_capacity r - k) mod ring_capacity r) n r =
    take n (drop (filled r - k) (ring_contents r))"
proof (rule nth_equalityI)
  fix i
  assume "i < length (ring_copy_from ((head r + ring_capacity r - k) mod ring_capacity r) n r)"
  then have i: "i < n" by (simp add: ring_copy_from_def)
  have wf: "head r < ring_capacity r" "k \<le> ring_capacity r" using assms by (auto simp: ring_wf_def)
  have "((head r + ring_capacity r - k) mod ring_capacity r + i) mod ring_capacity r =
      (head r + ring_capacity r - (k - i)) mod ring_capacity r"
    using wf i assms(2) by (simp add: mod_add_left_eq)
  then show "ring_copy_from ((head r + ring_capacity r - k) mod ring_capacity r) n r ! i =
      take n (drop (filled r - k) (ring_contents r)) ! i"
    using i assms by (simp add: ring_copy_from_def nth_ring_contents nth_back_def)
qed (use assms in \<open>simp add: ring_copy_from_def\<close>)

lemma ring_read_eq:
  "ring_wf r \<Longrightarrow> ring_read n r =
    (if filled r < n then (None, r) else (Some (take n (ring_contents r)), r\<lparr>filled := filled r - n\<rparr>))"
  using ring_copy_back [of r n "filled r"] by (simp add: ring_read_def)

lemma ring_peek_eq:
  "ring_wf r \<Longrightarrow> ring_peek_last n r =
    (if n \<le> filled r then Some (take_last n (ring_contents r)) else None)"
  using ring_copy_back [of r n n] by (simp add: ring_peek_last_def take_last_def)

lemma ring_contents_filled:
  "n \<le> filled r \<Longrightarrow> ring_contents (r\<lparr>filled := filled r - n\<rparr>) = drop n (ring_contents r)"
  by (rule nth_equalityI) (simp_all add: nth_ring_contents)

lemma ring_wf_read: "ring_wf r \<Longrightarrow> ring_wf (snd (ring_read n r))"
  by (auto simp: ring_read_eq ring_wf_def)

lemma ring_contents_read:
  "ring_wf r \<Longrightarrow> n \<le> filled r \<Longrightarrow> ring_contents (snd (ring_read n r)) = drop n (ring_contents r)"
  by (simp add: ring_read_eq ring_contents_filled)

lemma ring_clear_facts [simp]:
  "ring_contents (ring_clear r) = []" "ring_capacity (ring_clear r) = ring_capacity r"
  "overrun (ring_clear r) = overrun r" "ring_wf r \<Longrightarrow> ring_wf (ring_clear r)"
  by (simp_all add: ring_clear_def ring_contents_def ring_capacity_def ring_wf_def)

lemma ring_new_facts:
  assumes "ring_with_capacity z cap = Some r"
  shows "ring_wf r" and "ring_capacity r = cap" and "ring_contents r = []" and "\<not> overrun r" and "0 < cap"
    and "filled r = 0"
  using assms by (auto simp: ring_with_capacity_def ring_wf_def ring_capacity_def ring_contents_def split: if_splits)

section \<open>The contract of a buffer of recent samples\<close>

locale recent_buffer =
  fixes ok :: "'b \<Rightarrow> bool" and size_of :: "'b \<Rightarrow> nat" and store :: "'a list \<Rightarrow> 'b \<Rightarrow> 'b"
    and contents_of :: "'b \<Rightarrow> 'a list" and peek :: "nat \<Rightarrow> 'b \<Rightarrow> 'a list option"
  assumes write_ok: "ok b \<Longrightarrow> ok (store xs b)"
    and size_write: "size_of (store xs b) = size_of b"
    and contents_write: "ok b \<Longrightarrow> contents_of (store xs b) = take_last (size_of b) (contents_of b @ xs)"
    and peek_contents: "ok b \<Longrightarrow> peek n b =
      (if n \<le> length (contents_of b) then Some (take_last n (contents_of b)) else None)"
    and contents_bound: "ok b \<Longrightarrow> length (contents_of b) \<le> size_of b"
begin

text \<open>However the input was cut into writes, the buffer holds its last samples.\<close>

lemma contents_writes:
  "ok b \<Longrightarrow> ok (fold store xss b) \<and> size_of (fold store xss b) = size_of b \<and>
    contents_of (fold store xss b) = take_last (size_of b) (contents_of b @ concat xss)"
proof (induction xss arbitrary: b)
  case Nil
  then show ?case using contents_bound by simp
next
  case (Cons xs xss)
  then show ?case
    by (simp add: write_ok size_write contents_write take_last_take_last_append)
qed

lemma peek_writes:
  "ok b \<Longrightarrow> n \<le> size_of b \<Longrightarrow> n \<le> length (concat xss) \<Longrightarrow>
    peek n (fold store xss b) = Some (take_last n (concat xss))"
  using contents_writes [of b xss]
  by (simp add: peek_contents take_last_take_last take_last_append_long)

text \<open>The sample just written is the newest one a peek returns.\<close>

lemma peek_after_store:
  "ok b \<Longrightarrow> length xs \<le> n \<Longrightarrow> peek n (store xs b) = Some ys \<Longrightarrow> take_last (length xs) ys = xs"
  by (auto simp: peek_contents write_ok contents_write take_last_take_last take_last_append_long
      split: if_splits)

end

interpretation audio_ring: recent_buffer ring_wf ring_capacity ring_write ring_contents ring_peek_last
  by unfold_locales
    (simp_all add: ring_write_wf ring_contents_write ring_peek_eq, simp add: ring_wf_def)

section \<open>Properties\<close>

lemma overrun_writes:
  "ring_wf r \<Longrightarrow> overrun (fold ring_write xss r) \<longleftrightarrow>
    overrun r \<or> xss \<noteq> [] \<and> ring_capacity r < filled r + length (concat xss)"
proof (induction xss arbitrary: r)
  case (Cons xs xss)
  then have "filled r \<le> ring_capacity r" by (simp add: ring_wf_def)
  with Cons show ?case by (auto simp: ring_write_wf)
qed simp

text \<open>
  The buffer never loses more than it must and never reorders: after any sequence of writes
  to a new ring of capacity \<open>cap\<close>, a peek of \<open>n\<close> samples succeeds exactly when that many
  survive and gives the last \<open>n\<close> samples written, a read gives the oldest surviving ones, a
  second read continues where the first ended, and the overrun flag is raised exactly when
  more samples were written than fit.
\<close>

theorem ring_holds_the_last_samples:
  fixes inputs :: "'a list list"
  defines "s \<equiv> concat inputs"
  assumes new: "ring_with_capacity z cap = Some r0"
  shows "ring_peek_last n (fold ring_write inputs r0) =
      (if n \<le> min cap (length s) then Some (take_last n s) else None) \<and>
    fst (ring_read n (fold ring_write inputs r0)) =
      (if n \<le> min cap (length s) then Some (take n (take_last cap s)) else None) \<and>
    fst (ring_read m (snd (ring_read n (fold ring_write inputs r0)))) =
      (let rest = if n \<le> min cap (length s) then drop n (take_last cap s) else take_last cap s
       in if m \<le> length rest then Some (take m rest) else None) \<and>
    (fst (ring_take_overrun (fold ring_write inputs r0)) \<longleftrightarrow> cap < length s)"
proof -
  let ?r = "fold ring_write inputs r0"
  note r0 = ring_new_facts [OF new]
  have r: "ring_wf ?r" "ring_contents ?r = take_last cap s"
    using audio_ring.contents_writes [OF r0(1), of inputs] r0 by (simp_all add: s_def)
  have f: "filled ?r = min cap (length s)"
    using r(2) length_ring_contents [of ?r] by simp
  have p: "ring_peek_last n ?r = (if n \<le> min cap (length s) then Some (take_last n s) else None)"
    using r f by (simp add: ring_peek_eq)
  have rd: "ring_read k q = (if filled q < k then (None, q)
      else (Some (take k (ring_contents q)), q\<lparr>filled := filled q - k\<rparr>))" if "ring_wf q" for k q
    using that by (rule ring_read_eq)
  have fst_read: "fst (ring_read n ?r) = (if n \<le> min cap (length s) then Some (take n (take_last cap s)) else None)"
    using r f by (auto simp: rd)
  have snd_read: "ring_contents (snd (ring_read n ?r)) =
      (if n \<le> min cap (length s) then drop n (take_last cap s) else take_last cap s)"
    using r f ring_contents_read [OF r(1), of n] by (cases "n \<le> filled ?r") (auto simp: rd)
  have second: "fst (ring_read m (snd (ring_read n ?r))) =
      (if m \<le> length (ring_contents (snd (ring_read n ?r)))
       then Some (take m (ring_contents (snd (ring_read n ?r)))) else None)"
    using rd [OF ring_wf_read [OF r(1)], of m n] by simp
  have o: "fst (ring_take_overrun ?r) \<longleftrightarrow> cap < length s"
    using overrun_writes [OF r0(1), of inputs] r0 by (auto simp: ring_take_overrun_def s_def)
  from p fst_read second [unfolded snd_read] o show ?thesis by (simp add: Let_def)
qed

theorem ring_holds_the_last_samples_witness:
  "\<exists>r0. ring_with_capacity 0 3 = Some r0 \<and>
    ring_peek_last 2 (fold ring_write [[1, 2], [3, 4::nat]] r0) = Some [3, 4] \<and>
    fst (ring_take_overrun (fold ring_write [[1, 2], [3, 4]] r0))"
proof -
  have "ring_with_capacity (0::nat) 3 = Some \<lparr>samples = [0, 0, 0], head = 0, filled = 0, overrun = False\<rparr>"
    by (simp add: ring_with_capacity_def numeral_eq_Suc)
  from this ring_holds_the_last_samples [OF this, of 2 "[[1, 2], [3, 4]]"] show ?thesis
    by (simp add: take_last_def)
qed

end
