(* ===== verification/Listener.thy ===== *)
theory Listener
  imports Wake Session Ring
begin

text \<open>
  The blocking call of \<open>crates/stt/src/listener.rs\<close> that ties the microphone, the voice
  detector, the wake detector and the transcriber to the session. The four devices are the
  fields of a parameter, each threading its own state. The audio source is the list of the
  chunks it will deliver, each with a flag that says whether the manual trigger had a message
  pending then; the list's end is the closed source. The status callback is the list of the
  reported statuses.
\<close>

section \<open>Configuration and state\<close>

datatype listener_status =
  ListeningStatus | Heard | Restarted | CapturingStatus | Transcribing | MaxDurationReached
  | DiscardedTooShort | DiscardedNonsense

datatype 'e listen_error = AudioSourceClosed | TranscribeFailed 'e

record listener_config =
  session_tuning :: session_config
  wake_priming_chunks :: nat
  wake_pre_roll_chunks :: nat
  follow_up_pre_roll_chunks :: nat

definition listener_config_default :: listener_config where
  "listener_config_default =
     \<lparr>session_tuning = session_config_default, wake_priming_chunks = chunks_for_ms 320,
      wake_pre_roll_chunks = chunks_for_ms 200, follow_up_pre_roll_chunks = chunks_for_ms 500\<rparr>"

record ('a, 'v, 'w, 'p, 't, 'e) listener_env =
  probability :: "'a list \<Rightarrow> 'v \<Rightarrow> 'p \<times> 'v"
  detect :: "'a list \<Rightarrow> 'w \<Rightarrow> bool \<times> 'w"
  reset :: "'w \<Rightarrow> 'w"
  transcribe :: "'a list \<Rightarrow> 't \<Rightarrow> ('e + string) \<times> 't"
  unicode_tables :: unicode

record ('a, 'v, 'w, 'p, 't) listener =
  lis_vad :: 'v
  lis_wake :: 'w
  lis_transcriber :: 't
  lis_gate :: "'p speech_gate"
  lis_config :: listener_config
  lis_recent :: "'a ring"
  first_call :: bool

text \<open>\<open>Listener::new\<close>; \<open>zero\<close> is the sample \<open>0.0\<close>, the gate is \<open>SpeechGate::default()\<close>.\<close>

definition recent_capacity :: "listener_config \<Rightarrow> nat" where
  "recent_capacity cfg =
     (max (wake_priming_chunks cfg) (max (wake_pre_roll_chunks cfg) (follow_up_pre_roll_chunks cfg)) + 8) * CHUNK_SAMPLES"

definition listener_new :: "'a \<Rightarrow> 'p speech_gate \<Rightarrow> 'v \<Rightarrow> 'w \<Rightarrow> 't \<Rightarrow> listener_config \<Rightarrow> ('a, 'v, 'w, 'p, 't) listener option" where
  "listener_new zero g v w t cfg =
     map_option (\<lambda>r. \<lparr>lis_vad = v, lis_wake = w, lis_transcriber = t, lis_gate = g, lis_config = cfg,
         lis_recent = r, first_call = True\<rparr>)
       (ring_with_capacity zero (recent_capacity cfg))"

section \<open>One chunk\<close>

definition reset_detector ::
  "('a, 'v, 'w, 'p, 't, 'e) listener_env \<Rightarrow> ('a, 'v, 'w, 'p, 't) listener \<Rightarrow> ('a, 'v, 'w, 'p, 't) listener" where
  "reset_detector env l = l\<lparr>lis_wake := reset env (lis_wake l)\<rparr>"

definition prime_wake_detector ::
  "('a, 'v, 'w, 'p, 't, 'e) listener_env \<Rightarrow> ('a, 'v, 'w, 'p, 't) listener \<Rightarrow> ('a, 'v, 'w, 'p, 't) listener" where
  "prime_wake_detector env l =
     (let l = reset_detector env l; n = wake_priming_chunks (lis_config l)
      in if n = 0 then l
         else case ring_peek_last (n * CHUNK_SAMPLES) (lis_recent l) of
                Some priming \<Rightarrow> l\<lparr>lis_wake := snd (detect env priming (lis_wake l))\<rparr>
              | None \<Rightarrow> l)"

definition pre_roll_chunks :: "listen_mode \<Rightarrow> listener_config \<Rightarrow> nat" where
  "pre_roll_chunks mode cfg =
     (case mode of WakeWord \<Rightarrow> wake_pre_roll_chunks cfg | FollowUp \<Rightarrow> follow_up_pre_roll_chunks cfg)"

definition prepend_pre_roll :: "listen_mode \<Rightarrow> ('a, 'v, 'w, 'p, 't) listener \<Rightarrow> 'a list \<Rightarrow> 'a list" where
  "prepend_pre_roll mode l capture =
     (case ring_peek_last (pre_roll_chunks mode (lis_config l) * CHUNK_SAMPLES) (lis_recent l) of
        Some pre_roll \<Rightarrow> capture @ pre_roll
      | None \<Rightarrow> capture)"

text \<open>Up to \<open>session.observe\<close>: the observation of a chunk.\<close>

definition hear_chunk ::
  "('a, 'v, 'w, 'p::ord, 't, 'e) listener_env \<Rightarrow> 'a list \<Rightarrow> bool \<Rightarrow> ('a, 'v, 'w, 'p, 't) listener \<Rightarrow>
     (bool \<times> bool) \<times> ('a, 'v, 'w, 'p, 't) listener" where
  "hear_chunk env chunk forced l =
     (let l = l\<lparr>lis_recent := ring_write chunk (lis_recent l)\<rparr>;
          (p, v) = probability env chunk (lis_vad l);
          was_active = active (lis_gate l);
          (speech, g) = gate_update p (lis_gate l);
          l = l\<lparr>lis_vad := v, lis_gate := g\<rparr>;
          l = (if speech \<and> \<not> was_active then prime_wake_detector env l else l);
          (detected, w) = (if speech then detect env chunk (lis_wake l) else (False, lis_wake l))
      in ((speech, detected \<or> forced), l\<lparr>lis_wake := w\<rparr>))"

definition is_sane :: "unicode \<Rightarrow> string \<Rightarrow> bool" where
  "is_sane u s \<longleftrightarrow> trim s \<noteq> [] \<and> list_ex (is_alphanumeric u) (chars s)"

text \<open>
  The match on the action: the result when the call returns here, else the capture to go on
  with; and the statuses reported.
\<close>

definition finish_capture ::
  "('a, 'v, 'w, 'p, 't, 'e) listener_env \<Rightarrow> listen_mode \<Rightarrow> action \<Rightarrow> 'a list \<Rightarrow> ('a, 'v, 'w, 'p, 't) listener \<Rightarrow>
     ('e listen_error + string option) option \<times> 'a list \<times> listener_status list \<times> ('a, 'v, 'w, 'p, 't) listener" where
  "finish_capture env mode act capture l =
     (let l = reset_detector env l;
          sts = (if act = CompleteMaxDuration then [MaxDurationReached] else []) @ [Transcribing];
          (answer, t) = transcribe env capture (lis_transcriber l);
          l = l\<lparr>lis_transcriber := t\<rparr>
      in case answer of
           Inl e \<Rightarrow> (Some (Inl (TranscribeFailed e)), capture, sts, l)
         | Inr raw \<Rightarrow>
             let said = strip_wake_prefix (unicode_tables env) raw
             in if is_sane (unicode_tables env) said then (Some (Inr (Some said)), capture, sts, l)
                else if mode = FollowUp then (Some (Inr None), capture, sts @ [DiscardedNonsense], l)
                else (None, [], sts @ [DiscardedNonsense], l))"

definition act_on ::
  "('a, 'v, 'w, 'p, 't, 'e) listener_env \<Rightarrow> listen_mode \<Rightarrow> action \<Rightarrow> 'a list \<Rightarrow> 'a list \<Rightarrow> ('a, 'v, 'w, 'p, 't) listener \<Rightarrow>
     ('e listen_error + string option) option \<times> 'a list \<times> listener_status list \<times> ('a, 'v, 'w, 'p, 't) listener" where
  "act_on env mode act chunk capture l =
     (case act of
        Idle \<Rightarrow> (None, capture, [], l)
      | StartCapture \<Rightarrow> (None, prepend_pre_roll mode l [] @ chunk, [Heard, CapturingStatus], l)
      | RestartCapture \<Rightarrow>
          let l = reset_detector env l in (None, prepend_pre_roll WakeWord l [] @ chunk, [Restarted], l)
      | Capture \<Rightarrow> (None, capture @ chunk, [], l)
      | Complete \<Rightarrow> finish_capture env mode act capture l
      | CompleteMaxDuration \<Rightarrow> finish_capture env mode act capture l
      | Discard \<Rightarrow> (None, [], [DiscardedTooShort], reset_detector env l)
      | Expired \<Rightarrow> (Some (Inr None), capture, [], l))"

section \<open>The loop\<close>

text \<open>The result carries the chunks left unread, the statuses and the listener afterwards.\<close>

fun listen_loop ::
  "('a, 'v, 'w, 'p::ord, 't, 'e) listener_env \<Rightarrow> listen_mode \<Rightarrow> session \<Rightarrow> 'a list \<Rightarrow> ('a, 'v, 'w, 'p, 't) listener \<Rightarrow>
     ('a list \<times> bool) list \<Rightarrow>
     ('e listen_error + string option) \<times> ('a list \<times> bool) list \<times> listener_status list \<times> ('a, 'v, 'w, 'p, 't) listener" where
  "listen_loop env mode ses capture l [] = (Inl AudioSourceClosed, [], [], l)"
| "listen_loop env mode ses capture l ((chunk, forced) # audio) =
     (let (ob, l) = hear_chunk env chunk forced l;
          (act, ses) = observe (fst ob) (snd ob) ses
      in case act_on env mode act chunk capture l of
           (Some result, _, sts, l) \<Rightarrow> (result, audio, sts, l)
         | (None, capture, sts, l) \<Rightarrow>
             let (result, rest, more, l) = listen_loop env mode ses capture l audio in (result, rest, sts @ more, l))"

definition listen_session :: "listen_mode \<Rightarrow> ('a, 'v, 'w, 'p, 't) listener \<Rightarrow> session" where
  "listen_session mode l =
     (if first_call l then session_new (session_tuning (lis_config l)) mode
      else session_resume (session_tuning (lis_config l)) mode)"

definition listen ::
  "('a, 'v, 'w, 'p::ord, 't, 'e) listener_env \<Rightarrow> listen_mode \<Rightarrow> ('a list \<times> bool) list \<Rightarrow> ('a, 'v, 'w, 'p, 't) listener \<Rightarrow>
     ('e listen_error + string option) \<times> ('a list \<times> bool) list \<times> listener_status list \<times> ('a, 'v, 'w, 'p, 't) listener" where
  "listen env mode audio l =
     (let ses = listen_session mode l;
          l = reset_detector env (l\<lparr>first_call := False\<rparr>);
          (result, rest, sts, l) = listen_loop env mode ses [] l audio
      in (result, rest, ListeningStatus # sts, l))"

section \<open>What every step keeps\<close>

lemma reset_detector_keeps [simp]:
  "lis_recent (reset_detector env l) = lis_recent l" "lis_config (reset_detector env l) = lis_config l"
  by (simp_all add: reset_detector_def)

lemma hear_chunk_keeps:
  "hear_chunk env chunk forced l = (ob, l') \<Longrightarrow>
    lis_recent l' = ring_write chunk (lis_recent l) \<and> lis_config l' = lis_config l"
  by (auto simp: hear_chunk_def prime_wake_detector_def Let_def split: prod.splits if_splits option.splits)

lemma finish_capture_keeps:
  "finish_capture env mode act capture l = (res, capture', sts, l') \<Longrightarrow>
    lis_recent l' = lis_recent l \<and> lis_config l' = lis_config l"
  by (auto simp: finish_capture_def Let_def split: prod.splits if_splits sum.splits)

lemma act_on_keeps:
  "act_on env mode act chunk capture l = (res, capture', sts, l') \<Longrightarrow>
    lis_recent l' = lis_recent l \<and> lis_config l' = lis_config l"
  by (cases act) (auto simp: act_on_def Let_def dest: finish_capture_keeps)

section \<open>Results\<close>

definition listen_result_ok ::
  "('a, 'v, 'w, 'p, 't, 'e) listener_env \<Rightarrow> listen_mode \<Rightarrow> ('a list \<times> bool) list \<Rightarrow> 'e listen_error + string option \<Rightarrow> bool" where
  "listen_result_ok env mode rest res =
     (case res of
        Inr None \<Rightarrow> mode = FollowUp
      | Inr (Some said) \<Rightarrow> is_sane (unicode_tables env) said
      | Inl AudioSourceClosed \<Rightarrow> rest = []
      | Inl (TranscribeFailed e) \<Rightarrow> \<exists>capture t. fst (transcribe env capture t) = Inl e)"

lemma finish_capture_ok:
  "finish_capture env mode act capture l = (Some res, capture', sts, l') \<Longrightarrow> listen_result_ok env mode rest res"
  by (auto simp: finish_capture_def listen_result_ok_def Let_def intro: exI [of _ capture]
      split: prod.splits if_splits sum.splits) (metis fst_conv)+

lemma observe_expired: "fst (observe speech wake s) = Expired \<Longrightarrow> ses_mode s = FollowUp"
  by (auto simp: observe_def session_ops split: session_state.splits if_splits)

lemma act_on_ok:
  assumes "act_on env mode act chunk capture l = (Some res, capture', sts, l')"
    and "act = Expired \<Longrightarrow> mode = FollowUp"
  shows "listen_result_ok env mode rest res"
  using assms by (cases act) (auto simp: act_on_def Let_def listen_result_ok_def dest: finish_capture_ok)

lemma listen_loop_ok:
  "ses_mode ses = mode \<Longrightarrow> listen_loop env mode ses capture l audio = (res, rest, sts, l') \<Longrightarrow>
    listen_result_ok env mode rest res"
proof (induction audio arbitrary: ses capture l sts)
  case Nil
  then show ?case by (auto simp: listen_result_ok_def)
next
  case (Cons c audio)
  obtain chunk forced where c: "c = (chunk, forced)" by (cases c)
  obtain ob l1 where h: "hear_chunk env chunk forced l = (ob, l1)" by fastforce
  obtain act ses1 where o: "observe (fst ob) (snd ob) ses = (act, ses1)" by fastforce
  obtain r capture1 sts1 l2 where a: "act_on env mode act chunk capture l1 = (r, capture1, sts1, l2)"
    using prod_cases4 by blast
  have m: "ses_mode ses1 = mode" using observe_keeps(2) [of "fst ob" "snd ob" ses] o Cons.prems(1) by simp
  show ?case
  proof (cases r)
    case None
    with Cons.prems(2) show ?thesis by (auto simp: c h o a intro: Cons.IH [OF m] split: prod.splits)
  next
    case (Some res')
    moreover have "act = Expired \<Longrightarrow> mode = FollowUp"
      using observe_expired [of "fst ob" "snd ob" ses] o Cons.prems(1) by simp
    ultimately show ?thesis
      using Cons.prems(2) act_on_ok [OF a [unfolded Some]] by (simp add: c h o a)
  qed
qed

text \<open>
  What a call to \<open>listen\<close> can return: a text is never empty nor without a letter or digit;
  no text at all only ends a follow-up, so in wake-word mode the listener never gives up;
  the audio source counts as closed only when every chunk was consumed; and a transcription
  error is one the transcriber reported.
\<close>

theorem listen_outcomes:
  "case listen env mode audio l of (result, rest, sts, l') \<Rightarrow>
     (case result of
        Inr None \<Rightarrow> mode = FollowUp
      | Inr (Some said) \<Rightarrow> is_sane (unicode_tables env) said
      | Inl AudioSourceClosed \<Rightarrow> rest = []
      | Inl (TranscribeFailed e) \<Rightarrow> \<exists>capture t. fst (transcribe env capture t) = Inl e)"
proof -
  let ?l = "reset_detector env (l\<lparr>first_call := False\<rparr>)"
  obtain result rest sts l' where r: "listen_loop env mode (listen_session mode l) [] ?l audio = (result, rest, sts, l')"
    using prod_cases4 by blast
  have "ses_mode (listen_session mode l) = mode"
    by (simp add: listen_session_def session_new_def session_resume_def)
  from listen_loop_ok [OF this r] show ?thesis
    using r by (simp add: listen_def Let_def listen_result_ok_def)
qed

section \<open>What is transcribed\<close>

text \<open>
  The capture of an utterance opened at chunk \<open>i\<close> of \<open>chunks\<close>: the pre-roll, which is the end of
  what the ring held then, and the chunks from the opening one on.
\<close>

definition roll_mode :: "listen_mode \<Rightarrow> log_entry \<Rightarrow> listen_mode" where
  "roll_mode mode st = (if snd st = RestartCapture then WakeWord else mode)"

definition pre_roll_of :: "nat \<Rightarrow> nat \<Rightarrow> 'a list \<Rightarrow> 'a list" where
  "pre_roll_of cap n past = (if n \<le> min cap (length past) then take_last n past else [])"

definition capture_of ::
  "listener_config \<Rightarrow> listen_mode \<Rightarrow> nat \<Rightarrow> 'a list \<Rightarrow> 'a list list \<Rightarrow> nat \<Rightarrow> log_entry \<Rightarrow> 'a list" where
  "capture_of cfg mode cap old chunks i st =
     pre_roll_of cap (pre_roll_chunks (roll_mode mode st) cfg * CHUNK_SAMPLES) (old @ concat (take (Suc i) chunks)) @
     concat (drop i chunks)"

lemma pre_roll_ring:
  assumes "ring_wf r" and "lis_recent l = fold ring_write chunks r"
  shows "prepend_pre_roll mode l capture =
    capture @ pre_roll_of (ring_capacity r) (pre_roll_chunks mode (lis_config l) * CHUNK_SAMPLES)
      (ring_contents r @ concat chunks)"
proof -
  let ?n = "pre_roll_chunks mode (lis_config l) * CHUNK_SAMPLES" and ?b = "fold ring_write chunks r"
  have w: "ring_wf ?b" "ring_contents ?b = take_last (ring_capacity r) (ring_contents r @ concat chunks)"
    using audio_ring.contents_writes [OF assms(1), of chunks] by auto
  show ?thesis
    using audio_ring.peek_contents [OF w(1), of ?n]
    by (simp add: prepend_pre_roll_def pre_roll_of_def w(2) assms(2) min.commute)
qed

definition loop_inv ::
  "listener_config \<Rightarrow> listen_mode \<Rightarrow> 'a ring \<Rightarrow> session \<Rightarrow> 'a list list \<Rightarrow> (bool \<times> bool) list \<Rightarrow> session \<Rightarrow> 'a list \<Rightarrow>
     ('a, 'v, 'w, 'p, 't) listener \<Rightarrow> bool" where
  "loop_inv cfg mode r s0 chunks obs ses capture l \<longleftrightarrow>
     length obs = length chunks \<and> ses = snd (session_run s0 obs) \<and>
     lis_recent l = fold ring_write chunks r \<and> lis_config l = cfg \<and>
     (ses_state ses = CapturingState \<longrightarrow>
       (\<forall>pre st mid. fst (session_run s0 obs) = pre @ st # map (\<lambda>ob. (ob, Capture)) mid \<and> opens mode st \<longrightarrow>
          capture = capture_of cfg mode (ring_capacity r) (ring_contents r) chunks (length pre) st))"

lemma loop_invD:
  "loop_inv cfg mode r s0 chunks obs ses capture l \<Longrightarrow> ses_state ses = CapturingState \<Longrightarrow>
    fst (session_run s0 obs) = pre @ st # map (\<lambda>ob. (ob, Capture)) mid \<Longrightarrow> opens mode st \<Longrightarrow>
    capture = capture_of cfg mode (ring_capacity r) (ring_contents r) chunks (length pre) st"
  unfolding loop_inv_def by blast

lemma opens_not_capture: "opens mode st \<Longrightarrow> snd st = StartCapture \<or> snd st = RestartCapture"
  by (cases st; cases "fst st") auto

lemma snoc_utterance:
  assumes "log @ [(ob, a)] = pre @ st # map (\<lambda>ob. (ob, Capture)) mid" and "opens mode st"
  shows "a \<noteq> Capture \<Longrightarrow> log = pre \<and> st = (ob, a) \<and> mid = []"
    and "a = Capture \<Longrightarrow> \<exists>mid'. mid = mid' @ [ob] \<and> log = pre @ st # map (\<lambda>ob. (ob, Capture)) mid'"
  using assms opens_not_capture [OF assms(2)] by (cases mid rule: rev_cases; auto)+

lemma observe_to_capturing:
  "observe sp wk s = (a, s') \<Longrightarrow> ses_state s' = CapturingState \<Longrightarrow>
    a = StartCapture \<or> a = RestartCapture \<or> a = Capture \<and> ses_state s = CapturingState"
  by (auto simp: observe_def session_ops split: session_state.splits if_splits)

lemma loop_inv_step:
  assumes inv: "loop_inv cfg mode r s0 chunks obs ses capture l" and wf: "ring_wf r"
    and h: "hear_chunk env chunk forced l = (ob, l1)"
    and ob: "observe (fst ob) (snd ob) ses = (act, ses1)"
    and a: "act_on env mode act chunk capture l1 = (res, capture1, sts, l2)"
  shows "loop_inv cfg mode r s0 (chunks @ [chunk]) (obs @ [ob]) ses1 capture1 l2"
proof -
  have l1: "lis_recent l1 = fold ring_write (chunks @ [chunk]) r" "lis_config l1 = cfg"
    using inv hear_chunk_keeps [OF h] by (auto simp: loop_inv_def)
  have ses: "ses = snd (session_run s0 obs)" using inv by (simp add: loop_inv_def)
  have run: "session_run s0 (obs @ [ob]) = (fst (session_run s0 obs) @ [(ob, act)], ses1)"
    using ob by (simp add: session_run_append Let_def flip: ses)
  have cap: "capture1 = capture_of cfg mode (ring_capacity r) (ring_contents r) (chunks @ [chunk]) (length pre) st"
    if st: "ses_state ses1 = CapturingState" and op: "opens mode st"
      and log: "fst (session_run s0 obs) @ [(ob, act)] = pre @ st # map (\<lambda>ob. (ob, Capture)) mid"
    for pre st mid
  proof (cases "act = Capture")
    case True
    from snoc_utterance(2) [OF log op True] obtain mid' where
      m: "mid = mid' @ [ob]" "fst (session_run s0 obs) = pre @ st # map (\<lambda>ob. (ob, Capture)) mid'" by blast
    have "ses_state ses = CapturingState" using observe_to_capturing [OF ob st] True by simp
    from loop_invD [OF inv this m(2) op]
    have c: "capture = capture_of cfg mode (ring_capacity r) (ring_contents r) chunks (length pre) st" .
    have "length obs = length chunks" using inv by (simp add: loop_inv_def)
    moreover have "length obs = Suc (length pre + length mid')"
      using arg_cong [OF m(2), of length] by simp
    ultimately have "length pre < length chunks" by simp
    with c a True show ?thesis by (auto simp: act_on_def capture_of_def)
  next
    case False
    from snoc_utterance(1) [OF log op False] have p: "fst (session_run s0 obs) = pre" "st = (ob, act)" by auto
    have "length pre = length chunks" using inv arg_cong [OF p(1), of length] by (simp add: loop_inv_def)
    moreover have "prepend_pre_roll m l1 [] = pre_roll_of (ring_capacity r) (pre_roll_chunks m cfg * CHUNK_SAMPLES)
        (ring_contents r @ concat (chunks @ [chunk]))" for m
      using pre_roll_ring [OF wf l1(1)] l1(2) by simp
    moreover have "prepend_pre_roll m (reset_detector env l1) [] = prepend_pre_roll m l1 []" for m
      by (simp add: prepend_pre_roll_def)
    moreover have "act = StartCapture \<or> act = RestartCapture" using observe_to_capturing [OF ob st] False by blast
    ultimately show ?thesis
      using a p by (auto simp: act_on_def Let_def capture_of_def roll_mode_def)
  qed
  show ?thesis
    using inv l1 act_on_keeps [OF a] cap run by (auto simp: loop_inv_def)
qed

text \<open>How a call returns a text: the utterance it completed and what was captured of it.\<close>

definition returned_text ::
  "('a, 'v, 'w, 'p, 't, 'e) listener_env \<Rightarrow> listener_config \<Rightarrow> listen_mode \<Rightarrow> 'a ring \<Rightarrow> session \<Rightarrow> 'a list list \<Rightarrow> string \<Rightarrow> bool" where
  "returned_text env cfg mode r s0 chunks said \<longleftrightarrow>
     (\<exists>obs pre st mid a raw t t'.
        length obs = length chunks \<and>
        fst (session_run s0 obs) = pre @ st # map (\<lambda>ob. (ob, Capture)) mid @ [(last obs, a)] \<and>
        opens mode st \<and> (a = Complete \<or> a = CompleteMaxDuration) \<and>
        transcribe env (capture_of cfg mode (ring_capacity r) (ring_contents r) (butlast chunks) (length pre) st) t = (Inr raw, t') \<and>
        said = strip_wake_prefix (unicode_tables env) raw \<and> is_sane (unicode_tables env) said)"

lemma act_on_said:
  "act_on env mode act chunk capture l = (Some (Inr (Some said)), capture', sts, l') \<Longrightarrow>
    (act = Complete \<or> act = CompleteMaxDuration) \<and>
    (\<exists>raw t t'. transcribe env capture t = (Inr raw, t') \<and> said = strip_wake_prefix (unicode_tables env) raw \<and>
       is_sane (unicode_tables env) said)"
  by (cases act) (auto simp: act_on_def finish_capture_def Let_def split: prod.splits sum.splits if_splits)

lemma listen_loop_said:
  assumes "ring_wf r" and "s0 = session_new tuning mode \<or> s0 = session_resume tuning mode"
  shows "loop_inv cfg mode r s0 chunks obs ses capture l \<Longrightarrow>
    listen_loop env mode ses capture l audio = (Inr (Some said), rest, sts, l') \<Longrightarrow>
    \<exists>heard. audio = heard @ rest \<and> returned_text env cfg mode r s0 (chunks @ map fst heard) said"
proof (induction audio arbitrary: ses capture l sts chunks obs)
  case (Cons c audio)
  obtain chunk forced where c: "c = (chunk, forced)" by (cases c)
  obtain ob l1 where h: "hear_chunk env chunk forced l = (ob, l1)" by fastforce
  obtain act ses1 where o: "observe (fst ob) (snd ob) ses = (act, ses1)" by fastforce
  obtain res capture1 sts1 l2 where a: "act_on env mode act chunk capture l1 = (res, capture1, sts1, l2)"
    using prod_cases4 by blast
  show ?case
  proof (cases res)
    case None
    obtain sts2 where "listen_loop env mode ses1 capture1 l2 audio = (Inr (Some said), rest, sts2, l')"
      using Cons.prems(2) None by (auto simp: c h o a split: prod.splits)
    from Cons.IH [OF loop_inv_step [OF Cons.prems(1) assms(1) h o a] this] obtain heard where
      "audio = heard @ rest" "returned_text env cfg mode r s0 ((chunks @ [chunk]) @ map fst heard) said" by blast
    then show ?thesis by (intro exI [of _ "c # heard"]) (simp add: c)
  next
    case (Some res')
    then have res: "res = Some (Inr (Some said))" and rest: "rest = audio"
      using Cons.prems(2) by (auto simp: c h o a)
    from act_on_said [OF a [unfolded res]] obtain raw t t' where
      act: "act = Complete \<or> act = CompleteMaxDuration" and said: "transcribe env capture t = (Inr raw, t')"
        "said = strip_wake_prefix (unicode_tables env) raw" "is_sane (unicode_tables env) said" by blast
    have ses: "ses = snd (session_run s0 obs)" and len: "length obs = length chunks"
      using Cons.prems(1) by (auto simp: loop_inv_def)
    note li = run_log_inv [OF assms(2), of obs, folded ses]
    from observe_ends_utterance [OF conjunct1 [OF li] o] act li obtain st mid where
      "captured_since mode ses (fst (session_run s0 obs)) st mid" by auto
    then obtain pre where log: "fst (session_run s0 obs) = pre @ st # map (\<lambda>ob. (ob, Capture)) mid" "opens mode st"
      by (auto simp: captured_since_def)
    have "ses_state ses = CapturingState"
      using o act by (auto simp: observe_def session_ops split: session_state.splits if_splits)
    from loop_invD [OF Cons.prems(1) this log] have cap:
      "capture = capture_of cfg mode (ring_capacity r) (ring_contents r) chunks (length pre) st" .
    have run: "fst (session_run s0 (obs @ [ob])) = fst (session_run s0 obs) @ [(ob, act)]"
      using o by (simp add: session_run_append Let_def flip: ses)
    have "returned_text env cfg mode r s0 (chunks @ [chunk]) said"
      unfolding returned_text_def
      using len run log act said cap
      by (intro exI [of _ "obs @ [ob]"] exI [of _ pre] exI [of _ st] exI [of _ mid] exI [of _ act]
          exI [of _ raw] exI [of _ t] exI [of _ t']) auto
    then show ?thesis using rest by (intro exI [of _ "[c]"]) (simp add: c)
  qed
qed simp

text \<open>
  C28. What the listener transcribes: a returned text is the transcript, stripped of the wake
  phrase, of one utterance the session opened and completed: the pre-roll out of the recent
  audio, then every chunk from the one that opened it up to, not including, the last. The
  pre-roll is taken after the opening chunk was stored and so ends with that chunk, which
  therefore stands in the audio twice.
\<close>

theorem listen_transcribes_the_utterance:
  assumes "ring_wf (lis_recent l)"
    and "listen env mode audio l = (Inr (Some said), rest, sts, l')"
  shows "\<exists>heard. audio = heard @ rest \<and>
    returned_text env (lis_config l) mode (lis_recent l) (listen_session mode l) (map fst heard) said"
proof -
  let ?l = "reset_detector env (l\<lparr>first_call := False\<rparr>)" and ?s0 = "listen_session mode l"
  obtain sts' where loop: "listen_loop env mode ?s0 [] ?l audio = (Inr (Some said), rest, sts', l')"
    using assms(2) by (auto simp: listen_def Let_def split: prod.splits)
  have s0: "?s0 = session_new (session_tuning (lis_config l)) mode \<or> ?s0 = session_resume (session_tuning (lis_config l)) mode"
    by (simp add: listen_session_def)
  have "loop_inv (lis_config l) mode (lis_recent l) ?s0 [] [] ?s0 [] ?l"
    by (auto simp: loop_inv_def listen_session_def session_new_def session_resume_def)
  from listen_loop_said [OF assms(1) s0 this loop] show ?thesis by simp
qed

text \<open>A listener over numbers: a sample above 5 is speech, and the sample 9 is the wake phrase.\<close>

definition number_env :: "(nat, unit, unit, nat, unit, unit) listener_env" where
  "number_env =
     \<lparr>probability = (\<lambda>chunk v. (sum_list chunk, v)), detect = (\<lambda>chunk w. (9 \<in> set chunk, w)), reset = id,
      transcribe = (\<lambda>samples t. (Inr ''oye Nala, hola'', t)), unicode_tables = ascii\<rparr>"

definition number_listener :: "(nat, unit, unit, nat, unit) listener" where
  "number_listener =
     \<lparr>lis_vad = (), lis_wake = (), lis_transcriber = (), lis_gate = gate_new 5 3 1,
      lis_config = \<lparr>session_tuning = \<lparr>hangover = 1, follow_up_window = 4, max_utterance = 9, min_utterance = 1,
          settle = 1, cold_start = 1\<rparr>,
        wake_priming_chunks = 0, wake_pre_roll_chunks = 0, follow_up_pre_roll_chunks = 0\<rparr>,
      lis_recent = \<lparr>samples = [0], head = 0, filled = 0, overrun = False\<rparr>, first_call = True\<rparr>"

theorem listen_transcribes_the_utterance_witness:
  "\<exists>heard. [([0], False), ([9], False), ([7], False), ([0], False)] = heard @ [] \<and>
    returned_text number_env (lis_config number_listener) WakeWord (lis_recent number_listener)
      (listen_session WakeWord number_listener) (map fst heard) ''hola''"
proof -
  have said: "strip_wake_prefix ascii ''oye Nala, hola'' = ''hola''" and sane: "is_sane ascii ''hola''"
    by code_simp+
  obtain sts l' where run: "listen number_env WakeWord [([0], False), ([9], False), ([7], False), ([0], False)] number_listener =
      (Inr (Some ''hola''), [], sts, l')"
    by (simp add: listen_def listen_session_def number_listener_def number_env_def reset_detector_def hear_chunk_def
        prime_wake_detector_def gate_update_def gate_new_def act_on_def finish_capture_def prepend_pre_roll_def
        pre_roll_chunks_def observe_def session_ops session_new_def ring_write_def ring_peek_last_def ring_copy_from_def
        put_sample_def ring_capacity_def said sane)
  have "ring_wf (lis_recent number_listener)"
    by (simp add: number_listener_def ring_wf_def ring_capacity_def)
  from listen_transcribes_the_utterance [OF this run] show ?thesis .
qed

end
