(* ===== verification/Wake_Detector.thy ===== *)
theory Wake_Detector
  imports Wake Session "HOL-Library.Sublist"
begin

text \<open>
  The detector of \<open>crates/stt/src/wake.rs\<close> that transcribes on a background thread
  (\<open>WhisperWake\<close>). The caller's \<open>detect\<close> and \<open>reset\<close> and the two steps of the worker (take a
  job, send its result) are operations on one state, so every interleaving of the threads is a
  run of these steps. The bounded job channel and the result channel are lists; the
  transcriber is a parameter. The clock readings of a check and its callback are not modelled.
\<close>

section \<open>State\<close>

definition CHECK_INTERVAL_CHUNKS :: nat where
  "CHECK_INTERVAL_CHUNKS = 3"

definition MAX_BUFFER_CHUNKS :: nat where
  "MAX_BUFFER_CHUNKS = 63"

record 'a wake_job =
  job_generation :: nat
  job_samples :: "'a list"

record wake_result =
  result_generation :: nat
  result_text :: string

record 'a whisper_wake =
  buffered :: "'a list"
  since_check :: nat
  generation :: nat
  check_in_flight :: bool

record 'a wake_threads =
  detector :: "'a whisper_wake"
  to_worker :: "'a wake_job list"
  working :: "'a wake_job option"
  from_worker :: "wake_result list"

definition whisper_wake_new :: "'a wake_threads" where
  "whisper_wake_new =
     \<lparr>detector = \<lparr>buffered = [], since_check = 0, generation = 0, check_in_flight = False\<rparr>,
      to_worker = [], working = None, from_worker = []\<rparr>"

section \<open>The caller's operations\<close>

definition handle_result :: "unicode \<Rightarrow> wake_result \<Rightarrow> 'a whisper_wake \<Rightarrow> bool \<times> 'a whisper_wake" where
  "handle_result u r w =
     (let w = w\<lparr>check_in_flight := False\<rparr>
      in if result_generation r \<noteq> generation w then (False, w)
         else if is_wake_phrase u (result_text r) then (True, w\<lparr>buffered := []\<rparr>)
         else (False, w))"

text \<open>The \<open>while let Ok\<close> loop: every result that has arrived.\<close>

fun handle_results :: "unicode \<Rightarrow> wake_result list \<Rightarrow> 'a whisper_wake \<Rightarrow> bool \<times> 'a whisper_wake" where
  "handle_results u [] w = (False, w)"
| "handle_results u (r # rs) w =
     (let (hit, w) = handle_result u r w; (more, w) = handle_results u rs w in (hit \<or> more, w))"

definition maybe_start_check :: "'a whisper_wake \<Rightarrow> 'a wake_job list \<Rightarrow> 'a whisper_wake \<times> 'a wake_job list" where
  "maybe_start_check w jobs =
     (if since_check w < CHECK_INTERVAL_CHUNKS then (w, jobs)
      else
        let w = w\<lparr>since_check := 0\<rparr>
        in if check_in_flight w then (w, jobs)
           else if jobs = []
           then (w\<lparr>check_in_flight := True\<rparr>, [\<lparr>job_generation = generation w, job_samples = buffered w\<rparr>])
           else (w, jobs))"

definition trim_buffer_if_over_cap :: "'a whisper_wake \<Rightarrow> 'a whisper_wake" where
  "trim_buffer_if_over_cap w =
     (let cap = MAX_BUFFER_CHUNKS * CHUNK_SAMPLES
      in if cap < length (buffered w) then w\<lparr>buffered := drop (length (buffered w) - cap) (buffered w)\<rparr> else w)"

definition wake_detect :: "unicode \<Rightarrow> 'a list \<Rightarrow> 'a wake_threads \<Rightarrow> bool \<times> 'a wake_threads" where
  "wake_detect u chunk s =
     (let w = (detector s)\<lparr>buffered := buffered (detector s) @ chunk, since_check := since_check (detector s) + 1\<rparr>;
          (detected, w) = handle_results u (from_worker s) w;
          (w, jobs) = maybe_start_check w (to_worker s);
          w = (if detected then w else trim_buffer_if_over_cap w)
      in (detected, s\<lparr>detector := w, to_worker := jobs, from_worker := []\<rparr>))"

definition wake_reset :: "'a wake_threads \<Rightarrow> 'a wake_threads" where
  "wake_reset s =
     s\<lparr>detector := (detector s)\<lparr>buffered := [], since_check := 0,
        generation := generation (detector s) + 1, check_in_flight := False\<rparr>\<rparr>"

section \<open>The worker thread\<close>

definition worker_take :: "'a wake_threads \<Rightarrow> 'a wake_threads option" where
  "worker_take s =
     (case (working s, to_worker s) of
        (None, j # js) \<Rightarrow> Some (s\<lparr>working := Some j, to_worker := js\<rparr>)
      | _ \<Rightarrow> None)"

definition transcript_or_empty :: "('a list \<Rightarrow> 'e + string) \<Rightarrow> 'a list \<Rightarrow> string" where
  "transcript_or_empty transcribe samples = (case transcribe samples of Inr t \<Rightarrow> t | Inl _ \<Rightarrow> [])"

definition worker_finish :: "('a list \<Rightarrow> 'e + string) \<Rightarrow> 'a wake_threads \<Rightarrow> 'a wake_threads option" where
  "worker_finish transcribe s =
     (case working s of
        Some j \<Rightarrow> Some (s\<lparr>working := None, from_worker := from_worker s @
          [\<lparr>result_generation = job_generation j, result_text = transcript_or_empty transcribe (job_samples j)\<rparr>]\<rparr>)
      | None \<Rightarrow> None)"

section \<open>Runs\<close>

datatype 'a wake_label = Feed "'a list" | ResetCall | TakeJob | FinishJob

fun wake_do :: "unicode \<Rightarrow> ('a list \<Rightarrow> 'e + string) \<Rightarrow> 'a wake_label \<Rightarrow> 'a wake_threads \<Rightarrow> (bool \<times> 'a wake_threads) option" where
  "wake_do u transcribe (Feed chunk) s = Some (wake_detect u chunk s)"
| "wake_do u transcribe ResetCall s = Some (False, wake_reset s)"
| "wake_do u transcribe TakeJob s = map_option (Pair False) (worker_take s)"
| "wake_do u transcribe FinishJob s = map_option (Pair False) (worker_finish transcribe s)"

text \<open>The runs from a new detector; the trace has its newest step first.\<close>

inductive wake_run :: "unicode \<Rightarrow> ('a list \<Rightarrow> 'e + string) \<Rightarrow> 'a wake_label list \<Rightarrow> 'a wake_threads \<Rightarrow> bool"
  for u transcribe where
  wake_start: "wake_run u transcribe [] whisper_wake_new"
| wake_next: "wake_run u transcribe tr s \<Longrightarrow> wake_do u transcribe l s = Some (b, s') \<Longrightarrow>
    wake_run u transcribe (l # tr) s'"

fun wake_exec :: "unicode \<Rightarrow> ('a list \<Rightarrow> 'e + string) \<Rightarrow> 'a wake_label list \<Rightarrow> 'a wake_threads option" where
  "wake_exec u transcribe [] = Some whisper_wake_new"
| "wake_exec u transcribe (l # tr) =
     (case wake_exec u transcribe tr of
        None \<Rightarrow> None
      | Some s \<Rightarrow> map_option snd (wake_do u transcribe l s))"

lemma wake_exec_run: "wake_exec u transcribe tr = Some s \<Longrightarrow> wake_run u transcribe tr s"
  by (induction tr arbitrary: s) (auto intro: wake_run.intros split: option.splits)

text \<open>The audio fed since the last reset.\<close>

fun fed_since_reset :: "'a wake_label list \<Rightarrow> 'a list" where
  "fed_since_reset [] = []"
| "fed_since_reset (Feed chunk # tr) = fed_since_reset tr @ chunk"
| "fed_since_reset (ResetCall # tr) = []"
| "fed_since_reset (_ # tr) = fed_since_reset tr"

section \<open>Invariant\<close>

text \<open>
  Nothing in the pipeline is of a later generation, and what is of the current one is
  audio fed since the last reset, or the transcript of such audio.
\<close>

definition job_ok :: "nat \<Rightarrow> 'a list \<Rightarrow> 'a wake_job \<Rightarrow> bool" where
  "job_ok g audio j \<longleftrightarrow> job_generation j \<le> g \<and> (job_generation j = g \<longrightarrow> sublist (job_samples j) audio)"

definition wake_result_ok :: "('a list \<Rightarrow> 'e + string) \<Rightarrow> nat \<Rightarrow> 'a list \<Rightarrow> wake_result \<Rightarrow> bool" where
  "wake_result_ok transcribe g audio r \<longleftrightarrow> result_generation r \<le> g \<and>
     (result_generation r = g \<longrightarrow>
       (\<exists>s. sublist s audio \<and> result_text r = transcript_or_empty transcribe s))"

definition wake_inv :: "('a list \<Rightarrow> 'e + string) \<Rightarrow> 'a list \<Rightarrow> 'a wake_threads \<Rightarrow> bool" where
  "wake_inv transcribe audio s \<longleftrightarrow>
     (let g = generation (detector s)
      in suffix (buffered (detector s)) audio \<and>
         length (buffered (detector s)) \<le> MAX_BUFFER_CHUNKS * CHUNK_SAMPLES \<and>
         length (to_worker s) \<le> 1 \<and>
         (\<forall>j \<in> set (to_worker s) \<union> set_option (working s). job_ok g audio j) \<and>
         (\<forall>r \<in> set (from_worker s). wake_result_ok transcribe g audio r))"

lemma sublist_extend: "sublist xs ys \<Longrightarrow> sublist xs (ys @ zs)"
  by (meson sublist_append_rightI sublist_order.order_trans)

lemma job_ok_extend: "job_ok g audio j \<Longrightarrow> job_ok g (audio @ chunk) j"
  by (simp add: job_ok_def sublist_extend)

lemma wake_result_ok_extend: "wake_result_ok transcribe g audio r \<Longrightarrow> wake_result_ok transcribe g (audio @ chunk) r"
  by (auto simp: wake_result_ok_def dest: sublist_extend)

lemma handle_result_keeps:
  "generation (snd (handle_result u r w)) = generation w"
  "buffered (snd (handle_result u r w)) = (if fst (handle_result u r w) then [] else buffered w)"
  "fst (handle_result u r w) \<longleftrightarrow> result_generation r = generation w \<and> is_wake_phrase u (result_text r)"
  by (simp_all add: handle_result_def Let_def)

lemma handle_results_keeps:
  "generation (snd (handle_results u rs w)) = generation w \<and>
   buffered (snd (handle_results u rs w)) = (if fst (handle_results u rs w) then [] else buffered w) \<and>
   (fst (handle_results u rs w) \<longleftrightarrow>
     (\<exists>r \<in> set rs. result_generation r = generation w \<and> is_wake_phrase u (result_text r)))"
proof (induction rs arbitrary: w)
  case (Cons r rs)
  show ?case
    using Cons.IH [of "snd (handle_result u r w)"] handle_result_keeps [of u r w]
    by (simp add: case_prod_unfold Let_def) blast
qed simp

lemma maybe_start_check_keeps:
  "generation (fst (maybe_start_check w jobs)) = generation w"
  "buffered (fst (maybe_start_check w jobs)) = buffered w"
  "length jobs \<le> 1 \<Longrightarrow> length (snd (maybe_start_check w jobs)) \<le> 1"
  "j \<in> set (snd (maybe_start_check w jobs)) \<Longrightarrow>
     j \<in> set jobs \<or> j = \<lparr>job_generation = generation w, job_samples = buffered w\<rparr>"
  by (auto simp: maybe_start_check_def Let_def split: if_splits)

lemma trim_keeps:
  "generation (trim_buffer_if_over_cap w) = generation w"
  "buffered (trim_buffer_if_over_cap w) = take_last (MAX_BUFFER_CHUNKS * CHUNK_SAMPLES) (buffered w)"
  by (simp_all add: trim_buffer_if_over_cap_def take_last_def Let_def)

lemma suffix_take_last: "suffix xs ys \<Longrightarrow> suffix (take_last n xs) ys"
  unfolding take_last_def by (meson suffix_drop suffix_order.order_trans)

lemma wake_detect_inv:
  assumes "wake_inv transcribe audio s"
  shows "wake_inv transcribe (audio @ chunk) (snd (wake_detect u chunk s))"
proof -
  let ?w0 = "(detector s)\<lparr>buffered := buffered (detector s) @ chunk, since_check := since_check (detector s) + 1\<rparr>"
  define r where "r = handle_results u (from_worker s) ?w0"
  define m where "m = maybe_start_check (snd r) (to_worker s)"
  define w where "w = (if fst r then fst m else trim_buffer_if_over_cap (fst m))"
  have det: "snd (wake_detect u chunk s) = s\<lparr>detector := w, to_worker := snd m, from_worker := []\<rparr>"
    by (simp add: wake_detect_def Let_def case_prod_unfold r_def m_def w_def)
  have g: "generation (snd r) = generation (detector s)"
    and b: "buffered (snd r) = (if fst r then [] else buffered (detector s) @ chunk)"
    using conjunct1 [OF handle_results_keeps [of u "from_worker s" ?w0, folded r_def]]
      conjunct1 [OF conjunct2 [OF handle_results_keeps [of u "from_worker s" ?w0, folded r_def]]]
    by simp_all
  have suf: "suffix (buffered (detector s) @ chunk) (audio @ chunk)"
    using assms by (simp add: wake_inv_def Let_def)
  then have sub: "suffix (buffered (snd r)) (audio @ chunk)" using b by simp
  have w: "generation w = generation (detector s)" "suffix (buffered w) (audio @ chunk)"
    "length (buffered w) \<le> MAX_BUFFER_CHUNKS * CHUNK_SAMPLES"
    using sub b g by (auto simp: w_def m_def maybe_start_check_keeps trim_keeps suffix_take_last)
  have jobs: "job_ok (generation (detector s)) (audio @ chunk) j" if "j \<in> set (snd m) \<union> set_option (working s)" for j
  proof -
    have "j \<in> set (to_worker s) \<union> set_option (working s) \<or>
        j = \<lparr>job_generation = generation (snd r), job_samples = buffered (snd r)\<rparr>"
      using that maybe_start_check_keeps(4) [of j "snd r" "to_worker s"] by (auto simp: m_def)
    then show ?thesis
    proof
      assume "j \<in> set (to_worker s) \<union> set_option (working s)"
      then show ?thesis using assms job_ok_extend by (simp add: wake_inv_def Let_def) blast
    next
      assume "j = \<lparr>job_generation = generation (snd r), job_samples = buffered (snd r)\<rparr>"
      then show ?thesis using sub g by (simp add: job_ok_def)
    qed
  qed
  have len: "length (snd m) \<le> 1"
    using assms maybe_start_check_keeps(3) [of "to_worker s" "snd r"] by (simp add: m_def wake_inv_def Let_def)
  show ?thesis using w jobs len by (simp add: det wake_inv_def Let_def)
qed

lemma wake_do_inv:
  assumes "wake_inv transcribe (fed_since_reset tr) s" and "wake_do u transcribe l s = Some (b, s')"
  shows "wake_inv transcribe (fed_since_reset (l # tr)) s'"
proof (cases l)
  case (Feed chunk)
  then have "s' = snd (wake_detect u chunk s)" using assms(2) by (metis option.inject snd_conv wake_do.simps(1))
  with Feed wake_detect_inv [OF assms(1)] show ?thesis by simp
next
  case ResetCall
  then have s': "s' = wake_reset s" using assms(2) by simp
  have later: "job_ok (Suc g) [] j" if "job_ok g audio j" for g audio and j :: "'a wake_job"
    using that by (auto simp: job_ok_def)
  have "wake_result_ok transcribe (Suc g) [] r" if "wake_result_ok transcribe g audio r" for g audio r
    using that by (auto simp: wake_result_ok_def)
  with later assms(1) show ?thesis by (simp add: s' ResetCall wake_inv_def wake_reset_def Let_def) blast
next
  case TakeJob
  then show ?thesis
    using assms by (auto simp: wake_inv_def worker_take_def Let_def split: option.splits list.splits)
next
  case FinishJob
  then obtain j where j: "working s = Some j" and s': "s' = s\<lparr>working := None, from_worker := from_worker s @
      [\<lparr>result_generation = job_generation j, result_text = transcript_or_empty transcribe (job_samples j)\<rparr>]\<rparr>"
    using assms(2) by (auto simp: worker_finish_def split: option.splits)
  have "wake_result_ok transcribe (generation (detector s)) (fed_since_reset tr)
      \<lparr>result_generation = job_generation j, result_text = transcript_or_empty transcribe (job_samples j)\<rparr>"
    using assms(1) j by (auto simp: wake_inv_def Let_def job_ok_def wake_result_ok_def)
  with assms(1) show ?thesis by (auto simp: s' FinishJob wake_inv_def Let_def)
qed

lemma wake_run_inv: "wake_run u transcribe tr s \<Longrightarrow> wake_inv transcribe (fed_since_reset tr) s"
proof (induction rule: wake_run.induct)
  case wake_start
  show ?case by (simp add: wake_inv_def whisper_wake_new_def)
next
  case (wake_next tr s l b s')
  then show ?case by (blast intro: wake_do_inv)
qed

lemmas wake_ops =
  wake_detect_def wake_reset_def worker_take_def worker_finish_def maybe_start_check_def
  trim_buffer_if_over_cap_def handle_result_def whisper_wake_new_def CHECK_INTERVAL_CHUNKS_def
  MAX_BUFFER_CHUNKS_def CHUNK_SAMPLES_def transcript_or_empty_def

section \<open>Properties\<close>

text \<open>
  C30. However the audio thread and the transcribing thread interleave, the detector fires only
  on a transcript of audio that was fed, in one piece, since the last reset: a check that
  was still running when the phrase was abandoned can never wake the assistant. Its buffer
  never holds more than the configured two seconds.
\<close>

theorem no_stale_detection:
  assumes "wake_run u transcribe tr s" and "wake_do u transcribe (Feed chunk) s = Some (detected, s')"
  shows "(detected \<longrightarrow> (\<exists>samples. sublist samples (fed_since_reset tr) \<and>
      is_wake_phrase u (transcript_or_empty transcribe samples))) \<and>
    length (buffered (detector s')) \<le> MAX_BUFFER_CHUNKS * CHUNK_SAMPLES"
proof -
  let ?w0 = "(detector s)\<lparr>buffered := buffered (detector s) @ chunk, since_check := since_check (detector s) + 1\<rparr>"
  note inv = wake_run_inv [OF assms(1)]
  have d: "detected = fst (handle_results u (from_worker s) ?w0)"
    using assms(2) by (auto simp: wake_detect_def Let_def case_prod_unfold)
  have "wake_inv transcribe (fed_since_reset (Feed chunk # tr)) s'"
    by (rule wake_do_inv [OF inv assms(2)])
  then have "length (buffered (detector s')) \<le> MAX_BUFFER_CHUNKS * CHUNK_SAMPLES"
    by (simp add: wake_inv_def Let_def)
  moreover have "\<exists>samples. sublist samples (fed_since_reset tr) \<and>
      is_wake_phrase u (transcript_or_empty transcribe samples)" if fired: "detected"
  proof -
    obtain r where r: "r \<in> set (from_worker s)" "result_generation r = generation (detector s)"
      "is_wake_phrase u (result_text r)"
      using fired d conjunct2 [OF conjunct2 [OF handle_results_keeps [of u "from_worker s" ?w0]]] by auto
    then have "wake_result_ok transcribe (generation (detector s)) (fed_since_reset tr) r"
      using inv by (auto simp: wake_inv_def Let_def)
    with r show ?thesis by (auto simp: wake_result_ok_def)
  qed
  ultimately show ?thesis by blast
qed

text \<open>A phrase heard over three chunks: the check starts on the third and its result comes with the fourth.\<close>

definition heard_phrase :: "nat wake_label list" where
  "heard_phrase = [FinishJob, TakeJob, Feed [3], Feed [2], Feed [1]]"

definition says_wake :: "nat list \<Rightarrow> nat + string" where
  "says_wake samples = (if samples = [1, 2, 3] then Inr ''Oye, Nala'' else Inl 0)"

theorem no_stale_detection_witness:
  "\<exists>s s'. wake_run ascii says_wake heard_phrase s \<and> wake_do ascii says_wake (Feed [4]) s = Some (True, s') \<and>
    (\<exists>samples. sublist samples [1, 2, 3] \<and> is_wake_phrase ascii (transcript_or_empty says_wake samples))"
proof -
  have oye: "is_wake_phrase ascii ''Oye, Nala''" by code_simp
  have "case wake_exec ascii says_wake heard_phrase of None \<Rightarrow> False | Some s \<Rightarrow> fst (wake_detect ascii [4] s)"
    by (simp add: wake_ops heard_phrase_def says_wake_def oye)
  then obtain s where run: "wake_exec ascii says_wake heard_phrase = Some s"
    and fires: "fst (wake_detect ascii [4] s)"
    by (auto split: option.splits)
  then have do: "wake_do ascii says_wake (Feed [4]) s = Some (True, snd (wake_detect ascii [4] s))"
    by (simp add: prod_eq_iff)
  have "fed_since_reset heard_phrase = [1, 2, 3]" by (simp add: heard_phrase_def)
  with no_stale_detection [OF wake_exec_run [OF run] do] run do wake_exec_run [OF run] show ?thesis by auto
qed

text \<open>
  The documentation of the channel promises at most one check at a time. A reset forgets the
  check in flight: the worker is busy with the abandoned one while the next waits.
\<close>

definition restarted_check :: "nat wake_label list" where
  "restarted_check = [Feed [6], Feed [5], Feed [4], ResetCall, TakeJob, Feed [3], Feed [2], Feed [1]]"

lemma reset_forgets_check_in_flight:
  "\<exists>s. wake_run ascii says_wake restarted_check s \<and> working s \<noteq> None \<and> to_worker s \<noteq> []"
proof -
  have "case wake_exec ascii says_wake restarted_check of
      None \<Rightarrow> False | Some s \<Rightarrow> working s \<noteq> None \<and> to_worker s \<noteq> []"
    by (simp add: wake_ops restarted_check_def says_wake_def)
  then obtain s where "wake_exec ascii says_wake restarted_check = Some s" "working s \<noteq> None" "to_worker s \<noteq> []"
    by (auto split: option.splits)
  then show ?thesis using wake_exec_run by blast
qed

end
