(* ===== verification/Narration.thy ===== *)
theory Narration
  imports Protocol
begin

text \<open>
  What the voice service says while a turn runs: the template narrator of
  \<open>apps/voice/src/narration.rs\<close> behind the trait of \<open>narrator.rs\<close>, and the event sink of
  \<open>speaking_sink.rs\<close>. Phrases are their UTF-8 bytes. A map entry that is absent counts as zero,
  as \<open>or_insert(0)\<close> makes it.
\<close>

section \<open>Phrases\<close>

definition a_acute :: string where "a_acute = [CHR 0xC3, CHR 0xA1]"
definition e_acute :: string where "e_acute = [CHR 0xC3, CHR 0xA9]"
definition o_acute :: string where "o_acute = [CHR 0xC3, CHR 0xB3]"

definition THINKING :: "string list" where
  "THINKING =
     [''D'' @ e_acute @ ''jame pensar un momento.'',
      ''Estoy revisando la mejor forma de hacerlo.'',
      ''Un segundo, estoy evaluando los pasos.'',
      ''Dame un momento para decidir el siguiente paso.'']"

definition VERIFYING :: "string list" where
  "VERIFYING =
     [''D'' @ e_acute @ ''jame confirmar que sali'' @ o_acute @ '' bien.'',
      ''Voy a revisar que el resultado sea el esperado.'']"

definition RETRYING :: "string list" where
  "RETRYING =
     [''Eso no funcion'' @ o_acute @ '', d'' @ e_acute @ ''jame intentar de otra forma.'',
      ''No sali'' @ o_acute @ '' como esperaba, voy a probar otra cosa.'']"

definition TOOL_ERROR :: "string list" where
  "TOOL_ERROR =
     [''Eso fall'' @ o_acute @ '', voy a intentar otra cosa.'',
      ''Algo sali'' @ o_acute @ '' mal ah'' @ [CHR 0xC3, CHR 0xAD] @ '', dejame ajustar el enfoque.'']"

definition TOOL_GENERIC :: "string list" where
  "TOOL_GENERIC = [''Voy a usar una herramienta.'', ''Dame un segundo.'']"

definition tool_phrase_bank :: "string \<Rightarrow> string list" where
  "tool_phrase_bank n =
     (if n = ''execute_command'' then [''Voy a ejecutar un comando.'', ''Voy a correr algo en la terminal.'']
      else TOOL_GENERIC)"

section \<open>The narrator\<close>

record template_narrator =
  counters :: "string \<Rightarrow> nat"
  last_key :: "string option"

definition template_narrator_new :: template_narrator where
  "template_narrator_new = \<lparr>counters = (\<lambda>_. 0), last_key = None\<rparr>"

definition pick :: "string \<Rightarrow> string list \<Rightarrow> template_narrator \<Rightarrow> string option \<times> template_narrator" where
  "pick key bank n =
     (if bank = [] \<or> last_key n = Some key then (None, n)
      else (Some (bank ! (counters n key mod length bank)),
            n\<lparr>counters := (counters n)(key := counters n key + 1), last_key := Some key\<rparr>))"

definition narrate :: "event \<Rightarrow> template_narrator \<Rightarrow> string option \<times> template_narrator" where
  "narrate ev n =
     (case ev of
        StateChanged _ Thinking \<Rightarrow> pick ''state:thinking'' THINKING n
      | StateChanged _ Verifying \<Rightarrow> pick ''state:verifying'' VERIFYING n
      | StateChanged _ _ \<Rightarrow> (None, n)
      | ToolStarted _ _ nm _ \<Rightarrow> pick (''tool:'' @ nm) (tool_phrase_bank nm) n
      | Retrying _ _ _ \<Rightarrow> pick ''retry'' RETRYING n
      | LlmFailed _ _ _ _ _ _ _ \<Rightarrow> (None, n)
      | ToolCompleted _ _ _ _ out _ _ _ \<Rightarrow>
          if starts_with ''ERROR:'' out then pick ''tool_error'' TOOL_ERROR n else (None, n)
      | _ \<Rightarrow> (None, n))"

text \<open>\<open>SpeakingEventSink::emit\<close>: the phrases said and the events forwarded to the inner sink.\<close>

record speaking_sink =
  sink_narrator :: template_narrator
  sink_said :: "string list"
  sink_inner :: "event list"

definition speaking_emit :: "event \<Rightarrow> speaking_sink \<Rightarrow> speaking_sink" where
  "speaking_emit ev s =
     (let (phrase, n) = narrate ev (sink_narrator s)
      in s\<lparr>sink_narrator := n,
          sink_said := sink_said s @ (case phrase of Some p \<Rightarrow> [p] | None \<Rightarrow> []),
          sink_inner := sink_inner s @ [ev]\<rparr>)"

section \<open>Categories\<close>

text \<open>The category an event is narrated under, with its bank.\<close>

definition category :: "event \<Rightarrow> (string \<times> string list) option" where
  "category ev =
     (case ev of
        StateChanged _ Thinking \<Rightarrow> Some (''state:thinking'', THINKING)
      | StateChanged _ Verifying \<Rightarrow> Some (''state:verifying'', VERIFYING)
      | ToolStarted _ _ nm _ \<Rightarrow> Some (''tool:'' @ nm, tool_phrase_bank nm)
      | Retrying _ _ _ \<Rightarrow> Some (''retry'', RETRYING)
      | ToolCompleted _ _ _ _ out _ _ _ \<Rightarrow> if starts_with ''ERROR:'' out then Some (''tool_error'', TOOL_ERROR) else None
      | _ \<Rightarrow> None)"

lemma narrate_category:
  "narrate ev n = (case category ev of None \<Rightarrow> (None, n) | Some (key, bank) \<Rightarrow> pick key bank n)"
  by (auto simp: narrate_def category_def split: event.splits turn_state.splits)

lemma bank_nonempty: "category ev = Some (key, bank) \<Longrightarrow> bank \<noteq> []"
  by (auto simp: category_def THINKING_def VERIFYING_def RETRYING_def TOOL_ERROR_def TOOL_GENERIC_def
      tool_phrase_bank_def split: event.splits turn_state.splits if_splits)

definition bank_of :: "string \<Rightarrow> string list" where
  "bank_of key =
     (if key = ''state:thinking'' then THINKING
      else if key = ''state:verifying'' then VERIFYING
      else if key = ''retry'' then RETRYING
      else if key = ''tool_error'' then TOOL_ERROR
      else tool_phrase_bank (drop 5 key))"

lemma bank_of_simps [simp]:
  "bank_of ''state:thinking'' = THINKING" "bank_of ''state:verifying'' = VERIFYING"
  "bank_of ''retry'' = RETRYING" "bank_of ''tool_error'' = TOOL_ERROR"
  by (simp_all add: bank_of_def)

lemma bank_of_tool [simp]:
  "bank_of (''tool:'' @ nm) = tool_phrase_bank nm"
  by (simp add: bank_of_def)

lemma category_bank: "category ev = Some (key, bank) \<Longrightarrow> bank = bank_of key"
  using bank_of_simps bank_of_tool
  by (cases ev) (auto simp only: category_def event.case turn_state.case option.inject option.distinct prod.inject
      split: turn_state.splits if_splits)

section \<open>Narration of a stream of events\<close>

text \<open>
  The categories that are spoken: those of the stream with immediate repetitions removed;
  the phrase of each is its bank's entry for the times the category was spoken before.
\<close>

definition spoken_keys :: "event list \<Rightarrow> string list" where
  "spoken_keys evs = remdups_adj (map fst (List.map_filter category evs))"

definition phrase_at :: "string list \<Rightarrow> nat \<Rightarrow> string" where
  "phrase_at keys i = bank_of (keys ! i) ! (count_list (take i keys) (keys ! i) mod length (bank_of (keys ! i)))"

definition phrases :: "string list \<Rightarrow> string list" where
  "phrases keys = map (phrase_at keys) [0..<length keys]"

lemma phrases_snoc:
  "phrases (keys @ [k]) = phrases keys @ [bank_of k ! (count_list keys k mod length (bank_of k))]"
  by (simp add: phrases_def phrase_at_def nth_append)

lemma remdups_adj_snoc:
  "remdups_adj (xs @ [x]) = (if xs \<noteq> [] \<and> last xs = x then remdups_adj xs else remdups_adj xs @ [x])"
  by (induction xs rule: remdups_adj.induct) auto

lemma speaking_emits:
  "let s = fold speaking_emit evs \<lparr>sink_narrator = template_narrator_new, sink_said = [], sink_inner = []\<rparr>;
       keys = spoken_keys evs
   in sink_said s = phrases keys \<and> sink_inner s = evs \<and>
      counters (sink_narrator s) = count_list keys \<and>
      last_key (sink_narrator s) = (if keys = [] then None else Some (last keys))"
proof (induction evs rule: rev_induct)
  case Nil
  show ?case
    by (simp add: spoken_keys_def template_narrator_new_def phrases_def map_filter_def fun_eq_iff)
next
  case (snoc ev evs)
  show ?case
  proof (cases "category ev")
    case None
    then have "spoken_keys (evs @ [ev]) = spoken_keys evs" by (simp add: spoken_keys_def map_filter_def)
    with snoc None show ?thesis
      by (simp add: speaking_emit_def narrate_category Let_def)
  next
    case (Some c)
    then obtain key where c: "category ev = Some (key, bank_of key)" using category_bank by (cases c) auto
    let ?ks = "map fst (List.map_filter category evs)"
    have keys: "spoken_keys (evs @ [ev]) =
        (if ?ks \<noteq> [] \<and> last ?ks = key then spoken_keys evs else spoken_keys evs @ [key])"
      using c by (simp add: spoken_keys_def map_filter_def remdups_adj_snoc)
    have last: "spoken_keys evs \<noteq> [] \<and> last (spoken_keys evs) = key \<longleftrightarrow> ?ks \<noteq> [] \<and> last ?ks = key"
      by (simp add: spoken_keys_def)
    show ?thesis
      using snoc c keys last bank_nonempty [OF c]
      by (auto simp: speaking_emit_def narrate_category pick_def Let_def phrases_snoc fun_eq_iff split: if_splits)
  qed
qed

text \<open>
  What is said during a turn: the categories of its events, without immediate repetitions,
  each in the phrase its bank has next in rotation; and the inner sink receives every event,
  in order, whatever is said. In particular no category is spoken twice in a row.
\<close>

theorem narration_spec:
  "sink_said (fold speaking_emit evs \<lparr>sink_narrator = template_narrator_new, sink_said = [], sink_inner = []\<rparr>) =
     phrases (spoken_keys evs) \<and>
   sink_inner (fold speaking_emit evs \<lparr>sink_narrator = template_narrator_new, sink_said = [], sink_inner = []\<rparr>) = evs \<and>
   distinct_adj (spoken_keys evs)"
  using speaking_emits [of evs] by (simp add: Let_def spoken_keys_def distinct_adj_remdups_adj)

text \<open>
  A failed device tool reports \<open>ERROR (Timeout): ...\<close>, which is not the prefix the narrator
  looks for: the failure is not narrated.
\<close>

lemma device_errors_are_silent:
  "category (ToolCompleted t i nm d (''ERROR ('' @ show_error_code c @ rest) k args b) = None"
  by (simp add: category_def starts_with_def)

end
