(* ===== verification/Pcm.thy ===== *)
theory Pcm
  imports Rust_Text
begin

text \<open>
  Streamed speech audio of \<open>crates/tts\<close>: \<open>pcm.rs\<close> (decoding a byte stream into 16-bit samples chunk
  by chunk), the WAV header and the streaming request of \<open>chatterbox/http.rs\<close>, and the Piper
  process of \<open>piper/speech.rs\<close>. A sample is its 16 bits. A reader is the list of what its reads
  give, and a channel the list of what was sent into it; the receiver may be gone before a send.
\<close>

section \<open>Samples\<close>

type_synonym u8 = "8 word"
type_synonym i16 = "16 word"

datatype speech_error =
    SpeechBackend string
  | SpeechUnavailable string
  | SpeechSynthesis string
  | SpeechPlayback string
  | SpeechConfiguration string

fun show_speech_error :: "speech_error \<Rightarrow> string" where
  "show_speech_error (SpeechBackend m) = ''TTS backend failed: '' @ m"
| "show_speech_error (SpeechUnavailable m) = ''TTS backend unavailable: '' @ m"
| "show_speech_error (SpeechSynthesis m) = ''TTS synthesis failed: '' @ m"
| "show_speech_error (SpeechPlayback m) = ''TTS playback failed: '' @ m"
| "show_speech_error (SpeechConfiguration m) = ''TTS configuration invalid: '' @ m"

text \<open>
  A stream of samples: its chunks are what the channel delivers, each a list of samples or the
  error that ended it.
\<close>

record ('i, 'e) pcm_stream =
  pcm_rate :: nat
  pcm_channels :: nat
  pcm_chunks :: "('e + 'i list) list"

definition i16_from_le_bytes :: "u8 \<Rightarrow> u8 \<Rightarrow> i16" where
  "i16_from_le_bytes low high = ucast low + 256 * ucast high"

fun bytes_to_samples :: "u8 list \<Rightarrow> u8 option \<Rightarrow> i16 list \<times> u8 option" where
  "bytes_to_samples [] leftover = ([], leftover)"
| "bytes_to_samples (byte # bytes) None = bytes_to_samples bytes (Some byte)"
| "bytes_to_samples (high # bytes) (Some low) =
     (case bytes_to_samples bytes None of (samples, leftover) \<Rightarrow>
        (i16_from_le_bytes low high # samples, leftover))"

definition READ_CHUNK_BYTES :: nat where "READ_CHUNK_BYTES = 8192"

datatype read_result = ReadOk "u8 list" | ReadFailed string

text \<open>
  The loop over a reader; \<open>gone n\<close> says that the receiver has left before the \<open>n\<close>th send. The
  result is what was sent, and whether the loop has ended (it waits when the reads are used up).
\<close>

fun stream_pcm_loop ::
  "string \<Rightarrow> (nat \<Rightarrow> bool) \<Rightarrow> read_result list \<Rightarrow> u8 option \<Rightarrow> bool \<Rightarrow> (speech_error + i16 list) list \<Rightarrow>
     (speech_error + i16 list) list \<times> bool" where
  "stream_pcm_loop context gone [] leftover sent_any sent = (sent, False)"
| "stream_pcm_loop context gone (ReadOk bytes # reads) leftover sent_any sent =
     (if bytes = []
      then (if \<not> sent_any \<and> \<not> gone (length sent)
            then sent @ [Inl (SpeechSynthesis (context @ '' returned an empty audio stream''))] else sent, True)
      else case bytes_to_samples bytes leftover of (samples, leftover) \<Rightarrow>
             if samples = [] then stream_pcm_loop context gone reads leftover sent_any sent
             else if gone (length sent) then (sent, True)
             else stream_pcm_loop context gone reads leftover True (sent @ [Inr samples]))"
| "stream_pcm_loop context gone (ReadFailed e # reads) leftover sent_any sent =
     (if gone (length sent) then sent
      else sent @ [Inl (SpeechSynthesis (context @ '' stream read failed: '' @ e))], True)"

definition stream_pcm_from ::
  "string \<Rightarrow> (nat \<Rightarrow> bool) \<Rightarrow> read_result list \<Rightarrow> (speech_error + i16 list) list \<times> bool" where
  "stream_pcm_from context gone reads = stream_pcm_loop context gone reads None False []"

section \<open>The chunks of a stream do not matter\<close>

lemma bytes_to_samples_append:
  "bytes_to_samples (xs @ ys) leftover =
    (case bytes_to_samples xs leftover of (samples, leftover) \<Rightarrow>
     case bytes_to_samples ys leftover of (samples', leftover) \<Rightarrow> (samples @ samples', leftover))"
  by (induction xs leftover rule: bytes_to_samples.induct) (auto split: prod.split)

lemma bytes_to_samples_spec:
  "length (fst (bytes_to_samples bytes None)) = length bytes div 2 \<and>
   (\<forall>i < length bytes div 2. fst (bytes_to_samples bytes None) ! i = i16_from_le_bytes (bytes ! (2 * i)) (bytes ! (2 * i + 1))) \<and>
   snd (bytes_to_samples bytes None) = (if even (length bytes) then None else Some (last bytes))"
proof (induction "length bytes" arbitrary: bytes rule: less_induct)
  case less
  show ?case
  proof (cases bytes rule: remdups_adj.cases)
    case (3 low high rest)
    then have IH: "length (fst (bytes_to_samples rest None)) = length rest div 2 \<and>
      (\<forall>i < length rest div 2. fst (bytes_to_samples rest None) ! i = i16_from_le_bytes (rest ! (2 * i)) (rest ! (2 * i + 1))) \<and>
      snd (bytes_to_samples rest None) = (if even (length rest) then None else Some (last rest))"
      using less by simp
    have "fst (bytes_to_samples bytes None) ! i = i16_from_le_bytes (bytes ! (2 * i)) (bytes ! (2 * i + 1))"
      if "i < length bytes div 2" for i
      using that IH 3 by (cases i) (auto split: prod.split)
    then show ?thesis using IH 3 by (auto split: prod.splits)
  qed simp_all
qed

lemma stream_pcm_loop_chunks:
  assumes "[] \<notin> set chunks"
  shows "\<exists>blocks. [] \<notin> set blocks \<and> concat blocks = fst (bytes_to_samples (concat chunks) leftover) \<and>
    stream_pcm_loop context (\<lambda>_. False) (map ReadOk chunks @ ReadOk [] # rest) leftover sent_any sent =
      (sent @ map Inr blocks @ (if sent_any \<or> blocks \<noteq> [] then []
         else [Inl (SpeechSynthesis (context @ '' returned an empty audio stream''))]), True)"
  using assms
proof (induction chunks arbitrary: leftover sent_any sent)
  case Nil
  then show ?case by (intro exI [of _ "[]"]) auto
next
  case (Cons bytes chunks)
  obtain samples l where s: "bytes_to_samples bytes leftover = (samples, l)" by (cases "bytes_to_samples bytes leftover")
  obtain blocks where b: "[] \<notin> set blocks" "concat blocks = fst (bytes_to_samples (concat chunks) l)"
    "stream_pcm_loop context (\<lambda>_. False) (map ReadOk chunks @ ReadOk [] # rest) l (sent_any \<or> samples \<noteq> [])
        (sent @ (if samples = [] then [] else [Inr samples])) =
      (sent @ (if samples = [] then [] else [Inr samples]) @ map Inr blocks @
        (if sent_any \<or> samples \<noteq> [] \<or> blocks \<noteq> [] then []
         else [Inl (SpeechSynthesis (context @ '' returned an empty audio stream''))]), True)"
    using Cons.IH [of l "sent_any \<or> samples \<noteq> []" "sent @ (if samples = [] then [] else [Inr samples])"] Cons.prems
    by auto
  then show ?case using Cons.prems s
    by (intro exI [of _ "if samples = [] then blocks else samples # blocks"])
      (auto simp: bytes_to_samples_append split: prod.splits if_splits)
qed

text \<open>
  However the audio bytes of a stream are split into reads, the receiver gets the same samples: the
  little-endian pairs of all the bytes, in order and in non-empty chunks, with an odd last byte
  dropped, and an error exactly when there is not a single sample.
\<close>

theorem pcm_stream_ignores_read_boundaries:
  assumes "\<forall>n. \<not> gone n" and "[] \<notin> set chunks"
  shows "\<exists>blocks. [] \<notin> set blocks \<and> length (concat blocks) = length (concat chunks) div 2 \<and>
    (\<forall>i < length (concat chunks) div 2.
       concat blocks ! i = i16_from_le_bytes (concat chunks ! (2 * i)) (concat chunks ! (2 * i + 1))) \<and>
    stream_pcm_from context gone (map ReadOk chunks @ [ReadOk []]) =
      (map Inr blocks @ (if length (concat chunks) < 2
         then [Inl (SpeechSynthesis (context @ '' returned an empty audio stream''))] else []), True)"
proof -
  have "gone = (\<lambda>_. False)" using assms(1) by auto
  then obtain blocks where b: "[] \<notin> set blocks" "concat blocks = fst (bytes_to_samples (concat chunks) None)"
    "stream_pcm_from context gone (map ReadOk chunks @ [ReadOk []]) =
      (map Inr blocks @ (if blocks \<noteq> [] then []
         else [Inl (SpeechSynthesis (context @ '' returned an empty audio stream''))]), True)"
    using stream_pcm_loop_chunks [OF assms(2), of None "context" "[]" False "[]"] by (auto simp: stream_pcm_from_def)
  have "blocks = [] \<longleftrightarrow> concat blocks = []" using b(1) by (cases blocks) auto
  also have "\<dots> \<longleftrightarrow> length (concat chunks) < 2"
    using bytes_to_samples_spec [of "concat chunks"] b(2) by (metis div_eq_0_iff length_0_conv zero_neq_numeral)
  finally show ?thesis using b bytes_to_samples_spec [of "concat chunks"] by (intro exI [of _ blocks]) auto
qed

theorem pcm_stream_ignores_read_boundaries_witness:
  "\<exists>blocks. length (concat blocks) = 1 \<and>
    stream_pcm_from ''Piper'' (\<lambda>_. False) (map ReadOk [[1], [2, 3 :: u8]] @ [ReadOk []]) = (map Inr blocks, True)"
  using pcm_stream_ignores_read_boundaries [of "\<lambda>_. False" "[[1], [2, 3]]" "''Piper''"] by auto

end
