(* ===== verification/Voice_Session.thy ===== *)
theory Voice_Session
  imports Nala_Server Narration "HOL-Library.Sublist" Pcm
begin

text \<open>
  The voice service: the outbox of audio clips and the persistent session of
  \<open>apps/voice/src/session.rs\<close>, and the loop that serves one phone of
  \<open>apps/voice/src/audio_server.rs\<close> with the codec checks of \<open>wav.rs\<close>. Instants are nanoseconds;
  the readings one operation makes of the clock while it holds the outbox's lock count as one.
  A clip is a value of the type \<open>'b\<close>; the WAV library, the speech synthesizer, the
  transcriber, the clock and the connection to Nala are parameters.
\<close>

section \<open>The outbox\<close>

definition CLIP_TTL :: nat where
  "CLIP_TTL = 5 * 60 * 1000000000"

definition MAX_CLIPS :: nat where
  "MAX_CLIPS = 32"

type_synonym 'b outbox = "(nat \<times> 'b) list"

definition is_expired :: "nat \<Rightarrow> nat \<times> 'b \<Rightarrow> bool" where
  "is_expired now c \<longleftrightarrow> CLIP_TTL < now - fst c"

definition purge_expired :: "nat \<Rightarrow> 'b outbox \<Rightarrow> 'b outbox" where
  "purge_expired now clips = dropWhile (is_expired now) clips"

definition outbox_push :: "nat \<Rightarrow> 'b \<Rightarrow> 'b outbox \<Rightarrow> 'b outbox" where
  "outbox_push now clip clips = take_last MAX_CLIPS (purge_expired now clips @ [(now, clip)])"

definition outbox_push_front :: "nat \<Rightarrow> 'b \<Rightarrow> 'b outbox \<Rightarrow> 'b outbox" where
  "outbox_push_front now clip clips = (now, clip) # clips"

definition outbox_try_pop :: "nat \<Rightarrow> 'b outbox \<Rightarrow> 'b option \<times> 'b outbox" where
  "outbox_try_pop now clips =
     (case purge_expired now clips of
        [] \<Rightarrow> (None, [])
      | c # rest \<Rightarrow> (Some (snd c), rest))"

text \<open>
  One pass of the loop of \<open>pop_blocking\<close>: a clip, the end of the wait, or another wait on the
  condition variable.
\<close>

datatype 'b pop_pass = Popped 'b | TimedOut | WaitAgain

definition outbox_pop_pass :: "nat \<Rightarrow> nat \<Rightarrow> nat \<Rightarrow> 'b outbox \<Rightarrow> 'b pop_pass \<times> 'b outbox" where
  "outbox_pop_pass deadline now later clips =
     (case outbox_try_pop now clips of
        (Some clip, rest) \<Rightarrow> (Popped clip, rest)
      | (None, rest) \<Rightarrow> (if deadline \<le> later then TimedOut else WaitAgain, rest))"

text \<open>
  The operations on the shared outbox in the order they take its lock, each with the clock
  reading it makes under the lock; the result is what the pops returned.
\<close>

datatype 'b outbox_op = PushOp 'b | PushFrontOp 'b | PopOp

fun outbox_run :: "(nat \<times> 'b outbox_op) list \<Rightarrow> 'b outbox \<Rightarrow> 'b list \<times> 'b outbox" where
  "outbox_run [] clips = ([], clips)"
| "outbox_run ((now, PushOp clip) # ops) clips = outbox_run ops (outbox_push now clip clips)"
| "outbox_run ((now, PushFrontOp clip) # ops) clips = outbox_run ops (outbox_push_front now clip clips)"
| "outbox_run ((now, PopOp) # ops) clips =
     (let (popped, clips) = outbox_try_pop now clips; (later, clips) = outbox_run ops clips
      in (case popped of Some clip \<Rightarrow> clip # later | None \<Rightarrow> later, clips))"

text \<open>What is queued over a run, with the instant of each.\<close>

fun pushes :: "(nat \<times> 'b outbox_op) list \<Rightarrow> (nat \<times> 'b) list" where
  "pushes [] = []"
| "pushes ((now, PushOp clip) # ops) = (now, clip) # pushes ops"
| "pushes (_ # ops) = pushes ops"

lemma purge_subseq: "subseq (purge_expired now clips) clips"
  unfolding purge_expired_def by (metis suffix_dropWhile suffix_imp_subseq)

lemma take_last_subseq: "subseq (take_last n xs) xs"
  unfolding take_last_def by (metis suffix_drop suffix_imp_subseq)

lemma push_subseq: "subseq (outbox_push now clip clips) (clips @ [(now, clip)])"
  unfolding outbox_push_def
  by (meson purge_subseq subseq_append_iff subseq_order.order_trans take_last_subseq list_emb_append_mono subseq_order.order_refl)

lemma outbox_run_order:
  "\<forall>op \<in> snd ` set ops. \<forall>clip. op \<noteq> PushFrontOp clip \<Longrightarrow>
    subseq (fst (outbox_run ops clips) @ map snd (snd (outbox_run ops clips))) (map snd clips @ map snd (pushes ops))"
proof (induction ops arbitrary: clips)
  case (Cons op ops)
  obtain now what where op: "op = (now, what)" by (cases op)
  show ?case
  proof (cases what)
    case (PushOp clip)
    have "subseq (map snd (outbox_push now clip clips)) (map snd clips @ [clip])"
      using subseq_map [OF push_subseq, of snd now clip clips] by simp
    then have "subseq (map snd (outbox_push now clip clips) @ map snd (pushes ops))
        ((map snd clips @ [clip]) @ map snd (pushes ops))"
      by (rule list_emb_append_mono) simp
    moreover have "subseq (fst (outbox_run ops (outbox_push now clip clips)) @ map snd (snd (outbox_run ops (outbox_push now clip clips))))
        (map snd (outbox_push now clip clips) @ map snd (pushes ops))"
      using Cons by simp
    ultimately have "subseq (fst (outbox_run ops (outbox_push now clip clips)) @ map snd (snd (outbox_run ops (outbox_push now clip clips))))
        ((map snd clips @ [clip]) @ map snd (pushes ops))"
      by (rule subseq_order.order_trans [rotated])
    then show ?thesis by (simp add: op PushOp)
  next
    case (PushFrontOp clip)
    with Cons.prems show ?thesis by (simp add: op)
  next
    case PopOp
    let ?p = "purge_expired now clips"
    have sub: "subseq (map snd ?p @ map snd (pushes ops)) (map snd clips @ map snd (pushes ops))"
      by (rule list_emb_append_mono) (simp_all add: subseq_map [OF purge_subseq])
    have IH: "subseq (fst (outbox_run ops cs) @ map snd (snd (outbox_run ops cs))) (map snd cs @ map snd (pushes ops))" for cs
      using Cons by simp
    show ?thesis
    proof (cases ?p)
      case Nil
      with sub IH [of "[]"] show ?thesis
        by (simp add: op PopOp outbox_try_pop_def case_prod_unfold Let_def)
    next
      case (Cons c rest)
      then have "subseq (snd c # fst (outbox_run ops rest) @ map snd (snd (outbox_run ops rest)))
          (map snd ?p @ map snd (pushes ops))"
        using IH [of rest] by simp
      from subseq_order.order_trans [OF this sub] Cons show ?thesis
        by (simp add: op PopOp outbox_try_pop_def case_prod_unfold Let_def)
    qed
  qed
qed simp

lemma try_pop_fresh:
  "outbox_try_pop now clips = (Some clip, rest) \<Longrightarrow> \<exists>q. (q, clip) \<in> set clips \<and> now - q \<le> CLIP_TTL"
proof -
  assume "outbox_try_pop now clips = (Some clip, rest)"
  then obtain q where p: "purge_expired now clips = (q, clip) # rest"
    by (auto simp: outbox_try_pop_def split: list.splits)
  then have "clips = takeWhile (is_expired now) clips @ (q, clip) # rest" "\<not> is_expired now (q, clip)"
    by (auto simp: purge_expired_def dropWhile_eq_Cons_conv)
  then have "(q, clip) \<in> set clips" by (metis in_set_conv_decomp)
  with \<open>\<not> is_expired now (q, clip)\<close> show ?thesis by (auto simp: is_expired_def)
qed

lemma purge_fresh: "\<forall>c \<in> set clips. \<not> is_expired now c \<Longrightarrow> purge_expired now clips = clips"
  by (cases clips) (auto simp: purge_expired_def)

text \<open>
  The outbox never speaks out of turn: when clips are only queued at its end, what the pops
  return, followed by what still waits, is a selection of what was queued, in the order it
  was queued; a clip older than five minutes is never returned; and queueing keeps at most
  32 clips, the newest.
\<close>

theorem outbox_delivers_in_order:
  assumes "\<forall>op \<in> snd ` set ops. \<forall>clip. op \<noteq> PushFrontOp clip"
  shows "subseq (fst (outbox_run ops []) @ map snd (snd (outbox_run ops []))) (map snd (pushes ops)) \<and>
    (\<forall>now clips clip rest. outbox_try_pop now clips = (Some clip, rest) \<longrightarrow>
       (\<exists>q. (q, clip) \<in> set clips \<and> now - q \<le> CLIP_TTL)) \<and>
    length (outbox_push now clip clips) \<le> MAX_CLIPS \<and> last (outbox_push now clip clips) = (now, clip)"
  using outbox_run_order [OF assms, of "[]"] try_pop_fresh
  by (auto simp: outbox_push_def take_last_def MAX_CLIPS_def last_drop)

theorem outbox_delivers_in_order_witness:
  "fst (outbox_run [(0, PushOp ''a''), (CLIP_TTL + 1, PushOp ''b''), (CLIP_TTL + 2, PopOp)] []) = [''b''] \<and>
    subseq ([''b''] @ []) [''a'', ''b'']"
proof -
  let ?ops = "[(0, PushOp ''a''), (CLIP_TTL + 1, PushOp ''b''), (CLIP_TTL + 2, PopOp)]"
  have run: "outbox_run ?ops [] = ([''b''], [])"
    by (simp add: outbox_push_def outbox_try_pop_def purge_expired_def is_expired_def CLIP_TTL_def MAX_CLIPS_def take_last_def)
  have "\<forall>op \<in> snd ` set ?ops. \<forall>clip. op \<noteq> PushFrontOp clip" by simp
  from conjunct1 [OF outbox_delivers_in_order [OF this]] run show ?thesis by simp
qed

section \<open>The session\<close>

record ('n, 'm, 'b, 'e) voice_env =
  ve_now :: "'n \<Rightarrow> nat \<times> 'n"
  ve_connect :: "'n \<Rightarrow> (client_error + nala_client) \<times> 'n"
  ve_put :: "client_message \<Rightarrow> client_error + unit"
  ve_narrate :: "event \<Rightarrow> 'm \<Rightarrow> string option \<times> 'm"
  ve_synthesize :: "string \<Rightarrow> 'e + 'b"

record ('n, 'm, 'b) voice_session =
  vs_world :: 'n
  vs_client :: "nala_client option"
  vs_greeting :: "string option"
  vs_narrator :: 'm
  vs_outbox :: "'b outbox"

definition voice_session_new :: "'n \<Rightarrow> 'm \<Rightarrow> ('n, 'm, 'b) voice_session" where
  "voice_session_new w narrator =
     \<lparr>vs_world = w, vs_client = None, vs_greeting = None, vs_narrator = narrator, vs_outbox = []\<rparr>"

text \<open>\<open>synthesize_to_wav\<close>: \<open>encode\<close> is the WAV writer.\<close>

fun drain_chunks :: "('e + 'i list) list \<Rightarrow> 'e + 'i list" where
  "drain_chunks [] = Inr []"
| "drain_chunks (Inl e # chunks) = Inl e"
| "drain_chunks (Inr xs # chunks) = try_bind (drain_chunks chunks) (\<lambda>ys. Inr (xs @ ys))"

definition synthesize_to_wav ::
  "('i list \<Rightarrow> nat \<Rightarrow> nat \<Rightarrow> 'b) \<Rightarrow> (string \<Rightarrow> 'e + ('i, 'e) pcm_stream) \<Rightarrow> string \<Rightarrow> 'e + 'b" where
  "synthesize_to_wav encode synth phrase =
     try_bind (synth phrase) (\<lambda>stream.
     try_bind (drain_chunks (pcm_chunks stream)) (\<lambda>samples.
     Inr (encode samples (pcm_rate stream) (pcm_channels stream))))"

text \<open>The result \<open>False\<close> of the next two is a call that still waits for Nala.\<close>

definition ensure_connected ::
  "('n, 'm, 'b, 'e) voice_env \<Rightarrow> ('n, 'm, 'b) voice_session \<Rightarrow> bool \<times> ('n, 'm, 'b) voice_session" where
  "ensure_connected env s =
     (if vs_client s \<noteq> None then (True, s)
      else case ve_connect env (vs_world s) of
          (Inl e, w) \<Rightarrow> (True, s\<lparr>vs_world := w\<rparr>)
        | (Inr c, w) \<Rightarrow>
            (case recv_greeting c of
               (None, c) \<Rightarrow> (False, s\<lparr>vs_world := w\<rparr>)
             | (Some (Inr greeting), c) \<Rightarrow>
                 (True, s\<lparr>vs_world := w, vs_client := Some c,
                    vs_greeting := (if greeting \<noteq> [] then Some greeting else vs_greeting s)\<rparr>)
             | (Some (Inl e), c) \<Rightarrow> (True, s\<lparr>vs_world := w, vs_client := Some c\<rparr>)))"

definition greeting_clip ::
  "('n, 'm, 'b, 'e) voice_env \<Rightarrow> ('n, 'm, 'b) voice_session \<Rightarrow> 'b option option \<times> ('n, 'm, 'b) voice_session" where
  "greeting_clip env s =
     (let (returned, s) = ensure_connected env s
      in if \<not> returned then (None, s)
         else (Some (case vs_greeting s of
                 None \<Rightarrow> None
               | Some greeting \<Rightarrow> (case ve_synthesize env greeting of Inr clip \<Rightarrow> Some clip | Inl e \<Rightarrow> None)), s))"

definition push_clip :: "('n, 'm, 'b, 'e) voice_env \<Rightarrow> 'b \<Rightarrow> ('n, 'm, 'b) voice_session \<Rightarrow> ('n, 'm, 'b) voice_session" where
  "push_clip env clip s =
     (let (now, w) = ve_now env (vs_world s) in s\<lparr>vs_world := w, vs_outbox := outbox_push now clip (vs_outbox s)\<rparr>)"

definition queue_speech :: "('n, 'm, 'b, 'e) voice_env \<Rightarrow> string \<Rightarrow> ('n, 'm, 'b) voice_session \<Rightarrow> ('n, 'm, 'b) voice_session" where
  "queue_speech env phrase s = (case ve_synthesize env phrase of Inr clip \<Rightarrow> push_clip env clip s | Inl e \<Rightarrow> s)"

definition on_event :: "('n, 'm, 'b, 'e) voice_env \<Rightarrow> event \<Rightarrow> ('n, 'm, 'b) voice_session \<Rightarrow> ('n, 'm, 'b) voice_session" where
  "on_event env ev s =
     (let (phrase, m) = ve_narrate env ev (vs_narrator s); s = s\<lparr>vs_narrator := m\<rparr>
      in case phrase of None \<Rightarrow> s | Some p \<Rightarrow> queue_speech env p s)"

definition run_turn ::
  "('n, 'm, 'b, 'e) voice_env \<Rightarrow> string \<Rightarrow> request_source \<Rightarrow> ('n, 'm, 'b) voice_session \<Rightarrow> bool \<times> ('n, 'm, 'b) voice_session" where
  "run_turn env input source s =
     (let (returned, s) = ensure_connected env s
      in if \<not> returned then (False, s)
         else case vs_client s of
             None \<Rightarrow> (True, s)
           | Some c \<Rightarrow>
               let (evs, res, c) = client_send (ve_put env) input source c;
                   s = fold (on_event env) evs (s\<lparr>vs_client := Some c\<rparr>)
               in case res of
                    None \<Rightarrow> (False, s)
                  | Some (Inr reply) \<Rightarrow> (True, queue_speech env reply s)
                  | Some (Inl e) \<Rightarrow> (True, s\<lparr>vs_client := None\<rparr>))"

section \<open>What a turn queues\<close>

text \<open>The clips of a turn: what is said of its events, then its reply.\<close>

fun said_of :: "('n, 'm, 'b, 'e) voice_env \<Rightarrow> event list \<Rightarrow> 'm \<Rightarrow> string list" where
  "said_of env [] m = []"
| "said_of env (ev # evs) m =
     (let (phrase, m) = ve_narrate env ev m
      in (case phrase of Some p \<Rightarrow> [p] | None \<Rightarrow> []) @ said_of env evs m)"

definition clips_of :: "('n, 'm, 'b, 'e) voice_env \<Rightarrow> string list \<Rightarrow> 'b list" where
  "clips_of env texts = List.map_filter (\<lambda>p. case ve_synthesize env p of Inr clip \<Rightarrow> Some clip | Inl e \<Rightarrow> None) texts"

definition queued :: "'b list \<Rightarrow> 'b outbox \<Rightarrow> 'b outbox \<Rightarrow> bool" where
  "queued clips ob ob' \<longleftrightarrow>
     (\<exists>ts. length ts = length clips \<and> ob' = fold (\<lambda>(now, clip). outbox_push now clip) (zip ts clips) ob)"

lemma queued_Nil [simp]: "queued [] ob ob' \<longleftrightarrow> ob' = ob"
  by (auto simp: queued_def)

lemma queued_append: "queued xs ob ob1 \<Longrightarrow> queued ys ob1 ob2 \<Longrightarrow> queued (xs @ ys) ob ob2"
proof -
  assume "queued xs ob ob1" "queued ys ob1 ob2"
  then obtain ts us where "length ts = length xs" "ob1 = fold (\<lambda>(now, clip). outbox_push now clip) (zip ts xs) ob"
    "length us = length ys" "ob2 = fold (\<lambda>(now, clip). outbox_push now clip) (zip us ys) ob1"
    by (auto simp: queued_def)
  then show ?thesis unfolding queued_def by (intro exI [of _ "ts @ us"]) simp
qed

lemma queue_speech_queued:
  "queued (clips_of env [p]) (vs_outbox s) (vs_outbox (queue_speech env p s)) \<and>
   vs_client (queue_speech env p s) = vs_client s \<and> vs_narrator (queue_speech env p s) = vs_narrator s"
proof (cases "ve_synthesize env p")
  case (Inr clip)
  obtain now w where "ve_now env (vs_world s) = (now, w)" by fastforce
  with Inr show ?thesis
    by (auto simp: queue_speech_def push_clip_def clips_of_def map_filter_def queued_def intro!: exI [of _ "[now]"])
qed (simp add: queue_speech_def clips_of_def map_filter_def)

lemma clips_of_append: "clips_of env (xs @ ys) = clips_of env xs @ clips_of env ys"
  by (simp add: clips_of_def map_filter_def)

lemma on_events_queued:
  "queued (clips_of env (said_of env evs (vs_narrator s))) (vs_outbox s) (vs_outbox (fold (on_event env) evs s)) \<and>
   vs_client (fold (on_event env) evs s) = vs_client s"
proof (induction evs arbitrary: s)
  case Nil
  show ?case by (simp add: clips_of_def map_filter_def)
next
  case (Cons ev evs)
  obtain phrase m where n: "ve_narrate env ev (vs_narrator s) = (phrase, m)" by fastforce
  let ?s1 = "on_event env ev s"
  have step: "queued (clips_of env (case phrase of Some p \<Rightarrow> [p] | None \<Rightarrow> [])) (vs_outbox s) (vs_outbox ?s1) \<and>
      vs_client ?s1 = vs_client s \<and> vs_narrator ?s1 = m"
    using n queue_speech_queued [of env "the phrase" "s\<lparr>vs_narrator := m\<rparr>"]
    by (cases phrase) (simp_all add: on_event_def clips_of_def map_filter_def)
  with Cons.IH [of ?s1] show ?case
    by (simp add: n clips_of_append) (blast intro: queued_append)
qed

text \<open>
  C33. On a live connection a turn queues exactly the clips of what is narrated of its events,
  in the order the events came, followed by the clip of the reply; a phrase that cannot be
  synthesized is left out and nothing else is. When the turn fails, whatever the reason, the
  connection is dropped: also when Nala only answered it with an error and could go on.
\<close>

theorem turn_queues_narration_then_reply:
  assumes "vs_client s = Some c" and "client_send (ve_put env) input source c = (evs, res, c')"
  shows "case run_turn env input source s of (returned, s') \<Rightarrow>
    queued (clips_of env (said_of env evs (vs_narrator s) @ (case res of Some (Inr reply) \<Rightarrow> [reply] | _ \<Rightarrow> [])))
      (vs_outbox s) (vs_outbox s') \<and>
    returned = (res \<noteq> None) \<and>
    vs_client s' = (case res of Some (Inl e) \<Rightarrow> None | _ \<Rightarrow> Some c')"
proof -
  let ?s1 = "fold (on_event env) evs (s\<lparr>vs_client := Some c'\<rparr>)"
  have ready: "ensure_connected env s = (True, s)" using assms(1) by (simp add: ensure_connected_def)
  have evs: "queued (clips_of env (said_of env evs (vs_narrator s))) (vs_outbox s) (vs_outbox ?s1)"
    "vs_client ?s1 = Some c'"
    using on_events_queued [of env evs "s\<lparr>vs_client := Some c'\<rparr>"] by simp_all
  show ?thesis
  proof (cases res)
    case None
    then show ?thesis using evs by (simp add: run_turn_def ready assms)
  next
    case (Some r)
    show ?thesis
    proof (cases r)
      case (Inl e)
      then show ?thesis using evs Some by (simp add: run_turn_def ready assms)
    next
      case (Inr reply)
      have "queued (clips_of env [reply]) (vs_outbox ?s1) (vs_outbox (queue_speech env reply ?s1))"
        "vs_client (queue_speech env reply ?s1) = Some c'"
        using queue_speech_queued [of env reply ?s1] evs(2) by simp_all
      then show ?thesis
        using evs(1) Some Inr by (simp add: run_turn_def ready assms clips_of_append) (blast intro: queued_append)
    qed
  qed
qed

text \<open>A turn that Nala answered with an error, on a connection with more to come.\<close>

definition quiet_env :: "(nat, unit, string, unit) voice_env" where
  "quiet_env =
     \<lparr>ve_now = (\<lambda>w. (w, w)), ve_connect = (\<lambda>w. (Inl ClosedWithoutReply, w)), ve_put = (\<lambda>_. Inr ()),
      ve_narrate = (\<lambda>_ m. (None, m)), ve_synthesize = (\<lambda>phrase. Inr phrase)\<rparr>"

theorem turn_queues_narration_then_reply_witness:
  "let c = nala_client_new [Inr (Some (ErrorMsg ''empty response'')), Inr (Some (Reply ''later''))];
       s = (voice_session_new (0::nat) () :: (nat, unit, string) voice_session)\<lparr>vs_client := Some c\<rparr>
   in vs_client (snd (run_turn quiet_env ''hola'' Voice s)) = None"
proof -
  let ?c = "nala_client_new [Inr (Some (ErrorMsg ''empty response'')), Inr (Some (Reply ''later''))]"
  let ?s = "(voice_session_new (0::nat) () :: (nat, unit, string) voice_session)\<lparr>vs_client := Some ?c\<rparr>"
  let ?c' = "\<lparr>nc_incoming = [Inr (Some (Reply ''later''))], nc_sent = [Input ''hola'' Voice]\<rparr>"
  have c: "vs_client ?s = Some ?c" by simp
  have sent: "client_send (ve_put quiet_env) ''hola'' Voice ?c =
      ([], Some (Inl (ServerError ''empty response'')), ?c')"
    by (simp add: client_send_def nala_client_new_def quiet_env_def)
  from turn_queues_narration_then_reply [OF c sent] show ?thesis by (simp add: case_prod_unfold Let_def)
qed

section \<open>One phone connection\<close>

datatype audio_event = Audio string | AudioIdle | AudioClosed

text \<open>
  \<open>decode_wav\<close> on the parsed file; \<open>scale\<close> is the conversion of a 16-bit sample to a float.
\<close>

datatype 'x wav_samples = IntSamples "string + int list" | FloatSamples "string + 'x list"

record 'x wav_file =
  wav_channels :: nat
  wav_rate :: nat
  wav_samples :: "'x wav_samples"

datatype wav_error = InvalidWav string | NotMono nat | WrongSampleRate nat nat

definition decode_wav :: "(int \<Rightarrow> 'x) \<Rightarrow> (string \<Rightarrow> string + 'x wav_file) \<Rightarrow> string \<Rightarrow> nat \<Rightarrow> wav_error + 'x list" where
  "decode_wav scale parse bytes expected =
     (case parse bytes of
        Inl e \<Rightarrow> Inl (InvalidWav e)
      | Inr f \<Rightarrow>
          if wav_channels f \<noteq> 1 then Inl (NotMono (wav_channels f))
          else if wav_rate f \<noteq> expected then Inl (WrongSampleRate expected (wav_rate f))
          else case wav_samples f of
              IntSamples (Inl e) \<Rightarrow> Inl (InvalidWav e)
            | IntSamples (Inr xs) \<Rightarrow> Inr (map scale xs)
            | FloatSamples (Inl e) \<Rightarrow> Inl (InvalidWav e)
            | FloatSamples (Inr xs) \<Rightarrow> Inr xs)"

text \<open>What the phone's side adds: the decoder, the transcriber and the sends on its wire.\<close>

record ('n, 'x, 'b) phone_env =
  ph_decode :: "string \<Rightarrow> wav_error + 'x list"
  ph_transcribe :: "'x list \<Rightarrow> string + string"
  ph_send :: "'b \<Rightarrow> 'n \<Rightarrow> bool \<times> 'n"

definition heard_text :: "('n, 'x, 'b) phone_env \<Rightarrow> string \<Rightarrow> string option" where
  "heard_text ph bytes =
     (case ph_decode ph bytes of
        Inl e \<Rightarrow> None
      | Inr xs \<Rightarrow>
          (case ph_transcribe ph xs of
             Inl e \<Rightarrow> None
           | Inr said \<Rightarrow> if trim said = [] then None else Some (trim said)))"

text \<open>The drain loop: whether the wire is still alive, and the clips sent.\<close>

lemma try_pop_shorter: "outbox_try_pop now clips = (Some clip, rest) \<Longrightarrow> length rest < length clips"
  using length_dropWhile_le [of "is_expired now" clips]
  by (auto simp: outbox_try_pop_def purge_expired_def split: list.splits)

function drain_outbox ::
  "('n, 'm, 'b, 'e) voice_env \<Rightarrow> ('n, 'x, 'b) phone_env \<Rightarrow> ('n, 'm, 'b) voice_session \<Rightarrow>
     bool \<times> 'b list \<times> ('n, 'm, 'b) voice_session" where
  "drain_outbox env ph s =
     (let (now, w) = ve_now env (vs_world s)
      in case outbox_try_pop now (vs_outbox s) of
           (None, rest) \<Rightarrow> (True, [], s\<lparr>vs_world := w, vs_outbox := rest\<rparr>)
         | (Some clip, rest) \<Rightarrow>
             let (ok, w) = ph_send ph clip w
             in if ok
                then let (alive, sent, s) = drain_outbox env ph (s\<lparr>vs_world := w, vs_outbox := rest\<rparr>)
                     in (alive, clip # sent, s)
                else let (now, w) = ve_now env w
                     in (False, [], s\<lparr>vs_world := w, vs_outbox := outbox_push_front now clip rest\<rparr>))"
  by pat_completeness auto
termination drain_outbox
  by (relation "measure (\<lambda>(env, ph, s). length (vs_outbox s))") (auto, metis try_pop_shorter)

declare drain_outbox.simps [simp del]

text \<open>
  The session loop: each round comes with the clips that turns queued since the last one and
  with what the read gave; the result is the clips sent and the texts submitted.
\<close>

fun run_audio_session ::
  "('n, 'm, 'b, 'e) voice_env \<Rightarrow> ('n, 'x, 'b) phone_env \<Rightarrow> ('b list \<times> (string + audio_event)) list \<Rightarrow>
     ('n, 'm, 'b) voice_session \<Rightarrow> 'b list \<times> string list \<times> ('n, 'm, 'b) voice_session" where
  "run_audio_session env ph [] s = ([], [], s)"
| "run_audio_session env ph ((others, msg) # rounds) s =
     (let (alive, sent, s) = drain_outbox env ph (fold (push_clip env) others s)
      in if \<not> alive then (sent, [], s)
         else case msg of
             Inl e \<Rightarrow> (sent, [], s)
           | Inr AudioClosed \<Rightarrow> (sent, [], s)
           | Inr AudioIdle \<Rightarrow>
               let (more_sent, texts, s) = run_audio_session env ph rounds s in (sent @ more_sent, texts, s)
           | Inr (Audio bytes) \<Rightarrow>
               let (more_sent, texts, s) = run_audio_session env ph rounds s
               in (sent @ more_sent, (case heard_text ph bytes of Some t \<Rightarrow> [t] | None \<Rightarrow> []) @ texts, s))"

text \<open>
  A clock that never goes back: \<open>clk\<close> is the time of a world, a reading is taken between the times
  before and after it, and sending takes time or none. Nothing bounds how far it advances.
\<close>

definition clock_advances ::
  "('n, 'm, 'b, 'e) voice_env \<Rightarrow> ('n, 'x, 'b) phone_env \<Rightarrow> ('n \<Rightarrow> nat) \<Rightarrow> bool" where
  "clock_advances env ph clk \<longleftrightarrow>
     (\<forall>w. clk w \<le> fst (ve_now env w) \<and> fst (ve_now env w) \<le> clk (snd (ve_now env w))) \<and>
     (\<forall>b w. clk w \<le> clk (snd (ph_send ph b w)))"

text \<open>What remains of \<open>clips\<close> by the time \<open>t\<close>, whoever removes the expired ones and when.\<close>

definition fresh_at :: "nat \<Rightarrow> 'b outbox \<Rightarrow> 'b outbox" where
  "fresh_at t clips = filter (\<lambda>c. \<not> is_expired t c) clips"

lemma expired_later: "is_expired t c \<Longrightarrow> t \<le> t' \<Longrightarrow> is_expired t' c"
  by (simp add: is_expired_def)

lemma fresh_at_dropWhile: "now \<le> t \<Longrightarrow> fresh_at t (dropWhile (is_expired now) clips) = fresh_at t clips"
  by (induction clips) (auto simp: fresh_at_def expired_later)

lemma fresh_at_purge: "now \<le> t \<Longrightarrow> fresh_at t (purge_expired now clips) = fresh_at t clips"
  by (simp add: purge_expired_def fresh_at_dropWhile)

lemma try_pop_purged:
  "outbox_try_pop now clips = (popped, rest) \<Longrightarrow>
    (case popped of None \<Rightarrow> purge_expired now clips = [] \<and> rest = []
     | Some clip \<Rightarrow> \<exists>at. purge_expired now clips = (at, clip) # rest)"
  by (auto simp: outbox_try_pop_def split: list.splits)

lemma purge_suffix: "suffix (purge_expired now clips) clips"
  by (simp add: purge_expired_def suffix_dropWhile)

lemma drain_outbox_spec:
  "clock_advances env ph clk \<Longrightarrow> drain_outbox env ph s = (alive, sent, s') \<Longrightarrow>
    clk (vs_world s) \<le> clk (vs_world s') \<and> (alive \<longleftrightarrow> vs_outbox s' = []) \<and>
    (\<exists>kept. subseq kept (vs_outbox s) \<and> map snd kept = sent @ map snd (vs_outbox s') \<and>
      fresh_at (clk (vs_world s')) kept = fresh_at (clk (vs_world s')) (vs_outbox s)) \<and>
    (alive \<or> clk (vs_world s) \<le> fst (hd (vs_outbox s')) \<and> suffix (tl (vs_outbox s')) (vs_outbox s))"
proof (induction env ph s arbitrary: alive sent s' rule: drain_outbox.induct)
  case (1 env ph s)
  obtain now w where n: "ve_now env (vs_world s) = (now, w)" by fastforce
  obtain popped rest where p: "outbox_try_pop now (vs_outbox s) = (popped, rest)" by fastforce
  have later: "clk w' \<le> t \<and> t \<le> clk w''" if "ve_now env w' = (t, w'')" for w' t w''
    using "1.prems"(1) that unfolding clock_advances_def by (metis fst_conv snd_conv)
  note clk = later [OF n] and pop = try_pop_purged [OF p]
  show ?case
  proof (cases popped)
    case None
    with "1.prems"(2) n p pop have res: "alive" "sent = []" "s' = s\<lparr>vs_world := w, vs_outbox := []\<rparr>"
      by (subst (asm) drain_outbox.simps; simp)+
    moreover have "fresh_at (clk w) (vs_outbox s) = []"
      using fresh_at_purge [of now "clk w" "vs_outbox s"] clk pop None by (simp add: fresh_at_def)
    ultimately show ?thesis using clk by (intro conjI exI [of _ "[]"]) (auto simp: fresh_at_def)
  next
    case (Some clip)
    obtain at where purged: "purge_expired now (vs_outbox s) = (at, clip) # rest" using pop Some by auto
    have sub: "subseq ((at, clip) # rest) (vs_outbox s)" "suffix rest (vs_outbox s)"
      using purge_subseq [of now "vs_outbox s"] purge_suffix [of now "vs_outbox s"] purged by (auto dest: suffix_ConsD)
    have fresh: "fresh_at t ((at, clip) # rest) = fresh_at t (vs_outbox s)" if "now \<le> t" for t
      using fresh_at_purge [OF that] purged by metis
    obtain ok w1 where o: "ph_send ph clip w = (ok, w1)" by fastforce
    have w1: "clk w \<le> clk w1" using "1.prems"(1) o unfolding clock_advances_def by (metis snd_conv)
    show ?thesis
    proof (cases ok)
      case True
      let ?s1 = "s\<lparr>vs_world := w1, vs_outbox := rest\<rparr>"
      obtain alive1 sent1 s1 where d: "drain_outbox env ph ?s1 = (alive1, sent1, s1)" using prod_cases3 by blast
      have res: "alive = alive1" "sent = clip # sent1" "s' = s1"
        using "1.prems"(2) n p Some o True d by (subst (asm) drain_outbox.simps; simp)+
      from "1.IH" [OF n [symmetric] refl p [symmetric] Some o [symmetric] refl True "1.prems"(1) d]
      obtain kept where IH: "clk w1 \<le> clk (vs_world s1)" "alive1 \<longleftrightarrow> vs_outbox s1 = []" "subseq kept rest"
          "map snd kept = sent1 @ map snd (vs_outbox s1)"
          "fresh_at (clk (vs_world s1)) kept = fresh_at (clk (vs_world s1)) rest"
          "alive1 \<or> clk w1 \<le> fst (hd (vs_outbox s1)) \<and> suffix (tl (vs_outbox s1)) rest"
        by auto
      let ?kept = "(at, clip) # kept"
      have "subseq ?kept (vs_outbox s)"
        using IH(3) sub(1) by (meson subseq_Cons2_iff subseq_order.order_trans)
      moreover have "fresh_at (clk (vs_world s1)) ?kept = fresh_at (clk (vs_world s1)) (vs_outbox s)"
        using fresh [of "clk (vs_world s1)", symmetric] IH(1,5) clk w1 by (auto simp: fresh_at_def)
      moreover have "suffix (tl (vs_outbox s1)) (vs_outbox s)" if "suffix (tl (vs_outbox s1)) rest"
        using that sub(2) by (rule suffix_order.trans)
      ultimately show ?thesis using IH clk w1 unfolding res by (intro conjI exI [of _ ?kept]) auto
    next
      case False
      obtain now2 w2 where n2: "ve_now env w1 = (now2, w2)" by fastforce
      have res: "\<not> alive" "sent = []" "s' = s\<lparr>vs_world := w2, vs_outbox := (now2, clip) # rest\<rparr>"
        using "1.prems"(2) n p Some o False n2 by (subst (asm) drain_outbox.simps; simp add: outbox_push_front_def)+
      then show ?thesis
        using clk w1 later [OF n2] sub fresh [of "clk w2"]
        by (intro conjI exI [of _ "(at, clip) # rest"]) auto
    qed
  qed
qed

text \<open>
  C34. Delivering the outbox drops nothing but clips past their five minutes, and reorders nothing,
  whether the connection survives or dies: what was sent, followed by what the outbox then holds for
  the next connection, are the payloads of a selection of what it held before, in that order, with
  every clip that is not expired by the end. If the connection died, the clip that failed waits at the
  front with its time restarted, and behind it the rest as it was. The clock only has to advance.
\<close>

theorem delivery_drops_only_expired_clips:
  assumes "clock_advances env ph clk" and "drain_outbox env ph s = (alive, sent, s')"
  shows "(\<exists>kept. subseq kept (vs_outbox s) \<and> map snd kept = sent @ map snd (vs_outbox s') \<and>
      fresh_at (clk (vs_world s')) kept = fresh_at (clk (vs_world s')) (vs_outbox s)) \<and>
    (alive \<longleftrightarrow> vs_outbox s' = []) \<and>
    (alive \<or> clk (vs_world s) \<le> fst (hd (vs_outbox s')) \<and> suffix (tl (vs_outbox s')) (vs_outbox s))"
  using drain_outbox_spec [OF assms] by blast

text \<open>A clock that advances with each reading, and a connection that dies at the second clip it carries.\<close>

definition ticking_env :: "(nat \<times> nat, unit, string, unit) voice_env" where
  "ticking_env =
     \<lparr>ve_now = (\<lambda>(t, k). (t, (t + 1, k))), ve_connect = (\<lambda>w. (Inl ClosedWithoutReply, w)), ve_put = (\<lambda>_. Inr ()),
      ve_narrate = (\<lambda>_ m. (None, m)), ve_synthesize = (\<lambda>phrase. Inr phrase)\<rparr>"

definition dying_phone :: "(nat \<times> nat, unit, string) phone_env" where
  "dying_phone = \<lparr>ph_decode = (\<lambda>_. Inr []), ph_transcribe = (\<lambda>_. Inl []),
     ph_send = (\<lambda>_ (t, k). (0 < k, (t + 1, k - 1)))\<rparr>"

lemma ticking_clock: "clock_advances ticking_env dying_phone fst"
  by (auto simp: clock_advances_def ticking_env_def dying_phone_def split: prod.splits)

definition waiting_clips :: "string outbox" where
  "waiting_clips = [(0, ''old''), (2, ''one''), (CLIP_TTL, ''two''), (CLIP_TTL, ''three'')]"

lemma ticking_drain:
  "drain_outbox ticking_env dying_phone ((voice_session_new (CLIP_TTL + 2, 1) ())\<lparr>vs_outbox := waiting_clips\<rparr>) =
    (False, [''one''], (voice_session_new (CLIP_TTL + 7, 0) ())\<lparr>vs_outbox :=
       [(CLIP_TTL + 6, ''two''), (CLIP_TTL, ''three'')]\<rparr>)"
  by (simp add: drain_outbox.simps outbox_try_pop_def purge_expired_def is_expired_def outbox_push_front_def
      ticking_env_def dying_phone_def waiting_clips_def voice_session_new_def CLIP_TTL_def)

theorem delivery_drops_only_expired_clips_witness:
  "\<exists>kept. subseq kept waiting_clips \<and> map snd kept = [''one'', ''two'', ''three''] \<and>
    fresh_at (CLIP_TTL + 7) kept = fresh_at (CLIP_TTL + 7) waiting_clips"
  using delivery_drops_only_expired_clips [OF ticking_clock ticking_drain]
  by (auto simp: voice_session_new_def)

end
