(* ===== verification/Timestamp.thy ===== *)
theory Timestamp
  imports Rust_Text "HOL-Library.Signed_Division"
begin

text \<open>
  The timestamps of the metrics files (\<open>apps/nala/src/adapters/metrics/timestamp.rs\<close>). All
  quantities are far inside \<open>i64\<close>, \<open>u64\<close> and \<open>u32\<close>, so they are integers; the divisions of the
  source truncate (\<open>sdiv\<close>) where an operand may be negative. A time is its seconds since the
  epoch, negative before it.
\<close>

section \<open>Translation\<close>

definition civil_from_days :: "int \<Rightarrow> int \<times> int \<times> int" where
  "civil_from_days days =
     (let z = days + 719468;
          era = (if 0 \<le> z then z else z - 146096) sdiv 146097;
          doe = z - era * 146097;
          yoe = (doe - doe div 1460 + doe div 36524 - doe div 146096) div 365;
          y = yoe + era * 400;
          doy = doe - (365 * yoe + yoe div 4 - yoe div 100);
          mp = (5 * doy + 2) div 153;
          d = doy - (153 * mp + 2) div 5 + 1;
          m = (if mp < 10 then mp + 3 else mp - 9)
      in (if m \<le> 2 then y + 1 else y, m, d))"

text \<open>\<open>{value:0width}\<close> of a number that is not negative.\<close>

definition pad :: "nat \<Rightarrow> int \<Rightarrow> string" where
  "pad width n = (let s = show_nat (nat n) in replicate (width - length s) (CHR ''0'') @ s)"

definition format_rfc3339_utc :: "int \<Rightarrow> string" where
  "format_rfc3339_utc time =
     (let total_seconds = max 0 time;
          days = total_seconds div 86400;
          seconds_of_day = total_seconds mod 86400;
          (year, month, day) = civil_from_days days
      in pad 4 year @ ''-'' @ pad 2 month @ ''-'' @ pad 2 day @ ''T'' @
         pad 2 (seconds_of_day div 3600) @ '':'' @ pad 2 (seconds_of_day mod 3600 div 60) @ '':'' @
         pad 2 (seconds_of_day mod 60) @ ''Z'')"

section \<open>The Gregorian calendar\<close>

definition leap :: "int \<Rightarrow> bool" where
  "leap y \<longleftrightarrow> 4 dvd y \<and> (\<not> 100 dvd y \<or> 400 dvd y)"

definition month_length :: "int \<Rightarrow> int \<Rightarrow> int" where
  "month_length y m = (if m = 2 then if leap y then 29 else 28 else if m \<in> {4, 6, 9, 11} then 30 else 31)"

definition next_day :: "int \<times> int \<times> int \<Rightarrow> int \<times> int \<times> int" where
  "next_day date =
     (case date of (y, m, d) \<Rightarrow>
        if d < month_length y m then (y, m, d + 1) else if m < 12 then (y, m + 1, 1) else (y + 1, 1, 1))"

section \<open>Years of an era\<close>

text \<open>Years start on the first of March; \<open>year_start\<close> is the first day of one in its era.\<close>

definition year_start :: "int \<Rightarrow> int" where
  "year_start y = 365 * y + y div 4 - y div 100 + y div 400"

definition corrected :: "int \<Rightarrow> int" where
  "corrected doe = doe - doe div 1460 + doe div 36524 - doe div 146096"

lemma div_Suc_le: "0 < k \<Longrightarrow> (n + 1) div k \<le> n div k + 1" for n k :: int
  using zdiv_mono1 [of "n + 1" "n + k" k] by (simp add: div_add_self2)

lemma quarter_Suc: "q - q div 4 \<le> (q + 1) - (q + 1) div 4" for q :: int
  by presburger

lemma corrected_Suc: "corrected doe \<le> corrected (doe + 1)"
proof -
  have "(doe + 1) div 1460 \<le> doe div 1460 + 1" by (rule div_Suc_le) simp
  moreover have "doe div 36524 - doe div 36524 div 4 \<le> (doe + 1) div 36524 - (doe + 1) div 36524 div 4"
  proof -
    have "doe div 36524 \<le> (doe + 1) div 36524" "(doe + 1) div 36524 \<le> doe div 36524 + 1"
      by (rule zdiv_mono1; simp) (rule div_Suc_le, simp)
    then have "(doe + 1) div 36524 = doe div 36524 \<or> (doe + 1) div 36524 = doe div 36524 + 1" by linarith
    then show ?thesis using quarter_Suc [of "doe div 36524"] by auto
  qed
  moreover have "x div 146096 = x div 36524 div 4" for x :: int by (simp add: div_mult2_eq [symmetric])
  ultimately show ?thesis by (simp add: corrected_def)
qed

lemma corrected_mono: "i \<le> j \<Longrightarrow> corrected i \<le> corrected j"
proof (induction j rule: int_ge_induct)
  case (step j)
  then show ?case using corrected_Suc [of j] by simp
qed simp

lemma corrected_years:
  "list_all (\<lambda>y. corrected (year_start y) div 365 = y \<and> corrected (year_start (y + 1) - 1) div 365 = y) [0..399]"
  by code_simp

lemma year_of_day:
  assumes "0 \<le> y" and "y \<le> 399" and "year_start y \<le> doe" and "doe < year_start (y + 1)"
  shows "corrected doe div 365 = y"
proof -
  have "corrected (year_start y) div 365 = y" "corrected (year_start (y + 1) - 1) div 365 = y"
    using corrected_years assms(1,2) by (auto simp: list_all_iff)
  moreover have "corrected (year_start y) \<le> corrected doe" "corrected doe \<le> corrected (year_start (y + 1) - 1)"
    using assms(3,4) by (auto intro: corrected_mono)
  ultimately show ?thesis using zdiv_mono1 [of _ _ 365] by (metis dual_order.antisym zero_less_numeral)
qed

lemma year_exists:
  "0 \<le> doe \<Longrightarrow> doe < year_start (int n) \<Longrightarrow> \<exists>y. 0 \<le> y \<and> y < int n \<and> year_start y \<le> doe \<and> doe < year_start (y + 1)"
proof (induction n)
  case 0
  then show ?case by (simp add: year_start_def)
next
  case (Suc n)
  show ?case
  proof (cases "doe < year_start (int n)")
    case True
    with Suc obtain y where "0 \<le> y" "y < int n" "year_start y \<le> doe" "doe < year_start (y + 1)" by blast
    then show ?thesis by (intro exI [of _ y]) simp
  next
    case False
    with Suc.prems show ?thesis by (intro exI [of _ "int n"]) (simp add: add.commute)
  qed
qed

section \<open>Months of a year\<close>

definition month_day :: "int \<Rightarrow> int \<times> int" where
  "month_day doy =
     (let mp = (5 * doy + 2) div 153 in (if mp < 10 then mp + 3 else mp - 9, doy - (153 * mp + 2) div 5 + 1))"

lemma month_days:
  "list_all (\<lambda>doy. case (month_day doy, month_day (doy + 1)) of ((m, d), (m', d')) \<Rightarrow>
      1 \<le> m \<and> m \<le> 12 \<and> 1 \<le> d \<and> d \<le> 31 \<and> (m \<le> 2 \<longleftrightarrow> 306 \<le> doy) \<and>
      (if m = 2 then m' = 2 \<and> d' = d + 1 \<and> d = doy - 336
       else if d < month_length 1 m then m' = m \<and> d' = d + 1
       else m' = (if m = 12 then 1 else m + 1) \<and> d' = 1)) [0..364]"
  by code_simp

section \<open>The algorithm on a day of a year of an era\<close>

lemma div_Suc_dvd:
  fixes n k :: int
  assumes "0 < k"
  shows "(n + 1) div k = n div k + of_bool (k dvd n + 1)"
proof (cases "n mod k + 1 < k")
  case True
  have "n + 1 = k * (n div k) + (n mod k + 1)" by simp
  then have "(n + 1) div k = n div k \<and> (n + 1) mod k = n mod k + 1"
    using True assms by (metis add_increasing2 int_div_pos_eq int_mod_pos_eq pos_mod_sign zero_le_one)
  moreover have "0 \<le> n mod k" using assms by simp
  ultimately show ?thesis by (auto simp: dvd_eq_mod_eq_0)
next
  case False
  then have "n mod k + 1 = k" using pos_mod_bound [OF assms, of n] by linarith
  moreover have "n = k * (n div k) + n mod k" by simp
  ultimately have "n + 1 = k + k * (n div k)" by linarith
  then have "n + 1 = k * (n div k + 1)" by (simp add: algebra_simps)
  then show ?thesis using assms by (simp only: dvd_triv_left nonzero_mult_div_cancel_left) simp
qed

lemma leap_days:
  fixes a b c :: int
  assumes "a' = a + of_bool p" and "b' = b + of_bool q" and "c' = c + of_bool r" and "q \<Longrightarrow> p" and "r \<Longrightarrow> q"
  shows "365 * (y + 1) + a' - b' + c' = 365 * y + a - b + c + 365 + of_bool (p \<and> (\<not> q \<or> r))"
  using assms by (cases p; cases q; cases r; simp)

lemma year_length:
  "year_start (y + 1) = year_start y + 365 + of_bool (leap (era * 400 + y + 1))"
proof -
  have "4 dvd era * 400 + y + 1 \<longleftrightarrow> 4 dvd y + 1" "100 dvd era * 400 + y + 1 \<longleftrightarrow> 100 dvd y + 1"
    "400 dvd era * 400 + y + 1 \<longleftrightarrow> 400 dvd y + 1"
    by (simp_all add: add.assoc dvd_add_right_iff)
  moreover have "4 dvd y + 1" if "100 dvd y + 1" using that by (rule dvd_trans [rotated]) simp
  moreover have "100 dvd y + 1" if "400 dvd y + 1" using that by (rule dvd_trans [rotated]) simp
  ultimately show ?thesis
    unfolding year_start_def leap_def by (simp only:) (intro leap_days div_Suc_dvd; simp)
qed

lemma trunc_div:
  fixes z :: int
  shows "(if 0 \<le> z then z else z - 146096) sdiv 146097 = z div 146097"
proof (cases "0 \<le> z")
  case True
  then show ?thesis by (cases "z = 0") (simp_all add: signed_divide_int_def)
next
  case False
  let ?q = "(146096 - z) div 146097" and ?r = "(146096 - z) mod 146097"
  have r: "0 \<le> ?r" "?r < 146097" by simp_all
  have "146096 - z = 146097 * ?q + ?r" by simp
  then have "z = 146097 * (- ?q) + (146096 - ?r)" by linarith
  moreover have "0 \<le> 146096 - ?r" "146096 - ?r < 146097" using r by linarith+
  ultimately have "z div 146097 = - ?q" by (rule int_div_pos_eq)
  with False show ?thesis by (simp add: signed_divide_int_def)
qed

lemma civil_at:
  assumes z: "days + 719468 = era * 146097 + (year_start y + doy)" and y: "0 \<le> y" "y \<le> 399"
    and doy: "0 \<le> doy" "year_start y + doy < year_start (y + 1)"
  shows "civil_from_days days =
    (case month_day doy of (m, d) \<Rightarrow> (if m \<le> 2 then era * 400 + y + 1 else era * 400 + y, m, d))"
proof -
  let ?z = "days + 719468" and ?doe = "year_start y + doy"
  have "0 \<le> year_start y" using y by (simp add: year_start_def; linarith?)
  moreover have "year_start (y + 1) \<le> 146097"
    using y by (simp add: year_start_def; linarith?)
  ultimately have doe: "0 \<le> ?doe" "?doe < 146097" using doy by linarith+
  then have "?z div 146097 = era" using z by (metis add.commute int_div_pos_eq mult.commute)
  then have era: "(if 0 \<le> ?z then ?z else ?z - 146096) sdiv 146097 = era" by (simp only: trunc_div)
  have yoe: "(?doe - ?doe div 1460 + ?doe div 36524 - ?doe div 146096) div 365 = y"
    using year_of_day [OF y, of ?doe] doy by (simp add: corrected_def)
  have "y div 400 = 0" using y by simp
  then have year: "?doe - (365 * y + y div 4 - y div 100) = doy" by (simp only: year_start_def)
  have doe': "?z - era * 146097 = ?doe" using z by linarith
  show ?thesis
    unfolding civil_from_days_def Let_def era doe' yoe year month_day_def prod.case by (simp only: add.commute)
qed

lemma day_exists:
  "\<exists>era y doy. days + 719468 = era * 146097 + (year_start y + doy) \<and> 0 \<le> y \<and> y \<le> 399 \<and> 0 \<le> doy \<and>
    year_start y + doy < year_start (y + 1)"
proof -
  let ?doe = "(days + 719468) mod 146097"
  have "year_start (int 400) = 146097" by (simp add: year_start_def)
  then obtain y where y: "0 \<le> y" "y < int 400" "year_start y \<le> ?doe" "?doe < year_start (y + 1)"
    using year_exists [of ?doe 400] by auto
  then show ?thesis
    by (intro exI [of _ "(days + 719468) div 146097"] exI [of _ y] exI [of _ "?doe - year_start y"]) simp
qed

lemma first_of_march:
  assumes "days + 719468 = era * 146097 + year_start (y + 1)" and "0 \<le> y" and "y \<le> 399"
  shows "civil_from_days days = (era * 400 + y + 1, 3, 1)"
proof (cases "y = 399")
  case True
  have "days + 719468 = (era + 1) * 146097 + (year_start 0 + 0)"
    using assms(1) unfolding True by (simp add: year_start_def)
  from civil_at [OF this] show ?thesis unfolding True by (simp add: year_start_def month_day_def)
next
  case False
  have "days + 719468 = era * 146097 + (year_start (y + 1) + 0)" using assms(1) by simp
  moreover have "year_start (y + 1) < year_start (y + 1 + 1)" using year_length [of "y + 1" 0] by (simp only: of_bool_def split: if_split) simp
  ultimately show ?thesis using civil_at [of days era "y + 1" 0] assms False by (simp add: month_day_def add.assoc)
qed

lemma last_of_february:
  "month_day (364 + of_bool (leap (y + 1))) = (2, 28 + of_bool (leap (y + 1)))"
  by (cases "leap (y + 1)") (simp_all add: month_day_def)

lemma next_day_in_year:
  assumes "0 \<le> doy" and "doy + 1 < 365 + of_bool (leap (y + 1))"
  shows "(case month_day (doy + 1) of (m, d) \<Rightarrow> (if m \<le> 2 then y + 1 else y, m, d)) =
    next_day (case month_day doy of (m, d) \<Rightarrow> (if m \<le> 2 then y + 1 else y, m, d))"
proof -
  obtain m d where md: "month_day doy = (m, d)" by (cases "month_day doy")
  obtain m' d' where md': "month_day (doy + 1) = (m', d')" by (cases "month_day (doy + 1)")
  have le: "doy \<le> 364" "doy = 364 \<Longrightarrow> leap (y + 1)" using assms(2) by (auto simp only: of_bool_def split: if_splits)
  then have "doy \<in> set [0..364]" using assms(1) by (simp only: set_upto) simp
  from month_days [unfolded list_all_iff, rule_format, OF this]
  have *: "1 \<le> m \<and> m \<le> 12 \<and> 1 \<le> d \<and> d \<le> 31 \<and> (m \<le> 2 \<longleftrightarrow> 306 \<le> doy) \<and>
      (if m = 2 then m' = 2 \<and> d' = d + 1 \<and> d = doy - 336
       else if d < month_length 1 m then m' = m \<and> d' = d + 1
       else m' = (if m = 12 then 1 else m + 1) \<and> d' = 1)" unfolding md md' prod.case .
  show ?thesis
  proof (cases "m = 2")
    case True
    have "d < 28 \<or> d = 28 \<and> leap (y + 1)" using * le True by auto
    with True * show ?thesis unfolding md md' by (auto simp: next_day_def month_length_def)
  next
    case False
    then have ml: "month_length y m = month_length 1 m" "month_length (y + 1) m = month_length 1 m"
      by (simp_all add: month_length_def)
    show ?thesis
      using False * ml unfolding md md' by (cases "d < month_length 1 m"; cases "m = 12") (auto simp: next_day_def)
  qed
qed

text \<open>
  The calendar of the metrics timestamps is the Gregorian one: day zero is the first of January 1970,
  and each day's date is the calendar's next day after the date before it, over month ends, leap days and
  year ends, for all days before and after the epoch.
\<close>

theorem civil_from_days_is_gregorian:
  "civil_from_days 0 = (1970, 1, 1) \<and> (\<forall>days. civil_from_days (days + 1) = next_day (civil_from_days days))"
proof (intro conjI allI)
  show "civil_from_days 0 = (1970, 1, 1)"
    using civil_at [of 0 4 369 306] by (simp add: year_start_def month_day_def)
  fix days
  obtain era y doy where d: "days + 719468 = era * 146097 + (year_start y + doy)" "0 \<le> y" "y \<le> 399" "0 \<le> doy"
    "year_start y + doy < year_start (y + 1)"
    using day_exists [of days] by blast
  have len: "year_start (y + 1) = year_start y + 365 + of_bool (leap (era * 400 + y + 1))"
    by (rule year_length)
  show "civil_from_days (days + 1) = next_day (civil_from_days days)"
  proof (cases "year_start y + (doy + 1) < year_start (y + 1)")
    case True
    have "days + 1 + 719468 = era * 146097 + (year_start y + (doy + 1))" using d(1) by linarith
    then have "civil_from_days (days + 1) =
      (case month_day (doy + 1) of (m, d) \<Rightarrow> (if m \<le> 2 then era * 400 + y + 1 else era * 400 + y, m, d))"
      using d True by (intro civil_at) simp_all
    moreover have "doy + 1 < 365 + of_bool (leap (era * 400 + y + 1))" using True len by linarith
    then have "(case month_day (doy + 1) of (m, d) \<Rightarrow> (if m \<le> 2 then era * 400 + y + 1 else era * 400 + y, m, d)) =
      next_day (case month_day doy of (m, d) \<Rightarrow> (if m \<le> 2 then era * 400 + y + 1 else era * 400 + y, m, d))"
      by (rule next_day_in_year [OF d(4)])
    ultimately show ?thesis by (simp only: civil_at [OF d])
  next
    case False
    have "days + 1 + 719468 = era * 146097 + year_start (y + 1)" using False d by linarith
    then have "civil_from_days (days + 1) = (era * 400 + y + 1, 3, 1)" using d by (intro first_of_march) simp_all
    moreover have "doy = 364 + of_bool (leap (era * 400 + y + 1))" using False d len by linarith
    ultimately show ?thesis using civil_at [OF d] last_of_february [of "era * 400 + y"]
      by (simp add: next_day_def month_length_def)
  qed
qed

end
