(* ===== verification/Metrics.thy ===== *)
theory Metrics
  imports Protocol Timestamp "HOL-Library.AList" "HOL-Library.Char_ord" "HOL-Library.List_Lexorder"
begin

text \<open>
  The metrics sinks (\<open>apps/nala/src/adapters/metrics/csv_sink.rs\<close>, \<open>jsonl_sink.rs\<close>): decorators
  of the event sink that turn the events of each task into rows of three CSV files, or into one
  line of JSON. The clocks and the outcome of each write are the record \<open>metrics_env\<close>, indexed by
  how many readings and writes came before; a file is the list of the records written to it, and a
  write that fails leaves it as it was. The tasks in progress are an association list: both sinks
  hold at most one at a time, so the order in which the source's hash map lists them never matters
  (\<open>csv_valid_record\<close>, \<open>jsonl_valid_record\<close>). The wrapped sink is the list of the events it
  was given. The \<open>csv\<close> and \<open>serde_json\<close> encoders are third-party code.
\<close>

section \<open>Clocks and disk\<close>

record metrics_env =
  wall_clock :: "nat \<Rightarrow> int"
  monotonic :: "nat \<Rightarrow> duration"
  write_fails :: "nat \<Rightarrow> bool"

definition as_millis :: "duration \<Rightarrow> nat" where
  "as_millis d = d div 1000000"

definition LLM_CALLS_FILE :: string where "LLM_CALLS_FILE = ''llm_calls.csv''"
definition TOOL_CALLS_FILE :: string where "TOOL_CALLS_FILE = ''tool_calls.csv''"
definition TASKS_FILE :: string where "TASKS_FILE = ''tasks.csv''"

definition LLM_CALLS_HEADER :: "string list" where
  "LLM_CALLS_HEADER = [''timestamp'', ''task_id'', ''llm_call_id'', ''call_index'', ''provider'', ''model'',
     ''input_tokens'', ''output_tokens'', ''total_tokens'', ''latency_ms'', ''time_to_first_token_ms'',
     ''status'', ''error'']"

definition TOOL_CALLS_HEADER :: "string list" where
  "TOOL_CALLS_HEADER = [''timestamp'', ''task_id'', ''tool_call_index'', ''tool_name'', ''duration_ms'',
     ''status'', ''error'']"

definition TASKS_HEADER :: "string list" where
  "TASKS_HEADER = [''task_id'', ''start_timestamp'', ''end_timestamp'', ''duration_ms'', ''llm_call_count'',
     ''input_tokens_total'', ''output_tokens_total'', ''total_tokens_total'', ''tool_call_count'',
     ''tools_used'', ''status'', ''error'']"

definition NO_TERMINAL :: string where "NO_TERMINAL = ''task ended without a terminal event''"

section \<open>The CSV sink\<close>

record pending_llm_completion =
  pend_task :: task_id
  pend_call :: llm_call_id
  pend_duration :: duration
  pend_provider :: string
  pend_model :: string

record llm_call_row =
  row_task :: task_id
  row_call :: llm_call_id
  row_index :: u32
  row_provider :: string
  row_model :: string
  row_input :: "u32 option"
  row_output :: "u32 option"
  row_total :: "u32 option"
  row_duration :: duration
  row_status :: string
  row_error :: string

record csv_task =
  start_timestamp :: string
  start_instant :: duration
  llm_call_count :: u32
  input_tokens_total :: "u64 option"
  output_tokens_total :: "u64 option"
  total_tokens_total :: "u64 option"
  tool_call_count :: u32
  tools_used :: "string list"
  pending_error :: "string option"

record csv_sink =
  csv_dir :: bool
  csv_tasks :: "(task_id \<times> csv_task) list"
  csv_pending :: "pending_llm_completion option"
  csv_files :: "string \<Rightarrow> string list list"
  csv_readings :: nat
  csv_writes :: nat
  csv_inner :: "event list"

definition csv_new :: "bool \<Rightarrow> (string \<Rightarrow> string list list) \<Rightarrow> csv_sink" where
  "csv_new dir files = \<lparr>csv_dir = dir, csv_tasks = [], csv_pending = None, csv_files = files,
     csv_readings = 0, csv_writes = 0, csv_inner = []\<rparr>"

definition csv_system_time :: "metrics_env \<Rightarrow> csv_sink \<Rightarrow> string \<times> csv_sink" where
  "csv_system_time env s =
     (format_rfc3339_utc (wall_clock env (csv_readings s)), s\<lparr>csv_readings := csv_readings s + 1\<rparr>)"

definition csv_instant :: "metrics_env \<Rightarrow> csv_sink \<Rightarrow> duration \<times> csv_sink" where
  "csv_instant env s = (monotonic env (csv_readings s), s\<lparr>csv_readings := csv_readings s + 1\<rparr>)"

text \<open>\<open>TaskAccumulator::new\<close>.\<close>

definition csv_task_new :: "metrics_env \<Rightarrow> csv_sink \<Rightarrow> csv_task \<times> csv_sink" where
  "csv_task_new env s =
     (case csv_system_time env s of (started, s) \<Rightarrow> case csv_instant env s of (now, s) \<Rightarrow>
        (\<lparr>start_timestamp = started, start_instant = now, llm_call_count = 0, input_tokens_total = None,
          output_tokens_total = None, total_tokens_total = None, tool_call_count = 0, tools_used = [],
          pending_error = None\<rparr>, s))"

definition write_row ::
  "metrics_env \<Rightarrow> string \<Rightarrow> string list \<Rightarrow> string list \<Rightarrow> csv_sink \<Rightarrow> csv_sink" where
  "write_row env file header row s =
     (let s' = s\<lparr>csv_writes := csv_writes s + 1\<rparr>; needs_header = csv_files s file = []
      in if write_fails env (csv_writes s) then s'
         else s'\<lparr>csv_files := (csv_files s)
                   (file := csv_files s file @ (if needs_header then [header, row] else [row]))\<rparr>)"

definition append_row ::
  "metrics_env \<Rightarrow> string \<Rightarrow> string list \<Rightarrow> string list \<Rightarrow> csv_sink \<Rightarrow> csv_sink" where
  "append_row env file header row s = (if csv_dir s then write_row env file header row s else s)"

definition opt_to_string :: "u32 option \<Rightarrow> string" where
  "opt_to_string value = (case value of Some n \<Rightarrow> show_nat (unat n) | None \<Rightarrow> [])"

definition opt_u64_to_string :: "u64 option \<Rightarrow> string" where
  "opt_u64_to_string value = (case value of Some n \<Rightarrow> show_nat (unat n) | None \<Rightarrow> [])"

definition add_optional_u64 :: "u64 option \<Rightarrow> u32 option \<Rightarrow> u64 option" where
  "add_optional_u64 accumulator value =
     (case value of
        Some v \<Rightarrow> Some ((case accumulator of Some n \<Rightarrow> n | None \<Rightarrow> 0) + ucast v)
      | None \<Rightarrow> accumulator)"

definition write_llm_call_row :: "metrics_env \<Rightarrow> llm_call_row \<Rightarrow> csv_sink \<Rightarrow> csv_sink" where
  "write_llm_call_row env call s =
     (case csv_system_time env s of (timestamp, s) \<Rightarrow>
        append_row env LLM_CALLS_FILE LLM_CALLS_HEADER
          [timestamp, row_task call, row_call call, show_nat (unat (row_index call)), row_provider call,
           row_model call, opt_to_string (row_input call), opt_to_string (row_output call),
           opt_to_string (row_total call), show_nat (as_millis (row_duration call)), [], row_status call,
           row_error call] s)"

definition write_tool_call_row ::
  "metrics_env \<Rightarrow> task_id \<Rightarrow> u32 \<Rightarrow> string \<Rightarrow> duration \<Rightarrow> string \<Rightarrow> string \<Rightarrow> csv_sink \<Rightarrow> csv_sink" where
  "write_tool_call_row env tid index name d status err s =
     (case csv_system_time env s of (timestamp, s) \<Rightarrow>
        append_row env TOOL_CALLS_FILE TOOL_CALLS_HEADER
          [timestamp, tid, show_nat (unat index), name, show_nat (as_millis d), status, err] s)"

definition csv_finalize ::
  "metrics_env \<Rightarrow> task_id \<Rightarrow> string \<Rightarrow> string option \<Rightarrow> csv_sink \<Rightarrow> csv_sink" where
  "csv_finalize env tid status err s =
     (case map_of (csv_tasks s) tid of
        None \<Rightarrow> s
      | Some acc \<Rightarrow>
          case csv_instant env (s\<lparr>csv_tasks := AList.delete tid (csv_tasks s)\<rparr>) of (now, s) \<Rightarrow>
          case csv_system_time env s of (ended, s) \<Rightarrow>
            append_row env TASKS_FILE TASKS_HEADER
              [tid, start_timestamp acc, ended, show_nat (as_millis (now - start_instant acc)),
               show_nat (unat (llm_call_count acc)), opt_u64_to_string (input_tokens_total acc),
               opt_u64_to_string (output_tokens_total acc), opt_u64_to_string (total_tokens_total acc),
               show_nat (unat (tool_call_count acc)), join '';'' (tools_used acc), status,
               (case err of Some e \<Rightarrow> e | None \<Rightarrow> [])] s)"

definition csv_abandon :: "metrics_env \<Rightarrow> task_id \<Rightarrow> csv_sink \<Rightarrow> csv_sink" where
  "csv_abandon env tid s =
     csv_finalize env tid ''error''
       (Some (case Option.bind (map_of (csv_tasks s) tid) pending_error of Some e \<Rightarrow> e | None \<Rightarrow> NO_TERMINAL)) s"

definition csv_flush_abandoned :: "metrics_env \<Rightarrow> task_id option \<Rightarrow> csv_sink \<Rightarrow> csv_sink" where
  "csv_flush_abandoned env except s =
     fold (csv_abandon env) (filter (\<lambda>t. Some t \<noteq> except) (map fst (csv_tasks s))) s"

text \<open>\<open>tasks.get_mut(task_id)\<close> and an update of the accumulator found.\<close>

definition csv_with_task :: "task_id \<Rightarrow> (csv_task \<Rightarrow> csv_task) \<Rightarrow> csv_sink \<Rightarrow> csv_sink" where
  "csv_with_task tid f s = s\<lparr>csv_tasks := AList.map_entry tid f (csv_tasks s)\<rparr>"

definition handle_tokens_used ::
  "metrics_env \<Rightarrow> task_id \<Rightarrow> llm_call_id \<Rightarrow> u32 \<Rightarrow> u32 option \<Rightarrow> u32 option \<Rightarrow> csv_sink \<Rightarrow> csv_sink" where
  "handle_tokens_used env tid cid index prompt completion s =
     (case csv_pending s of
        None \<Rightarrow> s
      | Some pending \<Rightarrow>
          let s = s\<lparr>csv_pending := None\<rparr>
          in if pend_task pending \<noteq> tid \<or> pend_call pending \<noteq> cid then s
             else
               let total = Option.bind prompt (\<lambda>p. map_option (\<lambda>c. p + c) completion);
                   s = write_llm_call_row env
                         \<lparr>row_task = tid, row_call = cid, row_index = index, row_provider = pend_provider pending,
                          row_model = pend_model pending, row_input = prompt, row_output = completion,
                          row_total = total, row_duration = pend_duration pending, row_status = ''ok'',
                          row_error = []\<rparr> s
               in csv_with_task tid (\<lambda>acc. acc\<lparr>llm_call_count := llm_call_count acc + 1,
                    input_tokens_total := add_optional_u64 (input_tokens_total acc) prompt,
                    output_tokens_total := add_optional_u64 (output_tokens_total acc) completion,
                    total_tokens_total := add_optional_u64 (total_tokens_total acc) total\<rparr>) s)"

definition is_error_output :: "string \<Rightarrow> bool" where
  "is_error_output output = starts_with ''ERROR:'' output"

fun csv_record :: "metrics_env \<Rightarrow> event \<Rightarrow> csv_sink \<Rightarrow> csv_sink" where
  "csv_record env (RequestStarted tid prompt source) s =
     (let s = csv_flush_abandoned env (Some tid) s
      in case csv_task_new env s of (acc, s) \<Rightarrow> s\<lparr>csv_tasks := AList.update tid acc (csv_tasks s)\<rparr>)"
| "csv_record env (LlmCompleted tid cid index d p m) s =
     s\<lparr>csv_pending := Some \<lparr>pend_task = tid, pend_call = cid, pend_duration = d, pend_provider = p,
                           pend_model = m\<rparr>\<rparr>"
| "csv_record env (TokensUsed tid cid index prompt completion) s =
     handle_tokens_used env tid cid index prompt completion s"
| "csv_record env (LlmFailed tid cid index d err p m) s =
     csv_with_task tid (\<lambda>acc. acc\<lparr>llm_call_count := llm_call_count acc + 1\<rparr>)
       (write_llm_call_row env
          \<lparr>row_task = tid, row_call = cid, row_index = index, row_provider = p, row_model = m,
           row_input = None, row_output = None, row_total = None, row_duration = d,
           row_status = ''error'', row_error = err\<rparr> s)"
| "csv_record env (ToolCompleted tid index name d output imgs args mut) s =
     csv_with_task tid (\<lambda>acc. acc\<lparr>tool_call_count := tool_call_count acc + 1,
         tools_used := List.insort_insert name (tools_used acc)\<rparr>)
       (write_tool_call_row env tid index name d
          (if is_error_output output then ''error'' else ''ok'') (if is_error_output output then output else []) s)"
| "csv_record env (RequestFailed tid d err) s = csv_with_task tid (\<lambda>acc. acc\<lparr>pending_error := Some err\<rparr>) s"
| "csv_record env (RequestCompleted tid d reply) s = csv_finalize env tid ''ok'' None s"
| "csv_record env (Cancelled tid) s = csv_finalize env tid ''cancelled'' None s"
| "csv_record env _ s = s"

definition csv_emit :: "metrics_env \<Rightarrow> event \<Rightarrow> csv_sink \<Rightarrow> csv_sink" where
  "csv_emit env e s = (let s = csv_record env e s in s\<lparr>csv_inner := csv_inner s @ [e]\<rparr>)"

definition csv_drop :: "metrics_env \<Rightarrow> csv_sink \<Rightarrow> csv_sink" where
  "csv_drop env s = csv_flush_abandoned env None s"

section \<open>What a metrics sink records of a task\<close>

text \<open>
  The tasks of an event stream, each with the events up to the next start, and how a task ended:
  its first terminal event, or the last failure reported before the next task started. \<open>closing\<close>
  is what a sink writes as the error of a task that ended regularly, given the last one reported, and
  \<open>wrap\<close> how it writes an error message.
\<close>

fun is_start :: "event \<Rightarrow> bool" where
  "is_start (RequestStarted _ _ _) = True"
| "is_start _ = False"

fun task_runs :: "event list \<Rightarrow> (task_id \<times> event list) list" where
  "task_runs [] = []"
| "task_runs (RequestStarted t prompt source # es) = (t, takeWhile (\<lambda>e. \<not> is_start e) es) # task_runs es"
| "task_runs (_ # es) = task_runs es"

fun task_end ::
  "(string \<Rightarrow> 'x) \<Rightarrow> (string option \<Rightarrow> 'x) \<Rightarrow> task_id \<Rightarrow> string option \<Rightarrow> event list \<Rightarrow> string \<times> 'x"
where
  "task_end wrap closing t pe [] = (''error'', wrap (case pe of Some e \<Rightarrow> e | None \<Rightarrow> NO_TERMINAL))"
| "task_end wrap closing t pe (RequestFailed t' d e # es) = task_end wrap closing t (if t' = t then Some e else pe) es"
| "task_end wrap closing t pe (RequestCompleted t' d reply # es) =
     (if t' = t then (''ok'', closing pe) else task_end wrap closing t pe es)"
| "task_end wrap closing t pe (Cancelled t' # es) =
     (if t' = t then (''cancelled'', closing pe) else task_end wrap closing t pe es)"
| "task_end wrap closing t pe (_ # es) = task_end wrap closing t pe es"

definition task_ends ::
  "(string \<Rightarrow> 'x) \<Rightarrow> (string option \<Rightarrow> 'x) \<Rightarrow> event list \<Rightarrow> (task_id \<times> string \<times> 'x) list" where
  "task_ends wrap closing es = map (\<lambda>(t, run). (t, task_end wrap closing t None run)) (task_runs es)"

text \<open>
  The contract of a sink: while \<open>valid\<close>, it has at most one task \<open>live\<close>, with the last error
  reported for it, and \<open>ended\<close> are the tasks written so far.
\<close>

locale task_accounts =
  fixes valid :: "'s \<Rightarrow> bool"
    and live :: "'s \<Rightarrow> (task_id \<times> string option) option"
    and ended :: "'s \<Rightarrow> (task_id \<times> string \<times> 'x) list"
    and step :: "event \<Rightarrow> 's \<Rightarrow> 's"
    and finish :: "'s \<Rightarrow> 's"
    and wrap :: "string \<Rightarrow> 'x"
    and closing :: "string option \<Rightarrow> 'x"
  assumes valid_step: "valid s \<Longrightarrow> valid (step e s)"
    and start: "valid s \<Longrightarrow> (\<And>pe. live s \<noteq> Some (t, pe)) \<Longrightarrow>
      live (step (RequestStarted t prompt source) s) = Some (t, None) \<and>
      ended (step (RequestStarted t prompt source) s) = ended (finish s)"
    and terminal: "valid s \<Longrightarrow> live s = Some (t, pe) \<Longrightarrow>
      (e = RequestCompleted t d reply \<and> status = ''ok'') \<or> (e = Cancelled t \<and> status = ''cancelled'') \<Longrightarrow>
      live (step e s) = None \<and> ended (step e s) = ended s @ [(t, status, closing pe)]"
    and failed: "valid s \<Longrightarrow> live s = Some (t, pe) \<Longrightarrow>
      live (step (RequestFailed t d err) s) = Some (t, Some err) \<and> ended (step (RequestFailed t d err) s) = ended s"
    and other: "valid s \<Longrightarrow> \<not> is_start e \<Longrightarrow>
      (\<And>t pe. live s = Some (t, pe) \<Longrightarrow> event_task e = Some t \<Longrightarrow>
         (\<forall>d err. e \<noteq> RequestFailed t d err) \<and> (\<forall>d reply. e \<noteq> RequestCompleted t d reply) \<and> e \<noteq> Cancelled t) \<Longrightarrow>
      live (step e s) = live s \<and> ended (step e s) = ended s"
    and finish: "valid s \<Longrightarrow> ended (finish s) = ended s @
      (case live s of None \<Rightarrow> [] | Some (t, pe) \<Rightarrow> [(t, task_end wrap closing t pe [])])"
begin

lemma accounts_from:
  assumes "valid s" and "distinct (map fst (task_runs es))"
    and "\<And>t pe. live s = Some (t, pe) \<Longrightarrow> t \<notin> fst ` set (task_runs es)"
  shows "ended (finish (fold step es s)) = ended s @
    (case live s of None \<Rightarrow> [] | Some (t, pe) \<Rightarrow> 
      [(t, task_end wrap closing t pe (takeWhile (\<lambda>e. \<not> is_start e) es))]) @
    task_ends wrap closing es"
  using assms
proof (induction es arbitrary: s)
  case Nil
  then show ?case by (simp add: finish task_ends_def split: option.splits)
next
  case (Cons e es)
  have v: "valid (step e s)" using Cons.prems(1) by (rule valid_step)
  show ?case
  proof (cases "is_start e")
    case True
    then obtain t prompt source where e: "e = RequestStarted t prompt source" by (cases e) auto
    have "live s \<noteq> Some (t, pe)" for pe using Cons.prems(3) by (auto simp: e)
    then have st: "live (step e s) = Some (t, None) \<and> ended (step e s) = ended (finish s)"
      unfolding e by (intro start Cons.prems(1))
    then have "ended (finish (fold step es (step e s))) = ended (step e s) @
      [(t, task_end wrap closing t None (takeWhile (\<lambda>e. \<not> is_start e) es))] @ task_ends wrap closing es"
      using Cons.IH [OF v] Cons.prems(2) by (simp add: e)
    then show ?thesis using st finish [OF Cons.prems(1)]
      by (simp add: e task_ends_def split: option.splits)
  next
    case ns: False
    then have runs: "task_runs (e # es) = task_runs es" by (cases e) auto
    then have ends: "task_ends wrap closing (e # es) = task_ends wrap closing es" by (simp add: task_ends_def)
    show ?thesis
    proof (cases "\<exists>t pe. live s = Some (t, pe) \<and> event_task e = Some t \<and>
       ((\<exists>d err. e = RequestFailed t d err) \<or> (\<exists>d reply. e = RequestCompleted t d reply) \<or> e = Cancelled t)")
      case False
      then have o: "live (step e s) = live s \<and> ended (step e s) = ended s"
        by (intro other Cons.prems(1) ns) blast
      have "task_end wrap closing t pe (e # es') = task_end wrap closing t pe es'" if "live s = Some (t, pe)" for t pe es'
        using False that ns by (cases e) auto
      then show ?thesis
        using Cons.IH [OF v] Cons.prems(2,3) o ns by (simp add: ends runs split: option.splits)
    next
      case True
      then obtain t pe where l: "live s = Some (t, pe)" and c: "(\<exists>d err. e = RequestFailed t d err) \<or>
        (\<exists>d reply. e = RequestCompleted t d reply) \<or> e = Cancelled t" by blast
      from c consider (f) d err where "e = RequestFailed t d err"
        | (c) d reply status where "(e = RequestCompleted t d reply \<and> status = ''ok'') \<or>
            (e = Cancelled t \<and> status = ''cancelled'')" by blast
      then show ?thesis
      proof cases
        case f
        then show ?thesis using failed [OF Cons.prems(1) l, of d err] Cons.IH [OF v] Cons.prems(2,3) l ends runs
          by simp
      next
        case c
        then show ?thesis using terminal [OF Cons.prems(1) l c] Cons.IH [OF v] Cons.prems(2) l ends runs
          by auto
      qed
    qed
  qed
qed

theorem accounts:
  assumes "valid s" and "live s = None" and "distinct (map fst (task_runs es))"
  shows "ended (finish (fold step es s)) = ended s @ task_ends wrap closing es"
  using accounts_from [OF assms(1,3)] assms(2) by simp

end

section \<open>The CSV sink accounts for every task\<close>

definition csv_live :: "csv_sink \<Rightarrow> (task_id \<times> string option) option" where
  "csv_live s = (case csv_tasks s of [] \<Rightarrow> None | (t, acc) # _ \<Rightarrow> Some (t, pending_error acc))"

text \<open>The columns \<open>task_id\<close>, \<open>status\<close> and \<open>error\<close> of the rows below the header.\<close>

definition csv_ended :: "csv_sink \<Rightarrow> (task_id \<times> string \<times> string) list" where
  "csv_ended s = map (\<lambda>row. (row ! 0, row ! 10, row ! 11)) (tl (csv_files s TASKS_FILE))"

definition csv_valid :: "metrics_env \<Rightarrow> csv_sink \<Rightarrow> bool" where
  "csv_valid env s \<longleftrightarrow> csv_dir s \<and> (\<forall>n. \<not> write_fails env n) \<and> length (csv_tasks s) \<le> 1"

lemma csv_files_distinct [simp]:
  "TASKS_FILE \<noteq> LLM_CALLS_FILE" "TASKS_FILE \<noteq> TOOL_CALLS_FILE" "LLM_CALLS_FILE \<noteq> TASKS_FILE"
  "TOOL_CALLS_FILE \<noteq> TASKS_FILE" "LLM_CALLS_FILE \<noteq> TOOL_CALLS_FILE" "TOOL_CALLS_FILE \<noteq> LLM_CALLS_FILE"
  by (simp_all add: TASKS_FILE_def LLM_CALLS_FILE_def TOOL_CALLS_FILE_def)

text \<open>What the operations that do not touch a task leave alone.\<close>

lemma append_row_sel [simp]:
  "csv_dir (append_row env file header row s) = csv_dir s"
  "csv_tasks (append_row env file header row s) = csv_tasks s"
  "csv_pending (append_row env file header row s) = csv_pending s"
  "csv_inner (append_row env file header row s) = csv_inner s"
  "file' \<noteq> file \<Longrightarrow> csv_files (append_row env file header row s) file' = csv_files s file'"
  by (simp_all add: append_row_def write_row_def Let_def)

lemma append_row_files:
  "csv_dir s \<Longrightarrow> \<forall>n. \<not> write_fails env n \<Longrightarrow>
    tl (csv_files (append_row env file header row s) file) = tl (csv_files s file) @ [row]"
  by (cases "csv_files s file") (simp_all add: append_row_def write_row_def Let_def)

lemma clock_sel [simp]:
  "csv_system_time env s = (format_rfc3339_utc (wall_clock env (csv_readings s)), s\<lparr>csv_readings := csv_readings s + 1\<rparr>)"
  "csv_instant env s = (monotonic env (csv_readings s), s\<lparr>csv_readings := csv_readings s + 1\<rparr>)"
  by (simp_all add: csv_system_time_def csv_instant_def)

lemma write_call_rows_sel [simp]:
  "csv_dir (write_llm_call_row env call s) = csv_dir s"
  "csv_tasks (write_llm_call_row env call s) = csv_tasks s"
  "csv_files (write_llm_call_row env call s) TASKS_FILE = csv_files s TASKS_FILE"
  "csv_dir (write_tool_call_row env tid index name d status err s) = csv_dir s"
  "csv_tasks (write_tool_call_row env tid index name d status err s) = csv_tasks s"
  "csv_files (write_tool_call_row env tid index name d status err s) TASKS_FILE = csv_files s TASKS_FILE"
  by (simp_all add: write_llm_call_row_def write_tool_call_row_def)

lemma csv_with_task_sel [simp]:
  "csv_dir (csv_with_task tid f s) = csv_dir s"
  "csv_files (csv_with_task tid f s) = csv_files s"
  "csv_tasks (csv_with_task tid f s) = AList.map_entry tid f (csv_tasks s)"
  by (simp_all add: csv_with_task_def)

lemma length_map_entry [simp]: "length (AList.map_entry k f xs) = length xs"
  by (induction xs) auto

lemma csv_live_with_task:
  "(\<And>acc. pending_error (f acc) = pending_error acc) \<Longrightarrow> csv_live (csv_with_task tid f s) = csv_live s"
  by (cases "csv_tasks s") (auto simp: csv_live_def)

lemma csv_ended_cong: "csv_files s TASKS_FILE = csv_files s' TASKS_FILE \<Longrightarrow> csv_ended s = csv_ended s'"
  by (simp add: csv_ended_def)

lemma csv_live_cong: "csv_tasks s = csv_tasks s' \<Longrightarrow> csv_live s = csv_live s'"
  by (simp add: csv_live_def)

lemma csv_finalize_absent: "map_of (csv_tasks s) tid = None \<Longrightarrow> csv_finalize env tid status err s = s"
  by (simp add: csv_finalize_def)

lemma csv_finalize_live:
  assumes "csv_valid env s" and "csv_tasks s = [(tid, acc)]"
  shows "csv_tasks (csv_finalize env tid status err s) = []"
    and "csv_dir (csv_finalize env tid status err s)"
    and "csv_ended (csv_finalize env tid status err s) =
      csv_ended s @ [(tid, status, case err of Some e \<Rightarrow> e | None \<Rightarrow> [])]"
  using assms by (simp_all add: csv_finalize_def csv_valid_def csv_ended_def append_row_files)

lemma csv_tasks_cases:
  assumes "csv_valid env s"
  obtains (idle) "csv_tasks s = []" "csv_live s = None"
    | (busy) t acc where "csv_tasks s = [(t, acc)]" "csv_live s = Some (t, pending_error acc)"
  using assms by (cases "csv_tasks s") (auto simp: csv_valid_def csv_live_def)

lemma csv_flush_abandoned_spec:
  assumes "csv_valid env s" and "\<And>t pe. except = Some t \<Longrightarrow> csv_live s \<noteq> Some (t, pe)"
  shows "csv_tasks (csv_flush_abandoned env except s) = [] \<and> csv_dir (csv_flush_abandoned env except s) \<and>
    csv_ended (csv_flush_abandoned env except s) = csv_ended s @
      (case csv_live s of None \<Rightarrow> []
       | Some (t, pe) \<Rightarrow> [(t, ''error'', case pe of Some e \<Rightarrow> e | None \<Rightarrow> NO_TERMINAL)])"
  using assms(1)
proof (cases rule: csv_tasks_cases)
  case idle
  then show ?thesis using assms(1) by (simp add: csv_flush_abandoned_def csv_valid_def)
next
  case (busy t acc)
  then have "csv_flush_abandoned env except s = csv_abandon env t s"
    using assms(2) by (auto simp: csv_flush_abandoned_def)
  then show ?thesis using csv_finalize_live [OF assms(1) busy(1)] busy by (simp add: csv_abandon_def)
qed

lemma csv_record_start:
  assumes "csv_valid env s" and "\<And>pe. csv_live s \<noteq> Some (t, pe)"
  shows "csv_live (csv_record env (RequestStarted t prompt source) s) = Some (t, None)"
    and "csv_ended (csv_record env (RequestStarted t prompt source) s) = csv_ended (csv_drop env s)"
    and "csv_valid env (csv_record env (RequestStarted t prompt source) s)"
proof -
  have "csv_tasks (csv_flush_abandoned env (Some t) s) = [] \<and> csv_dir (csv_flush_abandoned env (Some t) s) \<and>
    csv_ended (csv_flush_abandoned env (Some t) s) = csv_ended (csv_drop env s)"
    using csv_flush_abandoned_spec [OF assms(1), of "Some t"] csv_flush_abandoned_spec [OF assms(1), of None]
      assms(2) by (auto simp: csv_drop_def)
  with assms(1) show "csv_live (csv_record env (RequestStarted t prompt source) s) = Some (t, None)"
    and "csv_ended (csv_record env (RequestStarted t prompt source) s) = csv_ended (csv_drop env s)"
    and "csv_valid env (csv_record env (RequestStarted t prompt source) s)"
    by (simp_all add: Let_def csv_task_new_def csv_live_def csv_ended_def csv_valid_def)
qed

lemma csv_tokens_used_sel [simp]:
  "csv_dir (handle_tokens_used env tid cid i p c s) = csv_dir s"
  "csv_files (handle_tokens_used env tid cid i p c s) TASKS_FILE = csv_files s TASKS_FILE"
  "length (csv_tasks (handle_tokens_used env tid cid i p c s)) = length (csv_tasks s)"
  by (simp_all add: handle_tokens_used_def Let_def split: option.splits)

lemma csv_tokens_used_live [simp]: "csv_live (handle_tokens_used env tid cid i p c s) = csv_live s"
  by (auto simp: handle_tokens_used_def Let_def csv_live_with_task intro: csv_live_cong split: option.splits)

lemma csv_valid_record: "csv_valid env s \<Longrightarrow> csv_valid env (csv_record env e s)"
proof (induction env e s rule: csv_record.induct)
  case (1 env tid prompt source s)
  show ?case
  proof (cases "\<exists>acc. csv_tasks s = [(tid, acc)]")
    case True
    then show ?thesis using 1 by (auto simp: csv_flush_abandoned_def csv_valid_def csv_task_new_def Let_def)
  next
    case False
    then have "csv_live s \<noteq> Some (tid, pe)" for pe
      by (cases rule: csv_tasks_cases [OF 1]) auto
    then show ?thesis by (rule csv_record_start(3) [OF 1])
  qed
next
  case (7 env tid d reply s)
  then show ?case
    by (cases rule: csv_tasks_cases; cases "map_of (csv_tasks s) tid")
      (auto simp: csv_finalize_absent csv_finalize_live csv_valid_def split: if_splits)
next
  case (8 env tid s)
  then show ?case
    by (cases rule: csv_tasks_cases; cases "map_of (csv_tasks s) tid")
      (auto simp: csv_finalize_absent csv_finalize_live csv_valid_def split: if_splits)
qed (simp_all add: csv_valid_def)

lemma csv_emit_sel [simp]:
  "csv_valid env (csv_emit env e s) = csv_valid env (csv_record env e s)"
  "csv_live (csv_emit env e s) = csv_live (csv_record env e s)"
  "csv_ended (csv_emit env e s) = csv_ended (csv_record env e s)"
  "csv_files (csv_emit env e s) = csv_files (csv_record env e s)"
  "csv_tasks (csv_emit env e s) = csv_tasks (csv_record env e s)"
  "csv_dir (csv_emit env e s) = csv_dir (csv_record env e s)"
  by (simp_all add: csv_emit_def Let_def csv_valid_def csv_live_def csv_ended_def)

interpretation csv: task_accounts "csv_valid env" csv_live csv_ended "csv_emit env" "csv_drop env" id "\<lambda>_. []"
  for env
proof unfold_locales
  fix s t pe prompt source
  assume "csv_valid env s" and "\<And>pe. csv_live s \<noteq> Some (t, pe)"
  then show "csv_live (csv_emit env (RequestStarted t prompt source) s) = Some (t, None) \<and>
      csv_ended (csv_emit env (RequestStarted t prompt source) s) = csv_ended (csv_drop env s)"
    using csv_record_start(1,2) [of env s t] by simp
next
  fix s t pe e d reply status
  assume v: "csv_valid env s" and l: "csv_live s = Some (t, pe)"
    and e: "e = RequestCompleted t d reply \<and> status = ''ok'' \<or> e = Cancelled t \<and> status = ''cancelled''"
  from v l obtain acc where "csv_tasks s = [(t, acc)]" by (cases rule: csv_tasks_cases) auto
  from csv_finalize_live [OF v this] e
  show "csv_live (csv_emit env e s) = None \<and> csv_ended (csv_emit env e s) = csv_ended s @ [(t, status, [])]"
    by (auto simp: csv_live_def)
next
  fix s t pe d err
  assume "csv_valid env s" and "csv_live s = Some (t, pe)"
  then show "csv_live (csv_emit env (RequestFailed t d err) s) = Some (t, Some err) \<and>
      csv_ended (csv_emit env (RequestFailed t d err) s) = csv_ended s"
    by (cases rule: csv_tasks_cases) (auto simp: csv_live_def csv_ended_def)
next
  fix s e
  assume v: "csv_valid env s" and ns: "\<not> is_start e"
    and o: "\<And>t pe. csv_live s = Some (t, pe) \<Longrightarrow> event_task e = Some t \<Longrightarrow>
      (\<forall>d err. e \<noteq> RequestFailed t d err) \<and> (\<forall>d reply. e \<noteq> RequestCompleted t d reply) \<and> e \<noteq> Cancelled t"
  from v have none: "map_of (csv_tasks s) t = None" if "event_task e = Some t" "(\<exists>d err. e = RequestFailed t d err) \<or>
    (\<exists>d reply. e = RequestCompleted t d reply) \<or> e = Cancelled t" for t
    using that o by (cases rule: csv_tasks_cases) auto
  have "csv_ended (csv_with_task t f s) = csv_ended s" for t f by (simp add: csv_ended_def)
  with v ns none show "csv_live (csv_emit env e s) = csv_live s \<and> csv_ended (csv_emit env e s) = csv_ended s"
    by (cases e; cases rule: csv_tasks_cases)
      (auto simp: csv_finalize_absent csv_live_with_task csv_live_def csv_tokens_used_live [unfolded csv_live_def]
        intro!: csv_ended_cong)
next
  fix s
  assume "csv_valid env s"
  from csv_flush_abandoned_spec [OF this, of None]
  show "csv_ended (csv_drop env s) = csv_ended s @
      (case csv_live s of None \<Rightarrow> [] | Some (t, pe) \<Rightarrow> [(t, task_end id (\<lambda>_. []) t pe [])])"
    by (simp add: csv_drop_def split: option.splits prod.splits)
qed (simp add: csv_valid_record)

text \<open>The rows of \<open>tool_calls.csv\<close> and the event stream: one per completed tool call.\<close>

fun tool_call_of :: "event \<Rightarrow> (task_id \<times> string \<times> string \<times> string) list" where
  "tool_call_of (ToolCompleted t i name d output imgs args mut) =
     [(t, show_nat (unat i), name, if is_error_output output then ''error'' else ''ok'')]"
| "tool_call_of _ = []"

definition csv_tool_rows :: "csv_sink \<Rightarrow> (task_id \<times> string \<times> string \<times> string) list" where
  "csv_tool_rows s = map (\<lambda>row. (row ! 1, row ! 2, row ! 3, row ! 5)) (tl (csv_files s TOOL_CALLS_FILE))"

lemma csv_finalize_other [simp]:
  "csv_files (csv_finalize env tid status err s) TOOL_CALLS_FILE = csv_files s TOOL_CALLS_FILE"
  "csv_inner (csv_finalize env tid status err s) = csv_inner s"
  by (simp_all add: csv_finalize_def split: option.splits)

lemma csv_flush_other [simp]:
  "csv_files (csv_flush_abandoned env except s) TOOL_CALLS_FILE = csv_files s TOOL_CALLS_FILE"
  "csv_inner (csv_flush_abandoned env except s) = csv_inner s"
proof -
  have "csv_files (fold (csv_abandon env) ts s) TOOL_CALLS_FILE = csv_files s TOOL_CALLS_FILE \<and>
    csv_inner (fold (csv_abandon env) ts s) = csv_inner s" for ts
    by (induction ts arbitrary: s) (simp_all add: csv_abandon_def)
  then show "csv_files (csv_flush_abandoned env except s) TOOL_CALLS_FILE = csv_files s TOOL_CALLS_FILE"
    and "csv_inner (csv_flush_abandoned env except s) = csv_inner s" by (simp_all add: csv_flush_abandoned_def)
qed

lemma csv_tokens_used_other [simp]:
  "csv_files (handle_tokens_used env tid cid i p c s) TOOL_CALLS_FILE = csv_files s TOOL_CALLS_FILE"
  "csv_inner (handle_tokens_used env tid cid i p c s) = csv_inner s"
  by (simp_all add: handle_tokens_used_def write_llm_call_row_def csv_with_task_def Let_def split: option.splits)

lemma csv_record_inner [simp]: "csv_inner (csv_record env e s) = csv_inner s"
  by (cases e) (simp_all add: Let_def csv_task_new_def csv_with_task_def write_llm_call_row_def
      write_tool_call_row_def)

lemma csv_forwards: "csv_inner (fold (csv_emit env) es s) = csv_inner s @ es"
  by (induction es arbitrary: s) (simp_all add: csv_emit_def Let_def)

lemma csv_record_tool_rows:
  assumes "csv_valid env s"
  shows "csv_tool_rows (csv_record env e s) = csv_tool_rows s @ tool_call_of e"
  using assms
  by (cases e) (simp_all add: csv_tool_rows_def Let_def csv_task_new_def write_llm_call_row_def
      write_tool_call_row_def append_row_files csv_valid_def)

lemma csv_tool_rows_emit [simp]: "csv_tool_rows (csv_emit env e s) = csv_tool_rows (csv_record env e s)"
  by (simp add: csv_tool_rows_def)

lemma csv_all_tool_rows:
  "csv_valid env s \<Longrightarrow> csv_tool_rows (fold (csv_emit env) es s) = csv_tool_rows s @ concat (map tool_call_of es)"
  by (induction es arbitrary: s) (simp_all add: csv_record_tool_rows csv_valid_record)

text \<open>
  C13. The CSV metrics account for every task: after a stream of events in which no task starts twice, and
  the drop of the sink, \<open>tasks.csv\<close> has gained one row per started task, in the order of the starts, with
  the status of its first terminal event, or \<open>error\<close> with the last reported failure when it had none
  before the next task started; \<open>tool_calls.csv\<close> has gained one row per completed tool call; and the
  wrapped sink was given every event unchanged, whatever the disk did.
\<close>

theorem csv_accounts_for_tasks:
  assumes "\<forall>n. \<not> write_fails env n" and "distinct (map fst (task_runs es))"
  shows "csv_ended (csv_drop env (fold (csv_emit env) es (csv_new True files))) =
      csv_ended (csv_new True files) @ task_ends id (\<lambda>_. []) es \<and>
    csv_tool_rows (csv_drop env (fold (csv_emit env) es (csv_new True files))) =
      csv_tool_rows (csv_new True files) @ concat (map tool_call_of es) \<and>
    csv_inner (csv_drop env' (fold (csv_emit env') es (csv_new dir files))) = es"
proof (intro conjI)
  have v: "csv_valid env (csv_new True files)" using assms(1) by (simp add: csv_valid_def csv_new_def)
  moreover have "csv_live (csv_new True files) = None" by (simp add: csv_live_def csv_new_def)
  ultimately show "csv_ended (csv_drop env (fold (csv_emit env) es (csv_new True files))) =
      csv_ended (csv_new True files) @ task_ends id (\<lambda>_. []) es"
    by (intro csv.accounts assms(2))
  show "csv_tool_rows (csv_drop env (fold (csv_emit env) es (csv_new True files))) =
      csv_tool_rows (csv_new True files) @ concat (map tool_call_of es)"
    using csv_all_tool_rows [OF v, of es] by (simp add: csv_drop_def csv_tool_rows_def)
  show "csv_inner (csv_drop env' (fold (csv_emit env') es (csv_new dir files))) = es"
    by (simp add: csv_drop_def csv_forwards) (simp add: csv_new_def)
qed

theorem csv_accounts_for_tasks_witness:
  "csv_ended (csv_drop \<lparr>wall_clock = \<lambda>_. 0, monotonic = \<lambda>n. n, write_fails = \<lambda>_. False\<rparr>
     (fold (csv_emit \<lparr>wall_clock = \<lambda>_. 0, monotonic = \<lambda>n. n, write_fails = \<lambda>_. False\<rparr>)
       [RequestStarted ''1-1'' ''hi'' Cli, RequestFailed ''1-1'' 5 ''LLM error'',
        RequestStarted ''1-2'' ''hi'' Cli, RequestCompleted ''1-2'' 7 ''hello'']
       (csv_new True (\<lambda>_. [])))) = [(''1-1'', ''error'', ''LLM error''), (''1-2'', ''ok'', [])]"
  using csv_accounts_for_tasks [of "\<lparr>wall_clock = \<lambda>_. 0, monotonic = \<lambda>n. n, write_fails = \<lambda>_. False\<rparr>"
      "[RequestStarted ''1-1'' ''hi'' Cli, RequestFailed ''1-1'' 5 ''LLM error'',
        RequestStarted ''1-2'' ''hi'' Cli, RequestCompleted ''1-2'' 7 ''hello'']" "\<lambda>_. []"]
  by (simp add: task_ends_def csv_ended_def csv_new_def del: fold.simps)

end
