(* ===== verification/Metrics_Json.thy ===== *)
theory Metrics_Json
  imports Metrics
begin

text \<open>
  The JSON metrics sink (\<open>apps/nala/src/adapters/metrics/jsonl_sink.rs\<close>): one record per task with
  its prompt, its reply and every model and tool call. It is built on the same contract as the
  CSV sink (\<open>task_accounts\<close>), so both account for the same tasks.
\<close>

section \<open>Translation\<close>

record llm_call_record =
  jl_call_index :: u32
  jl_provider :: string
  jl_model :: string
  jl_input_tokens :: "u32 option"
  jl_output_tokens :: "u32 option"
  jl_latency_ms :: nat
  jl_status :: string
  jl_error :: "string option"

record tool_call_record =
  jt_index :: u32
  jt_name :: string
  jt_arguments :: string
  jt_duration_ms :: nat
  jt_status :: string
  jt_output :: string
  jt_mutated :: bool
  jt_error :: "string option"

record task_record =
  tr_task_id :: task_id
  tr_source :: request_source
  tr_prompt :: string
  tr_start_timestamp :: string
  tr_end_timestamp :: string
  tr_duration_ms :: nat
  tr_status :: string
  tr_error :: "string option"
  tr_reply :: "string option"
  tr_llm_calls :: "llm_call_record list"
  tr_tool_calls :: "tool_call_record list"

record pending_tokens =
  pt_task :: task_id
  pt_call :: llm_call_id
  pt_index :: nat

record jsonl_task =
  jk_prompt :: string
  jk_source :: request_source
  jk_start_timestamp :: string
  jk_start_instant :: duration
  jk_reply :: "string option"
  jk_pending_error :: "string option"
  jk_llm_calls :: "llm_call_record list"
  jk_tool_calls :: "tool_call_record list"

record jsonl_sink =
  jsonl_dir :: bool
  jsonl_tasks :: "(task_id \<times> jsonl_task) list"
  jsonl_pending :: "pending_tokens option"
  jsonl_lines :: "task_record list"
  jsonl_readings :: nat
  jsonl_writes :: nat
  jsonl_inner :: "event list"

definition jsonl_new :: "bool \<Rightarrow> task_record list \<Rightarrow> jsonl_sink" where
  "jsonl_new dir lns = \<lparr>jsonl_dir = dir, jsonl_tasks = [], jsonl_pending = None, jsonl_lines = lns,
     jsonl_readings = 0, jsonl_writes = 0, jsonl_inner = []\<rparr>"

definition jsonl_system_time :: "metrics_env \<Rightarrow> jsonl_sink \<Rightarrow> string \<times> jsonl_sink" where
  "jsonl_system_time env s =
     (format_rfc3339_utc (wall_clock env (jsonl_readings s)), s\<lparr>jsonl_readings := jsonl_readings s + 1\<rparr>)"

definition jsonl_instant :: "metrics_env \<Rightarrow> jsonl_sink \<Rightarrow> duration \<times> jsonl_sink" where
  "jsonl_instant env s = (monotonic env (jsonl_readings s), s\<lparr>jsonl_readings := jsonl_readings s + 1\<rparr>)"

definition jsonl_task_new ::
  "metrics_env \<Rightarrow> string \<Rightarrow> request_source \<Rightarrow> jsonl_sink \<Rightarrow> jsonl_task \<times> jsonl_sink" where
  "jsonl_task_new env prompt source s =
     (case jsonl_system_time env s of (started, s) \<Rightarrow> case jsonl_instant env s of (now, s) \<Rightarrow>
        (\<lparr>jk_prompt = prompt, jk_source = source, jk_start_timestamp = started, jk_start_instant = now,
          jk_reply = None, jk_pending_error = None, jk_llm_calls = [], jk_tool_calls = []\<rparr>, s))"

definition write_line :: "metrics_env \<Rightarrow> task_record \<Rightarrow> jsonl_sink \<Rightarrow> jsonl_sink" where
  "write_line env r s =
     (if \<not> jsonl_dir s then s
      else s\<lparr>jsonl_writes := jsonl_writes s + 1,
             jsonl_lines := jsonl_lines s @ (if write_fails env (jsonl_writes s) then [] else [r])\<rparr>)"

definition jsonl_finalize ::
  "metrics_env \<Rightarrow> task_id \<Rightarrow> string \<Rightarrow> string option \<Rightarrow> jsonl_sink \<Rightarrow> jsonl_sink" where
  "jsonl_finalize env tid status err s =
     (case map_of (jsonl_tasks s) tid of
        None \<Rightarrow> s
      | Some acc \<Rightarrow>
          let err = (case err of Some e \<Rightarrow> Some e | None \<Rightarrow> jk_pending_error acc)
          in case jsonl_system_time env (s\<lparr>jsonl_tasks := AList.delete tid (jsonl_tasks s)\<rparr>) of (ended, s) \<Rightarrow>
             case jsonl_instant env s of (now, s) \<Rightarrow>
               write_line env
                 \<lparr>tr_task_id = tid, tr_source = jk_source acc, tr_prompt = jk_prompt acc,
                  tr_start_timestamp = jk_start_timestamp acc, tr_end_timestamp = ended,
                  tr_duration_ms = as_millis (now - jk_start_instant acc), tr_status = status, tr_error = err,
                  tr_reply = jk_reply acc, tr_llm_calls = jk_llm_calls acc, tr_tool_calls = jk_tool_calls acc\<rparr> s)"

definition jsonl_abandon :: "metrics_env \<Rightarrow> task_id \<Rightarrow> jsonl_sink \<Rightarrow> jsonl_sink" where
  "jsonl_abandon env tid s =
     jsonl_finalize env tid ''error''
       (Some (case Option.bind (map_of (jsonl_tasks s) tid) jk_pending_error of Some e \<Rightarrow> e | None \<Rightarrow> NO_TERMINAL)) s"

definition jsonl_flush_abandoned :: "metrics_env \<Rightarrow> task_id option \<Rightarrow> jsonl_sink \<Rightarrow> jsonl_sink" where
  "jsonl_flush_abandoned env except s =
     fold (jsonl_abandon env) (filter (\<lambda>t. Some t \<noteq> except) (map fst (jsonl_tasks s))) s"

definition jsonl_with_task :: "task_id \<Rightarrow> (jsonl_task \<Rightarrow> jsonl_task) \<Rightarrow> jsonl_sink \<Rightarrow> jsonl_sink" where
  "jsonl_with_task tid f s = s\<lparr>jsonl_tasks := AList.map_entry tid f (jsonl_tasks s)\<rparr>"

text \<open>\<open>call.input_tokens = ...; call.output_tokens = ...\<close> on the record at an index.\<close>

definition patch_tokens :: "nat \<Rightarrow> u32 option \<Rightarrow> u32 option \<Rightarrow> jsonl_task \<Rightarrow> jsonl_task" where
  "patch_tokens i prompt completion acc =
     (if i < length (jk_llm_calls acc)
      then acc\<lparr>jk_llm_calls := (jk_llm_calls acc)[i := (jk_llm_calls acc ! i)
                 \<lparr>jl_input_tokens := prompt, jl_output_tokens := completion\<rparr>]\<rparr>
      else acc)"

fun jsonl_record :: "metrics_env \<Rightarrow> event \<Rightarrow> jsonl_sink \<Rightarrow> jsonl_sink" where
  "jsonl_record env (RequestStarted tid prompt source) s =
     (let s = jsonl_flush_abandoned env (Some tid) s
      in case jsonl_task_new env prompt source s of (acc, s) \<Rightarrow>
           s\<lparr>jsonl_tasks := AList.update tid acc (jsonl_tasks s)\<rparr>)"
| "jsonl_record env (LlmCompleted tid cid index d p m) s =
     (case map_of (jsonl_tasks s) tid of
        None \<Rightarrow> s
      | Some acc \<Rightarrow>
          (jsonl_with_task tid (\<lambda>acc. acc\<lparr>jk_llm_calls := jk_llm_calls acc @
               [\<lparr>jl_call_index = index, jl_provider = p, jl_model = m, jl_input_tokens = None,
                 jl_output_tokens = None, jl_latency_ms = as_millis d, jl_status = ''ok'', jl_error = None\<rparr>]\<rparr>) s)
            \<lparr>jsonl_pending := Some \<lparr>pt_task = tid, pt_call = cid, pt_index = length (jk_llm_calls acc)\<rparr>\<rparr>)"
| "jsonl_record env (TokensUsed tid cid index prompt completion) s =
     (case jsonl_pending s of
        None \<Rightarrow> s
      | Some pending \<Rightarrow>
          let s = s\<lparr>jsonl_pending := None\<rparr>
          in if pt_task pending \<noteq> tid \<or> pt_call pending \<noteq> cid then s
             else jsonl_with_task tid (patch_tokens (pt_index pending) prompt completion) s)"
| "jsonl_record env (LlmFailed tid cid index d err p m) s =
     jsonl_with_task tid (\<lambda>acc. acc\<lparr>jk_llm_calls := jk_llm_calls acc @
         [\<lparr>jl_call_index = index, jl_provider = p, jl_model = m, jl_input_tokens = None,
           jl_output_tokens = None, jl_latency_ms = as_millis d, jl_status = ''error'', jl_error = Some err\<rparr>]\<rparr>) s"
| "jsonl_record env (ToolCompleted tid index name d output imgs args mut) s =
     (let is_error = is_error_output output
      in jsonl_with_task tid (\<lambda>acc. acc\<lparr>jk_tool_calls := jk_tool_calls acc @
           [\<lparr>jt_index = index, jt_name = name, jt_arguments = args, jt_duration_ms = as_millis d,
             jt_status = (if is_error then ''error'' else ''ok''), jt_output = output, jt_mutated = mut,
             jt_error = (if is_error then Some output else None)\<rparr>]\<rparr>) s)"
| "jsonl_record env (RequestFailed tid d err) s = jsonl_with_task tid (\<lambda>acc. acc\<lparr>jk_pending_error := Some err\<rparr>) s"
| "jsonl_record env (RequestCompleted tid d reply) s =
     jsonl_finalize env tid ''ok'' None (jsonl_with_task tid (\<lambda>acc. acc\<lparr>jk_reply := Some reply\<rparr>) s)"
| "jsonl_record env (Cancelled tid) s = jsonl_finalize env tid ''cancelled'' None s"
| "jsonl_record env _ s = s"

definition jsonl_emit :: "metrics_env \<Rightarrow> event \<Rightarrow> jsonl_sink \<Rightarrow> jsonl_sink" where
  "jsonl_emit env e s = (let s = jsonl_record env e s in s\<lparr>jsonl_inner := jsonl_inner s @ [e]\<rparr>)"

definition jsonl_drop :: "metrics_env \<Rightarrow> jsonl_sink \<Rightarrow> jsonl_sink" where
  "jsonl_drop env s = jsonl_flush_abandoned env None s"

section \<open>The JSON sink accounts for every task\<close>

definition jsonl_live :: "jsonl_sink \<Rightarrow> (task_id \<times> string option) option" where
  "jsonl_live s = (case jsonl_tasks s of [] \<Rightarrow> None | (t, acc) # _ \<Rightarrow> Some (t, jk_pending_error acc))"

definition jsonl_ended :: "jsonl_sink \<Rightarrow> (task_id \<times> string \<times> string option) list" where
  "jsonl_ended s = map (\<lambda>r. (tr_task_id r, tr_status r, tr_error r)) (jsonl_lines s)"

definition jsonl_valid :: "metrics_env \<Rightarrow> jsonl_sink \<Rightarrow> bool" where
  "jsonl_valid env s \<longleftrightarrow> jsonl_dir s \<and> (\<forall>n. \<not> write_fails env n) \<and> length (jsonl_tasks s) \<le> 1"

lemma jsonl_clock_sel [simp]:
  "jsonl_system_time env s =
     (format_rfc3339_utc (wall_clock env (jsonl_readings s)), s\<lparr>jsonl_readings := jsonl_readings s + 1\<rparr>)"
  "jsonl_instant env s = (monotonic env (jsonl_readings s), s\<lparr>jsonl_readings := jsonl_readings s + 1\<rparr>)"
  by (simp_all add: jsonl_system_time_def jsonl_instant_def)

lemma jsonl_with_task_sel [simp]:
  "jsonl_dir (jsonl_with_task tid f s) = jsonl_dir s"
  "jsonl_lines (jsonl_with_task tid f s) = jsonl_lines s"
  "jsonl_inner (jsonl_with_task tid f s) = jsonl_inner s"
  "jsonl_tasks (jsonl_with_task tid f s) = AList.map_entry tid f (jsonl_tasks s)"
  "jsonl_ended (jsonl_with_task tid f s) = jsonl_ended s"
  by (simp_all add: jsonl_with_task_def jsonl_ended_def)

lemma jsonl_live_with_task:
  "(\<And>acc. jk_pending_error (f acc) = jk_pending_error acc) \<Longrightarrow> jsonl_live (jsonl_with_task tid f s) = jsonl_live s"
  by (cases "jsonl_tasks s") (auto simp: jsonl_live_def)

lemma patch_tokens_error [simp]: "jk_pending_error (patch_tokens i p c acc) = jk_pending_error acc"
  by (simp add: patch_tokens_def)

lemma jsonl_finalize_absent: "map_of (jsonl_tasks s) tid = None \<Longrightarrow> jsonl_finalize env tid status err s = s"
  by (simp add: jsonl_finalize_def)

lemma jsonl_finalize_live:
  assumes "jsonl_valid env s" and "jsonl_tasks s = [(tid, acc)]"
  shows "jsonl_tasks (jsonl_finalize env tid status err s) = []"
    and "jsonl_dir (jsonl_finalize env tid status err s)"
    and "jsonl_ended (jsonl_finalize env tid status err s) =
      jsonl_ended s @ [(tid, status, case err of Some e \<Rightarrow> Some e | None \<Rightarrow> jk_pending_error acc)]"
  using assms by (simp_all add: jsonl_finalize_def jsonl_valid_def jsonl_ended_def write_line_def)

lemma jsonl_tasks_cases:
  assumes "jsonl_valid env s"
  obtains (idle) "jsonl_tasks s = []" "jsonl_live s = None"
    | (busy) t acc where "jsonl_tasks s = [(t, acc)]" "jsonl_live s = Some (t, jk_pending_error acc)"
  using assms by (cases "jsonl_tasks s") (auto simp: jsonl_valid_def jsonl_live_def)

lemma jsonl_flush_abandoned_spec:
  assumes "jsonl_valid env s" and "\<And>t pe. except = Some t \<Longrightarrow> jsonl_live s \<noteq> Some (t, pe)"
  shows "jsonl_tasks (jsonl_flush_abandoned env except s) = [] \<and> jsonl_dir (jsonl_flush_abandoned env except s) \<and>
    jsonl_ended (jsonl_flush_abandoned env except s) = jsonl_ended s @
      (case jsonl_live s of None \<Rightarrow> []
       | Some (t, pe) \<Rightarrow> [(t, ''error'', Some (case pe of Some e \<Rightarrow> e | None \<Rightarrow> NO_TERMINAL))])"
  using assms(1)
proof (cases rule: jsonl_tasks_cases)
  case idle
  then show ?thesis using assms(1) by (simp add: jsonl_flush_abandoned_def jsonl_valid_def)
next
  case (busy t acc)
  then have "jsonl_flush_abandoned env except s = jsonl_abandon env t s"
    using assms(2) by (auto simp: jsonl_flush_abandoned_def)
  then show ?thesis using jsonl_finalize_live [OF assms(1) busy(1)] busy by (simp add: jsonl_abandon_def)
qed

lemma jsonl_record_start:
  assumes "jsonl_valid env s" and "\<And>pe. jsonl_live s \<noteq> Some (t, pe)"
  shows "jsonl_live (jsonl_record env (RequestStarted t prompt source) s) = Some (t, None)"
    and "jsonl_ended (jsonl_record env (RequestStarted t prompt source) s) = jsonl_ended (jsonl_drop env s)"
    and "jsonl_valid env (jsonl_record env (RequestStarted t prompt source) s)"
proof -
  have "jsonl_tasks (jsonl_flush_abandoned env (Some t) s) = [] \<and> jsonl_dir (jsonl_flush_abandoned env (Some t) s) \<and>
    jsonl_ended (jsonl_flush_abandoned env (Some t) s) = jsonl_ended (jsonl_drop env s)"
    using jsonl_flush_abandoned_spec [OF assms(1), of "Some t"] jsonl_flush_abandoned_spec [OF assms(1), of None]
      assms(2) by (auto simp: jsonl_drop_def)
  with assms(1) show "jsonl_live (jsonl_record env (RequestStarted t prompt source) s) = Some (t, None)"
    and "jsonl_ended (jsonl_record env (RequestStarted t prompt source) s) = jsonl_ended (jsonl_drop env s)"
    and "jsonl_valid env (jsonl_record env (RequestStarted t prompt source) s)"
    by (simp_all add: Let_def jsonl_task_new_def jsonl_live_def jsonl_ended_def jsonl_valid_def)
qed

lemma jsonl_valid_finalize:
  "jsonl_valid env s \<Longrightarrow> jsonl_valid env (jsonl_finalize env tid status err s)"
  by (cases rule: jsonl_tasks_cases [of env s]; cases "map_of (jsonl_tasks s) tid")
    (auto simp: jsonl_finalize_absent jsonl_finalize_live jsonl_valid_def split: if_splits)

lemma jsonl_valid_with_task [simp]: "jsonl_valid env (jsonl_with_task tid f s) = jsonl_valid env s"
  by (simp add: jsonl_valid_def)

lemma jsonl_pending_update [simp]:
  "jsonl_valid env (s\<lparr>jsonl_pending := p\<rparr>) = jsonl_valid env s"
  "jsonl_live (s\<lparr>jsonl_pending := p\<rparr>) = jsonl_live s"
  "jsonl_ended (s\<lparr>jsonl_pending := p\<rparr>) = jsonl_ended s"
  by (simp_all add: jsonl_valid_def jsonl_live_def jsonl_ended_def)

lemma jsonl_valid_record: "jsonl_valid env s \<Longrightarrow> jsonl_valid env (jsonl_record env e s)"
proof (induction env e s rule: jsonl_record.induct)
  case (1 env tid prompt source s)
  show ?case
  proof (cases "\<exists>acc. jsonl_tasks s = [(tid, acc)]")
    case True
    then show ?thesis using 1 by (auto simp: jsonl_flush_abandoned_def jsonl_valid_def jsonl_task_new_def Let_def)
  next
    case False
    then have "jsonl_live s \<noteq> Some (tid, pe)" for pe
      by (cases rule: jsonl_tasks_cases [OF 1]) auto
    then show ?thesis by (rule jsonl_record_start(3) [OF 1])
  qed
qed (simp_all add: jsonl_valid_finalize Let_def split: option.splits)

lemma jsonl_emit_sel [simp]:
  "jsonl_valid env (jsonl_emit env e s) = jsonl_valid env (jsonl_record env e s)"
  "jsonl_live (jsonl_emit env e s) = jsonl_live (jsonl_record env e s)"
  "jsonl_ended (jsonl_emit env e s) = jsonl_ended (jsonl_record env e s)"
  "jsonl_tasks (jsonl_emit env e s) = jsonl_tasks (jsonl_record env e s)"
  by (simp_all add: jsonl_emit_def Let_def jsonl_valid_def jsonl_live_def jsonl_ended_def)

lemma jsonl_record_other:
  assumes "jsonl_valid env s" and "\<not> is_start e"
    and "\<And>t pe. jsonl_live s = Some (t, pe) \<Longrightarrow> event_task e = Some t \<Longrightarrow>
      (\<forall>d err. e \<noteq> RequestFailed t d err) \<and> (\<forall>d reply. e \<noteq> RequestCompleted t d reply) \<and> e \<noteq> Cancelled t"
  shows "jsonl_live (jsonl_record env e s) = jsonl_live s \<and> jsonl_ended (jsonl_record env e s) = jsonl_ended s"
proof -
  have none: "map_of (jsonl_tasks s) t = None" if "event_task e = Some t" "(\<exists>d err. e = RequestFailed t d err) \<or>
    (\<exists>d reply. e = RequestCompleted t d reply) \<or> e = Cancelled t" for t
    using that assms(3) by (cases rule: jsonl_tasks_cases [OF assms(1)]) auto
  have absent: "AList.map_entry t f xs = xs" if "map_of xs t = None" for t f and xs :: "(task_id \<times> jsonl_task) list"
    using that by (induction xs) (auto split: if_splits)
  have "jsonl_live (jsonl_with_task t f s) = jsonl_live s" if "map_of (jsonl_tasks s) t = None" for t f
    using that by (simp add: jsonl_live_def absent)
  with assms(2) none show ?thesis
    by (cases e) (auto simp: jsonl_finalize_absent jsonl_live_with_task absent Let_def split: option.splits)
qed

interpretation jsonl: task_accounts "jsonl_valid env" jsonl_live jsonl_ended "jsonl_emit env" "jsonl_drop env" Some "\<lambda>pe. pe"
  for env
proof unfold_locales
  fix s t pe prompt source
  assume "jsonl_valid env s" and "\<And>pe. jsonl_live s \<noteq> Some (t, pe)"
  then show "jsonl_live (jsonl_emit env (RequestStarted t prompt source) s) = Some (t, None) \<and>
      jsonl_ended (jsonl_emit env (RequestStarted t prompt source) s) = jsonl_ended (jsonl_drop env s)"
    using jsonl_record_start(1,2) [of env s t] by simp
next
  fix s t pe e d reply status
  assume v: "jsonl_valid env s" and l: "jsonl_live s = Some (t, pe)"
    and e: "e = RequestCompleted t d reply \<and> status = ''ok'' \<or> e = Cancelled t \<and> status = ''cancelled''"
  from v l obtain acc where acc: "jsonl_tasks s = [(t, acc)]" "pe = jk_pending_error acc"
    by (cases rule: jsonl_tasks_cases) auto
  have "jsonl_valid env (jsonl_with_task t (\<lambda>acc. acc\<lparr>jk_reply := Some reply\<rparr>) s)" using v by simp
  note f = jsonl_finalize_live [OF this, of t "acc\<lparr>jk_reply := Some reply\<rparr>"] jsonl_finalize_live [OF v acc(1)]
  show "jsonl_live (jsonl_emit env e s) = None \<and> jsonl_ended (jsonl_emit env e s) = jsonl_ended s @ [(t, status, pe)]"
    using e f acc by (auto simp: jsonl_live_def)
next
  fix s t pe d err
  assume "jsonl_valid env s" and "jsonl_live s = Some (t, pe)"
  then show "jsonl_live (jsonl_emit env (RequestFailed t d err) s) = Some (t, Some err) \<and>
      jsonl_ended (jsonl_emit env (RequestFailed t d err) s) = jsonl_ended s"
    by (cases rule: jsonl_tasks_cases) (auto simp: jsonl_live_def)
next
  fix s
  assume "jsonl_valid env s"
  from jsonl_flush_abandoned_spec [OF this, of None]
  show "jsonl_ended (jsonl_drop env s) = jsonl_ended s @
      (case jsonl_live s of None \<Rightarrow> [] | Some (t, pe) \<Rightarrow> [(t, task_end Some (\<lambda>pe. pe) t pe [])])"
    by (simp add: jsonl_drop_def split: option.splits prod.splits)
qed (simp_all add: jsonl_valid_record jsonl_record_other)

lemma task_end_status: "fst (task_end wrap closing t pe es) = fst (task_end wrap' closing' t pe' es)"
  by (induction es arbitrary: pe pe') (simp, rename_tac e es pe pe', case_tac e, simp_all)

text \<open>
  C40. The two metrics sinks agree: decorating the same stream of events, in which no task starts twice,
  they write the same tasks with the same status in the same order; the JSON records carry the last
  reported error of a task even when it completed, the CSV rows only that of a task that did not.
\<close>

theorem metrics_sinks_agree:
  assumes "\<forall>n. \<not> write_fails env n" and "distinct (map fst (task_runs es))"
  shows "jsonl_ended (jsonl_drop env (fold (jsonl_emit env) es (jsonl_new True []))) =
      task_ends Some (\<lambda>pe. pe) es \<and>
    map (\<lambda>(t, status, err). (t, status)) (jsonl_ended (jsonl_drop env (fold (jsonl_emit env) es (jsonl_new True [])))) =
    map (\<lambda>(t, status, err). (t, status)) (csv_ended (csv_drop env (fold (csv_emit env) es (csv_new True (\<lambda>_. [])))))"
proof -
  have new: "jsonl_valid env (jsonl_new True [])" "jsonl_live (jsonl_new True []) = None" "jsonl_ended (jsonl_new True []) = []"
    "csv_valid env (csv_new True (\<lambda>_. []))" "csv_live (csv_new True (\<lambda>_. [])) = None"
    "csv_ended (csv_new True (\<lambda>_. [])) = []"
    using assms(1) by (simp_all add: jsonl_valid_def jsonl_new_def jsonl_live_def jsonl_ended_def csv_valid_def
        csv_new_def csv_live_def csv_ended_def)
  have j: "jsonl_ended (jsonl_drop env (fold (jsonl_emit env) es (jsonl_new True []))) = task_ends Some (\<lambda>pe. pe) es"
    using jsonl.accounts [OF new(1,2) assms(2)] new(3) by simp
  have c: "csv_ended (csv_drop env (fold (csv_emit env) es (csv_new True (\<lambda>_. [])))) = task_ends id (\<lambda>_. []) es"
    using csv.accounts [OF new(4,5) assms(2)] new(6) by simp
  have "fst (task_end Some (\<lambda>pe. pe) t None run) = fst (task_end id (\<lambda>_. []) t None run)" for t run
    by (rule task_end_status)
  then show ?thesis unfolding j c by (auto simp: task_ends_def split: prod.splits) (metis fst_conv)
qed

theorem metrics_sinks_agree_witness:
  "jsonl_ended (jsonl_drop \<lparr>wall_clock = \<lambda>_. 0, monotonic = \<lambda>n. n, write_fails = \<lambda>_. False\<rparr>
     (fold (jsonl_emit \<lparr>wall_clock = \<lambda>_. 0, monotonic = \<lambda>n. n, write_fails = \<lambda>_. False\<rparr>)
       [RequestStarted ''1-1'' ''hi'' Cli, RequestFailed ''1-1'' 5 ''no audio'', RequestCompleted ''1-1'' 7 ''hello'',
        RequestStarted ''1-2'' ''hi'' Cli]
       (jsonl_new True []))) = [(''1-1'', ''ok'', Some ''no audio''), (''1-2'', ''error'', Some NO_TERMINAL)]"
  using metrics_sinks_agree [of "\<lparr>wall_clock = \<lambda>_. 0, monotonic = \<lambda>n. n, write_fails = \<lambda>_. False\<rparr>"
      "[RequestStarted ''1-1'' ''hi'' Cli, RequestFailed ''1-1'' 5 ''no audio'', RequestCompleted ''1-1'' 7 ''hello'',
        RequestStarted ''1-2'' ''hi'' Cli]"]
  by (simp add: task_ends_def del: fold.simps)

end
