(* ===== verification/Metrics_Report.thy ===== *)
theory Metrics_Report
  imports Metrics_Json "HOL-Library.Char_ord" "HOL-Library.List_Lexorder" "HOL-Library.Product_Lexorder"
    "HOL-Library.Multiset"
begin

text \<open>
  The metrics report (\<open>apps/nala/src/application/metrics_report.rs\<close>, and the ordering of its
  printed tables in \<open>main.rs\<close>): the records of the JSON sink are read back line by line and
  aggregated. Floating-point arithmetic is a parameter: \<open>rank p n\<close> is the rounded rank of the
  \<open>p\<close>th percentile of \<open>n\<close> values, \<open>cost\<close> the estimate of a pricing entry. A hash map is a map.
\<close>

section \<open>Translation\<close>

record llm_call_line =
  ll_input_tokens :: "u64 option"
  ll_output_tokens :: "u64 option"

record tool_call_line =
  tl_name :: string
  tl_status :: string

record task_line =
  tk_source :: string
  tk_duration_ms :: nat
  tk_llm_calls :: "llm_call_line list"
  tk_tool_calls :: "tool_call_line list"

definition parse_events :: "(string \<Rightarrow> task_line option) \<Rightarrow> string \<Rightarrow> task_line list" where
  "parse_events decode jsonl = List.map_filter decode (filter (\<lambda>l. \<not> is_blank l) (str_lines jsonl))"

record 'f report =
  rp_total_tasks :: nat
  rp_total_input_tokens :: u64
  rp_total_output_tokens :: u64
  rp_duration_p50_ms :: nat
  rp_duration_p95_ms :: nat
  rp_by_source :: "string \<Rightarrow> nat option"
  rp_tool_usage :: "string \<Rightarrow> nat option"
  rp_tool_errors :: "string \<Rightarrow> nat option"
  rp_estimated_cost_usd :: "string \<Rightarrow> 'f option"

definition percentile :: "(nat \<Rightarrow> nat \<Rightarrow> nat) \<Rightarrow> nat list \<Rightarrow> nat \<Rightarrow> nat" where
  "percentile rank values p =
     (if values = [] then 0
      else sort values ! min (rank p (length values) - 1) (length values - 1))"

text \<open>\<open>*map.entry(key).or_insert(0) += 1\<close>\<close>

definition bump :: "string \<Rightarrow> (string \<Rightarrow> nat option) \<Rightarrow> string \<Rightarrow> nat option" where
  "bump k m = m(k \<mapsto> (case m k of Some n \<Rightarrow> n | None \<Rightarrow> 0) + 1)"

definition unwrap_or_zero :: "u64 option \<Rightarrow> u64" where
  "unwrap_or_zero v = (case v of Some n \<Rightarrow> n | None \<Rightarrow> 0)"

definition count_llm_call :: "llm_call_line \<Rightarrow> 'f report \<Rightarrow> 'f report" where
  "count_llm_call c r =
     r\<lparr>rp_total_input_tokens := rp_total_input_tokens r + unwrap_or_zero (ll_input_tokens c),
       rp_total_output_tokens := rp_total_output_tokens r + unwrap_or_zero (ll_output_tokens c)\<rparr>"

definition count_tool_call :: "tool_call_line \<Rightarrow> 'f report \<Rightarrow> 'f report" where
  "count_tool_call c r =
     (let r = r\<lparr>rp_tool_usage := bump (tl_name c) (rp_tool_usage r)\<rparr>
      in if tl_status c = ''error'' then r\<lparr>rp_tool_errors := bump (tl_name c) (rp_tool_errors r)\<rparr> else r)"

definition count_task :: "task_line \<Rightarrow> 'f report \<times> nat list \<Rightarrow> 'f report \<times> nat list" where
  "count_task t rd =
     (case rd of (r, durations) \<Rightarrow>
        (fold count_tool_call (tk_tool_calls t)
           (fold count_llm_call (tk_llm_calls t) (r\<lparr>rp_by_source := bump (tk_source t) (rp_by_source r)\<rparr>)),
         durations @ [tk_duration_ms t]))"

definition report_default :: "nat \<Rightarrow> 'f report" where
  "report_default n = \<lparr>rp_total_tasks = n, rp_total_input_tokens = 0, rp_total_output_tokens = 0,
     rp_duration_p50_ms = 0, rp_duration_p95_ms = 0, rp_by_source = Map.empty, rp_tool_usage = Map.empty,
     rp_tool_errors = Map.empty, rp_estimated_cost_usd = Map.empty\<rparr>"

definition build_report ::
  "(nat \<Rightarrow> nat \<Rightarrow> nat) \<Rightarrow> ('p \<Rightarrow> u64 \<Rightarrow> u64 \<Rightarrow> 'f) \<Rightarrow> task_line list \<Rightarrow> (string \<Rightarrow> 'p option) \<Rightarrow> 'f report" where
  "build_report rank cost tasks pricing =
     (case fold count_task tasks (report_default (length tasks), []) of (r, durations) \<Rightarrow>
        r\<lparr>rp_duration_p50_ms := percentile rank durations 50, rp_duration_p95_ms := percentile rank durations 95,
          rp_estimated_cost_usd :=
            (\<lambda>key. map_option (\<lambda>entry. cost entry (rp_total_input_tokens r) (rp_total_output_tokens r)) (pricing key))\<rparr>)"

text \<open>The order of the printed tables: by falling count, then by name; \<open>entries\<close> is the map's iteration.\<close>

definition sorted_by_count :: "(string \<times> nat) list \<Rightarrow> (string \<times> nat) list" where
  "sorted_by_count entries = sort_key (\<lambda>(key, count). (- int count, key)) entries"

section \<open>What the report counts\<close>

definition counts_of :: "string list \<Rightarrow> string \<Rightarrow> nat option" where
  "counts_of ks k = (let n = count_list ks k in if n = 0 then None else Some n)"

lemma counts_of_snoc: "counts_of (ks @ [k]) = bump k (counts_of ks)"
  by (auto simp: counts_of_def bump_def fun_eq_iff count_list_append Let_def)

lemma counts_of_Nil [simp]: "counts_of [] = Map.empty"
  by (simp add: counts_of_def fun_eq_iff)

definition tool_names :: "task_line list \<Rightarrow> string list" where
  "tool_names ts = concat (map (\<lambda>t. map tl_name (tk_tool_calls t)) ts)"

definition failed_tool_names :: "task_line list \<Rightarrow> string list" where
  "failed_tool_names ts = concat (map (\<lambda>t. map tl_name (filter (\<lambda>c. tl_status c = ''error'') (tk_tool_calls t))) ts)"

definition token_total :: "(llm_call_line \<Rightarrow> u64 option) \<Rightarrow> task_line list \<Rightarrow> u64" where
  "token_total f ts = sum_list (map (\<lambda>t. sum_list (map (unwrap_or_zero \<circ> f) (tk_llm_calls t))) ts)"

lemma tool_names_snoc:
  "tool_names (ts @ [t]) = tool_names ts @ map tl_name (tk_tool_calls t)"
  "failed_tool_names (ts @ [t]) =
     failed_tool_names ts @ map tl_name (filter (\<lambda>c. tl_status c = ''error'') (tk_tool_calls t))"
  by (simp_all add: tool_names_def failed_tool_names_def)

lemma token_total_snoc:
  "token_total f (ts @ [t]) = token_total f ts + sum_list (map (unwrap_or_zero \<circ> f) (tk_llm_calls t))"
  by (simp add: token_total_def)

lemma fold_count_llm_call:
  "fold count_llm_call cs r =
     r\<lparr>rp_total_input_tokens := rp_total_input_tokens r + sum_list (map (unwrap_or_zero \<circ> ll_input_tokens) cs),
       rp_total_output_tokens := rp_total_output_tokens r + sum_list (map (unwrap_or_zero \<circ> ll_output_tokens) cs)\<rparr>"
  by (induction cs arbitrary: r) (simp_all add: count_llm_call_def add.assoc)

lemma fold_count_tool_call:
  "rp_tool_usage r = counts_of us \<Longrightarrow> rp_tool_errors r = counts_of es \<Longrightarrow>
   fold count_tool_call cs r =
     r\<lparr>rp_tool_usage := counts_of (us @ map tl_name cs),
       rp_tool_errors := counts_of (es @ map tl_name (filter (\<lambda>c. tl_status c = ''error'') cs))\<rparr>"
proof (induction cs arbitrary: r us es)
  case (Cons c cs)
  show ?case
    using Cons.prems Cons.IH [of "count_tool_call c r" "us @ [tl_name c]"
        "if tl_status c = ''error'' then es @ [tl_name c] else es"]
    by (auto simp: count_tool_call_def Let_def counts_of_snoc)
qed simp

text \<open>The state of the loop after the tasks \<open>ts\<close>.\<close>

definition tallied :: "nat \<Rightarrow> task_line list \<Rightarrow> 'f report \<times> nat list" where
  "tallied n ts =
     (\<lparr>rp_total_tasks = n, rp_total_input_tokens = token_total ll_input_tokens ts,
       rp_total_output_tokens = token_total ll_output_tokens ts, rp_duration_p50_ms = 0, rp_duration_p95_ms = 0,
       rp_by_source = counts_of (map tk_source ts), rp_tool_usage = counts_of (tool_names ts),
       rp_tool_errors = counts_of (failed_tool_names ts), rp_estimated_cost_usd = Map.empty\<rparr>,
      map tk_duration_ms ts)"

lemma count_task_tallied: "count_task t (tallied n ts) = tallied n (ts @ [t])"
  by (simp add: count_task_def tallied_def fold_count_llm_call token_total_snoc counts_of_snoc
      fold_count_tool_call [where us = "tool_names ts" and es = "failed_tool_names ts"] tool_names_snoc)

lemma fold_count_task: "fold count_task ts (report_default n, []) = tallied n ts"
proof (induction ts rule: rev_induct)
  case Nil
  then show ?case
    by (simp add: report_default_def tallied_def token_total_def tool_names_def failed_tool_names_def)
next
  case (snoc t ts)
  then show ?case by (simp add: count_task_tallied)
qed

lemma build_report_eq:
  "build_report rank cost ts pricing =
     \<lparr>rp_total_tasks = length ts, rp_total_input_tokens = token_total ll_input_tokens ts,
      rp_total_output_tokens = token_total ll_output_tokens ts,
      rp_duration_p50_ms = percentile rank (map tk_duration_ms ts) 50,
      rp_duration_p95_ms = percentile rank (map tk_duration_ms ts) 95,
      rp_by_source = counts_of (map tk_source ts), rp_tool_usage = counts_of (tool_names ts),
      rp_tool_errors = counts_of (failed_tool_names ts),
      rp_estimated_cost_usd = (\<lambda>key. map_option (\<lambda>entry. cost entry (token_total ll_input_tokens ts)
         (token_total ll_output_tokens ts)) (pricing key))\<rparr>"
  unfolding build_report_def fold_count_task tallied_def by simp

lemma counts_of_mset: "mset xs = mset ys \<Longrightarrow> counts_of xs = counts_of ys"
  by (simp add: counts_of_def fun_eq_iff count_mset [symmetric])

lemma mset_concat_map: "mset (concat (map f ts)) = \<Sum>\<^sub># (image_mset (mset \<circ> f) (mset ts))"
  by (induction ts) simp_all

lemma token_total_mset: "token_total f ts = \<Sum>\<^sub># (image_mset (\<lambda>t. sum_list (map (unwrap_or_zero \<circ> f) (tk_llm_calls t))) (mset ts))"
  by (induction ts) (simp_all add: token_total_def comp_def)

lemma sort_mset: "mset xs = mset ys \<Longrightarrow> sort xs = sort ys"
  by (metis sorted_list_of_multiset_mset)

lemma percentile_mset:
  assumes "mset xs = mset ys"
  shows "percentile rank xs p = percentile rank ys p"
proof -
  have "xs = [] \<longleftrightarrow> ys = []" using assms by auto
  then show ?thesis unfolding percentile_def mset_eq_length [OF assms] sort_mset [OF assms] by simp
qed

lemma build_report_mset:
  assumes "mset ts = mset us"
  shows "build_report rank cost ts pricing = build_report rank cost us pricing"
proof -
  have sources: "counts_of (map tk_source ts) = counts_of (map tk_source us)"
    and durations: "percentile rank (map tk_duration_ms ts) p = percentile rank (map tk_duration_ms us) p" for p
    using assms by (auto intro!: counts_of_mset percentile_mset)
  have names: "counts_of (tool_names ts) = counts_of (tool_names us)"
      "counts_of (failed_tool_names ts) = counts_of (failed_tool_names us)"
    unfolding tool_names_def failed_tool_names_def using assms by (auto intro!: counts_of_mset simp: mset_concat_map)
  have tokens: "token_total f ts = token_total f us" for f
    unfolding token_total_mset assms ..
  show ?thesis unfolding build_report_eq sources durations names tokens mset_eq_length [OF assms] ..
qed

lemma sorted_by_count_mset:
  assumes "mset es = mset fs"
  shows "sorted_by_count es = sorted_by_count fs"
proof -
  have "inj_on (\<lambda>(key, count). (- int count, key)) (set es)"
    by (auto simp: inj_on_def)
  then show ?thesis
    unfolding sorted_by_count_def by (rule sort_key_inj_key_eq [rotated]) (simp_all add: assms)
qed

section \<open>The report of what the sink wrote\<close>

fun source_name :: "request_source \<Rightarrow> string" where
  "source_name Cli = ''cli''"
| "source_name Overlay = ''overlay''"
| "source_name Android = ''android''"
| "source_name Voice = ''voice''"
| "source_name Autonomous = ''autonomous''"
| "source_name Unknown = ''unknown''"

text \<open>What reading a written record back gives: the fields of the same names.\<close>

definition task_line_of :: "task_record \<Rightarrow> task_line" where
  "task_line_of r =
     \<lparr>tk_source = source_name (tr_source r), tk_duration_ms = tr_duration_ms r,
      tk_llm_calls = map (\<lambda>c. \<lparr>ll_input_tokens = map_option ucast (jl_input_tokens c),
         ll_output_tokens = map_option ucast (jl_output_tokens c)\<rparr>) (tr_llm_calls r),
      tk_tool_calls = map (\<lambda>c. \<lparr>tl_name = jt_name c, tl_status = jt_status c\<rparr>) (tr_tool_calls r)\<rparr>"

lemma failed_le_used: "count_list (failed_tool_names ts) k \<le> count_list (tool_names ts) k"
proof (induction ts rule: rev_induct)
  case (snoc t ts)
  have "count_list (map tl_name (filter P cs)) k \<le> count_list (map tl_name cs) k" for P and cs :: "tool_call_line list"
    by (induction cs) auto
  with snoc show ?case by (simp add: tool_names_snoc count_list_append add_mono)
qed (simp add: failed_tool_names_def tool_names_def)

text \<open>
  C22. The report counts every task the agent ran: over the records the JSON sink wrote of an event
  stream, in whatever order they are read, it reports as many tasks as were started, the totals and
  percentiles do not depend on that order, and no tool has more failures than calls.
\<close>

theorem report_counts_every_task:
  assumes "\<forall>n. \<not> write_fails env n" and "distinct (map fst (task_runs es))"
    and "mset ts = mset (map task_line_of (jsonl_lines (jsonl_drop env (fold (jsonl_emit env) es (jsonl_new True [])))))"
  shows "rp_total_tasks (build_report rank cost ts pricing) = length (task_runs es) \<and>
    build_report rank cost ts pricing =
      build_report rank cost (map task_line_of (jsonl_lines (jsonl_drop env (fold (jsonl_emit env) es (jsonl_new True []))))) pricing \<and>
    (\<forall>tool n. rp_tool_errors (build_report rank cost ts pricing) tool = Some n \<longrightarrow>
      (\<exists>m \<ge> n. rp_tool_usage (build_report rank cost ts pricing) tool = Some m))"
proof -
  have new: "jsonl_valid env (jsonl_new True [])" "jsonl_live (jsonl_new True []) = None" "jsonl_ended (jsonl_new True []) = []"
    using assms(1) by (simp_all add: jsonl_valid_def jsonl_new_def jsonl_live_def jsonl_ended_def)
  have "length (jsonl_lines s) = length (jsonl_ended s)" for s
    by (simp add: jsonl_ended_def)
  then have "length (jsonl_lines (jsonl_drop env (fold (jsonl_emit env) es (jsonl_new True [])))) = length (task_runs es)"
    using jsonl.accounts [OF new(1,2) assms(2)] new(3) by (simp add: task_ends_def)
  then have "length ts = length (task_runs es)" using mset_eq_length [OF assms(3)] by simp
  moreover have "\<exists>m \<ge> n. counts_of (tool_names ts) tool = Some m"
    if "counts_of (failed_tool_names ts) tool = Some n" for tool n
    using that failed_le_used [of ts tool] by (auto simp: counts_of_def Let_def split: if_splits)
  ultimately show ?thesis
    using build_report_mset [OF assms(3)] by (simp add: build_report_eq)
qed

definition still_env :: metrics_env where
  "still_env = \<lparr>wall_clock = \<lambda>_. 0, monotonic = \<lambda>n. n, write_fails = \<lambda>_. False\<rparr>"

theorem report_counts_every_task_witness:
  "rp_total_tasks (build_report (\<lambda>p n. p * n div 100) (\<lambda>(_::unit) _ _. ())
     (rev (map task_line_of (jsonl_lines (jsonl_drop still_env (fold (jsonl_emit still_env)
       [RequestStarted ''1-1'' ''hi'' Cli, RequestCompleted ''1-1'' 7 ''hello'', RequestStarted ''1-2'' ''hi'' Voice]
       (jsonl_new True [])))))) Map.empty) = 2"
proof -
  let ?es = "[RequestStarted ''1-1'' ''hi'' Cli, RequestCompleted ''1-1'' 7 ''hello'', RequestStarted ''1-2'' ''hi'' Voice]"
  have "\<forall>n. \<not> write_fails still_env n" "distinct (map fst (task_runs ?es))" "length (task_runs ?es) = 2"
    by (simp_all add: still_env_def)
  then show ?thesis
    using report_counts_every_task [of still_env ?es "rev (map task_line_of
        (jsonl_lines (jsonl_drop still_env (fold (jsonl_emit still_env) ?es (jsonl_new True [])))))"
        "\<lambda>p n. p * n div 100" "\<lambda>(_::unit) _ _. ()" Map.empty]
    by (metis mset_rev)
qed

end
