(* ===== verification/Pc_Daemon.thy ===== *)
theory Pc_Daemon
  imports Capabilities Devices
begin

text \<open>
  The daemon a device runs (\<open>apps/pc-daemon\<close>): its WebSocket wire (\<open>client.rs\<close>), one
  session (\<open>daemon.rs\<close>), the reconnect backoff (\<open>reconnect.rs\<close>) and the start-up with its
  capability allowlist (\<open>main.rs\<close>). The socket is the list of what its reads give and of whether
  each send fails; a session whose reads are used up is still waiting. The JSON codecs and the
  argument parsers they derive are parameters.
\<close>

section \<open>The wire\<close>

datatype daemon_error = DaemonConnect string | DaemonIo string

fun show_daemon_error :: "daemon_error \<Rightarrow> string" where
  "show_daemon_error (DaemonConnect e) = ''could not connect to nala: '' @ e"
| "show_daemon_error (DaemonIo e) = ''connection to nala failed: '' @ e"

text \<open>
  One \<open>socket.read()\<close>: a text, a close frame, another frame (\<open>Ok(_)\<close>), an error that says the
  connection is closed, or another error.
\<close>

datatype socket_read = ReadText string | ReadClose | ReadOther | ReadClosed | ReadError string

record 'v device_codec =
  encode_message :: "'v device_message \<Rightarrow> string + string"
  decode_message :: "string \<Rightarrow> string + nala_message"

record 'v device_wire =
  wire_reads :: "socket_read list"
  wire_send_error :: "nat \<Rightarrow> string option"
  wire_sent :: "'v device_message list"

definition wire_send ::
  "'v device_codec \<Rightarrow> 'v device_message \<Rightarrow> 'v device_wire \<Rightarrow> (daemon_error + unit) \<times> 'v device_wire" where
  "wire_send codec m wire =
     (case encode_message codec m of
        Inl e \<Rightarrow> (Inl (DaemonIo e), wire)
      | Inr json \<Rightarrow>
          (case wire_send_error wire (length (wire_sent wire)) of
             Some e \<Rightarrow> (Inl (DaemonIo e), wire)
           | None \<Rightarrow> (Inr (), wire\<lparr>wire_sent := wire_sent wire @ [m]\<rparr>)))"

text \<open>The read loop: what \<open>recv\<close> returns and the reads left, or \<open>None\<close> while it still waits.\<close>

fun recv_from ::
  "'v device_codec \<Rightarrow> socket_read list \<Rightarrow> ((daemon_error + nala_message option) \<times> socket_read list) option" where
  "recv_from codec [] = None"
| "recv_from codec (ReadText t # rest) =
     (case decode_message codec t of
        Inl e \<Rightarrow> Some (Inl (DaemonIo e), rest)
      | Inr m \<Rightarrow> Some (Inr (Some m), rest))"
| "recv_from codec (ReadClose # rest) = Some (Inr None, rest)"
| "recv_from codec (ReadOther # rest) = recv_from codec rest"
| "recv_from codec (ReadClosed # rest) = Some (Inr None, rest)"
| "recv_from codec (ReadError e # rest) = Some (Inl (DaemonIo e), rest)"

definition wire_recv ::
  "'v device_codec \<Rightarrow> 'v device_wire \<Rightarrow> ((daemon_error + nala_message option) \<times> 'v device_wire) option" where
  "wire_recv codec wire =
     (case recv_from codec (wire_reads wire) of
        None \<Rightarrow> None
      | Some (r, rest) \<Rightarrow> Some (r, wire\<lparr>wire_reads := rest\<rparr>))"

lemma recv_from_shorter: "recv_from codec reads = Some (r, rest) \<Longrightarrow> length rest < length reads"
  by (induction codec reads rule: recv_from.induct) (auto split: sum.splits)

lemma wire_recv_shorter: "wire_recv codec wire = Some (r, wire') \<Longrightarrow> length (wire_reads wire') < length (wire_reads wire)"
  by (auto simp: wire_recv_def dest: recv_from_shorter split: option.splits)

lemma wire_send_reads [simp]: "wire_send codec m wire = (r, wire') \<Longrightarrow> wire_reads wire' = wire_reads wire"
  by (auto simp: wire_send_def split: sum.splits option.splits)

section \<open>A session\<close>

record device_identity =
  id_device :: string
  id_name :: string
  id_platform :: string
  id_token :: string

datatype session_outcome = SessionClosed | SessionRejected reject_reason

definition daemon_hello :: "('w, 'v) capability_registry \<Rightarrow> device_identity \<Rightarrow> 'v device_message" where
  "daemon_hello r ident = Hello \<lparr>protocol_version = PROTOCOL_VERSION, device_id = id_device ident,
     device_name = id_name ident, platform = id_platform ident, token = id_token ident,
     capabilities = capability_definitions r\<rparr>"

text \<open>
  The answering loop, over the world the capabilities act on. The result is \<open>None\<close> while the
  session waits for its next message.
\<close>

function answer_loop ::
  "'v device_codec \<Rightarrow> ('w, 'v) capability_registry \<Rightarrow> 'v device_wire \<Rightarrow> 'w \<Rightarrow>
     (daemon_error + session_outcome) option \<times> 'v device_wire \<times> 'w" where
  "answer_loop codec r wire w =
     (case wire_recv codec wire of
        None \<Rightarrow> (None, wire, w)
      | Some (Inl e, wire) \<Rightarrow> (Some (Inl e), wire, w)
      | Some (Inr None, wire) \<Rightarrow> (Some (Inr SessionClosed), wire, w)
      | Some (Inr (Some (Welcome did interval)), wire) \<Rightarrow> answer_loop codec r wire w
      | Some (Inr (Some (Reject reason)), wire) \<Rightarrow> (Some (Inr (SessionRejected reason)), wire, w)
      | Some (Inr (Some (Invoke rid capability arguments)), wire) \<Rightarrow>
          (case invoke_capability r capability arguments w of (out, w) \<Rightarrow>
             case wire_send codec (Result rid out) wire of
               (Inl e, wire) \<Rightarrow> (Some (Inl e), wire, w)
             | (Inr _, wire) \<Rightarrow> answer_loop codec r wire w)
      | Some (Inr (Some (Ping i)), wire) \<Rightarrow>
          (case wire_send codec (Pong i) wire of
             (Inl e, wire) \<Rightarrow> (Some (Inl e), wire, w)
           | (Inr _, wire) \<Rightarrow> answer_loop codec r wire w)
      | Some (Inr (Some (State st)), wire) \<Rightarrow> answer_loop codec r wire w)"
  by pat_completeness auto
termination
  by (relation "measure (\<lambda>(codec, r, wire, w). length (wire_reads wire))")
    (auto simp: wire_send_reads [OF sym] dest: wire_recv_shorter sym [THEN wire_recv_shorter])

declare answer_loop.simps [simp del]

definition daemon_session ::
  "'v device_codec \<Rightarrow> ('w, 'v) capability_registry \<Rightarrow> device_identity \<Rightarrow> 'v device_wire \<Rightarrow> 'w \<Rightarrow>
     (daemon_error + session_outcome) option \<times> 'v device_wire \<times> 'w" where
  "daemon_session codec r ident wire w =
     (case wire_send codec (daemon_hello r ident) wire of
        (Inl e, wire) \<Rightarrow> (Some (Inl e), wire, w)
      | (Inr _, wire) \<Rightarrow> answer_loop codec r wire w)"

section \<open>Backoff\<close>

definition second :: duration where "second = 10 ^ 9"

definition RECONNECT_INITIAL_DELAY :: duration where "RECONNECT_INITIAL_DELAY = second"
definition RECONNECT_MAX_DELAY :: duration where "RECONNECT_MAX_DELAY = 30 * second"

record backoff =
  backoff_current :: duration
  backoff_min :: duration
  backoff_max :: duration

definition backoff_new :: "duration \<Rightarrow> duration \<Rightarrow> backoff" where
  "backoff_new lo hi = \<lparr>backoff_current = lo, backoff_min = lo, backoff_max = hi\<rparr>"

definition next_delay :: "backoff \<Rightarrow> duration \<times> backoff" where
  "next_delay b = (backoff_current b, b\<lparr>backoff_current := min (backoff_current b * 2) (backoff_max b)\<rparr>)"

definition backoff_reset :: "backoff \<Rightarrow> backoff" where
  "backoff_reset b = b\<lparr>backoff_current := backoff_min b\<rparr>"

section \<open>The capabilities of the daemon\<close>

text \<open>
  What the daemon takes from its platform and from \<open>serde\<close>: the computer, the JSON schema of a
  capability's arguments, the string member of an argument object, and the decoded list of apps.
\<close>

record ('w, 'v) daemon_platform =
  dp_computer :: "'w computer"
  dp_schema :: "string \<Rightarrow> 'v"
  dp_argument :: "string \<Rightarrow> string \<Rightarrow> string + string"
  dp_apps :: "string \<Rightarrow> string + start_apps_json"

definition UNPARSED :: "string \<Rightarrow> string" where
  "UNPARSED e = ''could not parse arguments: '' @ e"

definition execute_command_capability :: "('w, 'v) daemon_platform \<Rightarrow> ('w, 'v) capability_entry" where
  "execute_command_capability p = capability_entry_new
     \<lparr>cap_name = ''execute_command'', cap_description = execute_command_description (dp_computer p),
      cap_parameters = dp_schema p ''execute_command''\<rparr> True
     (\<lambda>args. map_err CommandFailed (dp_argument p ''command'' args))
     (execute_command_execute (dp_computer p) DEFAULT_COMMAND_TIMEOUT) show_computer_error"

definition open_app_capability :: "('w, 'v) daemon_platform \<Rightarrow> ('w, 'v) capability_entry" where
  "open_app_capability p = capability_entry_new
     \<lparr>cap_name = ''open_app'',
      cap_description = ''Open an application on the user'' @ quote @ ''s computer, by name (e.g. '' @ dquote @
        ''notepad'' @ dquote @ '', '' @ dquote @ ''calc'' @ dquote @ '', '' @ dquote @ ''explorer'' @ dquote @
        '') or full path.'',
      cap_parameters = dp_schema p ''open_app''\<rparr> True
     (\<lambda>args. map_err (\<lambda>e. InvalidInput (UNPARSED e)) (dp_argument p ''app'' args))
     (open_app_execute (dp_computer p) DEFAULT_OPEN_TIMEOUT) show_open_app_error"

definition open_url_capability :: "('w, 'v) daemon_platform \<Rightarrow> ('w, 'v) capability_entry" where
  "open_url_capability p = capability_entry_new
     \<lparr>cap_name = ''open_url'',
      cap_description = ''Open a URL in the user'' @ quote @
        ''s default web browser. The URL must start with http:// or https://.'',
      cap_parameters = dp_schema p ''open_url''\<rparr> True
     (\<lambda>args. map_err (\<lambda>e. InvalidInput (UNPARSED e)) (dp_argument p ''url'' args))
     (open_url_execute (dp_computer p) DEFAULT_OPEN_TIMEOUT) show_open_url_error"

definition volume_capability :: "('w, 'v) daemon_platform \<Rightarrow> ('w, 'v) capability_entry" where
  "volume_capability p = capability_entry_new
     \<lparr>cap_name = ''volume'',
      cap_description = ''Change the system volume: '' @ dquote @ ''up'' @ dquote @ '' or '' @ dquote @ ''down'' @
        dquote @ '' step the volume, '' @ dquote @ ''mute'' @ dquote @ '' toggles mute (call it again to unmute '' @
        [CHR 0xE2, CHR 0x80, CHR 0x94] @ '' there is no separate '' @ dquote @ ''unmute'' @ dquote @ '' action).'',
      cap_parameters = dp_schema p ''volume''\<rparr> True
     (\<lambda>args. map_err (\<lambda>e. InvalidAction (UNPARSED e)) (dp_argument p ''action'' args))
     (volume_execute (dp_computer p) DEFAULT_OPEN_TIMEOUT) show_volume_error"

definition list_apps_capability :: "('w, 'v) daemon_platform \<Rightarrow> ('w, 'v) capability_entry" where
  "list_apps_capability p = capability_entry_new
     \<lparr>cap_name = ''list_apps'',
      cap_description = ''List applications installed on the user'' @ quote @
        ''s computer (both classic desktop apps and Store apps), by their real names as registered in the Start Menu. Call this before open_app when unsure of the exact app name.'',
      cap_parameters = dp_schema p ''list_apps''\<rparr> False
     (\<lambda>args. Inr ()) (\<lambda>_. list_apps_execute (dp_apps p) (dp_computer p) DEFAULT_LIST_APPS_TIMEOUT)
     show_list_apps_error"

definition DEFAULT_CAPABILITIES :: string where "DEFAULT_CAPABILITIES = ''open_app,open_url,volume,list_apps''"

definition allowed_names :: "string option \<Rightarrow> string list" where
  "allowed_names var =
     filter (\<lambda>n. n \<noteq> []) (map trim (split_on (CHR '','') (case var of Some v \<Rightarrow> v | None \<Rightarrow> DEFAULT_CAPABILITIES)))"

text \<open>\<open>var\<close> is the value of \<open>NALA_DEVICE_CAPABILITIES\<close>.\<close>

definition build_registry :: "('w, 'v) daemon_platform \<Rightarrow> string option \<Rightarrow> ('w, 'v) capability_registry" where
  "build_registry p var =
     (let r = capability_registry_new (Some (allowed_names var));
          r = register_capability (execute_command_capability p) r;
          r = register_capability (open_app_capability p) r;
          r = register_capability (open_url_capability p) r;
          r = register_capability (volume_capability p) r
      in register_capability (list_apps_capability p) r)"

definition daemon_identity :: "(string \<Rightarrow> string option) \<Rightarrow> device_identity" where
  "daemon_identity env =
     \<lparr>id_device = (case env ''NALA_DEVICE_ID'' of Some i \<Rightarrow> i | None \<Rightarrow> ''pc''),
      id_name = (case env ''NALA_DEVICE_NAME'' of Some n \<Rightarrow> n | None \<Rightarrow> ''pc''),
      id_platform = ''windows'',
      id_token = (case env ''NALA_DEVICE_TOKEN'' of Some t \<Rightarrow> t | None \<Rightarrow> [])\<rparr>"

section \<open>The reconnect loop\<close>

text \<open>
  The endless loop of \<open>main\<close> over the connection attempts made so far: each fails, or gives a wire.
  The result has the sessions run and the times slept, and whether the loop returned.
\<close>

datatype 'v connection = ConnectError string | Connected "'v device_wire"

datatype 'v daemon_step = Slept duration | Session "'v device_wire"

fun daemon_loop ::
  "'v device_codec \<Rightarrow> ('w, 'v) daemon_platform \<Rightarrow> (string \<Rightarrow> string option) \<Rightarrow> backoff \<Rightarrow> 'v connection list \<Rightarrow> 'w \<Rightarrow>
     'v daemon_step list \<times> bool \<times> 'w" where
  "daemon_loop codec p env b [] w = ([], False, w)"
| "daemon_loop codec p env b (ConnectError e # rest) w =
     (case next_delay b of (d, b) \<Rightarrow> case daemon_loop codec p env b rest w of (steps, done, w) \<Rightarrow>
        (Slept d # steps, done, w))"
| "daemon_loop codec p env b (Connected wire # rest) w =
     (let b = backoff_reset b
      in case daemon_session codec (build_registry p (env ''NALA_DEVICE_CAPABILITIES'')) (daemon_identity env) wire w of
           (None, wire, w) \<Rightarrow> ([Session wire], False, w)
         | (Some (Inr (SessionRejected reason)), wire, w) \<Rightarrow> ([Session wire], True, w)
         | (Some _, wire, w) \<Rightarrow>
             (case next_delay b of (d, b) \<Rightarrow> case daemon_loop codec p env b rest w of (steps, done, w) \<Rightarrow>
                (Session wire # Slept d # steps, done, w)))"

definition daemon_main ::
  "'v device_codec \<Rightarrow> ('w, 'v) daemon_platform \<Rightarrow> (string \<Rightarrow> string option) \<Rightarrow> 'v connection list \<Rightarrow> 'w \<Rightarrow>
     'v daemon_step list \<times> bool \<times> 'w" where
  "daemon_main codec p env attempts w =
     daemon_loop codec p env (backoff_new RECONNECT_INITIAL_DELAY RECONNECT_MAX_DELAY) attempts w"

section \<open>A session answers what it receives\<close>

text \<open>The messages a session gets to see, how it ends, and its answers as a function of them.\<close>

fun received :: "'v device_codec \<Rightarrow> socket_read list \<Rightarrow> nala_message list" where
  "received codec [] = []"
| "received codec (ReadText t # rest) =
     (case decode_message codec t of
        Inl e \<Rightarrow> []
      | Inr m \<Rightarrow> m # (case m of Reject reason \<Rightarrow> [] | _ \<Rightarrow> received codec rest))"
| "received codec (ReadOther # rest) = received codec rest"
| "received codec _ = []"

fun session_end :: "'v device_codec \<Rightarrow> socket_read list \<Rightarrow> (daemon_error + session_outcome) option" where
  "session_end codec [] = None"
| "session_end codec (ReadText t # rest) =
     (case decode_message codec t of
        Inl e \<Rightarrow> Some (Inl (DaemonIo e))
      | Inr m \<Rightarrow> (case m of Reject reason \<Rightarrow> Some (Inr (SessionRejected reason)) | _ \<Rightarrow> session_end codec rest))"
| "session_end codec (ReadOther # rest) = session_end codec rest"
| "session_end codec (ReadError e # rest) = Some (Inl (DaemonIo e))"
| "session_end codec _ = Some (Inr SessionClosed)"

fun answers :: "('w, 'v) capability_registry \<Rightarrow> nala_message list \<Rightarrow> 'w \<Rightarrow> 'v device_message list \<times> 'w" where
  "answers r [] w = ([], w)"
| "answers r (Invoke rid capability arguments # ms) w =
     (case invoke_capability r capability arguments w of (out, w) \<Rightarrow>
      case answers r ms w of (as, w) \<Rightarrow> (Result rid out # as, w))"
| "answers r (Ping i # ms) w = (case answers r ms w of (as, w) \<Rightarrow> (Pong i # as, w))"
| "answers r (_ # ms) w = answers r ms w"

fun result_request :: "'v device_message \<Rightarrow> string option" where
  "result_request (Result rid out) = Some rid"
| "result_request _ = None"

fun invoke_request :: "nala_message \<Rightarrow> string option" where
  "invoke_request (Invoke rid capability arguments) = Some rid"
| "invoke_request _ = None"

definition sends_succeed :: "'v device_codec \<Rightarrow> 'v device_wire \<Rightarrow> bool" where
  "sends_succeed codec wire \<longleftrightarrow>
     (\<forall>m. \<exists>json. encode_message codec m = Inr json) \<and> (\<forall>n. wire_send_error wire n = None)"

lemma wire_send_succeeds:
  "sends_succeed codec wire \<Longrightarrow> wire_send codec m wire = (Inr (), wire\<lparr>wire_sent := wire_sent wire @ [m]\<rparr>)"
  unfolding sends_succeed_def wire_send_def by (metis old.sum.simps(6) option.simps(4))

lemma sends_succeed_update [simp]:
  "sends_succeed codec (wire\<lparr>wire_sent := ms\<rparr>) = sends_succeed codec wire"
  "sends_succeed codec (wire\<lparr>wire_reads := rs\<rparr>) = sends_succeed codec wire"
  by (simp_all add: sends_succeed_def)

text \<open>Skipping the frames that are not messages.\<close>

lemma recv_from_cases:
  obtains (waits) "recv_from codec reads = None" "received codec reads = []" "session_end codec reads = None"
    | (ends) r rest where "recv_from codec reads = Some (r, rest)" "received codec reads = []"
        "(\<exists>e. r = Inl e \<and> session_end codec reads = Some (Inl e)) \<or>
         (r = Inr None \<and> session_end codec reads = Some (Inr SessionClosed))"
    | (message) m rest where "recv_from codec reads = Some (Inr (Some m), rest)"
        "received codec reads = m # (case m of Reject reason \<Rightarrow> [] | _ \<Rightarrow> received codec rest)"
        "session_end codec reads =
           (case m of Reject reason \<Rightarrow> Some (Inr (SessionRejected reason)) | _ \<Rightarrow> session_end codec rest)"
proof (induction codec reads rule: recv_from.induct)
  case (2 codec t rest)
  then show ?case by (cases "decode_message codec t") auto
qed auto

text \<open>How a session ended, what it sent and the world it left.\<close>

fun session_view ::
  "(daemon_error + session_outcome) option \<times> 'v device_wire \<times> 'w \<Rightarrow>
     (daemon_error + session_outcome) option \<times> 'v device_message list \<times> 'w" where
  "session_view (res, wire, w) = (res, wire_sent wire, w)"

lemma answer_loop_answers:
  assumes "sends_succeed codec wire"
  shows "session_view (answer_loop codec r wire w) =
    (session_end codec (wire_reads wire),
     wire_sent wire @ fst (answers r (received codec (wire_reads wire)) w),
     snd (answers r (received codec (wire_reads wire)) w))"
  using assms
proof (induction "length (wire_reads wire)" arbitrary: wire w rule: less_induct)
  case less
  show ?case
  proof (cases rule: recv_from_cases [of codec "wire_reads wire"])
    case waits
    then show ?thesis by (subst answer_loop.simps) (simp add: wire_recv_def)
  next
    case (ends x rest)
    then show ?thesis by (subst answer_loop.simps) (auto simp: wire_recv_def)
  next
    case (message m rest)
    then have shorter: "length rest < length (wire_reads wire)" by (auto dest: recv_from_shorter)
    have IH: "session_view (answer_loop codec r wire1 w1) =
        (session_end codec rest, wire_sent wire1 @ fst (answers r (received codec rest) w1),
         snd (answers r (received codec rest) w1))"
      if "wire_reads wire1 = rest" "sends_succeed codec wire1" for wire1 w1
      using less.hyps [of wire1 w1] that shorter by simp
    show ?thesis using message less.prems
      by (subst answer_loop.simps; cases m)
        (auto simp: wire_recv_def wire_send_succeeds IH split: prod.splits)
  qed
qed

lemma answers_requests:
  "List.map_filter result_request (fst (answers r ms w)) = List.map_filter invoke_request ms"
  by (induction r ms w rule: answers.induct) (auto simp: map_filter_simps split: prod.splits)

lemma session_view_run:
  "sends_succeed codec wire \<Longrightarrow> session_view (daemon_session codec r ident wire w) =
    (session_end codec (wire_reads wire),
     wire_sent wire @ daemon_hello r ident # fst (answers r (received codec (wire_reads wire)) w),
     snd (answers r (received codec (wire_reads wire)) w))"
  by (simp add: daemon_session_def wire_send_succeeds answer_loop_answers)

lemma session_view_world: "snd (snd (session_view x)) = snd (snd x)"
  by (cases x) simp

text \<open>
  C23. A daemon session announces itself and then answers everything it receives, in order: an
  \<open>Invoke\<close> by one \<open>Result\<close> with its request id and the outcome of running that capability on the
  world the earlier ones left, a \<open>Ping\<close> by a \<open>Pong\<close> with its id, and nothing else by anything; it
  ends exactly on a close, a rejection, a transport error or an undecodable message.
\<close>

theorem session_answers_everything:
  assumes "sends_succeed codec wire"
  shows "session_view (daemon_session codec r ident wire w) =
      (session_end codec (wire_reads wire),
       wire_sent wire @ daemon_hello r ident # fst (answers r (received codec (wire_reads wire)) w),
       snd (answers r (received codec (wire_reads wire)) w)) \<and>
    List.map_filter result_request (fst (answers r (received codec (wire_reads wire)) w)) =
      List.map_filter invoke_request (received codec (wire_reads wire))"
  using assms by (simp add: session_view_run answers_requests)

definition daemon_sample_codec :: "unit device_codec" where
  "daemon_sample_codec = \<lparr>encode_message = \<lambda>_. Inr [], decode_message = \<lambda>t.
     if t = ''ping'' then Inr (Ping 7) else if t = ''run'' then Inr (Invoke ''r1'' ''volume'' ''up'')
     else if t = ''kill'' then Inr (Invoke ''r2'' ''execute_command'' ''del'') else Inl ''bad json''\<rparr>"

definition daemon_sample_wire :: "socket_read list \<Rightarrow> unit device_wire" where
  "daemon_sample_wire reads = \<lparr>wire_reads = reads, wire_send_error = \<lambda>_. None, wire_sent = []\<rparr>"

theorem session_answers_everything_witness:
  "session_view (daemon_session daemon_sample_codec shy_registry
       \<lparr>id_device = ''pc'', id_name = ''pc'', id_platform = ''windows'', id_token = ''t''\<rparr>
       (daemon_sample_wire [ReadText ''ping'', ReadOther, ReadText ''run'', ReadText ''kill'', ReadClose]) []) =
    (Some (Inr SessionClosed),
     [daemon_hello shy_registry \<lparr>id_device = ''pc'', id_name = ''pc'', id_platform = ''windows'', id_token = ''t''\<rparr>,
      Pong 7, Result ''r1'' (OutcomeOk ''up'' True),
      Result ''r2'' (OutcomeErr Denied (''capability '' @ quote @ ''execute_command'' @ quote @ '' is not allowed''))],
     [''up''])"
proof -
  have "sends_succeed daemon_sample_codec (daemon_sample_wire rs)" for rs
    by (simp add: sends_succeed_def daemon_sample_codec_def daemon_sample_wire_def)
  note s = conjunct1 [OF session_answers_everything [OF this]]
  show ?thesis unfolding s
    by (simp add: daemon_sample_wire_def daemon_sample_codec_def invoke_capability_def shy_registry_def is_allowed_def
        register_capability_def capability_entry_new_def capability_registry_new_def)
qed

section \<open>What the daemon runs by default\<close>

lemma answer_loop_preserves:
  assumes inv: "\<And>n args w. P w \<Longrightarrow> P (snd (invoke_capability r n args w))"
  shows "P w \<Longrightarrow> P (snd (snd (answer_loop codec r wire w)))"
proof (induction "length (wire_reads wire)" arbitrary: wire w rule: less_induct)
  case less
  have keep: "P w'" if "invoke_capability r n args w = (out, w')" for n args out w'
    using inv [OF less.prems, of n args] that by simp
  have IH: "P (snd (snd (answer_loop codec r wire2 w1)))"
    if "wire_recv codec wire = Some (x, wire1)" "wire_reads wire2 = wire_reads wire1" "P w1" for x wire1 wire2 w1
    using less.hyps [of wire2 w1] that by (simp add: wire_recv_shorter)
  show ?case using less.prems
    by (subst answer_loop.simps)
      (auto split: option.splits sum.splits nala_message.splits prod.splits intro: IH keep dest: wire_send_reads)
qed

text \<open>
  The command lines the daemon may run without being told to allow more: the list of applications, a
  volume key, \<open>start\<close> with one quoted argument that is an application's name or path or an address of
  the web, and \<open>rundll32\<close> with such an address. No argument is blank or contains a quote.
\<close>

definition web_address :: "string \<Rightarrow> bool" where
  "web_address u \<longleftrightarrow> (starts_with ''http://'' u \<or> starts_with ''https://'' u) \<and> CHR 0x22 \<notin> set u"

definition default_command :: "string \<Rightarrow> bool" where
  "default_command c \<longleftrightarrow> c = LIST_APPS_COMMAND \<or> (\<exists>a. c = volume_command a) \<or>
     (\<exists>x. \<not> is_blank x \<and> CHR 0x22 \<notin> set x \<and> c = ''start '' @ dquote @ dquote @ '' '' @ dquote @ x @ dquote) \<or>
     (\<exists>u. web_address u \<and> (c = ''start '' @ dquote @ dquote @ '' '' @ dquote @ u @ dquote \<or>
        c = ''rundll32 url.dll,FileProtocolHandler '' @ dquote @ u @ dquote))"

lemma recording_sel [simp]:
  "c_execute (recording ok) c t w = (if ok c then Inr [] else Inl (CommandFailed []), w @ [c])"
  "c_execute_detached (recording ok) c t w = (if ok c then Inr () else Inl (CommandFailed []), w @ [c])"
  by (simp_all add: recording_def)

lemma safe_launch:
  assumes "\<forall>c \<in> set w. default_command c"
  shows "\<forall>c \<in> set (snd (open_app_execute (recording ok) t app w)). default_command c"
    and "\<forall>c \<in> set (snd (open_url_execute (recording ok) t url w)). default_command c"
    and "\<forall>c \<in> set (snd (volume_execute (recording ok) t action w)). default_command c"
    and "\<forall>c \<in> set (snd (list_apps_execute apps (recording ok) t w)). default_command c"
proof -
  have "default_command (start_command x)" if "validate_app x = Inr ()" for x
    using that by (auto simp: default_command_def validate_app_def start_command_def split: if_splits)
  moreover have "default_command (start_command u)" "default_command (rundll_command u)" if "validate_url u = Inr ()" for u
    using that by (auto simp: default_command_def web_address_def validate_url_def start_command_def rundll_command_def
      split: if_splits)
  moreover have "default_command (volume_command a)" for a by (auto simp: default_command_def)
  moreover have "default_command LIST_APPS_COMMAND" by (simp add: default_command_def)
  moreover note assms
  ultimately show "\<forall>c \<in> set (snd (open_app_execute (recording ok) t app w)). default_command c"
    and "\<forall>c \<in> set (snd (open_url_execute (recording ok) t url w)). default_command c"
    and "\<forall>c \<in> set (snd (volume_execute (recording ok) t action w)). default_command c"
    and "\<forall>c \<in> set (snd (list_apps_execute apps (recording ok) t w)). default_command c"
    by (auto simp: open_app_execute_def open_url_execute_def volume_execute_def
        list_apps_execute_def split: sum.splits)
qed

lemma entry_run_new:
  "snd (entry_run (capability_entry_new d m parse execute show_error) args w) =
    (case parse args of Inl e \<Rightarrow> w | Inr a \<Rightarrow> snd (execute a w))"
  by (simp add: capability_entry_new_def split: sum.splits prod.splits)

lemma default_allowed: "allowed_names None = [''open_app'', ''open_url'', ''volume'', ''list_apps'']"
  unfolding allowed_names_def DEFAULT_CAPABILITIES_def by code_simp

lemma build_registry_sel [simp]:
  "cr_allowed (build_registry p var) = Some (allowed_names var)"
  "cr_entries (build_registry p var) = [execute_command_capability p, open_app_capability p, open_url_capability p,
     volume_capability p, list_apps_capability p]"
  by (simp_all add: build_registry_def register_capability_def capability_registry_new_def)

lemma capability_names [simp]:
  "entry_name (execute_command_capability p) = ''execute_command''"
  "entry_name (open_app_capability p) = ''open_app''" "entry_name (open_url_capability p) = ''open_url''"
  "entry_name (volume_capability p) = ''volume''" "entry_name (list_apps_capability p) = ''list_apps''"
  by (simp_all add: execute_command_capability_def open_app_capability_def open_url_capability_def
      volume_capability_def list_apps_capability_def capability_entry_new_def)

lemma entries_safe:
  assumes "dp_computer p = recording ok" and "\<forall>c \<in> set w. default_command c"
  shows "\<forall>c \<in> set (snd (entry_run (open_app_capability p) args w)). default_command c"
    and "\<forall>c \<in> set (snd (entry_run (open_url_capability p) args w)). default_command c"
    and "\<forall>c \<in> set (snd (entry_run (volume_capability p) args w)). default_command c"
    and "\<forall>c \<in> set (snd (entry_run (list_apps_capability p) args w)). default_command c"
proof -
  show "\<forall>c \<in> set (snd (entry_run (open_app_capability p) args w)). default_command c"
    unfolding open_app_capability_def entry_run_new assms(1)
    by (split sum.split) (intro conjI allI impI safe_launch assms(2))
  show "\<forall>c \<in> set (snd (entry_run (open_url_capability p) args w)). default_command c"
    unfolding open_url_capability_def entry_run_new assms(1)
    by (split sum.split) (intro conjI allI impI safe_launch assms(2))
  show "\<forall>c \<in> set (snd (entry_run (volume_capability p) args w)). default_command c"
    unfolding volume_capability_def entry_run_new assms(1)
    by (split sum.split) (intro conjI allI impI safe_launch assms(2))
  show "\<forall>c \<in> set (snd (entry_run (list_apps_capability p) args w)). default_command c"
    unfolding list_apps_capability_def entry_run_new assms(1)
    by (split sum.split) (intro conjI allI impI safe_launch assms(2))
qed

lemma default_invoke_safe:
  assumes "dp_computer p = recording ok" and "\<forall>c \<in> set w. default_command c"
  shows "\<forall>c \<in> set (snd (invoke_capability (build_registry p None) n args w)). default_command c"
proof -
  have "invoke_capability (build_registry p None) ''open_app'' args w = entry_run (open_app_capability p) args w"
    "invoke_capability (build_registry p None) ''open_url'' args w = entry_run (open_url_capability p) args w"
    "invoke_capability (build_registry p None) ''volume'' args w = entry_run (volume_capability p) args w"
    "invoke_capability (build_registry p None) ''list_apps'' args w = entry_run (list_apps_capability p) args w"
    by (simp_all add: invoke_capability_def is_allowed_def default_allowed)
  note runs = this [THEN arg_cong [where f = "\<lambda>x. \<forall>c \<in> set (snd x). default_command c"]] entries_safe [OF assms]
  show ?thesis
  proof (cases "n \<in> set (allowed_names None)")
    case True
    then consider "n = ''open_app''" | "n = ''open_url''" | "n = ''volume''" | "n = ''list_apps''"
      unfolding default_allowed by fastforce
    then show ?thesis by cases (simp_all only: runs(1-4), (rule runs(5-))+)
  next
    case False
    then show ?thesis using assms(2) by (simp add: invoke_capability_def is_allowed_def)
  qed
qed

lemma daemon_session_preserves:
  assumes "\<And>n args w. P w \<Longrightarrow> P (snd (invoke_capability r n args w))" and "P w"
  shows "P (snd (snd (daemon_session codec r ident wire w)))"
proof (cases "wire_send codec (daemon_hello r ident) wire")
  case (Pair res wire')
  then show ?thesis
    using assms(2) answer_loop_preserves [where P = P and r = r, OF assms]
    by (cases res) (simp_all add: daemon_session_def)
qed

text \<open>A session that ends without a rejection is followed by the next attempt.\<close>

definition stops_loop :: "(daemon_error + session_outcome) option \<Rightarrow> bool" where
  "stops_loop res \<longleftrightarrow> (case res of None \<Rightarrow> True | Some (Inr (SessionRejected reason)) \<Rightarrow> True | Some _ \<Rightarrow> False)"

lemma daemon_loop_connected:
  assumes "daemon_session codec (build_registry p (env ''NALA_DEVICE_CAPABILITIES'')) (daemon_identity env) wire w =
    (res, wire', w')"
  shows "daemon_loop codec p env b (Connected wire # rest) w =
    (if stops_loop res then ([Session wire'], res \<noteq> None, w')
     else case daemon_loop codec p env (snd (next_delay (backoff_reset b))) rest w' of
       (steps, done, w'') \<Rightarrow> (Session wire' # Slept (backoff_min b) # steps, done, w''))"
  using assms
  by (cases res rule: option.exhaust [case_names None Some])
    (auto simp: stops_loop_def next_delay_def backoff_reset_def split: sum.split session_outcome.split prod.split)

lemma daemon_loop_preserves:
  assumes "\<And>n args w. P w \<Longrightarrow> P (snd (invoke_capability (build_registry p (env ''NALA_DEVICE_CAPABILITIES'')) n args w))"
  shows "P w \<Longrightarrow> P (snd (snd (daemon_loop codec p env b attempts w)))"
proof (induction attempts arbitrary: b w)
  case (Cons a rest)
  show ?case
  proof (cases a)
    case (ConnectError e)
    then show ?thesis using Cons.IH [OF Cons.prems] by (simp add: case_prod_unfold)
  next
    case (Connected wire)
    obtain res wire' w' where run: "daemon_session codec (build_registry p (env ''NALA_DEVICE_CAPABILITIES''))
        (daemon_identity env) wire w = (res, wire', w')"
      by (metis prod_cases3)
    then have "P w'" using daemon_session_preserves [where P = P, OF assms Cons.prems] by (metis snd_conv)
    then show ?thesis using Cons.IH unfolding Connected daemon_loop_connected [where env = env, OF run]
      by (simp add: case_prod_unfold)
  qed
qed simp

text \<open>
  C24. Without an explicit allowlist the daemon runs no command line of the agent's making: over all
  its reconnects and sessions, whatever is received, decoded or lost, a call of \<open>execute_command\<close> is
  refused without an effect, and every command line it does run lists the applications, presses a
  volume key, or gives \<open>start\<close> or \<open>rundll32\<close> one argument in quotes it does not contain: an application
  the agent names, or an address of the web. (\<open>recording\<close> is a computer that logs what it is told to
  execute. Which program an application's name stands for, and what \<open>cmd\<close> expands between the quotes,
  is outside the daemon.)
\<close>

theorem default_daemon_commands:
  assumes "env ''NALA_DEVICE_CAPABILITIES'' = None" and "dp_computer p = recording ok"
  shows "list_all default_command (snd (snd (daemon_main codec p env attempts []))) \<and>
    (\<forall>args w. invoke_capability (build_registry p (env ''NALA_DEVICE_CAPABILITIES'')) ''execute_command'' args w =
       (OutcomeErr Denied (''capability '' @ quote @ ''execute_command'' @ quote @ '' is not allowed''), w))"
proof -
  have "\<forall>c \<in> set (snd (snd (daemon_main codec p env attempts []))). default_command c"
    unfolding daemon_main_def
    by (rule daemon_loop_preserves, unfold assms(1)) (erule default_invoke_safe [OF assms(2)], simp)
  moreover have "invoke_capability (build_registry p None) ''execute_command'' args w =
      (OutcomeErr Denied (''capability '' @ quote @ ''execute_command'' @ quote @ '' is not allowed''), w)" for args w
    by (simp add: invoke_capability_def is_allowed_def default_allowed)
  ultimately show ?thesis by (simp add: list_all_iff assms(1))
qed

definition sample_platform :: "(string list, unit) daemon_platform" where
  "sample_platform = \<lparr>dp_computer = recording (\<lambda>_. True), dp_schema = \<lambda>_. (), dp_argument = \<lambda>_ a. Inr a,
     dp_apps = \<lambda>_. Inl []\<rparr>"

lemma sample_daemon_runs:
  "snd (snd (daemon_main daemon_sample_codec sample_platform (\<lambda>_. None)
     [ConnectError ''refused'', Connected (daemon_sample_wire [ReadText ''run'', ReadText ''kill''])] [])) =
   [volume_command VolumeUp]"
proof -
  have "sends_succeed daemon_sample_codec (daemon_sample_wire rs)" for rs
    by (simp add: sends_succeed_def daemon_sample_codec_def daemon_sample_wire_def)
  note view = session_view_run [OF this]
  have run: "snd (snd (daemon_session daemon_sample_codec (build_registry sample_platform None) ident
      (daemon_sample_wire [ReadText ''run'', ReadText ''kill'']) [])) = [volume_command VolumeUp]" for ident
    unfolding session_view_world [symmetric] view
    by (simp add: daemon_sample_wire_def daemon_sample_codec_def invoke_capability_def is_allowed_def default_allowed
        volume_capability_def capability_entry_new_def volume_execute_def parse_volume_action_def sample_platform_def)
  obtain res wire' w' where r: "daemon_session daemon_sample_codec (build_registry sample_platform None) (daemon_identity (\<lambda>_. None))
      (daemon_sample_wire [ReadText ''run'', ReadText ''kill'']) [] = (res, wire', w')"
    by (metis prod_cases3)
  with run [of "daemon_identity (\<lambda>_. None)"] have "w' = [volume_command VolumeUp]" by simp
  then show ?thesis
    using daemon_loop_connected [where env = "\<lambda>_. None", OF r, of _ "[]"]
    by (simp add: daemon_main_def case_prod_unfold del: daemon_loop.simps(3))
qed

theorem default_daemon_commands_witness:
  "case daemon_main daemon_sample_codec sample_platform (\<lambda>_. None)
     [ConnectError ''refused'', Connected (daemon_sample_wire [ReadText ''run'', ReadText ''kill''])] [] of
   (steps, done, commands) \<Rightarrow> commands = [volume_command VolumeUp] \<and> list_all default_command commands"
  using sample_daemon_runs
    default_daemon_commands [of "\<lambda>_. None" sample_platform "\<lambda>_. True" daemon_sample_codec
      "[ConnectError ''refused'', Connected (daemon_sample_wire [ReadText ''run'', ReadText ''kill''])]"]
  by (auto simp: sample_platform_def split: prod.splits)

section \<open>The delays between attempts\<close>

lemma min_double: "min (2 * min a b) b = min (2 * a) (b :: nat)"
  by simp

text \<open>
  In the steps of the loop, the wait after \<open>k\<close> waits without a session in between is \<open>2 ^ k\<close>
  seconds, at most 30.
\<close>

fun delays_ok :: "nat \<Rightarrow> 'v daemon_step list \<Rightarrow> bool" where
  "delays_ok k [] = True"
| "delays_ok k (Slept d # steps) = (d = min (2 ^ k * second) (30 * second) \<and> delays_ok (Suc k) steps)"
| "delays_ok k (Session wire # steps) = delays_ok 0 steps"

definition backoff_at :: "nat \<Rightarrow> backoff \<Rightarrow> bool" where
  "backoff_at k b \<longleftrightarrow> backoff_min b = second \<and> backoff_max b = 30 * second \<and>
     backoff_current b = min (2 ^ k * second) (30 * second)"

lemma backoff_at_next: "backoff_at k b \<Longrightarrow> backoff_at (Suc k) (snd (next_delay b))"
  using min_double [of "2 ^ k * second" "30 * second"] by (simp add: backoff_at_def next_delay_def mult.commute mult.left_commute)

lemma backoff_at_reset: "backoff_at k b \<Longrightarrow> backoff_at 0 (backoff_reset b)"
  by (simp add: backoff_at_def backoff_reset_def)

lemma daemon_loop_delays:
  "backoff_at k b \<Longrightarrow> delays_ok k (fst (daemon_loop codec p env b attempts w))"
proof (induction attempts arbitrary: k b w)
  case (Cons a rest)
  show ?case
  proof (cases a)
    case (ConnectError e)
    have "fst (next_delay b) = min (2 ^ k * second) (30 * second)"
      using Cons.prems by (simp add: backoff_at_def next_delay_def)
    then show ?thesis using Cons.IH [OF backoff_at_next [OF Cons.prems]] by (simp add: ConnectError case_prod_unfold)
  next
    case (Connected wire)
    obtain res wire' w' where run: "daemon_session codec (build_registry p (env ''NALA_DEVICE_CAPABILITIES''))
        (daemon_identity env) wire w = (res, wire', w')"
      by (metis prod_cases3)
    have "backoff_min b = min (2 ^ 0 * second) (30 * second)" using Cons.prems by (simp add: backoff_at_def)
    then show ?thesis using Cons.IH [OF backoff_at_next [OF backoff_at_reset [OF Cons.prems]]]
      unfolding Connected daemon_loop_connected [where env = env, OF run] by (simp add: case_prod_unfold)
  qed
qed simp

text \<open>
  The daemon's waits double from one second up to 30 while it cannot connect, and start again at
  one second after every session: the wait after \<open>k\<close> others since the last session is
  \<open>min (2 ^ k) 30\<close> seconds, over all attempts and however the sessions end.
\<close>

theorem reconnect_delays: "delays_ok 0 (fst (daemon_main codec p env attempts w))"
  unfolding daemon_main_def
  by (rule daemon_loop_delays)
    (simp add: backoff_at_def backoff_new_def RECONNECT_INITIAL_DELAY_def RECONNECT_MAX_DELAY_def)

end
