(* ===== verification/Tts.thy ===== *)
theory Tts
  imports Pcm
begin

text \<open>
  The speech backends of \<open>crates/tts\<close>: the streaming client and the server supervisor of Chatterbox
  (\<open>chatterbox/config.rs\<close>, \<open>http.rs\<close>, \<open>supervisor.rs\<close>), the Piper process (\<open>piper/config.rs\<close>,
  \<open>speech.rs\<close>) and the choice between them (\<open>backend.rs\<close>, \<open>streaming_speech.rs\<close>). A float is the type
  variable \<open>'f\<close>, which the sources parse, print and hand on. HTTP, processes and the file system
  are the results their calls give.
\<close>

section \<open>Configuration\<close>

definition env_string :: "(string \<Rightarrow> string option) \<Rightarrow> string \<Rightarrow> string \<Rightarrow> string" where
  "env_string env key fallback = (case env key of Some v \<Rightarrow> v | None \<Rightarrow> fallback)"

definition env_parsed :: "(string \<Rightarrow> 'a option) \<Rightarrow> (string \<Rightarrow> string option) \<Rightarrow> string \<Rightarrow> 'a \<Rightarrow> 'a" where
  "env_parsed parse env key fallback =
     (case Option.bind (env key) parse of Some v \<Rightarrow> v | None \<Rightarrow> fallback)"

definition env_bool :: "(string \<Rightarrow> string option) \<Rightarrow> string \<Rightarrow> bool \<Rightarrow> bool" where
  "env_bool env key fallback = (case env key of Some v \<Rightarrow> v \<noteq> ''0'' | None \<Rightarrow> fallback)"

record 'f chatterbox_config =
  cb_base_url :: string
  cb_voice :: string
  cb_reference_path :: string
  cb_language :: string
  cb_exaggeration :: 'f
  cb_cfg_weight :: 'f
  cb_temperature :: 'f
  cb_timeout_s :: nat
  cb_read_timeout_s :: nat
  cb_streaming_strategy :: string
  cb_streaming_chunk_size :: u32
  cb_autostart :: bool
  cb_command :: string
  cb_startup_timeout_s :: nat

text \<open>\<open>f32 s\<close> is \<open>str::parse\<close> for floats; the defaults are parsed from their literals.\<close>

definition chatterbox_config_from_env ::
  "(string \<Rightarrow> 'f option) \<Rightarrow> (string \<Rightarrow> bool) \<Rightarrow> (string \<Rightarrow> string option) \<Rightarrow>
     speech_error + 'f chatterbox_config" where
  "chatterbox_config_from_env f32 exists env =
     (let reference_path = env_string env ''NALA_CHATTERBOX_REFERENCE'' ''data/voices/nala/reference.wav'';
          env_f32 = (\<lambda>key fallback. env_parsed f32 env key (the (f32 fallback)));
          env_u64 = (\<lambda>key fallback. env_parsed (parse_unsigned 64) env key fallback)
      in if \<not> exists reference_path
         then Inl (SpeechConfiguration (''reference.wav not found at '' @ [CHR 0x27] @ reference_path @ [CHR 0x27] @
                '' (set NALA_CHATTERBOX_REFERENCE to override)''))
         else Inr
           \<lparr>cb_base_url = env_string env ''NALA_CHATTERBOX_URL'' ''http://127.0.0.1:4123'',
            cb_voice = env_string env ''NALA_CHATTERBOX_VOICE'' ''nala'',
            cb_reference_path = reference_path,
            cb_language = env_string env ''NALA_CHATTERBOX_LANGUAGE'' ''es'',
            cb_exaggeration = env_f32 ''NALA_CHATTERBOX_EXAGGERATION'' ''0.5'',
            cb_cfg_weight = env_f32 ''NALA_CHATTERBOX_CFG_WEIGHT'' ''0.5'',
            cb_temperature = env_f32 ''NALA_CHATTERBOX_TEMPERATURE'' ''0.8'',
            cb_timeout_s = env_u64 ''NALA_CHATTERBOX_TIMEOUT_S'' 30,
            cb_read_timeout_s = env_u64 ''NALA_CHATTERBOX_READ_TIMEOUT_S'' 60,
            cb_streaming_strategy = env_string env ''NALA_CHATTERBOX_STREAMING_STRATEGY'' ''sentence'',
            cb_streaming_chunk_size = of_nat (env_u64 ''NALA_CHATTERBOX_CHUNK_SIZE'' 200),
            cb_autostart = env_bool env ''NALA_CHATTERBOX_AUTOSTART'' True,
            cb_command = env_string env ''NALA_CHATTERBOX_CMD''
              ''powershell -ExecutionPolicy Bypass -File scripts/chatterbox-server.ps1'',
            cb_startup_timeout_s = env_u64 ''NALA_CHATTERBOX_STARTUP_TIMEOUT_S'' 180\<rparr>)"

record 'f piper_config =
  pp_bin_path :: string
  pp_model_path :: string
  pp_sample_rate :: u32
  pp_length_scale :: 'f
  pp_noise_scale :: 'f
  pp_speaker :: "string option"

text \<open>\<open>read\<close> reads a file, \<open>decode\<close> is the JSON decoder of the voice's sidecar file.\<close>

definition read_sample_rate ::
  "(string \<Rightarrow> string + string) \<Rightarrow> (string \<Rightarrow> string + u32) \<Rightarrow> string \<Rightarrow> speech_error + u32" where
  "read_sample_rate read decode model_path =
     (let config_path = model_path @ ''.json''
      in case read config_path of
           Inl e \<Rightarrow> Inl (SpeechConfiguration (''could not read Piper voice config '' @ [CHR 0x27] @ config_path @
             [CHR 0x27] @ '': '' @ e))
         | Inr contents \<Rightarrow>
             (case decode contents of
                Inl e \<Rightarrow> Inl (SpeechConfiguration (''could not parse Piper voice config '' @ [CHR 0x27] @ config_path @
                  [CHR 0x27] @ '': '' @ e))
              | Inr rate \<Rightarrow> Inr rate))"

definition piper_config_from_env ::
  "(string \<Rightarrow> 'f option) \<Rightarrow> (string \<Rightarrow> bool) \<Rightarrow> (string \<Rightarrow> string + string) \<Rightarrow> (string \<Rightarrow> string + u32) \<Rightarrow>
     (string \<Rightarrow> string option) \<Rightarrow> speech_error + 'f piper_config" where
  "piper_config_from_env f32 exists read decode env =
     (let bin_path = env_string env ''NALA_PIPER_BIN'' ''tools/piper/piper.exe'';
          model_path = env_string env ''NALA_PIPER_MODEL'' ''data/voices/piper/es_MX-claude-high.onnx'';
          env_f32 = (\<lambda>key fallback. env_parsed f32 env key (the (f32 fallback)))
      in if \<not> exists bin_path
         then Inl (SpeechConfiguration (''Piper binary not found at '' @ [CHR 0x27] @ bin_path @ [CHR 0x27] @
                '' (set NALA_PIPER_BIN to override, or run scripts/piper-setup.ps1)''))
         else if \<not> exists model_path
         then Inl (SpeechConfiguration (''Piper voice model not found at '' @ [CHR 0x27] @ model_path @ [CHR 0x27] @
                '' (set NALA_PIPER_MODEL to override, or run scripts/piper-setup.ps1)''))
         else try_bind (read_sample_rate read decode model_path) (\<lambda>rate.
           Inr \<lparr>pp_bin_path = bin_path, pp_model_path = model_path, pp_sample_rate = rate,
             pp_length_scale = env_f32 ''NALA_PIPER_LENGTH_SCALE'' ''1.0'',
             pp_noise_scale = env_f32 ''NALA_PIPER_NOISE_SCALE'' ''0.667'',
             pp_speaker = env ''NALA_PIPER_SPEAKER''\<rparr>))"

section \<open>Piper\<close>

definition normalize_text :: "string \<Rightarrow> string" where
  "normalize_text t = join '' '' (split_whitespace t)"

definition build_args :: "('f \<Rightarrow> string) \<Rightarrow> 'f piper_config \<Rightarrow> string list" where
  "build_args show_f32 config =
     [''--model'', pp_model_path config, ''--output_raw'', ''--length_scale'', show_f32 (pp_length_scale config),
      ''--noise_scale'', show_f32 (pp_noise_scale config)] @
     (case pp_speaker config of Some speaker \<Rightarrow> [''--speaker'', speaker] | None \<Rightarrow> [])"

text \<open>
  A started process: whether its input could be written, what its output gives, and how it ends
  (an error of \<open>wait\<close>, or success, the printed status and what it left on its error output).
\<close>

record piper_child =
  pc_write :: "string \<Rightarrow> string option"
  pc_stdout :: "read_result list"
  pc_wait :: "string + (bool \<times> string \<times> string)"

definition piper_chunks :: "piper_child \<Rightarrow> (nat \<Rightarrow> bool) \<Rightarrow> (speech_error + i16 list) list" where
  "piper_chunks child gone =
     (case stream_pcm_from ''Piper'' gone (pc_stdout child) of
        (sent, ended) \<Rightarrow>
          if \<not> ended then sent
          else
            let failure = (case pc_wait child of
                  Inl e \<Rightarrow> [''failed to wait for Piper: '' @ e]
                | Inr (success, status, stderr) \<Rightarrow>
                    if success then [] else [''Piper exited with '' @ status @ '': '' @ trim stderr])
            in sent @ (if gone (length sent) then [] else map (\<lambda>m. Inl (SpeechSynthesis m)) failure))"

definition piper_synthesize ::
  "('f \<Rightarrow> string) \<Rightarrow> (string \<Rightarrow> string list \<Rightarrow> string + piper_child) \<Rightarrow> (nat \<Rightarrow> bool) \<Rightarrow> 'f piper_config \<Rightarrow> string \<Rightarrow>
     speech_error + (i16, speech_error) pcm_stream" where
  "piper_synthesize show_f32 spawn gone config phrase =
     (case spawn (pp_bin_path config) (build_args show_f32 config) of
        Inl e \<Rightarrow> Inl (SpeechUnavailable (''could not start Piper: '' @ e))
      | Inr child \<Rightarrow>
          (case pc_write child (normalize_text phrase) of
             Some e \<Rightarrow> Inl (SpeechSynthesis (''failed to send text to Piper: '' @ e))
           | None \<Rightarrow> Inr \<lparr>pcm_rate = unat (pp_sample_rate config), pcm_channels = 1,
                          pcm_chunks = piper_chunks child gone\<rparr>))"

section \<open>Chatterbox\<close>

definition byte_string :: "string \<Rightarrow> u8 list" where
  "byte_string s = map (\<lambda>c. of_nat (byte_of c)) s"

record wav_header =
  wh_rate :: u32
  wh_channels :: u16

definition u16_le :: "u8 \<Rightarrow> u8 \<Rightarrow> u16" where
  "u16_le a b = ucast a + 256 * ucast b"

definition u32_le :: "u8 \<Rightarrow> u8 \<Rightarrow> u8 \<Rightarrow> u8 \<Rightarrow> u32" where
  "u32_le a b c d = ucast a + 256 * ucast b + 65536 * ucast c + 16777216 * ucast d"

definition parse_wav_header :: "u8 list \<Rightarrow> speech_error + wav_header" where
  "parse_wav_header bytes =
     (if length bytes < 44 \<or> take 4 bytes \<noteq> byte_string ''RIFF'' \<or> take 4 (drop 8 bytes) \<noteq> byte_string ''WAVE''
      then Inl (SpeechSynthesis ''Chatterbox response is not a WAV stream'')
      else if take 4 (drop 12 bytes) \<noteq> byte_string ''fmt ''
      then Inl (SpeechSynthesis (''Chatterbox WAV header is missing the '' @ [CHR 0x27] @ ''fmt '' @ [CHR 0x27] @ '' chunk''))
      else
        let audio_format = u16_le (bytes ! 20) (bytes ! 21);
            channels = u16_le (bytes ! 22) (bytes ! 23);
            sample_rate = u32_le (bytes ! 24) (bytes ! 25) (bytes ! 26) (bytes ! 27);
            bits_per_sample = u16_le (bytes ! 34) (bytes ! 35)
        in if audio_format \<noteq> 1
           then Inl (SpeechSynthesis (''Chatterbox WAV stream uses unsupported audio format '' @
                  show_nat (unat audio_format) @ '' (expected PCM)''))
           else if bits_per_sample \<noteq> 16
           then Inl (SpeechSynthesis (''Chatterbox WAV stream uses unsupported bit depth '' @
                  show_nat (unat bits_per_sample) @ '' (expected 16)''))
           else Inr \<lparr>wh_rate = sample_rate, wh_channels = channels\<rparr>)"

text \<open>
  \<open>Read::read_exact\<close>: reads until there are \<open>n\<close> bytes, leaving the rest of a longer read to the
  next one; \<open>None\<close> while it waits. An interrupted read, which \<open>read_exact\<close> repeats, is none of the results.
\<close>

fun read_exact :: "nat \<Rightarrow> read_result list \<Rightarrow> ((string + u8 list) \<times> read_result list) option" where
  "read_exact n [] = (if n = 0 then Some (Inr [], []) else None)"
| "read_exact n (ReadFailed e # reads) = (if n = 0 then Some (Inr [], ReadFailed e # reads) else Some (Inl e, reads))"
| "read_exact n (ReadOk bytes # reads) =
     (if n = 0 then Some (Inr [], ReadOk bytes # reads)
      else if bytes = [] then Some (Inl ''failed to fill whole buffer'', reads)
      else if n < length bytes then Some (Inr (take n bytes), ReadOk (drop n bytes) # reads)
      else map_option (map_prod (map_sum id ((@) bytes)) id) (read_exact (n - length bytes) reads))"

record 'f stream_request =
  sr_input :: string
  sr_voice :: string
  sr_exaggeration :: 'f
  sr_cfg_weight :: 'f
  sr_temperature :: 'f
  sr_streaming_strategy :: string
  sr_streaming_chunk_size :: u32

record http_response =
  hr_status :: nat
  hr_status_text :: string
  hr_body_text :: "string option"
  hr_body :: "read_result list"

definition stream_request_of :: "'f chatterbox_config \<Rightarrow> string \<Rightarrow> 'f stream_request" where
  "stream_request_of config phrase =
     \<lparr>sr_input = phrase, sr_voice = cb_voice config, sr_exaggeration = cb_exaggeration config,
      sr_cfg_weight = cb_cfg_weight config, sr_temperature = cb_temperature config,
      sr_streaming_strategy = cb_streaming_strategy config,
      sr_streaming_chunk_size = cb_streaming_chunk_size config\<rparr>"

text \<open>The result is \<open>None\<close> while the header is still awaited.\<close>

definition chatterbox_synthesize ::
  "(string \<Rightarrow> 'f stream_request \<Rightarrow> string + http_response) \<Rightarrow> (nat \<Rightarrow> bool) \<Rightarrow> 'f chatterbox_config \<Rightarrow> string \<Rightarrow>
     (speech_error + (i16, speech_error) pcm_stream) option" where
  "chatterbox_synthesize post gone config phrase =
     (case post (cb_base_url config @ ''/v1/audio/speech/stream'') (stream_request_of config phrase) of
        Inl e \<Rightarrow> Some (Inl (SpeechUnavailable e))
      | Inr response \<Rightarrow>
          let body = (case hr_body_text response of Some t \<Rightarrow> t | None \<Rightarrow> [])
          in if 500 \<le> hr_status response \<and> hr_status response < 600
             then Some (Inl (SpeechUnavailable (''Chatterbox returned status '' @ hr_status_text response @ '': '' @ body)))
             else if \<not> (200 \<le> hr_status response \<and> hr_status response < 300)
             then Some (Inl (SpeechSynthesis (''Chatterbox rejected the request with status '' @
                    hr_status_text response @ '': '' @ body)))
             else
               (case read_exact 44 (hr_body response) of
                  None \<Rightarrow> None
                | Some (Inl e, rest) \<Rightarrow>
                    Some (Inl (SpeechSynthesis (''failed to read Chatterbox WAV header: '' @ e)))
                | Some (Inr header, rest) \<Rightarrow>
                    (case parse_wav_header header of
                       Inl e \<Rightarrow> Some (Inl e)
                     | Inr h \<Rightarrow> Some (Inr \<lparr>pcm_rate = unat (wh_rate h), pcm_channels = unat (wh_channels h),
                         pcm_chunks = fst (stream_pcm_from ''Chatterbox'' gone rest)\<rparr>))))"

section \<open>The Chatterbox server\<close>

datatype start_decision = AlreadyRunning | SpawnServer | AutostartDisabled

fun decide_start :: "bool \<Rightarrow> bool \<Rightarrow> start_decision" where
  "decide_start True autostart = AlreadyRunning"
| "decide_start False True = SpawnServer"
| "decide_start False False = AutostartDisabled"

text \<open>
  The wait for a spawned server, over the world the clock, the health checks and the sleeps act on;
  \<open>fuel\<close> is the number of rounds allowed (\<open>None\<close> when they are used up). \<open>se_assign_job\<close> is the
  assignment to a process group of the Windows build, which other builds do not have.
\<close>

record 'w supervisor_env =
  se_now :: "'w \<Rightarrow> nat \<times> 'w"
  se_healthy :: "string \<Rightarrow> 'w \<Rightarrow> bool \<times> 'w"
  se_sleep_ms :: "nat \<Rightarrow> 'w \<Rightarrow> 'w"
  se_spawn :: "string \<Rightarrow> string list \<Rightarrow> 'w \<Rightarrow> (string + unit) \<times> 'w"
  se_assign_job :: "'w \<Rightarrow> speech_error option \<times> 'w"
  se_kill :: "'w \<Rightarrow> 'w"

fun wait_healthy :: "'w supervisor_env \<Rightarrow> string \<Rightarrow> nat \<Rightarrow> nat \<Rightarrow> 'w \<Rightarrow> (bool \<times> 'w) option" where
  "wait_healthy env url deadline 0 w = None"
| "wait_healthy env url deadline (Suc fuel) w =
     (case se_now env w of (now, w) \<Rightarrow>
        if deadline \<le> now then Some (False, w)
        else case se_healthy env url w of (healthy, w) \<Rightarrow>
          if healthy then Some (True, w)
          else wait_healthy env url deadline fuel (se_sleep_ms env 500 w))"

text \<open>The supervisor owns the server it started: \<open>True\<close>. Times are milliseconds.\<close>

definition spawn_and_wait ::
  "'w supervisor_env \<Rightarrow> nat \<Rightarrow> 'f chatterbox_config \<Rightarrow> 'w \<Rightarrow> ((speech_error + bool) \<times> 'w) option" where
  "spawn_and_wait env fuel config w =
     (case split_whitespace (cb_command config) of
        [] \<Rightarrow> Some (Inl (SpeechConfiguration ''NALA_CHATTERBOX_CMD is empty''), w)
      | program # args \<Rightarrow>
          (case se_spawn env program args w of
             (Inl e, w) \<Rightarrow> Some (Inl (SpeechUnavailable (''failed to start Chatterbox server: '' @ e)), w)
           | (Inr _, w) \<Rightarrow>
               (case se_assign_job env w of
                  (Some e, w) \<Rightarrow> Some (Inl e, se_kill env w)
                | (None, w) \<Rightarrow> case se_now env w of (now, w) \<Rightarrow>
                  map_option (\<lambda>(healthy, w).
                      if healthy then (Inr True, w)
                      else (Inl (SpeechUnavailable (''Chatterbox server did not become healthy within '' @
                              show_nat (cb_startup_timeout_s config) @ ''s'')), se_kill env w))
                    (wait_healthy env (cb_base_url config) (now + 1000 * cb_startup_timeout_s config) fuel w))))"

definition ensure_running ::
  "'w supervisor_env \<Rightarrow> nat \<Rightarrow> 'f chatterbox_config \<Rightarrow> 'w \<Rightarrow> ((speech_error + bool) \<times> 'w) option" where
  "ensure_running env fuel config w =
     (case se_healthy env (cb_base_url config) w of (healthy, w) \<Rightarrow>
        if healthy then Some (Inr False, w)
        else case decide_start False (cb_autostart config) of
            AutostartDisabled \<Rightarrow>
              Some (Inl (SpeechUnavailable (''Chatterbox not reachable at '' @ cb_base_url config @
                '' and NALA_CHATTERBOX_AUTOSTART=0'')), w)
          | SpawnServer \<Rightarrow> spawn_and_wait env fuel config w
          | AlreadyRunning \<Rightarrow> Some (Inr False, w))"

text \<open>\<open>Drop\<close>: the server is killed when it is owned.\<close>

definition supervisor_drop :: "'w supervisor_env \<Rightarrow> bool \<Rightarrow> 'w \<Rightarrow> 'w" where
  "supervisor_drop env owned w = (if owned then se_kill env w else w)"

section \<open>The choice of a backend\<close>

text \<open>
  \<open>build_chatterbox\<close> and \<open>build_piper\<close> are what building that backend gives; a failure falls back
  to Windows SAPI.
\<close>

datatype speech_backend = NullSpeech | WindowsSapi | Chatterbox | Piper

definition select_backend :: "string option \<Rightarrow> speech_error + bool \<Rightarrow> speech_error + unit \<Rightarrow> speech_backend \<times> bool option" where
  "select_backend var build_chatterbox build_piper =
     (if var = Some ''off'' then (NullSpeech, None)
      else if var = Some ''sapi'' then (WindowsSapi, None)
      else if var = Some ''chatterbox''
      then (case build_chatterbox of Inr supervisor \<Rightarrow> (Chatterbox, Some supervisor) | Inl e \<Rightarrow> (WindowsSapi, None))
      else (case build_piper of Inr _ \<Rightarrow> (Piper, None) | Inl e \<Rightarrow> (WindowsSapi, None)))"

definition streaming_say :: "(string \<Rightarrow> 'e + 's) \<Rightarrow> ('s \<Rightarrow> 'e + unit) \<Rightarrow> string \<Rightarrow> 'e + unit" where
  "streaming_say synthesize play t = try_bind (synthesize t) play"

section \<open>Piper speaks the words of the text\<close>

definition plain_word :: "string \<Rightarrow> bool" where
  "plain_word w \<longleftrightarrow> w \<noteq> [] \<and> starts_char w \<and> (\<forall>ch \<in> set (chars w). \<not> is_ws ch)"

lemma starts_char_append: "starts_char u \<Longrightarrow> u \<noteq> [] \<Longrightarrow> starts_char (u @ v)"
  by (cases u) (auto simp: starts_char_def)

lemma chars_append:
  assumes "starts_char u" and "starts_char v"
  shows "chars (u @ v) = chars u @ chars v"
proof -
  have "list_all wf_chunk (chars u @ chars v)" using assms by (simp add: wf_chars)
  from chars_concat [OF this] show ?thesis by simp
qed

lemma wf_chunk_starts: "wf_chunk ch \<Longrightarrow> starts_char ch \<and> chars ch = [ch]"
  using chars_concat [of "[ch]"] by (auto simp: starts_char_def wf_chunk_def)

lemma words_of_plain:
  assumes "list_all wf_chunk chs" and "acc = [] \<or> plain_word acc"
  shows "\<forall>w \<in> set (words_of chs acc). plain_word w"
  using assms
proof (induction chs arbitrary: acc)
  case (Cons ch chs)
  have ch: "wf_chunk ch" "list_all wf_chunk chs" using Cons.prems(1) by simp_all
  show ?case
  proof (cases "is_ws ch")
    case True
    have "\<forall>w \<in> set (words_of chs []). plain_word w" by (rule Cons.IH) (simp_all add: ch)
    with True Cons.prems(2) show ?thesis by auto
  next
    case False
    have "plain_word (acc @ ch)"
    proof (cases "acc = []")
      case True
      then show ?thesis using False ch(1) wf_chunk_starts [OF ch(1)] by (simp add: plain_word_def wf_chunk_def)
    next
      case acc: False
      then have "starts_char acc" "\<forall>ch \<in> set (chars acc). \<not> is_ws ch" using Cons.prems(2) by (simp_all add: plain_word_def)
      then show ?thesis
        using acc False wf_chunk_starts [OF ch(1)] by (simp add: plain_word_def chars_append starts_char_append)
    qed
    then have "\<forall>w \<in> set (words_of chs (acc @ ch)). plain_word w" by (intro Cons.IH ch(2)) simp
    with False show ?thesis by simp
  qed
qed auto

lemma split_whitespace_plain: "starts_char t \<Longrightarrow> \<forall>w \<in> set (split_whitespace t). plain_word w"
  using words_of_plain [OF wf_chars, of t "[]"] by (simp add: split_whitespace_def)

lemma words_of_skip: "\<forall>ch \<in> set chs. \<not> is_ws ch \<Longrightarrow> words_of (chs @ rest) acc = words_of rest (acc @ concat chs)"
  by (induction chs arbitrary: acc) auto

lemma space_chunk: "starts_char ('' '' @ t) \<and> (starts_char t \<longrightarrow> chars ('' '' @ t) = '' '' # chars t) \<and> is_ws '' ''"
  using chars_append_chunk [of "'' ''" t] by (auto simp: starts_char_def is_ws_def is_cont_def byte_of_def wf_chunk_def)

lemma starts_char_join: "\<forall>w \<in> set ws. plain_word w \<Longrightarrow> starts_char (join '' '' ws)"
  by (cases ws) (auto simp: join_Cons starts_char_append plain_word_def starts_char_def)

lemma split_join_words: "\<forall>w \<in> set ws. plain_word w \<Longrightarrow> split_whitespace (join '' '' ws) = ws"
proof (induction ws)
  case (Cons w ws)
  have w: "starts_char w" "w \<noteq> []" "\<forall>ch \<in> set (chars w). \<not> is_ws ch" using Cons.prems by (auto simp: plain_word_def)
  show ?case
  proof (cases "ws = []")
    case True
    with words_of_skip [OF w(3), of "[]" "[]"] w(2) show ?thesis by (simp add: split_whitespace_def)
  next
    case False
    have j: "starts_char (join '' '' ws)" using Cons.prems by (intro starts_char_join) simp
    have "chars (join '' '' (w # ws)) = chars w @ '' '' # chars (join '' '' ws)"
      using False w(1) j space_chunk [of "join '' '' ws"] chars_append [OF w(1), of "'' '' @ join '' '' ws"]
      by (simp add: join_Cons)
    with words_of_skip [OF w(3)] w(2) Cons space_chunk show ?thesis by (simp add: split_whitespace_def)
  qed
qed (simp add: split_whitespace_def)

lemma chars_join_ws:
  "\<forall>w \<in> set ws. plain_word w \<Longrightarrow> \<forall>ch \<in> set (chars (join '' '' ws)). is_ws ch \<longrightarrow> ch = '' ''"
proof (induction ws)
  case (Cons w ws)
  then have "starts_char (join '' '' ws)" by (intro starts_char_join) simp
  with Cons show ?case
    using space_chunk [of "join '' '' ws"] chars_append [of w "'' '' @ join '' '' ws"]
    by (cases "ws = []") (auto simp: join_Cons plain_word_def)
qed simp

text \<open>
  Piper is given exactly the words of the text, on one line: splitting what it reads at white space
  gives the words of the text, and the only white space left between them is single spaces, so no
  line break cuts the utterance.
\<close>

theorem normalize_text_keeps_words:
  assumes "starts_char t"
  shows "split_whitespace (normalize_text t) = split_whitespace t \<and>
    (\<forall>ch \<in> set (chars (normalize_text t)). is_ws ch \<longrightarrow> ch = '' '') \<and>
    normalize_text (normalize_text t) = normalize_text t"
  using split_whitespace_plain [OF assms] by (simp add: normalize_text_def split_join_words chars_join_ws)

theorem normalize_text_keeps_words_witness:
  "split_whitespace (normalize_text ([CHR ''a'', CHR 0x0A, CHR 0x0A] @ ''b'')) =
    split_whitespace ([CHR ''a'', CHR 0x0A, CHR 0x0A] @ ''b'')"
  using normalize_text_keeps_words [of "[CHR ''a'', CHR 0x0A, CHR 0x0A] @ ''b''"]
  by (simp add: starts_char_def is_cont_def byte_of_def)

section \<open>The wait for the Chatterbox server ends\<close>

text \<open>
  \<open>clock_laws env clk\<close>: \<open>se_now\<close> reads the clock \<open>clk\<close>, no operation turns it back, and a sleep
  moves it on by at least its length.
\<close>

definition clock_laws :: "'w supervisor_env \<Rightarrow> ('w \<Rightarrow> nat) \<Rightarrow> bool" where
  "clock_laws env clk \<longleftrightarrow>
     (\<forall>w. fst (se_now env w) = clk w \<and> clk w \<le> clk (snd (se_now env w))) \<and>
     (\<forall>url w. clk w \<le> clk (snd (se_healthy env url w))) \<and>
     (\<forall>ms w. clk w + ms \<le> clk (se_sleep_ms env ms w))"

lemma clock_laws_steps:
  assumes "clock_laws env clk"
  shows "se_now env w = (now, w') \<Longrightarrow> now = clk w \<and> clk w \<le> clk w'"
    and "se_healthy env url w = (healthy, w') \<Longrightarrow> clk w \<le> clk w'"
    and "clk w + ms \<le> clk (se_sleep_ms env ms w)"
  using assms by (simp_all add: clock_laws_def) (metis fst_conv snd_conv, metis snd_conv)

lemma wait_healthy_returns:
  assumes "clock_laws env clk"
  shows "deadline \<le> clk w + 500 * fuel \<Longrightarrow> \<exists>r w'. wait_healthy env url deadline (Suc fuel) w = Some (r, w')"
proof (induction fuel arbitrary: w)
  case 0
  then show ?case using clock_laws_steps(1) [OF assms, of w] by (cases "se_now env w") auto
next
  case (Suc fuel)
  obtain now w1 where n: "se_now env w = (now, w1)" by (cases "se_now env w")
  obtain healthy w2 where h: "se_healthy env url w1 = (healthy, w2)" by (cases "se_healthy env url w1")
  have "deadline \<le> clk (se_sleep_ms env 500 w2) + 500 * fuel"
    using clock_laws_steps(1) [OF assms n] clock_laws_steps(2) [OF assms h] clock_laws_steps(3) [OF assms, of w2 500]
      Suc.prems by simp
  from Suc.IH [OF this] show ?case by (subst wait_healthy.simps) (auto simp: n h simp del: wait_healthy.simps)
qed

text \<open>
  Starting the Chatterbox server returns: whatever the health checks answer, with at least one round
  of fuel per half second of the start-up timeout, and it returns an owned server only when one was
  spawned; every server that did not become healthy was killed before the error is returned.
\<close>

theorem ensure_running_returns:
  assumes "clock_laws env clk" and "2 * cb_startup_timeout_s config < fuel"
  shows "\<exists>r w'. ensure_running env fuel config w = Some (r, w') \<and>
    (case r of
       Inr owned \<Rightarrow> owned \<longrightarrow> cb_autostart config \<and> \<not> fst (se_healthy env (cb_base_url config) w)
     | Inl e \<Rightarrow> \<not> cb_autostart config \<or> split_whitespace (cb_command config) = [] \<or>
         (\<exists>m w1. fst (se_spawn env (hd (split_whitespace (cb_command config))) (tl (split_whitespace (cb_command config))) w1) = Inl m)
         \<or> (\<exists>w1. w' = se_kill env w1))"
proof -
  obtain fuel' where f: "fuel = Suc fuel'" "2 * cb_startup_timeout_s config \<le> fuel'"
    using assms(2) by (cases fuel) auto
  have wait: "\<exists>r w'. wait_healthy env (cb_base_url config) (now + 1000 * cb_startup_timeout_s config) fuel w2 = Some (r, w')"
    if "se_now env w1 = (now, w2)" for w1 now w2
    unfolding f(1) using clock_laws_steps(1) [OF assms(1) that] f(2)
    by (intro wait_healthy_returns [OF assms(1)]) linarith
  show ?thesis
  proof (cases "se_healthy env (cb_base_url config) w")
    case (Pair healthy w1)
    show ?thesis
    proof (cases "healthy \<or> \<not> cb_autostart config \<or> split_whitespace (cb_command config) = []")
      case True
      then show ?thesis using Pair
        by (cases healthy; cases "cb_autostart config") (auto simp: ensure_running_def spawn_and_wait_def)
    next
      case False
      then obtain program args where cmd: "split_whitespace (cb_command config) = program # args"
        by (auto simp: neq_Nil_conv)
      obtain sp w2 where sp: "se_spawn env program args w1 = (sp, w2)" by (cases "se_spawn env program args w1")
      obtain job w3 where job: "se_assign_job env w2 = (job, w3)" by (cases "se_assign_job env w2")
      obtain now w4 where now: "se_now env w3 = (now, w4)" by (cases "se_now env w3")
      obtain r w5 where r: "wait_healthy env (cb_base_url config) (now + 1000 * cb_startup_timeout_s config) fuel w4 = Some (r, w5)"
        using wait [OF now] by blast
      have run: "ensure_running env fuel config w = spawn_and_wait env fuel config w1"
        using False Pair by (simp add: ensure_running_def)
      show ?thesis unfolding run spawn_and_wait_def cmd
        using False Pair sp job now r by (cases sp; cases job; cases r) (auto, (metis fst_conv)+)
    qed
  qed
qed

text \<open>A server that never answers, seen by a millisecond clock.\<close>

definition deaf_server :: "nat supervisor_env" where
  "deaf_server = \<lparr>se_now = \<lambda>w. (w, w), se_healthy = \<lambda>_ w. (False, w), se_sleep_ms = \<lambda>ms w. w + ms,
     se_spawn = \<lambda>_ _ w. (Inr (), w), se_assign_job = \<lambda>w. (None, w), se_kill = \<lambda>w. w + 1\<rparr>"

definition sample_chatterbox :: "unit chatterbox_config" where
  "sample_chatterbox = \<lparr>cb_base_url = ''http://h'', cb_voice = ''nala'', cb_reference_path = ''r.wav'', cb_language = ''es'',
     cb_exaggeration = (), cb_cfg_weight = (), cb_temperature = (), cb_timeout_s = 30, cb_read_timeout_s = 60,
     cb_streaming_strategy = ''sentence'', cb_streaming_chunk_size = 200, cb_autostart = True, cb_command = ''serve'',
     cb_startup_timeout_s = 1\<rparr>"

theorem ensure_running_returns_witness:
  "\<exists>r w'. ensure_running deaf_server 3 sample_chatterbox 0 = Some (r, w')"
  using ensure_running_returns [of deaf_server "\<lambda>w. w" sample_chatterbox 3 0]
  by (auto simp: clock_laws_def deaf_server_def sample_chatterbox_def)

section \<open>The Chatterbox stream\<close>

lemma read_exact_reads:
  assumes "[] \<notin> set chunks" and "n \<le> length (concat chunks)"
  shows "\<exists>rest. [] \<notin> set rest \<and> concat rest = drop n (concat chunks) \<and>
    read_exact n (map ReadOk chunks @ tail) = Some (Inr (take n (concat chunks)), map ReadOk rest @ tail)"
  using assms
proof (induction chunks arbitrary: n)
  case Nil
  then show ?case by (intro exI [of _ "[]"]) (cases tail; auto; cases "hd tail"; auto)
next
  case (Cons bytes chunks)
  consider "n = 0" | "n \<noteq> 0" "n < length bytes" | "n \<noteq> 0" "length bytes \<le> n" by linarith
  then show ?case
  proof cases
    case 1
    with Cons.prems show ?thesis by (intro exI [of _ "bytes # chunks"]) auto
  next
    case 2
    with Cons.prems show ?thesis by (intro exI [of _ "drop n bytes # chunks"]) auto
  next
    case 3
    then have "n - length bytes \<le> length (concat chunks)" "[] \<notin> set chunks" using Cons.prems by auto
    from Cons.IH [OF this(2,1)] obtain rest where "[] \<notin> set rest" "concat rest = drop (n - length bytes) (concat chunks)"
      "read_exact (n - length bytes) (map ReadOk chunks @ tail) =
        Some (Inr (take (n - length bytes) (concat chunks)), map ReadOk rest @ tail)" by blast
    with 3 Cons.prems show ?thesis by (intro exI [of _ rest]) auto
  qed
qed

text \<open>
  C36. A Chatterbox answer is decoded the same however the connection splits it: the first 44 bytes are
  the header, whose rate and channel count the stream has, and its samples are the little-endian
  pairs of all the bytes after them, in order, with an error exactly when there is none.
\<close>

theorem chatterbox_stream_ignores_read_boundaries:
  assumes "\<forall>n. \<not> gone n" and "[] \<notin> set chunks" and "44 \<le> length (concat chunks)"
    and "parse_wav_header (take 44 (concat chunks)) = Inr h"
    and "post (cb_base_url config @ ''/v1/audio/speech/stream'') (stream_request_of config phrase) =
      Inr \<lparr>hr_status = 200, hr_status_text = st, hr_body_text = b, hr_body = map ReadOk chunks @ [ReadOk []]\<rparr>"
  shows "\<exists>blocks. concat blocks = fst (bytes_to_samples (drop 44 (concat chunks)) None) \<and>
    chatterbox_synthesize post gone config phrase =
      Some (Inr \<lparr>pcm_rate = unat (wh_rate h), pcm_channels = unat (wh_channels h),
        pcm_chunks = map Inr blocks @ (if blocks = []
          then [Inl (SpeechSynthesis ''Chatterbox returned an empty audio stream'')] else [])\<rparr>)"
proof -
  obtain rest where rest: "[] \<notin> set rest" "concat rest = drop 44 (concat chunks)"
    "read_exact 44 (map ReadOk chunks @ [ReadOk []]) = Some (Inr (take 44 (concat chunks)), map ReadOk rest @ [ReadOk []])"
    using read_exact_reads [OF assms(2,3)] by blast
  have "gone = (\<lambda>_. False)" using assms(1) by auto
  then obtain blocks where "concat blocks = fst (bytes_to_samples (concat rest) None)"
    "stream_pcm_from ''Chatterbox'' gone (map ReadOk rest @ [ReadOk []]) =
      (map Inr blocks @ (if blocks \<noteq> [] then []
         else [Inl (SpeechSynthesis (''Chatterbox'' @ '' returned an empty audio stream''))]), True)"
    using stream_pcm_loop_chunks [OF rest(1), of None "''Chatterbox''" "[]" False "[]"] by (auto simp: stream_pcm_from_def)
  with rest assms(4,5) show ?thesis by (intro exI [of _ blocks]) (simp add: chatterbox_synthesize_def)
qed

definition sample_header :: "u8 list" where
  "sample_header = byte_string ''RIFF'' @ [0, 0, 0, 0] @ byte_string ''WAVEfmt '' @
     [16, 0, 0, 0, 1, 0, 1, 0, 0xC0, 0x5D, 0, 0, 0x80, 0xBB, 0, 0, 2, 0, 16, 0] @ byte_string ''data'' @ [0, 0, 0, 0]"

lemma sample_header_parses: "length sample_header = 44 \<and> parse_wav_header sample_header = Inr \<lparr>wh_rate = 24000, wh_channels = 1\<rparr>"
  by (simp add: sample_header_def parse_wav_header_def byte_string_def byte_of_def u16_le_def u32_le_def)

theorem chatterbox_stream_ignores_read_boundaries_witness:
  "\<exists>blocks. concat blocks = [i16_from_le_bytes 1 2] \<and>
    chatterbox_synthesize (\<lambda>_ _. Inr \<lparr>hr_status = 200, hr_status_text = ''200 OK'', hr_body_text = None,
        hr_body = map ReadOk [take 10 sample_header, drop 10 sample_header @ [1], [2]] @ [ReadOk []]\<rparr>) (\<lambda>_. False)
      sample_chatterbox ''hola'' =
    Some (Inr \<lparr>pcm_rate = 24000, pcm_channels = 1, pcm_chunks = map Inr blocks @ (if blocks = []
        then [Inl (SpeechSynthesis ''Chatterbox returned an empty audio stream'')] else [])\<rparr>)"
proof -
  have c: "concat [take 10 sample_header, drop 10 sample_header @ [1], [2]] = sample_header @ [1, 2]"
    by (simp only: concat.simps append_Nil2 append_assoc [symmetric] append_take_drop_id) simp
  have "[] \<notin> set [take 10 sample_header, drop 10 sample_header @ [1], [2]]"
    using sample_header_parses by (auto simp: sample_header_def byte_string_def)
  then obtain blocks where "concat blocks = fst (bytes_to_samples (drop 44 (sample_header @ [1, 2])) None)"
    "chatterbox_synthesize (\<lambda>_ _. Inr \<lparr>hr_status = 200, hr_status_text = ''200 OK'', hr_body_text = None,
        hr_body = map ReadOk [take 10 sample_header, drop 10 sample_header @ [1], [2]] @ [ReadOk []]\<rparr>) (\<lambda>_. False)
      sample_chatterbox ''hola'' =
    Some (Inr \<lparr>pcm_rate = unat (24000 :: u32), pcm_channels = unat (1 :: u16), pcm_chunks = map Inr blocks @ (if blocks = []
        then [Inl (SpeechSynthesis ''Chatterbox returned an empty audio stream'')] else [])\<rparr>)"
    using chatterbox_stream_ignores_read_boundaries [of "\<lambda>_. False"
        "[take 10 sample_header, drop 10 sample_header @ [1], [2]]" "\<lparr>wh_rate = 24000, wh_channels = 1\<rparr>"
        "\<lambda>_ _. Inr \<lparr>hr_status = 200, hr_status_text = ''200 OK'', hr_body_text = None,
           hr_body = map ReadOk [take 10 sample_header, drop 10 sample_header @ [1], [2]] @ [ReadOk []]\<rparr>"
        sample_chatterbox "''hola''" "''200 OK''" None, unfolded c] sample_header_parses
    by auto
  moreover have "drop 44 (sample_header @ [1, 2]) = [1, 2]" using sample_header_parses by simp
  ultimately show ?thesis by (intro exI [of _ blocks]) simp
qed

end
