(* ===== verification/Speech_Start.thy ===== *)
theory Speech_Start
  imports Tts
begin

text \<open>
  Building a speech backend (\<open>crates/tts/src/backend.rs\<close>) with the server process it may start: the
  settings read from the environment, the start of the Chatterbox server (\<open>Tts.ensure_running\<close>), the
  audio player, and what is dropped on the way out of a failure. A player is opened by an operation on
  the world.
\<close>

section \<open>Construction\<close>

text \<open>
  The two builders. A supervisor is whether a server is owned; one that goes out of scope is dropped.
  The configurations are the results of reading the environment, \<open>None\<close> is the end of the fuel.
\<close>

definition build_chatterbox ::
  "'w supervisor_env \<Rightarrow> nat \<Rightarrow> speech_error + 'f chatterbox_config \<Rightarrow> ('w \<Rightarrow> (speech_error + unit) \<times> 'w) \<Rightarrow> 'w \<Rightarrow>
     ((speech_error + bool) \<times> 'w) option" where
  "build_chatterbox env fuel config player w =
     (case config of
        Inl e \<Rightarrow> Some (Inl e, w)
      | Inr c \<Rightarrow>
          (case ensure_running env fuel c w of
             None \<Rightarrow> None
           | Some (Inl e, w) \<Rightarrow> Some (Inl e, w)
           | Some (Inr owned, w) \<Rightarrow>
               (case player w of
                  (Inl e, w) \<Rightarrow> Some (Inl e, supervisor_drop env owned w)
                | (Inr _, w) \<Rightarrow> Some (Inr owned, w))))"

definition build_piper ::
  "speech_error + 'f piper_config \<Rightarrow> ('w \<Rightarrow> (speech_error + unit) \<times> 'w) \<Rightarrow> 'w \<Rightarrow> (speech_error + unit) \<times> 'w" where
  "build_piper config player w = (case config of Inl e \<Rightarrow> (Inl e, w) | Inr c \<Rightarrow> player w)"

text \<open>\<open>speech_backend\<close>: only the selected backend is built; the choice is \<open>select_backend\<close>.\<close>

definition speech_backend_start ::
  "'w supervisor_env \<Rightarrow> nat \<Rightarrow> string option \<Rightarrow> speech_error + 'f chatterbox_config \<Rightarrow> speech_error + 'f piper_config \<Rightarrow>
     ('w \<Rightarrow> (speech_error + unit) \<times> 'w) \<Rightarrow> 'w \<Rightarrow> ((speech_backend \<times> bool option) \<times> 'w) option" where
  "speech_backend_start env fuel var cb pp player w =
     (if var = Some ''off'' then Some ((NullSpeech, None), w)
      else if var = Some ''sapi'' then Some ((WindowsSapi, None), w)
      else if var = Some ''chatterbox''
      then (case build_chatterbox env fuel cb player w of
              None \<Rightarrow> None
            | Some (Inr supervisor, w) \<Rightarrow> Some ((Chatterbox, Some supervisor), w)
            | Some (Inl e, w) \<Rightarrow> Some ((WindowsSapi, None), w))
      else (case build_piper pp player w of
              (Inr _, w) \<Rightarrow> Some ((Piper, None), w)
            | (Inl e, w) \<Rightarrow> Some ((WindowsSapi, None), w)))"

text \<open>\<open>stream_synthesizer\<close>: without a player, and a failure is the caller's.\<close>

definition stream_synthesizer ::
  "'w supervisor_env \<Rightarrow> nat \<Rightarrow> string option \<Rightarrow> speech_error + 'f chatterbox_config \<Rightarrow> speech_error + 'f piper_config \<Rightarrow> 'w \<Rightarrow>
     ((speech_error + speech_backend \<times> bool option) \<times> 'w) option" where
  "stream_synthesizer env fuel var cb pp w =
     (if var = Some ''chatterbox''
      then (case cb of
              Inl e \<Rightarrow> Some (Inl e, w)
            | Inr c \<Rightarrow> map_option (\<lambda>(r, w). (map_sum id (\<lambda>owned. (Chatterbox, Some owned)) r, w)) (ensure_running env fuel c w))
      else Some (map_sum id (\<lambda>_. (Piper, None)) pp, w))"

text \<open>What is chosen is what \<open>select_backend\<close> chooses of the builders' results.\<close>

lemma speech_backend_start_selects:
  assumes "speech_backend_start env fuel var cb pp player w = Some (chosen, w')"
  shows "\<exists>r s. chosen = select_backend var r s"
  using assms
  by (force simp: speech_backend_start_def select_backend_def split: if_splits option.splits sum.splits prod.splits)

section \<open>No server is left behind\<close>

text \<open>
  \<open>alive\<close> says that the server this process started is running: only starting makes it so, and a kill
  ends it.
\<close>

definition owner_laws :: "'w supervisor_env \<Rightarrow> ('w \<Rightarrow> bool) \<Rightarrow> bool" where
  "owner_laws env alive \<longleftrightarrow>
     (\<forall>w. alive (snd (se_now env w)) \<longrightarrow> alive w) \<and>
     (\<forall>url w. alive (snd (se_healthy env url w)) \<longrightarrow> alive w) \<and>
     (\<forall>ms w. alive (se_sleep_ms env ms w) \<longrightarrow> alive w) \<and>
     (\<forall>p args w e w'. se_spawn env p args w = (Inl e, w') \<and> alive w' \<longrightarrow> alive w) \<and>
     (\<forall>w. \<not> alive (se_kill env w))"

lemma wait_healthy_alive:
  assumes "owner_laws env alive"
  shows "wait_healthy env url deadline fuel w = Some (r, w') \<Longrightarrow> alive w' \<Longrightarrow> alive w"
proof (induction fuel arbitrary: w)
  case (Suc fuel)
  obtain now w1 where n: "se_now env w = (now, w1)" by (cases "se_now env w")
  obtain healthy w2 where h: "se_healthy env url w1 = (healthy, w2)" by (cases "se_healthy env url w1")
  have steps: "alive w1 \<Longrightarrow> alive w" "alive w2 \<Longrightarrow> alive w1" "alive (se_sleep_ms env 500 w2) \<Longrightarrow> alive w2"
    using assms n h unfolding owner_laws_def by (metis snd_conv)+
  from Suc.prems n h show ?case
    using Suc.IH [of "se_sleep_ms env 500 w2"] steps by (auto split: if_splits)
qed simp

lemma ensure_running_alive:
  assumes laws: "owner_laws env alive" and "\<not> alive w" and run: "ensure_running env fuel config w = Some (r, w')"
    and alive: "alive w'"
  shows "r = Inr True"
proof -
  obtain healthy w1 where h: "se_healthy env (cb_base_url config) w = (healthy, w1)" by (cases "se_healthy env (cb_base_url config) w")
  have w1: "\<not> alive w1" using assms(2) laws h unfolding owner_laws_def by (metis snd_conv)
  have killed: "\<not> alive (se_kill env w)" for w using laws by (simp add: owner_laws_def)
  from run h alive w1 have spawn: "spawn_and_wait env fuel config w1 = Some (r, w')"
    by (auto simp: ensure_running_def split: if_splits start_decision.splits)
  from spawn alive w1 obtain program args where cmd: "split_whitespace (cb_command config) = program # args"
    by (cases "split_whitespace (cb_command config)") (auto simp: spawn_and_wait_def)
  obtain sp w2 where sp: "se_spawn env program args w1 = (sp, w2)" by (cases "se_spawn env program args w1")
  obtain job w3 where job: "se_assign_job env w2 = (job, w3)" by (cases "se_assign_job env w2")
  obtain now w4 where now: "se_now env w3 = (now, w4)" by (cases "se_now env w3")
  have "\<not> alive w2" if "sp = Inl e" for e
    using laws sp w1 that unfolding owner_laws_def by blast
  moreover have "w' = w2" if "sp = Inl e" for e
    using spawn sp that by (simp add: spawn_and_wait_def cmd)
  ultimately have "sp \<noteq> Inl e" for e using alive by blast
  then obtain u where u: "sp = Inr u" by (cases sp) auto
  with spawn cmd sp job now killed alive have "job = None" by (cases job) (auto simp: spawn_and_wait_def)
  with spawn cmd sp u job now obtain healthy w5 where
    "wait_healthy env (cb_base_url config) (now + 1000 * cb_startup_timeout_s config) fuel w4 = Some (healthy, w5)"
    "(r, w') = (if healthy then (Inr True, w5)
       else (Inl (SpeechUnavailable (''Chatterbox server did not become healthy within '' @
               show_nat (cb_startup_timeout_s config) @ ''s'')), se_kill env w5))"
    by (auto simp: spawn_and_wait_def)
  with killed alive show ?thesis by (auto split: if_splits)
qed

lemma build_chatterbox_alive:
  assumes laws: "owner_laws env alive" and player: "\<And>w. alive (snd (player w)) \<Longrightarrow> alive w" and "\<not> alive w"
    and run: "build_chatterbox env fuel config player w = Some (r, w')" and alive: "alive w'"
  shows "r = Inr True"
proof -
  from run alive assms(3) obtain c r1 w1 where c: "config = Inr c" "ensure_running env fuel c w = Some (r1, w1)"
    by (auto simp: build_chatterbox_def split: sum.splits option.splits)
  note owned = ensure_running_alive [OF laws assms(3) c(2)]
  have killed: "\<not> alive (se_kill env w)" for w using laws by (simp add: owner_laws_def)
  show ?thesis
  proof (cases r1)
    case (Inl e)
    with run c owned alive show ?thesis by (auto simp: build_chatterbox_def)
  next
    case (Inr b)
    obtain p w2 where p: "player w1 = (p, w2)" by (cases "player w1")
    with player [of w1] have "alive w2 \<Longrightarrow> alive w1" by simp
    with run c Inr p owned alive killed show ?thesis
      by (cases p; cases b) (auto simp: build_chatterbox_def supervisor_drop_def)
  qed
qed

text \<open>
  C35. Starting the speech always ends with a voice and leaves no process behind: whatever is configured,
  installed, reachable or broken, with fuel for the start-up timeout it returns a backend, the mute one
  only when it was asked for; a server that it started and that still runs is owned by the supervisor it
  returns, so dropping that ends it, also when the player or the health check failed on the way.
\<close>

theorem speech_backend_starts:
  assumes "clock_laws env clk" and "owner_laws env alive" and "\<And>w. alive (snd (player w)) \<Longrightarrow> alive w"
    and "\<And>c. cb = Inr c \<Longrightarrow> 2 * cb_startup_timeout_s c < fuel" and "\<not> alive w"
  shows "\<exists>b supervisor w'. speech_backend_start env fuel var cb pp player w = Some ((b, supervisor), w') \<and>
    (b = NullSpeech \<longleftrightarrow> var = Some ''off'') \<and> (supervisor \<noteq> None \<longrightarrow> b = Chatterbox) \<and>
    (alive w' \<longrightarrow> supervisor = Some True) \<and>
    \<not> alive (case supervisor of None \<Rightarrow> w' | Some owned \<Rightarrow> supervisor_drop env owned w')"
proof (cases "var = Some ''chatterbox''")
  case True
  have "\<exists>r w'. build_chatterbox env fuel cb player w = Some (r, w')"
  proof (cases cb)
    case (Inr c)
    from ensure_running_returns [OF assms(1) assms(4) [OF Inr]] obtain r w1 where "ensure_running env fuel c w = Some (r, w1)"
      by blast
    with Inr show ?thesis by (cases r; cases "player w1") (auto simp: build_chatterbox_def split: sum.split)
  qed (simp add: build_chatterbox_def)
  then obtain r w' where b: "build_chatterbox env fuel cb player w = Some (r, w')" by blast
  have "\<not> alive (se_kill env w')" using assms(2) by (simp add: owner_laws_def)
  with build_chatterbox_alive [OF assms(2,3,5) b] b True show ?thesis
    by (cases r) (auto simp: speech_backend_start_def supervisor_drop_def)
next
  case False
  have "\<not> alive (snd (build_piper pp player w))"
    using assms(3,5) by (auto simp: build_piper_def split: sum.split)
  with False assms(5) show ?thesis
    by (cases "build_piper pp player w"; cases "fst (build_piper pp player w)") (auto simp: speech_backend_start_def)
qed

text \<open>
  A server that starts but never answers, with a microphone-like player that fails: the world is the
  clock and whether the server runs.
\<close>

definition stuck_server :: "(nat \<times> bool) supervisor_env" where
  "stuck_server = \<lparr>se_now = \<lambda>w. (fst w, w), se_healthy = \<lambda>_ w. (False, w), se_sleep_ms = \<lambda>ms (t, b). (t + ms, b),
     se_spawn = \<lambda>_ _ (t, b). (Inr (), (t, True)), se_assign_job = \<lambda>w. (None, w), se_kill = \<lambda>(t, b). (t, False)\<rparr>"

theorem speech_backend_starts_witness:
  "\<exists>b supervisor w'. speech_backend_start stuck_server 3 (Some ''chatterbox'') (Inr sample_chatterbox)
     (Inl (SpeechConfiguration [])) (\<lambda>w. (Inl (SpeechUnavailable []), w)) (0, False) = Some ((b, supervisor), w') \<and>
   b \<noteq> NullSpeech \<and> (supervisor = None \<longrightarrow> \<not> snd w')"
proof -
  have "clock_laws stuck_server fst" and "owner_laws stuck_server snd"
    by (auto simp: clock_laws_def owner_laws_def stuck_server_def)
  from speech_backend_starts [OF this, of "\<lambda>w. (Inl (SpeechUnavailable []), w)" "Inr sample_chatterbox" 3 "(0, False)"
      "Some ''chatterbox''" "Inl (SpeechConfiguration [])"]
  show ?thesis by (auto simp: sample_chatterbox_def)
qed

end
