(* ===== verification/Speech_Queue.thy ===== *)
theory Speech_Queue
  imports Rust_Text
begin

text \<open>
  The non-blocking speech queue of \<open>crates/tts/src/async_speech.rs\<close>: any number of callers enqueue
  phrases on a channel that one worker thread speaks. Each caller and the worker is a state
  machine whose steps interleave, at the granularity of the atomic operations on \<open>pending\<close> and of
  the channel; the worker dies when its backend panics, which drops the channel. \<open>sq_sent\<close> and
  \<open>sq_spoken\<close> record the history: what was accepted by the channel, and what the backend finished.
\<close>

section \<open>State\<close>

definition MAX_QUEUED_NARRATION :: nat where "MAX_QUEUED_NARRATION = 2"

text \<open>A flush carries the number of phrases sent before it.\<close>

datatype queue_message = Speak string | Flush nat nat

datatype caller_phase = Checking | Counting | Sending | Undoing | Returned bool

record speech_caller =
  call_text :: string
  call_narration :: bool
  call_phase :: caller_phase

datatype worker = WorkerReady | Speaking string | Said | WorkerDead

record speech_queue =
  sq_pending :: nat
  sq_channel :: "queue_message list"
  sq_worker :: worker
  sq_callers :: "speech_caller list"
  sq_sent :: "string list"
  sq_spoken :: "string list"
  sq_lost :: nat
  sq_acked :: "(nat \<times> nat) list"

definition async_speech_new :: speech_queue where
  "async_speech_new = \<lparr>sq_pending = 0, sq_channel = [], sq_worker = WorkerReady, sq_callers = [], sq_sent = [],
     sq_spoken = [], sq_lost = 0, sq_acked = []\<rparr>"

definition is_speaking :: "speech_queue \<Rightarrow> bool" where
  "is_speaking s \<longleftrightarrow> 0 < sq_pending s"

section \<open>Steps\<close>

datatype speech_label =
    CallNarration string
  | CallSay string
  | Check nat
  | Increment nat
  | Send nat
  | Undo nat
  | CallFlush nat
  | WorkerTake
  | WorkerSaid
  | WorkerCount
  | WorkerPanic

definition set_caller :: "nat \<Rightarrow> caller_phase \<Rightarrow> speech_queue \<Rightarrow> speech_queue" where
  "set_caller c ph s = s\<lparr>sq_callers := (sq_callers s)[c := (sq_callers s ! c)\<lparr>call_phase := ph\<rparr>]\<rparr>"

definition caller_in :: "speech_queue \<Rightarrow> nat \<Rightarrow> caller_phase \<Rightarrow> bool" where
  "caller_in s c ph \<longleftrightarrow> c < length (sq_callers s) \<and> call_phase (sq_callers s ! c) = ph"

definition enter :: "bool \<Rightarrow> string \<Rightarrow> speech_queue \<Rightarrow> speech_queue" where
  "enter narration t s = s\<lparr>sq_callers := sq_callers s @
     [\<lparr>call_text = t, call_narration = narration, call_phase = (if narration then Checking else Counting)\<rparr>]\<rparr>"

text \<open>The load and comparison of \<open>say_narration\<close>.\<close>

definition check_backlog :: "nat \<Rightarrow> speech_queue \<Rightarrow> speech_queue" where
  "check_backlog c s =
     set_caller c (if MAX_QUEUED_NARRATION \<le> sq_pending s then Returned False else Counting) s"

definition count_phrase :: "nat \<Rightarrow> speech_queue \<Rightarrow> speech_queue" where
  "count_phrase c s = set_caller c Sending (s\<lparr>sq_pending := sq_pending s + 1\<rparr>)"

definition send_phrase :: "nat \<Rightarrow> speech_queue \<Rightarrow> speech_queue" where
  "send_phrase c s =
     (if sq_worker s = WorkerDead then set_caller c Undoing s
      else let t = call_text (sq_callers s ! c)
           in set_caller c (Returned True) (s\<lparr>sq_channel := sq_channel s @ [Speak t], sq_sent := sq_sent s @ [t]\<rparr>))"

definition undo_count :: "nat \<Rightarrow> speech_queue \<Rightarrow> speech_queue" where
  "undo_count c s = set_caller c (Returned False) (s\<lparr>sq_pending := sq_pending s - 1\<rparr>)"

definition send_flush :: "nat \<Rightarrow> speech_queue \<Rightarrow> speech_queue" where
  "send_flush i s =
     (if sq_worker s = WorkerDead then s
      else s\<lparr>sq_channel := sq_channel s @ [Flush i (length (sq_sent s))]\<rparr>)"

fun speech_worker_take :: "speech_queue \<Rightarrow> speech_queue" where
  "speech_worker_take s =
     (case sq_channel s of
        [] \<Rightarrow> s
      | Speak t # rest \<Rightarrow> s\<lparr>sq_channel := rest, sq_worker := Speaking t\<rparr>
      | Flush i n # rest \<Rightarrow> s\<lparr>sq_channel := rest, sq_acked := sq_acked s @ [(i, n)]\<rparr>)"

definition speaks :: "queue_message list \<Rightarrow> string list" where
  "speaks ms = concat (map (\<lambda>m. case m of Speak t \<Rightarrow> [t] | Flush i n \<Rightarrow> []) ms)"

text \<open>
  A panic ends the worker with what the channel still holds. The callers of \<open>flush\<close> that wait then
  return as well, since their acknowledgement is gone; they are not among \<open>sq_acked\<close>.
\<close>

definition worker_panic :: "speech_queue \<Rightarrow> speech_queue" where
  "worker_panic s = s\<lparr>sq_worker := WorkerDead, sq_channel := [],
     sq_lost := sq_lost s + 1 + length (speaks (sq_channel s))\<rparr>"

inductive speech_step :: "speech_queue \<Rightarrow> speech_label \<Rightarrow> speech_queue \<Rightarrow> bool" where
  step_narration: "speech_step s (CallNarration t) (enter True t s)"
| step_say: "speech_step s (CallSay t) (enter False t s)"
| step_check: "caller_in s c Checking \<Longrightarrow> speech_step s (Check c) (check_backlog c s)"
| step_count: "caller_in s c Counting \<Longrightarrow> speech_step s (Increment c) (count_phrase c s)"
| step_send: "caller_in s c Sending \<Longrightarrow> speech_step s (Send c) (send_phrase c s)"
| step_undo: "caller_in s c Undoing \<Longrightarrow> speech_step s (Undo c) (undo_count c s)"
| step_flush: "speech_step s (CallFlush i) (send_flush i s)"
| step_take: "sq_worker s = WorkerReady \<Longrightarrow> sq_channel s \<noteq> [] \<Longrightarrow> speech_step s WorkerTake (speech_worker_take s)"
| step_said: "sq_worker s = Speaking t \<Longrightarrow>
    speech_step s WorkerSaid (s\<lparr>sq_worker := Said, sq_spoken := sq_spoken s @ [t]\<rparr>)"
| step_count_down: "sq_worker s = Said \<Longrightarrow>
    speech_step s WorkerCount (s\<lparr>sq_worker := WorkerReady, sq_pending := sq_pending s - 1\<rparr>)"
| step_panic: "sq_worker s = Speaking t \<Longrightarrow> speech_step s WorkerPanic (worker_panic s)"

code_pred speech_step .

inductive speech_run :: "speech_queue \<Rightarrow> bool" where
  run_start: "speech_run async_speech_new"
| run_step: "speech_run s \<Longrightarrow> speech_step s l s' \<Longrightarrow> speech_run s'"

section \<open>The invariant\<close>

definition counted :: "speech_caller \<Rightarrow> bool" where
  "counted k \<longleftrightarrow> call_phase k = Sending \<or> call_phase k = Undoing"

definition busy :: "worker \<Rightarrow> nat" where
  "busy w = (case w of Speaking t \<Rightarrow> 1 | Said \<Rightarrow> 1 | _ \<Rightarrow> 0)"

definition current_phrase :: "worker \<Rightarrow> string list" where
  "current_phrase w = (case w of Speaking t \<Rightarrow> [t] | _ \<Rightarrow> [])"

fun flushes_ok :: "nat \<Rightarrow> queue_message list \<Rightarrow> bool" where
  "flushes_ok k [] = True"
| "flushes_ok k (Speak t # ms) = flushes_ok (Suc k) ms"
| "flushes_ok k (Flush i n # ms) = (n = k \<and> flushes_ok k ms)"

definition speech_inv :: "speech_queue \<Rightarrow> bool" where
  "speech_inv s \<longleftrightarrow>
     sq_pending s = length (filter counted (sq_callers s)) + length (speaks (sq_channel s)) + busy (sq_worker s) + sq_lost s \<and>
     (sq_worker s \<noteq> WorkerDead \<longrightarrow> sq_spoken s @ current_phrase (sq_worker s) @ speaks (sq_channel s) = sq_sent s) \<and>
     (sq_worker s = WorkerDead \<longrightarrow> sq_channel s = [] \<and> 0 < sq_lost s) \<and>
     flushes_ok (length (sq_spoken s @ current_phrase (sq_worker s))) (sq_channel s) \<and>
     (\<forall>(i, n) \<in> set (sq_acked s). n \<le> length (sq_spoken s))"

lemma speaks_simps [simp]:
  "speaks [] = []" "speaks (Speak t # ms) = t # speaks ms" "speaks (Flush i n # ms) = speaks ms"
  "speaks (ms @ ms') = speaks ms @ speaks ms'"
  by (simp_all add: speaks_def)

lemma flushes_ok_append:
  "flushes_ok k (ms @ ms') \<longleftrightarrow> flushes_ok k ms \<and> flushes_ok (k + length (speaks ms)) ms'"
  by (induction k ms rule: flushes_ok.induct) auto

lemma counted_update:
  assumes "c < length ks"
  shows "length (filter P (ks[c := k])) + (if P (ks ! c) then 1 else 0) = length (filter P ks) + (if P k then 1 else 0)"
  using assms
proof (induction ks arbitrary: c)
  case (Cons x xs)
  then show ?case by (cases c) auto
qed simp

lemma set_caller_sel [simp]:
  "sq_pending (set_caller c ph s) = sq_pending s" "sq_channel (set_caller c ph s) = sq_channel s"
  "sq_worker (set_caller c ph s) = sq_worker s" "sq_sent (set_caller c ph s) = sq_sent s"
  "sq_spoken (set_caller c ph s) = sq_spoken s" "sq_lost (set_caller c ph s) = sq_lost s"
  "sq_acked (set_caller c ph s) = sq_acked s"
  by (simp_all add: set_caller_def)

lemma counted_set_caller:
  "caller_in s c old \<Longrightarrow> length (filter counted (sq_callers (set_caller c ph s))) + (if old = Sending \<or> old = Undoing then 1 else 0) =
    length (filter counted (sq_callers s)) + (if ph = Sending \<or> ph = Undoing then 1 else 0)"
  using counted_update [of c "sq_callers s" counted "(sq_callers s ! c)\<lparr>call_phase := ph\<rparr>"]
  by (simp add: caller_in_def set_caller_def counted_def)

lemma caller_in_cong: "sq_callers s = sq_callers s' \<Longrightarrow> caller_in s c ph = caller_in s' c ph"
  by (simp add: caller_in_def)

lemma speech_inv_set_caller:
  assumes "speech_inv s" and "caller_in s c old"
    and "(old = Sending \<or> old = Undoing) = (ph = Sending \<or> ph = Undoing)"
  shows "speech_inv (set_caller c ph s)"
  using assms counted_set_caller [OF assms(2), of ph] by (simp add: speech_inv_def split: if_splits)

lemma speech_inv_step:
  assumes "speech_step s l s'" and inv: "speech_inv s"
  shows "speech_inv s'"
  using assms(1)
proof (cases rule: speech_step.cases)
  case (step_narration t)
  then show ?thesis using inv by (simp add: speech_inv_def enter_def counted_def)
next
  case (step_say t)
  then show ?thesis using inv by (simp add: speech_inv_def enter_def counted_def)
next
  case (step_check c)
  then show ?thesis using inv by (auto simp: check_backlog_def intro: speech_inv_set_caller)
next
  case (step_count c)
  have "caller_in (s\<lparr>sq_pending := sq_pending s + 1\<rparr>) c Counting" using step_count by (simp add: caller_in_def)
  from counted_set_caller [OF this, of Sending] show ?thesis
    unfolding step_count count_phrase_def using inv by (simp add: speech_inv_def)
next
  case (step_send c)
  show ?thesis
  proof (cases "sq_worker s = WorkerDead")
    case True
    with step_send inv show ?thesis by (auto simp: send_phrase_def intro: speech_inv_set_caller)
  next
    case False
    let ?t = "call_text (sq_callers s ! c)"
    let ?s = "s\<lparr>sq_channel := sq_channel s @ [Speak ?t], sq_sent := sq_sent s @ [?t]\<rparr>"
    have "caller_in ?s c Sending" using step_send by (simp add: caller_in_def)
    from counted_set_caller [OF this, of "Returned True"] show ?thesis
      unfolding step_send send_phrase_def using inv False by (simp add: speech_inv_def Let_def flushes_ok_append)
  qed
next
  case (step_undo c)
  have "caller_in (s\<lparr>sq_pending := sq_pending s - 1\<rparr>) c Undoing" using step_undo by (simp add: caller_in_def)
  from counted_set_caller [OF this, of "Returned False"] show ?thesis
    unfolding step_undo undo_count_def using inv by (simp add: speech_inv_def)
next
  case (step_flush i)
  have "length (sq_sent s) = length (sq_spoken s @ current_phrase (sq_worker s)) + length (speaks (sq_channel s))"
    if "sq_worker s \<noteq> WorkerDead"
    using inv that by (simp add: speech_inv_def) (metis length_append add.assoc)
  then show ?thesis
    unfolding step_flush send_flush_def using inv by (auto simp: speech_inv_def flushes_ok_append)
next
  case step_take
  then obtain m rest where "sq_channel s = m # rest" by (cases "sq_channel s") auto
  with step_take inv show ?thesis
    by (cases m) (auto simp: speech_inv_def busy_def current_phrase_def)
next
  case (step_said t)
  then show ?thesis using inv by (auto simp: speech_inv_def busy_def current_phrase_def)
next
  case step_count_down
  then show ?thesis using inv by (auto simp: speech_inv_def busy_def current_phrase_def)
next
  case (step_panic t)
  then show ?thesis using inv by (auto simp: speech_inv_def busy_def current_phrase_def worker_panic_def)
qed

lemma speech_run_inv: "speech_run s \<Longrightarrow> speech_inv s"
proof (induction rule: speech_run.induct)
  case run_start
  show ?case by (simp add: speech_inv_def async_speech_new_def busy_def current_phrase_def)
qed (rule speech_inv_step)

text \<open>
  C16. The speech queue keeps its promises under every interleaving of its callers and its worker: when
  \<open>is_speaking\<close> is false, nothing is being spoken or waits on the channel; phrases are spoken one at a
  time in exactly the order they were sent, none lost while the worker lives; and a flush returns
  only after everything sent before it was spoken.
\<close>

theorem speech_queue_promises:
  assumes "speech_run s"
  shows "(is_speaking s \<or> current_phrase (sq_worker s) = [] \<and> speaks (sq_channel s) = []) \<and>
    (sq_worker s = WorkerDead \<or> sq_spoken s @ current_phrase (sq_worker s) @ speaks (sq_channel s) = sq_sent s) \<and>
    list_all (\<lambda>(i, n). n \<le> length (sq_spoken s)) (sq_acked s)"
  using speech_run_inv [OF assms]
  by (auto simp: speech_inv_def is_speaking_def current_phrase_def busy_def list_all_iff split: worker.splits)

text \<open>Once the worker has panicked the queue reports speaking for ever, so the microphone it gates stays shut.\<close>

lemma dead_worker_speaks_forever:
  assumes "speech_run s" and "sq_worker s = WorkerDead"
  shows "is_speaking s"
  using speech_run_inv [OF assms(1)] assms(2) by (simp add: speech_inv_def is_speaking_def)

theorem speech_queue_promises_witness:
  "is_speaking (send_phrase 0 (count_phrase 0 (enter False ''uno'' async_speech_new))) \<and>
   sq_sent (send_phrase 0 (count_phrase 0 (enter False ''uno'' async_speech_new))) = [''uno'']"
proof -
  let ?s1 = "enter False ''uno'' async_speech_new"
  have 1: "speech_run ?s1" by (rule run_step [OF run_start step_say])
  have 2: "speech_run (count_phrase 0 ?s1)"
    by (rule run_step [OF 1 step_count]) (simp add: caller_in_def enter_def async_speech_new_def)
  have 3: "speech_run (send_phrase 0 (count_phrase 0 ?s1))"
    by (rule run_step [OF 2 step_send]) (simp add: caller_in_def enter_def async_speech_new_def count_phrase_def set_caller_def)
  from speech_queue_promises [OF 3] show ?thesis
    by (simp add: send_phrase_def count_phrase_def enter_def async_speech_new_def set_caller_def Let_def)
qed

end
