(* ===== verification/Ollama.thy ===== *)
theory Ollama
  imports Agent
begin

text \<open>
  The model adapter (\<open>apps/nala/src/adapters/llm/ollama.rs\<close>): the request to Ollama's chat
  endpoint, the reading of its answer and the conversion of both. JSON values are a type \<open>'v\<close> with
  the operations of \<open>ollama_codec\<close>; the HTTP client is the function \<open>post\<close>, which gives the status
  with its printed form and the body, or the error of reading it.
\<close>

section \<open>Translation\<close>

record 'v function_call =
  fc_name :: string
  fc_arguments :: 'v

record 'v ollama_message =
  om_role :: string
  om_content :: string
  om_tool_calls :: "'v function_call list option"
  om_tool_name :: "string option"
  om_images :: "string list"

record 'v chat_tool =
  ct_type :: string
  ct_function :: "'v tool_definition"

record 'v chat_request =
  cr_model :: string
  cr_messages :: "'v ollama_message list"
  cr_tools :: "'v chat_tool list"
  cr_stream :: bool
  cr_think :: bool
  cr_num_ctx :: u32

record 'v chat_response =
  ch_content :: string
  ch_tool_calls :: "'v function_call list option"
  ch_prompt_eval_count :: "u32 option"
  ch_eval_count :: "u32 option"

record 'v ollama_codec =
  json_of_text :: "string \<Rightarrow> 'v option"
  text_of_json :: "'v \<Rightarrow> string"
  empty_json :: 'v
  decode_chat :: "string \<Rightarrow> string + 'v chat_response"

record ollama_llm =
  ol_base_url :: string
  ol_model :: string
  ol_num_ctx :: u32

definition DEFAULT_NUM_CTX :: u32 where "DEFAULT_NUM_CTX = 8192"

definition ollama_new :: "(string \<Rightarrow> string option) \<Rightarrow> string \<Rightarrow> string \<Rightarrow> ollama_llm" where
  "ollama_new env url m =
     \<lparr>ol_base_url = url, ol_model = m,
      ol_num_ctx = (case Option.bind (env ''NALA_OLLAMA_NUM_CTX'') (parse_unsigned 32) of
                      Some n \<Rightarrow> of_nat n | None \<Rightarrow> DEFAULT_NUM_CTX)\<rparr>"

definition wire_tool_call :: "'v ollama_codec \<Rightarrow> tool_call \<Rightarrow> 'v function_call" where
  "wire_tool_call codec call =
     \<lparr>fc_name = tc_name call,
      fc_arguments = (case json_of_text codec (tc_arguments call) of Some v \<Rightarrow> v | None \<Rightarrow> empty_json codec)\<rparr>"

definition to_wire_messages :: "'v ollama_codec \<Rightarrow> message list \<Rightarrow> 'v ollama_message list" where
  "to_wire_messages codec ms =
     map (\<lambda>m. \<lparr>om_role = role m, om_content = content m,
                om_tool_calls = map_option (map (wire_tool_call codec)) (message.tool_calls m),
                om_tool_name = tool_name m, om_images = images m\<rparr>) ms"

definition to_wire_tools :: "'v tool_definition list \<Rightarrow> 'v chat_tool list" where
  "to_wire_tools tools = map (\<lambda>t. \<lparr>ct_type = ''function'', ct_function = t\<rparr>) tools"

definition response_calls :: "'v chat_response \<Rightarrow> 'v function_call list" where
  "response_calls r = (case ch_tool_calls r of Some calls \<Rightarrow> calls | None \<Rightarrow> [])"

definition to_domain_response :: "'v ollama_codec \<Rightarrow> 'v chat_response \<Rightarrow> llm_response" where
  "to_domain_response codec r =
     \<lparr>resp_text = (if ch_content r = [] then None else Some (ch_content r)),
      resp_tool_calls = map (\<lambda>c. \<lparr>tc_name = fc_name c, tc_arguments = text_of_json codec (fc_arguments c)\<rparr>)
        (response_calls r),
      resp_usage = \<lparr>prompt_tokens = ch_prompt_eval_count r, completion_tokens = ch_eval_count r\<rparr>\<rparr>"

definition chat_request_of ::
  "'v ollama_codec \<Rightarrow> ollama_llm \<Rightarrow> message list \<Rightarrow> 'v tool_definition list \<Rightarrow> 'v chat_request" where
  "chat_request_of codec llm ms tools =
     \<lparr>cr_model = ol_model llm, cr_messages = to_wire_messages codec ms, cr_tools = to_wire_tools tools,
      cr_stream = False, cr_think = False, cr_num_ctx = ol_num_ctx llm\<rparr>"

text \<open>A status is its number and its printed form.\<close>

type_synonym ollama_answer = "(nat \<times> string) \<times> (string + string)"

definition post_chat ::
  "'v ollama_codec \<Rightarrow> (string \<Rightarrow> 'v chat_request \<Rightarrow> string + ollama_answer) \<Rightarrow> ollama_llm \<Rightarrow> 'v chat_request \<Rightarrow>
     llm_error + 'v chat_response" where
  "post_chat codec post llm request =
     (case post (ol_base_url llm @ ''/api/chat'') request of
        Inl e \<Rightarrow> Inl (LlmRequestFailed e)
      | Inr ((status, shown), read) \<Rightarrow>
          (case read of
             Inl e \<Rightarrow> Inl (LlmRequestFailed e)
           | Inr body \<Rightarrow>
               if status = 404 then Inl (ModelNotFound (ol_model llm))
               else if \<not> (200 \<le> status \<and> status < 300)
               then Inl (LlmRequestFailed (''Ollama returned status '' @ shown @ nl @ ''Body: '' @ body))
               else map_err (\<lambda>e. InvalidResponse (''Could not parse Ollama response: '' @ e @ nl @ ''Body: '' @ body))
                 (decode_chat codec body)))"

definition ollama_generate ::
  "'v ollama_codec \<Rightarrow> (string \<Rightarrow> 'v chat_request \<Rightarrow> string + ollama_answer) \<Rightarrow> ollama_llm \<Rightarrow> message list \<Rightarrow>
     'v tool_definition list \<Rightarrow> llm_error + llm_response" where
  "ollama_generate codec post llm ms tools =
     map_sum id (to_domain_response codec) (post_chat codec post llm (chat_request_of codec llm ms tools))"

section \<open>Properties\<close>

text \<open>The calls a list of wire messages carries.\<close>

definition sent_calls :: "'v ollama_message list \<Rightarrow> 'v function_call list" where
  "sent_calls ms = concat (map (\<lambda>m. case om_tool_calls m of Some calls \<Rightarrow> calls | None \<Rightarrow> []) ms)"

lemma sent_calls_simps [simp]:
  "sent_calls (to_wire_messages codec []) = []"
  "sent_calls (to_wire_messages codec (m # ms)) =
     (case message.tool_calls m of Some calls \<Rightarrow> map (wire_tool_call codec) calls | None \<Rightarrow> []) @
     sent_calls (to_wire_messages codec ms)"
  by (auto simp: sent_calls_def to_wire_messages_def split: option.split)

lemma sent_calls_recorded:
  "sent_calls (to_wire_messages codec (map assistant_tool_call_message calls)) = map (wire_tool_call codec) calls"
  by (induction calls) (simp_all add: assistant_tool_call_message_def)

text \<open>
  C21. The model gets back the calls it made: when a response's tool calls are recorded in the transcript
  as the agent records them, the next request carries exactly the calls of that response, in order, with
  the same names and the same arguments, for every number of calls and also when the response had text.
  The arguments of these calls have to be values that serde_json reads back as it wrote them, which it
  does not promise of every float.
\<close>

theorem tool_calls_round_trip:
  assumes "\<And>answer c. post_chat codec post llm (chat_request_of codec llm ms tools) = Inr answer \<Longrightarrow>
      c \<in> set (response_calls answer) \<Longrightarrow> json_of_text codec (text_of_json codec (fc_arguments c)) = Some (fc_arguments c)"
    and "ollama_generate codec post llm ms tools = Inr r"
  shows "\<exists>answer. post_chat codec post llm (chat_request_of codec llm ms tools) = Inr answer \<and>
    sent_calls (cr_messages (chat_request_of codec llm (ms @ map assistant_tool_call_message (resp_tool_calls r)) tools)) =
      sent_calls (cr_messages (chat_request_of codec llm ms tools)) @ response_calls answer \<and>
    (resp_tool_calls r = [] \<longleftrightarrow> response_calls answer = [])"
proof -
  obtain answer where a: "post_chat codec post llm (chat_request_of codec llm ms tools) = Inr answer"
      "r = to_domain_response codec answer"
    using assms(2) by (cases "post_chat codec post llm (chat_request_of codec llm ms tools)") (auto simp: ollama_generate_def)
  have append: "sent_calls (to_wire_messages codec (us @ vs)) =
      sent_calls (to_wire_messages codec us) @ sent_calls (to_wire_messages codec vs)" for us vs
    by (simp add: sent_calls_def to_wire_messages_def)
  have same: "\<lparr>fc_name = fc_name c, fc_arguments = fc_arguments c\<rparr> = c" for c :: "'a function_call"
    by (cases c) simp
  have "map (wire_tool_call codec) (resp_tool_calls r) = response_calls answer"
    by (simp add: a(2) to_domain_response_def wire_tool_call_def assms(1) [OF a(1)] comp_def same map_idI)
  then have "sent_calls (cr_messages (chat_request_of codec llm (ms @ map assistant_tool_call_message (resp_tool_calls r)) tools)) =
      sent_calls (cr_messages (chat_request_of codec llm ms tools)) @ response_calls answer"
    by (simp add: chat_request_of_def append sent_calls_recorded)
  moreover have "resp_tool_calls r = [] \<longleftrightarrow> response_calls answer = []"
    by (simp add: a(2) to_domain_response_def)
  ultimately show ?thesis using a(1) by blast
qed

definition bit_codec :: "bool ollama_codec" where
  "bit_codec = \<lparr>json_of_text = (\<lambda>t. if t = ''{}'' then Some False else if t = ''[]'' then Some True else None),
     text_of_json = (\<lambda>v. if v then ''[]'' else ''{}''), empty_json = False,
     decode_chat = (\<lambda>t. Inr \<lparr>ch_content = [], ch_tool_calls = Some [\<lparr>fc_name = t, fc_arguments = True\<rparr>],
       ch_prompt_eval_count = None, ch_eval_count = None\<rparr>)\<rparr>"

theorem tool_calls_round_trip_witness:
  "sent_calls (cr_messages (chat_request_of bit_codec (ollama_new (\<lambda>_. None) ''http://h'' ''m'')
     (map assistant_tool_call_message [\<lparr>tc_name = ''ping'', tc_arguments = ''[]''\<rparr>]) [])) =
   [\<lparr>fc_name = ''ping'', fc_arguments = True\<rparr>]"
proof -
  let ?llm = "ollama_new (\<lambda>_. None) ''http://h'' ''m''"
  let ?post = "\<lambda>_ _. Inr ((200, ''200 OK''), Inr ''ping'') :: string + ollama_answer"
  have laws: "json_of_text bit_codec (text_of_json bit_codec (fc_arguments c)) = Some (fc_arguments c)" for c
    by (cases "fc_arguments c") (simp_all add: bit_codec_def)
  have run: "ollama_generate bit_codec ?post ?llm [] [] =
      Inr \<lparr>resp_text = None, resp_tool_calls = [\<lparr>tc_name = ''ping'', tc_arguments = ''[]''\<rparr>],
           resp_usage = \<lparr>prompt_tokens = None, completion_tokens = None\<rparr>\<rparr>"
    by (simp add: ollama_generate_def post_chat_def to_domain_response_def response_calls_def bit_codec_def)
  from tool_calls_round_trip [OF laws run] show ?thesis
    by (auto simp: post_chat_def chat_request_of_def response_calls_def bit_codec_def)
qed

text \<open>
  How a call fails: a missing model is reported as such and is not retried by the agent, an answer
  that is not Ollama's is not retried either, and everything else that fails is.
\<close>

lemma ollama_errors:
  "post (ol_base_url llm @ ''/api/chat'') (chat_request_of codec llm ms tools) = Inr ((404, shown), Inr body) \<Longrightarrow>
     ollama_generate codec post llm ms tools = Inl (ModelNotFound (ol_model llm))"
  "ollama_generate codec post llm ms tools = Inl e \<Longrightarrow>
     (is_retryable e \<longleftrightarrow> (\<forall>status shown body.
        post (ol_base_url llm @ ''/api/chat'') (chat_request_of codec llm ms tools) = Inr ((status, shown), Inr body) \<longrightarrow>
          status \<noteq> 404 \<and> \<not> (200 \<le> status \<and> status < 300)))"
proof -
  show "post (ol_base_url llm @ ''/api/chat'') (chat_request_of codec llm ms tools) = Inr ((404, shown), Inr body) \<Longrightarrow>
     ollama_generate codec post llm ms tools = Inl (ModelNotFound (ol_model llm))"
    by (simp add: ollama_generate_def post_chat_def)
  assume "ollama_generate codec post llm ms tools = Inl e"
  then show "is_retryable e \<longleftrightarrow> (\<forall>status shown body.
        post (ol_base_url llm @ ''/api/chat'') (chat_request_of codec llm ms tools) = Inr ((status, shown), Inr body) \<longrightarrow>
          status \<noteq> 404 \<and> \<not> (200 \<le> status \<and> status < 300))"
    by (cases "post (ol_base_url llm @ ''/api/chat'') (chat_request_of codec llm ms tools)")
      (auto simp: ollama_generate_def post_chat_def is_retryable_def map_err_eq_Inl map_sum_eq_Inl split: sum.splits if_splits)
qed

end
