(* ===== verification/Utf8.thy ===== *)
theory Utf8
  imports Rust_Text
begin

text \<open>
  Decoding of bytes as UTF-8 as the standard library does it: \<open>String::from_utf8\<close> with the
  position and the length of the first ill-formed sequence, and \<open>String::from_utf8_lossy\<close>,
  which replaces every such sequence by U+FFFD.
\<close>

section \<open>The first ill-formed sequence\<close>

definition utf8_width :: "char \<Rightarrow> nat" where
  "utf8_width c =
     (let b = byte_of c in
      if b < 0x80 then 1 else if 0xC2 \<le> b \<and> b \<le> 0xDF then 2 else if 0xE0 \<le> b \<and> b \<le> 0xEF then 3
      else if 0xF0 \<le> b \<and> b \<le> 0xF4 then 4 else 0)"

text \<open>The second byte also excludes overlong forms, surrogates and values above U+10FFFF.\<close>

definition second_ok :: "char \<Rightarrow> char \<Rightarrow> bool" where
  "second_ok c d \<longleftrightarrow>
     (let a = byte_of c; b = byte_of d in
      if a = 0xE0 then 0xA0 \<le> b \<and> b \<le> 0xBF
      else if a = 0xED then 0x80 \<le> b \<and> b \<le> 0x9F
      else if a = 0xF0 then 0x90 \<le> b \<and> b \<le> 0xBF
      else if a = 0xF4 then 0x80 \<le> b \<and> b \<le> 0x8F
      else 0x80 \<le> b \<and> b \<le> 0xBF)"

text \<open>
  One step: the width of the well-formed sequence at the front, or the length of the ill-formed
  one, which is not known when the bytes end within it.
\<close>

definition utf8_front :: "char \<Rightarrow> string \<Rightarrow> nat option + nat" where
  "utf8_front c cs =
     (if utf8_width c = 0 then Inl (Some 1)
      else if utf8_width c = 1 then Inr 1
      else case cs of
          [] \<Rightarrow> Inl None
        | d # ds \<Rightarrow>
            if \<not> second_ok c d then Inl (Some 1)
            else if utf8_width c = 2 then Inr 2
            else case ds of
                [] \<Rightarrow> Inl None
              | e # es \<Rightarrow>
                  if \<not> is_cont e then Inl (Some 2)
                  else if utf8_width c = 3 then Inr 3
                  else case es of
                      [] \<Rightarrow> Inl None
                    | f # fs \<Rightarrow> if is_cont f then Inr 4 else Inl (Some 3))"

lemma utf8_front_bounds:
  "utf8_front c cs = Inr n \<Longrightarrow> 0 < n \<and> n \<le> length (c # cs)"
  "utf8_front c cs = Inl (Some k) \<Longrightarrow> 0 < k \<and> k \<le> length (c # cs)"
  by (auto simp: utf8_front_def split: if_splits list.splits)

text \<open>\<open>Utf8Error\<close>: the length of the valid prefix and of the ill-formed sequence after it.\<close>

function utf8_error :: "string \<Rightarrow> (nat \<times> nat option) option" where
  "utf8_error [] = None"
| "utf8_error (c # cs) =
     (case utf8_front c cs of
        Inl k \<Rightarrow> Some (0, k)
      | Inr n \<Rightarrow> map_option (apfst ((+) n)) (utf8_error (drop n (c # cs))))"
  by pat_completeness auto
termination
  by (relation "measure length") (use utf8_front_bounds(1) in \<open>fastforce simp: drop_Cons'\<close>)+

definition show_utf8_error :: "nat \<times> nat option \<Rightarrow> string" where
  "show_utf8_error e =
     (case e of
        (n, Some k) \<Rightarrow> ''invalid utf-8 sequence of '' @ show_nat k @ '' bytes from index '' @ show_nat n
      | (n, None) \<Rightarrow> ''incomplete utf-8 byte sequence from index '' @ show_nat n)"

definition from_utf8 :: "string \<Rightarrow> string + string" where
  "from_utf8 s = (case utf8_error s of None \<Rightarrow> Inr s | Some e \<Rightarrow> Inl (show_utf8_error e))"

definition REPLACEMENT :: string where "REPLACEMENT = [CHR 0xEF, CHR 0xBF, CHR 0xBD]"

function from_utf8_lossy :: "string \<Rightarrow> string" where
  "from_utf8_lossy [] = []"
| "from_utf8_lossy (c # cs) =
     (case utf8_front c cs of
        Inl None \<Rightarrow> REPLACEMENT
      | Inl (Some k) \<Rightarrow> REPLACEMENT @ from_utf8_lossy (drop k (c # cs))
      | Inr n \<Rightarrow> take n (c # cs) @ from_utf8_lossy (drop n (c # cs)))"
  by pat_completeness auto
termination
  by (relation "measure length") (use utf8_front_bounds in \<open>fastforce simp: drop_Cons'\<close>)+

section \<open>Lossy decoding gives text\<close>

lemma utf8_front_prefix: "utf8_front c cs = Inr n \<Longrightarrow> utf8_front c (take (n - 1) cs @ rest) = Inr n"
  by (auto simp: utf8_front_def split: if_splits list.splits)

lemma utf8_error_prefix:
  assumes "utf8_front c cs = Inr n"
  shows "utf8_error (take n (c # cs) @ rest) = map_option (apfst ((+) n)) (utf8_error rest)"
proof -
  obtain m where n: "n = Suc m" "m \<le> length cs" using utf8_front_bounds(1) [OF assms] by (cases n) auto
  have "utf8_error (c # (take m cs @ rest)) = map_option (apfst ((+) n)) (utf8_error (drop n (c # (take m cs @ rest))))"
    using utf8_front_prefix [OF assms, of rest] n by simp
  with n show ?thesis by simp
qed

lemma utf8_error_replacement: "utf8_error (REPLACEMENT @ rest) = map_option (apfst ((+) 3)) (utf8_error rest)"
  using utf8_error_prefix [of "CHR 0xEF" "[CHR 0xBF, CHR 0xBD]" 3 rest]
  by (simp add: REPLACEMENT_def utf8_front_def utf8_width_def second_ok_def is_cont_def byte_of_def)

lemma from_utf8_lossy_valid: "utf8_error (from_utf8_lossy s) = None"
proof (induction s rule: from_utf8_lossy.induct)
  case (2 c cs)
  show ?case
  proof (cases "utf8_front c cs")
    case (Inl k)
    then show ?thesis using 2(1) utf8_error_replacement [of "[]"] by (cases k) (auto simp: utf8_error_replacement)
  next
    case (Inr n)
    then show ?thesis using 2(2) utf8_error_prefix [OF Inr] by simp
  qed
qed simp

lemma from_utf8_lossy_id: "utf8_error s = None \<Longrightarrow> from_utf8_lossy s = s"
proof (induction s rule: utf8_error.induct)
  case (2 c cs)
  then show ?case by (auto split: sum.splits)
qed simp

text \<open>What was decoded is the bytes; whatever was read lossily can be decoded.\<close>

lemma from_utf8_iff: "from_utf8 s = Inr t \<longleftrightarrow> t = s \<and> from_utf8_lossy s = s"
  using from_utf8_lossy_valid [of s] from_utf8_lossy_id [of s]
  by (auto simp: from_utf8_def split: option.splits)

lemma ascii_utf8_error: "\<forall>c \<in> set s. byte_of c < 0x80 \<Longrightarrow> utf8_error s = None"
  by (induction s) (simp_all add: utf8_front_def utf8_width_def)

end
