(* ===== verification/Windows_Process.thy ===== *)
theory Windows_Process
  imports Capabilities Utf8
begin

text \<open>
  The process adapter of the capabilities
  (\<open>crates/device-capabilities/src/adapters/process/windows.rs\<close>): a command is started, polled until
  it ends or its deadline passes, and its output is collected from the reader threads. The operating
  system is the record \<open>os_api\<close> over a world \<open>'w\<close>; times are nanoseconds. The readers' channels are
  read with \<open>os_recv\<close>, where \<open>True\<close> is standard output.
\<close>

section \<open>Translation\<close>

record 'w os_api =
  os_start :: "string \<Rightarrow> string list \<Rightarrow> bool \<Rightarrow> 'w \<Rightarrow> (string + unit) \<times> 'w"
  os_group :: "'w \<Rightarrow> bool \<times> 'w"
  os_now :: "'w \<Rightarrow> nat \<times> 'w"
  os_try_wait :: "'w \<Rightarrow> (string + bool option) \<times> 'w"
  os_sleep :: "duration \<Rightarrow> 'w \<Rightarrow> 'w"
  os_recv :: "bool \<Rightarrow> duration \<Rightarrow> 'w \<Rightarrow> string option \<times> 'w"
  os_close_group :: "'w \<Rightarrow> 'w"
  os_kill :: "'w \<Rightarrow> 'w"
  os_wait :: "'w \<Rightarrow> 'w"
  os_debug :: "string list \<Rightarrow> string"

definition millis :: "nat \<Rightarrow> duration" where "millis n = n * 10 ^ 6"

definition POLL_INTERVAL :: duration where "POLL_INTERVAL = millis 20"
definition READER_DRAIN_GRACE :: duration where "READER_DRAIN_GRACE = millis 250"

text \<open>\<open>drop(job)\<close>: closing the handle of a process group that was created kills what is still in it.\<close>

definition drop_job :: "'w os_api \<Rightarrow> bool \<Rightarrow> 'w \<Rightarrow> 'w" where
  "drop_job api job w = (if job then os_close_group api w else w)"

text \<open>The polling loop: the exit status, or the error it returns with; \<open>None\<close> when the fuel is used up.\<close>

fun poll_exit ::
  "'w os_api \<Rightarrow> bool \<Rightarrow> duration \<Rightarrow> nat \<Rightarrow> nat \<Rightarrow> 'w \<Rightarrow> ((process_error + bool) \<times> 'w) option" where
  "poll_exit api job timeout deadline 0 w = None"
| "poll_exit api job timeout deadline (Suc fuel) w =
     (case os_try_wait api w of
        (Inl e, w) \<Rightarrow> Some (Inl (ProcessFailed e), drop_job api job w)
      | (Inr (Some success), w) \<Rightarrow> Some (Inr success, w)
      | (Inr None, w) \<Rightarrow>
          (case os_now api w of (now, w) \<Rightarrow>
             if deadline \<le> now
             then Some (Inl (ProcessTimeout timeout), os_wait api (os_kill api (drop_job api job w)))
             else poll_exit api job timeout deadline fuel (os_sleep api POLL_INTERVAL w)))"

text \<open>One reader's output, waited for until the deadline and at least for the grace period.\<close>

definition drain :: "'w os_api \<Rightarrow> bool \<Rightarrow> nat \<Rightarrow> 'w \<Rightarrow> string \<times> 'w" where
  "drain api stdout deadline w =
     (case os_now api w of (now, w) \<Rightarrow>
      case os_recv api stdout (max (deadline - now) READER_DRAIN_GRACE) w of (bytes, w) \<Rightarrow>
        ((case bytes of Some b \<Rightarrow> b | None \<Rightarrow> []), w))"

definition process_run ::
  "'w os_api \<Rightarrow> nat \<Rightarrow> string \<Rightarrow> string list \<Rightarrow> duration \<Rightarrow> bool \<Rightarrow> 'w \<Rightarrow> ((process_error + string) \<times> 'w) option" where
  "process_run api fuel command args timeout capture w =
     (if is_blank command then Some (Inl (ProcessInvalidArguments ''Command cannot be empty''), w)
      else case os_start api command args capture w of
          (Inl e, w) \<Rightarrow> Some (Inl (ProcessFailed e), w)
        | (Inr _, w) \<Rightarrow>
            (case os_group api w of (job, w) \<Rightarrow>
             case os_now api w of (start, w) \<Rightarrow>
             let deadline = start + timeout
             in case poll_exit api job timeout deadline fuel w of
                  None \<Rightarrow> None
                | Some (Inl e, w) \<Rightarrow> Some (Inl e, w)
                | Some (Inr success, w) \<Rightarrow>
                    (case (if capture then drain api True deadline w else ([], w)) of (stdout, w) \<Rightarrow>
                     case (if capture then drain api False deadline w else ([], w)) of (stderr, w) \<Rightarrow>
                       Some (if \<not> success
                             then Inl (ProcessFailed
                                    (if capture
                                     then ''Command failed: '' @ command @ '' '' @ os_debug api args @ nl @ from_utf8_lossy stderr
                                     else ''Command failed: '' @ command @ '' '' @ os_debug api args @ '' (no output captured)''))
                             else map_err ProcessFailed (from_utf8 stdout), w))))"

text \<open>
  The port \<open>Process\<close>: \<open>spawn\<close> and \<open>spawn_detached\<close>, with fuel for one poll per interval up to the
  deadline. A run that is out of fuel does not happen (\<open>process_run_bounded\<close>).
\<close>

definition poll_fuel :: "duration \<Rightarrow> nat" where
  "poll_fuel timeout = timeout div POLL_INTERVAL + 2"

definition ran_out :: "'w \<Rightarrow> ((process_error + string) \<times> 'w) option \<Rightarrow> (process_error + string) \<times> 'w" where
  "ran_out w r = (case r of Some x \<Rightarrow> x | None \<Rightarrow> (Inl (ProcessFailed []), w))"

definition windows_process :: "'w os_api \<Rightarrow> 'w process" where
  "windows_process api =
     \<lparr>p_spawn = (\<lambda>command args timeout w.
        ran_out w (process_run api (poll_fuel timeout) command args timeout True w)),
      p_spawn_detached = (\<lambda>command args timeout w.
        case ran_out w (process_run api (poll_fuel timeout) command args timeout False w) of
          (r, w) \<Rightarrow> (map_sum id (\<lambda>_. ()) r, w)),
      p_description = ''Commands are executed using Windows cmd.exe EXCLUSIVE. IMPORTANT Use Windows cmd syntax.''\<rparr>"

section \<open>Time and kills\<close>

text \<open>
  What the standard library promises: the time \<open>clk\<close> never goes back, a reading of the clock is taken
  while \<open>os_now\<close> runs, and a sleep lasts at least as long as asked for. \<open>struck\<close> says that an attempt was
  made to kill the child or its group, which only killing and closing the group are; it says nothing
  of their success.
\<close>

definition os_laws :: "'w os_api \<Rightarrow> ('w \<Rightarrow> nat) \<Rightarrow> ('w \<Rightarrow> bool) \<Rightarrow> bool" where
  "os_laws api clk struck \<longleftrightarrow>
     (\<forall>c as b w. clk w \<le> clk (snd (os_start api c as b w)) \<and> struck (snd (os_start api c as b w)) = struck w) \<and>
     (\<forall>w. clk w \<le> clk (snd (os_group api w)) \<and> struck (snd (os_group api w)) = struck w) \<and>
     (\<forall>w. clk w \<le> fst (os_now api w) \<and> fst (os_now api w) \<le> clk (snd (os_now api w)) \<and>
        struck (snd (os_now api w)) = struck w) \<and>
     (\<forall>w. clk w \<le> clk (snd (os_try_wait api w)) \<and> struck (snd (os_try_wait api w)) = struck w) \<and>
     (\<forall>d w. clk w + d \<le> clk (os_sleep api d w) \<and> struck (os_sleep api d w) = struck w) \<and>
     (\<forall>b d w. clk w \<le> clk (snd (os_recv api b d w)) \<and> struck (snd (os_recv api b d w)) = struck w) \<and>
     (\<forall>w. clk w \<le> clk (os_close_group api w)) \<and>
     (\<forall>w. clk w \<le> clk (os_kill api w) \<and> struck (os_kill api w)) \<and>
     (\<forall>w. clk w \<le> clk (os_wait api w) \<and> (struck (os_wait api w) \<longleftrightarrow> struck w))"

text \<open>
  What only a system that is not overloaded gives: every call takes at most \<open>late\<close> more than it was
  asked to, and a child that was killed can be waited for in that time. Nothing of this is needed for
  a run to return; a child that survives being killed is waited for as long as it lives.
\<close>

definition os_prompt :: "'w os_api \<Rightarrow> ('w \<Rightarrow> nat) \<Rightarrow> duration \<Rightarrow> bool" where
  "os_prompt api clk late \<longleftrightarrow>
     (\<forall>c as b w. clk (snd (os_start api c as b w)) \<le> clk w + late) \<and>
     (\<forall>w. clk (snd (os_group api w)) \<le> clk w + late) \<and>
     (\<forall>w. clk (snd (os_now api w)) \<le> clk w + late) \<and>
     (\<forall>w. clk (snd (os_try_wait api w)) \<le> clk w + late) \<and>
     (\<forall>d w. clk (os_sleep api d w) \<le> clk w + d + late) \<and>
     (\<forall>b d w. clk (snd (os_recv api b d w)) \<le> clk w + d + late) \<and>
     (\<forall>w. clk (os_close_group api w) \<le> clk w + late) \<and>
     (\<forall>w. clk (os_kill api w) \<le> clk w + late) \<and>
     (\<forall>w. clk (os_wait api (os_kill api w)) \<le> clk (os_kill api w) + late)"

lemma os_laws_steps:
  assumes "os_laws api clk struck"
  shows "os_start api c as b w = (r, w') \<Longrightarrow> clk w \<le> clk w' \<and> struck w' = struck w"
    and "os_group api w = (job, w') \<Longrightarrow> clk w \<le> clk w' \<and> struck w' = struck w"
    and "os_now api w = (t, w') \<Longrightarrow> clk w \<le> t \<and> t \<le> clk w' \<and> struck w' = struck w"
    and "os_try_wait api w = (st, w') \<Longrightarrow> clk w \<le> clk w' \<and> struck w' = struck w"
    and "os_recv api b d w = (bytes, w') \<Longrightarrow> clk w \<le> clk w' \<and> struck w' = struck w"
  using assms unfolding os_laws_def by (metis fst_conv snd_conv)+

lemma os_laws_effects:
  assumes "os_laws api clk struck"
  shows "clk w + d \<le> clk (os_sleep api d w)" "struck (os_sleep api d w) = struck w"
    and "clk w \<le> clk (drop_job api job w)" "clk w \<le> clk (os_kill api w)" "struck (os_kill api w)"
    and "clk w \<le> clk (os_wait api w)" "struck (os_wait api w) = struck w"
  using assms by (auto simp: os_laws_def drop_job_def)

lemma ended_run:
  assumes "os_laws api clk struck"
  shows "clk w \<le> clk (os_wait api (os_kill api (drop_job api job w)))"
    and "struck (os_wait api (os_kill api (drop_job api job w)))"
  using os_laws_effects [OF assms] by (metis le_trans)+

lemma os_prompt_steps:
  assumes "os_prompt api clk late"
  shows "os_start api c as b w = (r, w') \<Longrightarrow> clk w' \<le> clk w + late"
    and "os_group api w = (job, w') \<Longrightarrow> clk w' \<le> clk w + late"
    and "os_now api w = (t, w') \<Longrightarrow> clk w' \<le> clk w + late"
    and "os_try_wait api w = (st, w') \<Longrightarrow> clk w' \<le> clk w + late"
    and "os_recv api b d w = (bytes, w') \<Longrightarrow> clk w' \<le> clk w + d + late"
  using assms unfolding os_prompt_def by (metis snd_conv)+

lemma os_prompt_effects:
  assumes "os_prompt api clk late"
  shows "clk (os_sleep api d w) \<le> clk w + d + late" "clk (drop_job api job w) \<le> clk w + late"
    and "clk (os_wait api (os_kill api w)) \<le> clk w + 2 * late"
proof -
  have "clk (os_wait api (os_kill api w)) \<le> clk (os_kill api w) + late" "clk (os_kill api w) \<le> clk w + late"
    using assms by (auto simp: os_prompt_def)
  then show "clk (os_wait api (os_kill api w)) \<le> clk w + 2 * late" by simp
qed (use assms in \<open>auto simp: os_prompt_def drop_job_def\<close>)

lemma poll_exit_returns:
  assumes "os_laws api clk struck" and "deadline \<le> clk w + POLL_INTERVAL * fuel"
  shows "\<exists>r w'. poll_exit api job timeout deadline (Suc fuel) w = Some (r, w') \<and> clk w \<le> clk w' \<and>
    (case r of
       Inr success \<Rightarrow> struck w' = struck w
     | Inl e \<Rightarrow> e = ProcessTimeout timeout \<and> deadline \<le> clk w' \<and> struck w' \<or> (\<exists>m. e = ProcessFailed m))"
  using assms(2)
proof (induction fuel arbitrary: w)
  case 0
  obtain st w1 where t: "os_try_wait api w = (st, w1)" by (cases "os_try_wait api w")
  obtain now w2 where n: "os_now api w1 = (now, w2)" by (cases "os_now api w1")
  note steps = os_laws_steps(4) [OF assms(1) t] os_laws_steps(3) [OF assms(1) n]
  note ends = ended_run [OF assms(1), where w = w2 and job = job] os_laws_effects(3) [OF assms(1), where w = w1 and job = job]
  show ?case using 0 steps ends by (cases st) (auto simp: t n split: option.split)
next
  case (Suc fuel)
  obtain st w1 where t: "os_try_wait api w = (st, w1)" by (cases "os_try_wait api w")
  obtain now w2 where n: "os_now api w1 = (now, w2)" by (cases "os_now api w1")
  note steps = os_laws_steps(4) [OF assms(1) t] os_laws_steps(3) [OF assms(1) n]
  note ends = ended_run [OF assms(1), where w = w2 and job = job] os_laws_effects(3) [OF assms(1), where w = w1 and job = job]
  show ?case
  proof (cases "st = Inr None \<and> now < deadline")
    case False
    with steps ends show ?thesis by (cases st) (auto simp: t n split: option.split)
  next
    case True
    let ?w = "os_sleep api POLL_INTERVAL w2"
    have clk: "clk w + POLL_INTERVAL \<le> clk ?w" "struck ?w = struck w"
      using steps os_laws_effects(1,2) [OF assms(1), where w = w2 and d = POLL_INTERVAL] by simp_all
    then have "deadline \<le> clk ?w + POLL_INTERVAL * fuel" using Suc.prems by simp
    from Suc.IH [OF this] clk True show ?thesis
      by (subst poll_exit.simps) (fastforce simp: t n simp del: poll_exit.simps split: sum.splits)
  qed
qed

lemma poll_exit_prompt:
  assumes laws: "os_laws api clk struck" and prompt: "os_prompt api clk late"
  shows "poll_exit api job timeout deadline fuel w = Some (r, w') \<Longrightarrow>
    clk w \<le> deadline + POLL_INTERVAL + 2 * late \<Longrightarrow>
    clk w' \<le> deadline + POLL_INTERVAL + (if r = Inr True \<or> r = Inr False then 3 else 7) * late"
proof (induction fuel arbitrary: w)
  case (Suc fuel)
  obtain st w1 where t: "os_try_wait api w = (st, w1)" by (cases "os_try_wait api w")
  obtain now w2 where n: "os_now api w1 = (now, w2)" by (cases "os_now api w1")
  note steps = os_prompt_steps(4) [OF prompt t] os_prompt_steps(3) [OF prompt n] os_laws_steps(3) [OF laws n]
  have kill: "clk (os_wait api (os_kill api (drop_job api job w2))) \<le> clk w2 + 3 * late"
    using os_prompt_effects(2) [OF prompt, where w = w2 and job = job] os_prompt_effects(3) [OF prompt, where w = "drop_job api job w2"] by simp
  have sleep: "clk (os_sleep api POLL_INTERVAL w2) \<le> deadline + POLL_INTERVAL + 2 * late" if "now < deadline"
    using that steps os_prompt_effects(1) [OF prompt, where w = w2 and d = POLL_INTERVAL] by simp
  show ?case
  proof (cases "st = Inr None \<and> now < deadline")
    case True
    with Suc.prems(1) Suc.IH [OF _ sleep] show ?thesis by (simp add: t n)
  next
    case False
    with Suc.prems steps kill os_prompt_effects(2) [OF prompt, where w = w1 and job = job] show ?thesis
      by (cases st) (auto simp: t n split: option.splits if_splits)
  qed
qed simp

lemma drain_steps:
  assumes laws: "os_laws api clk struck" and run: "drain api b deadline w = (bytes, w')"
  shows "clk w \<le> clk w' \<and> struck w' = struck w \<and>
    (os_prompt api clk late \<longrightarrow> clk w' \<le> max deadline (clk w + READER_DRAIN_GRACE) + 2 * late)"
proof -
  obtain now w1 where n: "os_now api w = (now, w1)" by (cases "os_now api w")
  obtain got w2 where r: "os_recv api b (max (deadline - now) READER_DRAIN_GRACE) w1 = (got, w2)"
    by (cases "os_recv api b (max (deadline - now) READER_DRAIN_GRACE) w1")
  have w': "w' = w2" using run by (simp add: drain_def n r)
  note os_laws_steps(3) [OF laws n] os_laws_steps(5) [OF laws r]
  moreover have "clk w2 \<le> max deadline (clk w + READER_DRAIN_GRACE) + 2 * late" if prompt: "os_prompt api clk late"
    using os_prompt_steps(3) [OF prompt n] os_prompt_steps(5) [OF prompt r] os_laws_steps(3) [OF laws n]
    by (cases "deadline - now \<le> READER_DRAIN_GRACE") (auto simp: max_def)
  ultimately show ?thesis unfolding w' by auto
qed

lemma run_steps:
  assumes laws: "os_laws api clk struck" and "\<not> is_blank command"
    and s: "os_start api command args capture w = (Inr u, w1)" and g: "os_group api w1 = (job, w2)"
    and n: "os_now api w2 = (start, w3)"
    and p: "poll_exit api job timeout (start + timeout) fuel w3 = Some (r, w4)"
    and d1: "drain api True (start + timeout) w4 = (out, w5)" and d2: "drain api False (start + timeout) w5 = (err, w6)"
  shows "\<exists>q. process_run api fuel command args timeout capture w =
      Some (q, case r of Inl e \<Rightarrow> w4 | Inr success \<Rightarrow> if capture then w6 else w4) \<and>
    (case r of
       Inl e \<Rightarrow> q = Inl e
     | Inr success \<Rightarrow> (case q of Inr t \<Rightarrow> success \<and> (\<not> capture \<longrightarrow> t = []) | Inl e \<Rightarrow> \<exists>m. e = ProcessFailed m))"
  using assms(2) p
  by (cases r; cases "from_utf8 out") (auto simp: process_run_def s g n Let_def d1 d2 from_utf8_def)

lemma poll_run_bounded:
  assumes "os_laws api clk struck"
  shows "\<exists>r w'. process_run api (poll_fuel timeout) command args timeout capture w = Some (r, w') \<and> clk w \<le> clk w' \<and>
    (case r of
       Inr out \<Rightarrow> struck w' = struck w \<and> (\<not> capture \<longrightarrow> out = [])
     | Inl (ProcessTimeout d) \<Rightarrow> d = timeout \<and> clk w + timeout \<le> clk w' \<and> struck w'
     | Inl (ProcessInvalidArguments m) \<Rightarrow> is_blank command \<and> w' = w
     | Inl (ProcessFailed m) \<Rightarrow> True) \<and>
    (os_prompt api clk late \<longrightarrow> clk w' \<le> clk w + timeout + millis (if capture then 520 else 20) + 10 * late)"
proof (cases "is_blank command")
  case True
  then show ?thesis by (simp add: process_run_def)
next
  case False
  obtain st w1 where s: "os_start api command args capture w = (st, w1)"
    by (cases "os_start api command args capture w")
  obtain job w2 where g: "os_group api w1 = (job, w2)" by (cases "os_group api w1")
  obtain start w3 where n: "os_now api w2 = (start, w3)" by (cases "os_now api w2")
  note steps = os_laws_steps(1) [OF assms s] os_laws_steps(2) [OF assms g] os_laws_steps(3) [OF assms n]
  note prompt = os_prompt_steps(1) [OF _ s] os_prompt_steps(2) [OF _ g] os_prompt_steps(3) [OF _ n]
  let ?deadline = "start + timeout"
  have "POLL_INTERVAL > 0" by (simp add: POLL_INTERVAL_def millis_def)
  then have "timeout \<le> POLL_INTERVAL * (timeout div POLL_INTERVAL + 1)"
    using dividend_less_times_div [of POLL_INTERVAL timeout] by simp
  then have "?deadline \<le> clk w3 + POLL_INTERVAL * (timeout div POLL_INTERVAL + 1)" using steps by simp
  from poll_exit_returns [OF assms this, of job timeout]
  obtain r w4 where p: "poll_exit api job timeout ?deadline (poll_fuel timeout) w3 = Some (r, w4)" "clk w3 \<le> clk w4"
    and how: "case r of Inr success \<Rightarrow> struck w4 = struck w3
     | Inl e \<Rightarrow> e = ProcessTimeout timeout \<and> ?deadline \<le> clk w4 \<and> struck w4 \<or> (\<exists>m. e = ProcessFailed m)"
    by (auto simp: poll_fuel_def)
  obtain out w5 where d1: "drain api True ?deadline w4 = (out, w5)" by fastforce
  obtain err w6 where d2: "drain api False ?deadline w5 = (err, w6)" by fastforce
  note drains = drain_steps [OF assms d1, of late] drain_steps [OF assms d2, of late]
  show ?thesis
  proof (cases st)
    case (Inl e)
    have "os_prompt api clk late \<Longrightarrow> clk w1 \<le> clk w + late" by (rule prompt(1))
    with False steps Inl show ?thesis by (auto simp: process_run_def s)
  next
    case (Inr u)
    let ?w = "case r of Inl e \<Rightarrow> w4 | Inr success \<Rightarrow> if capture then w6 else w4"
    obtain q where q: "process_run api (poll_fuel timeout) command args timeout capture w = Some (q, ?w)"
      and res: "case r of Inl e \<Rightarrow> q = Inl e
       | Inr success \<Rightarrow> (case q of Inr t \<Rightarrow> success \<and> (\<not> capture \<longrightarrow> t = []) | Inl e \<Rightarrow> \<exists>m. e = ProcessFailed m)"
      using run_steps [OF assms False s [unfolded Inr] g n p(1) d1 d2] by blast
    have "clk ?w \<le> clk w + timeout + millis (if capture then 520 else 20) + 10 * late" if l: "os_prompt api clk late"
    proof -
      have "clk w3 \<le> start + late" "start \<le> clk w + 3 * late"
        using prompt [OF l] steps by simp_all
      moreover have "clk w4 \<le> ?deadline + POLL_INTERVAL + (if r = Inr True \<or> r = Inr False then 3 else 7) * late"
        using poll_exit_prompt [OF assms l p(1)] \<open>clk w3 \<le> start + late\<close> by simp
      ultimately show ?thesis
        using drains l by (cases r) (auto simp: POLL_INTERVAL_def READER_DRAIN_GRACE_def millis_def)
    qed
    moreover have "clk w \<le> clk ?w" using steps p(2) drains by (cases r) auto
    moreover have "case q of
       Inr out \<Rightarrow> struck ?w = struck w \<and> (\<not> capture \<longrightarrow> out = [])
     | Inl (ProcessTimeout d) \<Rightarrow> d = timeout \<and> clk w + timeout \<le> clk ?w \<and> struck ?w
     | Inl (ProcessInvalidArguments m) \<Rightarrow> is_blank command \<and> ?w = w
     | Inl (ProcessFailed m) \<Rightarrow> True"
      using res how steps drains by (cases r; cases q) auto
    ultimately show ?thesis using q by blast
  qed
qed

text \<open>
  C20. A command does not hold its caller much longer than its timeout. A run returns as long as the
  calls of the system do, however long each of them takes and whenever the child ends; a time-out is
  reported only once the deadline has passed and an attempt to kill the child was made, and a run that
  succeeds has made none, so what it launched goes on. If no call takes more than \<open>late\<close> longer than it
  was asked to, and a killed child can be waited for in that time, the run is over 520 milliseconds and
  ten times \<open>late\<close> after the timeout when output is captured, and 20 instead of 520 when it is not.
\<close>

theorem process_run_bounded:
  assumes "os_laws api clk struck"
  shows "\<exists>r w'. process_run api (poll_fuel timeout) command args timeout capture w = Some (r, w') \<and> clk w \<le> clk w' \<and>
    (case r of
       Inr out \<Rightarrow> struck w' = struck w \<and> (\<not> capture \<longrightarrow> out = [])
     | Inl (ProcessTimeout d) \<Rightarrow> d = timeout \<and> clk w + timeout \<le> clk w' \<and> struck w'
     | Inl (ProcessInvalidArguments m) \<Rightarrow> is_blank command \<and> w' = w
     | Inl (ProcessFailed m) \<Rightarrow> True) \<and>
    (os_prompt api clk late \<longrightarrow> clk w' \<le> clk w + timeout + millis (if capture then 520 else 20) + 10 * late)"
  by (rule poll_run_bounded [OF assms])

text \<open>
  A child that never ends by itself, on a system where everything takes time: each call a microsecond,
  and a sleep or a wait for output a millisecond more than asked for.
\<close>

definition sleeping_child :: "(nat \<times> bool) os_api" where
  "sleeping_child =
     (let pass = \<lambda>d (t, k). (t + d, k) in
      \<lparr>os_start = \<lambda>_ _ _ w. (Inr (), pass 1000 w), os_group = \<lambda>w. (True, pass 1000 w),
       os_now = \<lambda>w. (fst w, pass 1000 w), os_try_wait = \<lambda>w. (Inr None, pass 1000 w),
       os_sleep = \<lambda>d. pass (d + millis 1), os_recv = \<lambda>_ d w. (None, pass (d + millis 1) w),
       os_close_group = \<lambda>(t, k). (t + 1000, True), os_kill = \<lambda>(t, k). (t + 1000, True),
       os_wait = pass 1000, os_debug = concat\<rparr>)"

lemma sleeping_child_laws: "os_laws sleeping_child fst snd"
  by (auto simp: os_laws_def sleeping_child_def split: prod.splits)

lemma sleeping_child_prompt: "os_prompt sleeping_child fst (millis 1)"
  by (auto simp: os_prompt_def sleeping_child_def millis_def split: prod.splits)

theorem process_run_bounded_witness:
  "\<exists>w'. process_run sleeping_child (poll_fuel (millis 40)) ''cmd'' [''/C'', ''pause''] (millis 40) True (0, False) =
     Some (Inl (ProcessTimeout (millis 40)), w') \<and> snd w' \<and> millis 40 \<le> fst w' \<and> fst w' \<le> millis 570"
proof -
  have blank: "\<not> is_blank ''cmd''" by code_simp
  have fuel: "poll_fuel (millis 40) = Suc (Suc (Suc (Suc 0)))"
    by (simp add: poll_fuel_def POLL_INTERVAL_def millis_def)
  have "\<exists>w'. process_run sleeping_child (poll_fuel (millis 40)) ''cmd'' [''/C'', ''pause''] (millis 40) True (0, False) =
      Some (Inl (ProcessTimeout (millis 40)), w')"
    unfolding fuel
    by (auto simp: process_run_def blank sleeping_child_def Let_def drop_job_def POLL_INTERVAL_def millis_def)
  with process_run_bounded [OF sleeping_child_laws, of "millis 40" "''cmd''" "[''/C'', ''pause'']" True "(0, False)" "millis 1"]
  show ?thesis using sleeping_child_prompt by (auto simp: millis_def)
qed

text \<open>
  Why a killed child has to be gone: the code does not look at the result of killing it, so a child that
  cannot be killed holds the caller for as long as it lives, however short the timeout.
\<close>

definition stubborn_child :: "nat \<Rightarrow> (nat \<times> bool) os_api" where
  "stubborn_child life = sleeping_child\<lparr>os_wait := \<lambda>(t, k). (t + life, k)\<rparr>"

lemma stubborn_child_blocks:
  "process_run (stubborn_child life) (poll_fuel 0) ''cmd'' [] 0 False (0, False) = Some (r, w') \<Longrightarrow> life \<le> fst w'"
proof -
  have blank: "\<not> is_blank ''cmd''" by code_simp
  have fuel: "poll_fuel 0 = Suc (Suc 0)" by (simp add: poll_fuel_def)
  show "process_run (stubborn_child life) (poll_fuel 0) ''cmd'' [] 0 False (0, False) = Some (r, w') \<Longrightarrow> life \<le> fst w'"
    unfolding fuel by (auto simp: process_run_def blank stubborn_child_def sleeping_child_def Let_def drop_job_def)
qed

section \<open>The computer over the process adapter\<close>

lemma process_port_bounded:
  assumes "os_laws api clk struck" and "os_prompt api clk late"
  shows "clk (snd (p_spawn (windows_process api) command args timeout w)) \<le> clk w + timeout + millis 520 + 10 * late"
    and "clk (snd (p_spawn_detached (windows_process api) command args timeout w)) \<le> clk w + timeout + millis 20 + 10 * late"
proof -
  note bounded = poll_run_bounded [OF assms(1), of timeout command args _ w late]
  show "clk (snd (p_spawn (windows_process api) command args timeout w)) \<le> clk w + timeout + millis 520 + 10 * late"
    using bounded [of True] assms(2) by (auto simp: windows_process_def ran_out_def)
  show "clk (snd (p_spawn_detached (windows_process api) command args timeout w)) \<le> clk w + timeout + millis 20 + 10 * late"
    using bounded [of False] assms(2) by (auto simp: windows_process_def ran_out_def)
qed

text \<open>So a command of the Windows computer is bounded too, whatever it runs.\<close>

lemma windows_execute_bounded:
  assumes "os_laws api clk struck" and "os_prompt api clk late"
  shows "clk (snd (windows_execute debug (windows_process api) command timeout w)) \<le> clk w + timeout + millis 520 + 10 * late"
  using process_port_bounded(1) [OF assms, of "''cmd''" "[''/C'', command]" timeout w]
  by (auto simp: windows_execute_def split: prod.split)

end
