(* ===== verification/Mcp_Transport.thy ===== *)
theory Mcp_Transport
  imports Mcp
begin

text \<open>
  The transport of an MCP client over a child process (\<open>crates/mcp/src/child_process.rs\<close>): a reader
  thread forwards the lines of the child's output, and the client waits for each of them with a
  deadline. What the child writes and when is a parameter: the reads of the thread with the times at
  which they return. The client's reading loop of \<open>stdio.rs\<close> over this transport is \<open>transport_await\<close>,
  with the same body \<open>read_response\<close> as over a list of lines.
\<close>

section \<open>The reader thread\<close>

text \<open>\<open>BufRead::read_line\<close>: a line, the end of the output (\<open>Ok(0)\<close>) or an error.\<close>

datatype line_read = ReadLine string | ReadEof | ReadFault string

text \<open>
  What the thread sends, with the times: blank lines are skipped, lines are trimmed, and it stops
  after the first error or when the receiver is gone.
\<close>

fun read_lines :: "(nat \<Rightarrow> bool) \<Rightarrow> nat \<Rightarrow> (nat \<times> line_read) list \<Rightarrow> (nat \<times> (string + string)) list" where
  "read_lines gone n [] = []"
| "read_lines gone n ((t, ReadLine l) # reads) =
     (if trim l = [] then read_lines gone n reads
      else if gone n then [] else (t, Inr (trim l)) # read_lines gone (n + 1) reads)"
| "read_lines gone n ((t, ReadEof) # reads) = (if gone n then [] else [(t, Inl ''child process closed stdout'')])"
| "read_lines gone n ((t, ReadFault e) # reads) = (if gone n then [] else [(t, Inl e)])"

section \<open>The transport\<close>

text \<open>
  Time is in nanoseconds. \<open>ct_stopped\<close> is when the reader thread ends, if it does; \<open>ct_printed\<close> is the
  printed form of the timeout.
\<close>

record child_transport =
  ct_now :: nat
  ct_lines :: "(nat \<times> (string + string)) list"
  ct_stopped :: "nat option"
  ct_timeout :: duration
  ct_printed :: string

definition timed_out :: "child_transport \<Rightarrow> (string + string) \<times> child_transport" where
  "timed_out t =
     (Inl (''no response from MCP server within '' @ ct_printed t), t\<lparr>ct_now := ct_now t + ct_timeout t\<rparr>)"

definition transport_read_line :: "child_transport \<Rightarrow> (string + string) \<times> child_transport" where
  "transport_read_line t =
     (case ct_lines t of
        (at, m) # rest \<Rightarrow>
          if at \<le> ct_now t + ct_timeout t
          then (m, t\<lparr>ct_now := max (ct_now t) at, ct_lines := rest\<rparr>) else timed_out t
      | [] \<Rightarrow>
          (case ct_stopped t of
             None \<Rightarrow> timed_out t
           | Some at \<Rightarrow>
               if at \<le> ct_now t + ct_timeout t
               then (Inl (''MCP server'' @ quote @ ''s reader thread stopped''), t\<lparr>ct_now := max (ct_now t) at\<rparr>)
               else timed_out t))"

lemma read_line_shrinks: "transport_read_line t = (Inr l, t') \<Longrightarrow> length (ct_lines t') < length (ct_lines t)"
  by (auto simp: transport_read_line_def timed_out_def split: list.splits option.splits if_splits)

text \<open>The client's loop for the answer to request \<open>i\<close>.\<close>

function transport_await ::
  "'v rpc_codec \<Rightarrow> u64 \<Rightarrow> child_transport \<Rightarrow> (mcp_error + 'v) \<times> child_transport" where
  "transport_await codec i t =
     (case transport_read_line t of
        (Inl e, t') \<Rightarrow> (Inl (McpTransport e), t')
      | (Inr line, t') \<Rightarrow>
          (case read_response codec i line of
             None \<Rightarrow> transport_await codec i t'
           | Some res \<Rightarrow> (res, t')))"
  by pat_completeness auto
termination
  by (relation "measure (\<lambda>(codec, i, t). length (ct_lines t))") (auto dest: read_line_shrinks [OF sym])

declare transport_await.simps [simp del]

section \<open>A transport whose reads are bounded\<close>

text \<open>
  The contract of a transport with a deadline: a read takes at most the timeout. A client that reads
  until a message is its answer then waits at most one timeout for each message it reads.
\<close>

locale bounded_reads =
  fixes read :: "'t \<Rightarrow> (string + string) \<times> 't" and clk :: "'t \<Rightarrow> nat" and limit :: "'t \<Rightarrow> nat"
  assumes read_bounded: "clk (snd (read t)) \<le> clk t + limit t"
    and limit_kept: "limit (snd (read t)) = limit t"
begin

lemma reads_bounded: "clk (((\<lambda>t. snd (read t)) ^^ n) t) \<le> clk t + n * limit t"
proof (induction n arbitrary: t)
  case (Suc n)
  have "clk (((\<lambda>t. snd (read t)) ^^ n) (snd (read t))) \<le> clk (snd (read t)) + n * limit t"
    using Suc.IH [of "snd (read t)"] by (simp add: limit_kept)
  also have "\<dots> \<le> clk t + limit t + n * limit t" using read_bounded [of t] by simp
  finally show ?case by (simp add: funpow_Suc_right comp_def del: funpow.simps)
qed simp

end

interpretation child: bounded_reads transport_read_line ct_now ct_timeout
  by unfold_locales (auto simp: transport_read_line_def timed_out_def split: list.split option.split)

section \<open>What a request returns\<close>

text \<open>
  The lines of a child's output that count, with their times: trimmed, without the blank ones, up to
  the end or the first error.
\<close>

fun output_lines :: "(nat \<times> line_read) list \<Rightarrow> (nat \<times> string) list" where
  "output_lines [] = []"
| "output_lines ((t, ReadLine l) # reads) = (if trim l = [] then [] else [(t, trim l)]) @ output_lines reads"
| "output_lines ((t, ReadEof) # reads) = []"
| "output_lines ((t, ReadFault e) # reads) = []"

text \<open>Whether each of the times is at most \<open>d\<close> after the latest one before it.\<close>

fun in_time :: "nat \<Rightarrow> duration \<Rightarrow> nat list \<Rightarrow> bool" where
  "in_time now d [] = True"
| "in_time now d (t # ts) = (t \<le> now + d \<and> in_time (max now t) d ts)"

text \<open>A well-formed message that is not the response to request \<open>i\<close>, and the result of one that is.\<close>

definition foreign :: "'v rpc_codec \<Rightarrow> u64 \<Rightarrow> string \<Rightarrow> bool" where
  "foreign codec i line = (case decode_response codec line of Inl e \<Rightarrow> False | Inr r \<Rightarrow> rpc_id r \<noteq> Some i)"

definition own_result :: "'v rpc_codec \<Rightarrow> u64 \<Rightarrow> string \<Rightarrow> 'v option" where
  "own_result codec i line =
     (case decode_response codec line of
        Inl e \<Rightarrow> None
      | Inr r \<Rightarrow> if rpc_id r = Some i \<and> rpc_error r = None then rpc_result r else None)"

lemma read_response_foreign: "read_response codec i line = None \<longleftrightarrow> foreign codec i line"
  by (auto simp: foreign_def split: sum.split)

lemma read_response_own: "read_response codec i line = Some (Inr v) \<longleftrightarrow> own_result codec i line = Some v"
  by (auto simp: own_result_def split: sum.split option.split)

lemma own_not_foreign: "own_result codec i line = Some v \<Longrightarrow> \<not> foreign codec i line"
  by (auto simp: own_result_def foreign_def split: sum.splits if_splits)

text \<open>The answer is the first message that is not foreign, and every one up to it comes in time.\<close>

definition answered :: "'v rpc_codec \<Rightarrow> u64 \<Rightarrow> nat \<Rightarrow> duration \<Rightarrow> (nat \<times> string) list \<Rightarrow> 'v \<Rightarrow> bool" where
  "answered codec i now d ls v \<longleftrightarrow>
     (\<exists>before at line after. ls = before @ (at, line) # after \<and> list_all (\<lambda>(t, l). foreign codec i l) before \<and>
        own_result codec i line = Some v \<and> in_time now d (map fst before @ [at]))"

lemma answered_simps [simp]:
  "answered codec i now d [] v \<longleftrightarrow> False"
  "answered codec i now d ((t, l) # ls) v \<longleftrightarrow> t \<le> now + d \<and>
     (own_result codec i l = Some v \<or> foreign codec i l \<and> answered codec i (max now t) d ls v)"
proof -
  show "answered codec i now d ((t, l) # ls) v \<longleftrightarrow> t \<le> now + d \<and>
      (own_result codec i l = Some v \<or> foreign codec i l \<and> answered codec i (max now t) d ls v)" (is "?l \<longleftrightarrow> ?r")
  proof
    assume ?l
    then obtain before at line after where split: "(t, l) # ls = before @ (at, line) # after"
      "list_all (\<lambda>(t, l). foreign codec i l) before" "own_result codec i line = Some v"
      "in_time now d (map fst before @ [at])" by (auto simp: answered_def)
    then show ?r by (cases before) (auto simp: answered_def)
  next
    assume r: ?r
    show ?l
    proof (cases "own_result codec i l = Some v")
      case True
      with r show ?thesis unfolding answered_def by (intro exI [of _ "[]"]) auto
    next
      case False
      with r obtain before at line after where "ls = before @ (at, line) # after" "foreign codec i l"
        "list_all (\<lambda>(t, l). foreign codec i l) before" "own_result codec i line = Some v"
        "in_time (max now t) d (map fst before @ [at])" by (auto simp: answered_def)
      with r show ?thesis unfolding answered_def by (intro exI [of _ "(t, l) # before"]) auto
    qed
  qed
qed (simp add: answered_def)

text \<open>The client at the time \<open>now\<close>, with a child whose output is still to be read.\<close>

definition child_client :: "nat \<Rightarrow> duration \<Rightarrow> string \<Rightarrow> nat option \<Rightarrow> (nat \<times> line_read) list \<Rightarrow> child_transport" where
  "child_client now d printed stopped reads =
     \<lparr>ct_now = now, ct_lines = read_lines (\<lambda>_. False) 0 reads, ct_stopped = stopped, ct_timeout = d, ct_printed = printed\<rparr>"

lemma read_lines_index: "read_lines (\<lambda>_. False) n reads = read_lines (\<lambda>_. False) m reads"
proof (induction reads arbitrary: n m)
  case (Cons r reads)
  obtain t x where r: "r = (t, x)" by fastforce
  from Cons.IH [of n m] Cons.IH [of "n + 1" "m + 1"] show ?case unfolding r by (cases x) (simp_all only: read_lines.simps if_False)
qed simp

lemma child_client_blank:
  "trim l = [] \<Longrightarrow> child_client now d printed stopped ((t, ReadLine l) # reads) = child_client now d printed stopped reads"
  by (simp add: child_client_def)

lemma child_client_reads:
  "trim l \<noteq> [] \<Longrightarrow> t \<le> now + d \<Longrightarrow>
    transport_read_line (child_client now d printed stopped ((t, ReadLine l) # reads)) =
      (Inr (trim l), child_client (max now t) d printed stopped reads)"
  by (simp add: child_client_def transport_read_line_def) (rule read_lines_index)

lemma child_client_fails:
  assumes "case reads of (t, ReadLine l) # rest \<Rightarrow> trim l \<noteq> [] \<and> now + d < t | _ \<Rightarrow> True"
  shows "\<exists>e t'. transport_read_line (child_client now d printed stopped reads) = (Inl e, t')"
  using assms
proof (cases reads)
  case Nil
  then show ?thesis by (auto simp: child_client_def transport_read_line_def timed_out_def split: option.split)
next
  case (Cons rd rest)
  obtain t x where "rd = (t, x)" by fastforce
  with Cons assms show ?thesis
    by (cases x) (auto simp: child_client_def transport_read_line_def timed_out_def)
qed

lemma child_await:
  "(fst (transport_await codec i (child_client now d printed stopped reads)) = Inr v \<longleftrightarrow>
     answered codec i now d (output_lines reads) v) \<and>
   (\<exists>n. n \<le> length (takeWhile (\<lambda>(t, l). foreign codec i l) (output_lines reads)) + 1 \<and>
     snd (transport_await codec i (child_client now d printed stopped reads)) =
       ((\<lambda>t. snd (transport_read_line t)) ^^ n) (child_client now d printed stopped reads))"
proof (induction reads arbitrary: now)
  case Nil
  obtain e t' where "transport_read_line (child_client now d printed stopped []) = (Inl e, t')"
    using child_client_fails [where reads = "[]" and now = now and d = d and printed = printed and stopped = stopped] by auto
  then show ?case by (auto simp: transport_await.simps intro!: exI [of _ 1])
next
  case (Cons rd reads)
  obtain t x where rd: "rd = (t, x)" by fastforce
  let ?c = "child_client now d printed stopped (rd # reads)"
  show ?case
  proof (cases "\<exists>l. x = ReadLine l \<and> (trim l = [] \<or> t \<le> now + d)")
    case False
    then obtain e t' where "transport_read_line ?c = (Inl e, t')"
      using child_client_fails [where reads = "rd # reads" and now = now and d = d and printed = printed and stopped = stopped] rd
      by (cases x) auto
    moreover have "\<not> answered codec i now d (output_lines (rd # reads)) v"
      using False rd by (cases x) auto
    ultimately show ?thesis by (auto simp: transport_await.simps [of codec i ?c] intro!: exI [of _ 1])
  next
    case True
    then obtain l where l: "x = ReadLine l" "trim l = [] \<or> t \<le> now + d" by blast
    show ?thesis
    proof (cases "trim l = []")
      case True
      with Cons.IH [of now] rd l show ?thesis by (simp add: child_client_blank)
    next
      case False
      let ?c' = "child_client (max now t) d printed stopped reads"
      have read: "transport_read_line ?c = (Inr (trim l), ?c')"
        using child_client_reads False l rd by simp
      have out: "output_lines (rd # reads) = (t, trim l) # output_lines reads" using False l rd by simp
      show ?thesis
      proof (cases "foreign codec i (trim l)")
        case True
        then have "read_response codec i (trim l) = None" by (simp only: read_response_foreign)
        then have step: "transport_await codec i ?c = transport_await codec i ?c'"
          using read by (simp add: transport_await.simps [of codec i ?c] del: read_response_def)
        have "own_result codec i (trim l) \<noteq> Some v" using own_not_foreign [of codec i "trim l" v] True by auto
        moreover obtain n where n: "n \<le> length (takeWhile (\<lambda>(t, l). foreign codec i l) (output_lines reads)) + 1"
            "snd (transport_await codec i ?c') = ((\<lambda>t. snd (transport_read_line t)) ^^ n) ?c'"
          using Cons.IH [of "max now t"] by blast
        moreover have "((\<lambda>t. snd (transport_read_line t)) ^^ Suc n) ?c = ((\<lambda>t. snd (transport_read_line t)) ^^ n) ?c'"
          using read by (simp add: funpow_Suc_right comp_def del: funpow.simps)
        ultimately show ?thesis
          unfolding step out using True l False Cons.IH [of "max now t"]
          by (intro conjI exI [of _ "Suc n"]) (simp_all del: funpow.simps)
      next
        case other: False
        then obtain res where res: "read_response codec i (trim l) = Some res"
          using read_response_foreign [of codec i "trim l"] by (cases "read_response codec i (trim l)") auto
        then have step: "transport_await codec i ?c = (res, ?c')"
          using read by (simp add: transport_await.simps [of codec i ?c] del: read_response_def)
        show ?thesis
          unfolding step out
          using other l False read res read_response_own [of codec i "trim l" v]
          by (intro conjI exI [of _ 1]) (auto simp del: read_response_def)
      qed
    qed
  qed
qed

text \<open>
  C19. A request to a child process succeeds exactly when the child's output says so: the first of its
  lines that is not a well-formed message of another id is the response to this request, with a result
  and no error, and it and all lines before it came at most one timeout after the one before. Blank
  lines do not count, and nothing after the end of the output or a read error is seen. Whatever the
  child writes, the caller waits at most one timeout for each message of another id it starts with
  and one more.
\<close>

theorem child_request_answered:
  "(fst (transport_await codec i (child_client now d printed stopped reads)) = Inr v \<longleftrightarrow>
     (\<exists>before at line after. output_lines reads = before @ (at, line) # after \<and>
        list_all (\<lambda>(t, l). foreign codec i l) before \<and> own_result codec i line = Some v \<and>
        in_time now d (map fst before @ [at]))) \<and>
   ct_now (snd (transport_await codec i (child_client now d printed stopped reads))) \<le>
     now + (length (takeWhile (\<lambda>(t, l). foreign codec i l) (output_lines reads)) + 1) * d"
proof -
  let ?c = "child_client now d printed stopped reads"
  let ?k = "length (takeWhile (\<lambda>(t, l). foreign codec i l) (output_lines reads)) + 1"
  obtain n where n: "n \<le> ?k" "snd (transport_await codec i ?c) = ((\<lambda>t. snd (transport_read_line t)) ^^ n) ?c"
    using conjunct2 [OF child_await [of codec i now d printed stopped reads v]] by blast
  have "ct_now (snd (transport_await codec i ?c)) \<le> ct_now ?c + n * ct_timeout ?c"
    unfolding n(2) by (rule child.reads_bounded)
  also have "\<dots> \<le> now + ?k * d"
    using mult_le_mono1 [OF n(1), of d] by (simp add: child_client_def)
  finally show ?thesis
    using conjunct1 [OF child_await [of codec i now d printed stopped reads v], unfolded answered_def] by blast
qed

text \<open>
  The deadline is one of a line, not of a request: a server that sends a notification just before
  each deadline keeps the caller waiting for as long as it likes.
\<close>

fun note_stream :: "nat \<Rightarrow> nat \<Rightarrow> (nat \<times> (string + string)) list" where
  "note_stream k 0 = []"
| "note_stream k (Suc n) = (Suc k, Inr ''note'') # note_stream (Suc k) n"

definition chatty :: "nat \<Rightarrow> nat \<Rightarrow> child_transport" where
  "chatty k n = \<lparr>ct_now = k, ct_lines = note_stream k n, ct_stopped = None, ct_timeout = 1, ct_printed = ''1ns''\<rparr>"

lemma chatty_server_blocks:
  assumes "decode_response codec ''note'' = Inr r" and "rpc_id r = None"
  shows "ct_now (snd (transport_await codec i (chatty k n))) = k + n + 1"
proof (induction n arbitrary: k)
  case 0
  show ?case
    by (simp add: transport_await.simps [of codec i] transport_read_line_def timed_out_def chatty_def)
next
  case (Suc n)
  have "transport_read_line (chatty k (Suc n)) = (Inr ''note'', chatty (Suc k) n)"
    by (simp add: transport_read_line_def chatty_def)
  then have "transport_await codec i (chatty k (Suc n)) = transport_await codec i (chatty (Suc k) n)"
    using assms by (simp add: transport_await.simps [of codec i "chatty k (Suc n)"])
  with Suc.IH [of "Suc k"] show ?case by simp
qed

end
