(* ===== verification/Overlay.thy ===== *)
theory Overlay
  imports Rust_Text
begin

text \<open>
  The desktop overlay (\<open>apps/nala-overlay\<close>): the state that its window, its recording threads, its
  connection manager and its player share, with every access of one of them as a step, the reading
  loop of the connection, the configuration file and the colors. Loudness levels are a type \<open>'a\<close> with
  a zero; \<open>'c\<close> are clips and \<open>'u\<close> recorded utterances. \<open>Overlay_Scene\<close> holds the drawing; the audio
  device is left out.
\<close>

section \<open>Status and colors\<close>

datatype overlay_status = OverlayIdle | OverlayListening | OverlaySending | OverlaySpeaking | OverlayError

type_synonym rgb = "nat \<times> nat \<times> nat"

fun status_color :: "overlay_status \<Rightarrow> rgb" where
  "status_color OverlayIdle = (40, 110, 210)"
| "status_color OverlayListening = (90, 200, 255)"
| "status_color OverlaySending = (180, 120, 255)"
| "status_color OverlaySpeaking = (60, 220, 130)"
| "status_color OverlayError = (230, 60, 60)"

fun accent_color :: "overlay_status \<Rightarrow> rgb" where
  "accent_color OverlayIdle = (120, 190, 255)"
| "accent_color OverlayListening = (180, 230, 255)"
| "accent_color OverlaySending = (215, 180, 255)"
| "accent_color OverlaySpeaking = (160, 240, 190)"
| "accent_color OverlayError = (255, 150, 150)"

definition glow_color :: "overlay_status \<Rightarrow> rgb \<times> nat" where
  "glow_color st = (status_color st, 70)"

lemma status_color_inj: "status_color st = status_color st' \<Longrightarrow> st = st'"
  by (cases st; cases st') simp_all

section \<open>The clip loop\<close>

datatype 'c socket_event =
    SockBinary 'c
  | SockClose
  | SockNoise
  | SockConnectionClosed
  | SockAlreadyClosed
  | SockWouldBlock
  | SockTimedOut
  | SockFault string

datatype 'c clip_event = Clip 'c | ClipIdle | ClipClosed

fun poll_event :: "'c socket_event \<Rightarrow> string + 'c clip_event" where
  "poll_event (SockBinary c) = Inr (Clip c)"
| "poll_event SockClose = Inr ClipClosed"
| "poll_event SockNoise = Inr ClipIdle"
| "poll_event SockConnectionClosed = Inr ClipClosed"
| "poll_event SockAlreadyClosed = Inr ClipClosed"
| "poll_event SockWouldBlock = Inr ClipIdle"
| "poll_event SockTimedOut = Inr ClipIdle"
| "poll_event (SockFault e) = Inl e"

text \<open>The clips handed on and the number of sleeps, and whether the loop has returned.\<close>

fun run_clip_loop :: "'c socket_event list \<Rightarrow> 'c list \<times> nat \<times> bool" where
  "run_clip_loop [] = ([], 0, False)"
| "run_clip_loop (ev # evs) =
     (case poll_event ev of
        Inr (Clip c) \<Rightarrow> (case run_clip_loop evs of (cs, n, ended) \<Rightarrow> (c # cs, n, ended))
      | Inr ClipIdle \<Rightarrow> (case run_clip_loop evs of (cs, n, ended) \<Rightarrow> (cs, n + 1, ended))
      | Inr ClipClosed \<Rightarrow> ([], 0, True)
      | Inl e \<Rightarrow> ([], 0, True))"

section \<open>The configuration file\<close>

text \<open>
  \<open>parse_f32\<close>, \<open>is_finite\<close> and \<open>show_f32\<close> are the parser, the test and the printed form of 32-bit
  floats; \<open>low\<close> and \<open>high\<close> are the smallest and the largest size.
\<close>

definition clamp_size :: "'f::linorder \<Rightarrow> 'f \<Rightarrow> 'f \<Rightarrow> 'f" where
  "clamp_size low high v = (if v < low then low else if high < v then high else v)"

definition config_value :: "string \<Rightarrow> string option" where
  "config_value line = Option.bind (strip_prefix ''size'' line) (strip_prefix ''='')"

fun find_map :: "('x \<Rightarrow> 'y option) \<Rightarrow> 'x list \<Rightarrow> 'y option" where
  "find_map f [] = None"
| "find_map f (x # xs) = (case f x of Some y \<Rightarrow> Some y | None \<Rightarrow> find_map f xs)"

definition config_parse ::
  "(string \<Rightarrow> 'f option) \<Rightarrow> ('f \<Rightarrow> bool) \<Rightarrow> 'f::linorder \<Rightarrow> 'f \<Rightarrow> string \<Rightarrow> 'f option" where
  "config_parse parse_f32 is_finite low high t =
     (case Option.bind (find_map config_value (str_lines t)) (\<lambda>v. parse_f32 (trim v)) of
        None \<Rightarrow> None
      | Some v \<Rightarrow> if \<not> is_finite v then None else Some (clamp_size low high v))"

definition config_format :: "('f \<Rightarrow> string) \<Rightarrow> 'f \<Rightarrow> string" where
  "config_format show_f32 points = ''size='' @ show_f32 points @ nl"

text \<open>What the overlay starts with: the file's size, and a fixed one when there is none.\<close>

definition config_load ::
  "(string \<Rightarrow> 'f option) \<Rightarrow> ('f \<Rightarrow> bool) \<Rightarrow> 'f::linorder \<Rightarrow> 'f \<Rightarrow> 'f \<Rightarrow> string option \<Rightarrow> 'f" where
  "config_load parse_f32 is_finite low high standard file =
     (case Option.bind file (config_parse parse_f32 is_finite low high) of Some v \<Rightarrow> v | None \<Rightarrow> standard)"

text \<open>
  \<open>save\<close>: nothing is written without \<open>APPDATA\<close> or when the directory cannot be made or the file not
  written; \<open>writable\<close> says that none of this happens.
\<close>

definition config_save :: "('f \<Rightarrow> string) \<Rightarrow> bool \<Rightarrow> 'f \<Rightarrow> string option \<Rightarrow> string option" where
  "config_save show_f32 writable points file = (if writable then Some (config_format show_f32 points) else file)"

text \<open>
  \<open>handle_resize\<close>: \<open>grow\<close> adds a scroll to a size. The size of the window, when it was saved last, and
  the file.
\<close>

record 'f window =
  win_size :: 'f
  win_saved_at :: "nat option"
  win_file :: "string option"

definition handle_resize ::
  "('f \<Rightarrow> string) \<Rightarrow> bool \<Rightarrow> ('f \<Rightarrow> 'f \<Rightarrow> 'f) \<Rightarrow> 'f::{linorder, zero} \<Rightarrow> 'f \<Rightarrow> nat \<Rightarrow> 'f \<Rightarrow> 'f window \<Rightarrow> 'f window" where
  "handle_resize show_f32 writable grow low high now scroll w =
     (if scroll = 0 then w
      else
        let v = clamp_size low high (grow (win_size w) scroll)
        in if v = win_size w then w
           else
             let w = w\<lparr>win_size := v\<rparr>
             in if (case win_saved_at w of None \<Rightarrow> True | Some t \<Rightarrow> t + 500 \<le> now)
                then w\<lparr>win_file := config_save show_f32 writable v (win_file w), win_saved_at := Some now\<rparr> else w)"

lemma clamp_size_bounds: "low \<le> high \<Longrightarrow> low \<le> clamp_size low high v \<and> clamp_size low high v \<le> high"
  by (auto simp: clamp_size_def)

lemma clamp_size_id: "low \<le> v \<Longrightarrow> v \<le> high \<Longrightarrow> clamp_size low high v = v"
  by (auto simp: clamp_size_def)

lemma handle_resize_bounds:
  assumes "low \<le> high" and "low \<le> win_size w \<and> win_size w \<le> high"
  shows "low \<le> win_size (handle_resize show_f32 writable grow low high now scroll w) \<and>
    win_size (handle_resize show_f32 writable grow low high now scroll w) \<le> high"
  using assms clamp_size_bounds [OF assms(1)] by (auto simp: handle_resize_def Let_def)

text \<open>
  A printed float has no space, so the file that is saved is read back as the size it was saved with.
\<close>

lemma config_round_trip:
  assumes "trim (show_f32 v) = show_f32 v" and "set (show_f32 v) \<inter> {CHR 0x0A, CHR 0x0D} = {}"
    and "parse_f32 (show_f32 v) = Some v" and "is_finite v" and "low \<le> v" "v \<le> high"
  shows "config_load parse_f32 is_finite low high standard (Some (config_format show_f32 v)) = v"
proof -
  let ?l = "''size='' @ show_f32 v"
  have "CHR 0x0A \<notin> set ?l" using assms(2) by simp
  then have "str_lines (config_format show_f32 v) = [strip_cr ?l]"
    using str_lines_line [of ?l] by (simp add: config_format_def nl_def)
  moreover have "strip_cr ?l = ?l"
  proof (cases "show_f32 v = []")
    case False
    then have "last (show_f32 v) \<in> set (show_f32 v)" by simp
    with assms(2) have "last (show_f32 v) \<noteq> CHR 0x0D" by (metis IntI empty_iff insertCI)
    with False show ?thesis by (simp add: strip_cr_def)
  qed (simp add: strip_cr_def)
  moreover have "config_value ?l = Some (show_f32 v)"
    using strip_prefix_append [of "''size''" "''='' @ show_f32 v"] strip_prefix_append [of "''=''" "show_f32 v"]
    by (simp add: config_value_def)
  ultimately show ?thesis using assms by (simp add: config_load_def config_parse_def clamp_size_id)
qed

text \<open>
  The saves are spaced by half a second and nothing saves later: two scrolls in a row leave the size
  of the first in the file.
\<close>

lemma resize_not_saved:
  "let w = handle_resize show_nat True (+) 64 320 0 10 \<lparr>win_size = 160, win_saved_at = None, win_file = None\<rparr>;
       w' = handle_resize show_nat True (+) 64 320 100 20 w
   in win_size w' = 190 \<and> win_file w' = Some (config_format show_nat 170)"
  by (simp add: handle_resize_def clamp_size_def config_save_def)

section \<open>The shared state\<close>

text \<open>
  A recording thread: started, capturing, with its recording, after it reset the level, sending, and
  after it looked the connection up. A recording is \<open>None\<close> when the microphone failed.
\<close>

datatype 'u rec_phase =
    RecStarted
  | Recording
  | Recorded "'u option"
  | LevelReset "'u option"
  | SendPending 'u
  | SendOn "nat option" 'u
  | RecSent
  | RecDone

datatype 'c player = PlayerIdle | PlayTaken 'c | Playing 'c | PlayerReset | PlayerGone

datatype manager = Disconnected | Reading nat | ReadEnded

text \<open>
  \<open>ov_finished\<close> are the clips the player has done with, those it played and those it skipped because they
  could not be decoded.
\<close>

record ('a, 'c, 'u) overlay =
  ov_status :: overlay_status
  ov_level :: 'a
  ov_held :: bool
  ov_connection :: "nat option"
  ov_recorders :: "'u rec_phase list"
  ov_player :: "'c player"
  ov_queue :: "'c list"
  ov_manager :: manager
  ov_connects :: nat
  ov_received :: "'c list"
  ov_finished :: "'c list"
  ov_sends :: "(nat \<times> 'u) list"

definition overlay_new :: "('a::zero, 'c, 'u) overlay" where
  "overlay_new = \<lparr>ov_status = OverlayIdle, ov_level = 0, ov_held = False, ov_connection = None, ov_recorders = [],
     ov_player = PlayerIdle, ov_queue = [], ov_manager = Disconnected, ov_connects = 0, ov_received = [],
     ov_finished = [], ov_sends = []\<rparr>"

definition set_phase :: "nat \<Rightarrow> 'u rec_phase \<Rightarrow> ('a, 'c, 'u) overlay \<Rightarrow> ('a, 'c, 'u) overlay" where
  "set_phase i ph s = s\<lparr>ov_recorders := (ov_recorders s)[i := ph]\<rparr>"

definition in_phase :: "('a, 'c, 'u) overlay \<Rightarrow> nat \<Rightarrow> 'u rec_phase \<Rightarrow> bool" where
  "in_phase s i ph \<longleftrightarrow> i < length (ov_recorders s) \<and> ov_recorders s ! i = ph"

text \<open>\<open>is_held.swap(!is_held)\<close>, and a recording thread when nothing was held.\<close>

definition click :: "('a, 'c, 'u) overlay \<Rightarrow> ('a, 'c, 'u) overlay" where
  "click s =
     (let was_held = ov_held s; s = s\<lparr>ov_held := \<not> was_held\<rparr>
      in if \<not> was_held then s\<lparr>ov_recorders := ov_recorders s @ [RecStarted]\<rparr> else s)"

text \<open>\<open>record_and_send\<close>, one access of the shared state at a time.\<close>

definition rec_listen :: "nat \<Rightarrow> ('a, 'c, 'u) overlay \<Rightarrow> ('a, 'c, 'u) overlay" where
  "rec_listen i s = set_phase i Recording (s\<lparr>ov_status := OverlayListening\<rparr>)"

definition rec_reset :: "nat \<Rightarrow> 'u option \<Rightarrow> ('a::zero, 'c, 'u) overlay \<Rightarrow> ('a, 'c, 'u) overlay" where
  "rec_reset i r s = set_phase i (LevelReset r) (s\<lparr>ov_level := 0\<rparr>)"

definition rec_report :: "nat \<Rightarrow> 'u option \<Rightarrow> ('a, 'c, 'u) overlay \<Rightarrow> ('a, 'c, 'u) overlay" where
  "rec_report i r s =
     (case r of
        None \<Rightarrow> set_phase i RecDone (s\<lparr>ov_status := OverlayError\<rparr>)
      | Some u \<Rightarrow> set_phase i (SendPending u) (s\<lparr>ov_status := OverlaySending\<rparr>))"

definition rec_lookup :: "nat \<Rightarrow> 'u \<Rightarrow> ('a, 'c, 'u) overlay \<Rightarrow> ('a, 'c, 'u) overlay" where
  "rec_lookup i u s = set_phase i (SendOn (ov_connection s) u) s"

definition rec_send :: "nat \<Rightarrow> nat option \<Rightarrow> 'u \<Rightarrow> ('a, 'c, 'u) overlay \<Rightarrow> ('a, 'c, 'u) overlay" where
  "rec_send i conn u s =
     set_phase i RecSent (case conn of Some c \<Rightarrow> s\<lparr>ov_sends := ov_sends s @ [(c, u)]\<rparr> | None \<Rightarrow> s)"

definition rec_finish :: "nat \<Rightarrow> ('a, 'c, 'u) overlay \<Rightarrow> ('a, 'c, 'u) overlay" where
  "rec_finish i s = set_phase i RecDone (s\<lparr>ov_status := OverlayIdle\<rparr>)"

text \<open>The connection manager: connected, a clip read, the loop ended, the connection withdrawn.\<close>

definition mgr_connect :: "('a, 'c, 'u) overlay \<Rightarrow> ('a, 'c, 'u) overlay" where
  "mgr_connect s = s\<lparr>ov_connection := Some (ov_connects s), ov_manager := Reading (ov_connects s),
     ov_connects := ov_connects s + 1\<rparr>"

definition mgr_clip :: "'c \<Rightarrow> ('a, 'c, 'u) overlay \<Rightarrow> ('a, 'c, 'u) overlay" where
  "mgr_clip c s =
     (if ov_player s = PlayerGone then s
      else s\<lparr>ov_queue := ov_queue s @ [c], ov_received := ov_received s @ [c]\<rparr>)"

definition mgr_withdraw :: "('a, 'c, 'u) overlay \<Rightarrow> ('a, 'c, 'u) overlay" where
  "mgr_withdraw s = s\<lparr>ov_connection := None, ov_manager := Disconnected\<rparr>"

text \<open>
  The player: a clip taken, skipped when it cannot be decoded or played, its levels, the reset at its
  end, and the status after it. Without an output device the player's thread ends before its first clip.
\<close>

fun play_take :: "('a, 'c, 'u) overlay \<Rightarrow> ('a, 'c, 'u) overlay" where
  "play_take s =
     (case ov_queue s of
        [] \<Rightarrow> s
      | c # rest \<Rightarrow> s\<lparr>ov_queue := rest, ov_player := PlayTaken c, ov_status := OverlaySpeaking\<rparr>)"

definition play_reset :: "'c \<Rightarrow> ('a::zero, 'c, 'u) overlay \<Rightarrow> ('a, 'c, 'u) overlay" where
  "play_reset c s = s\<lparr>ov_level := 0, ov_player := PlayerReset, ov_finished := ov_finished s @ [c]\<rparr>"

definition play_skip :: "'c \<Rightarrow> ('a, 'c, 'u) overlay \<Rightarrow> ('a, 'c, 'u) overlay" where
  "play_skip c s = s\<lparr>ov_player := PlayerReset, ov_finished := ov_finished s @ [c]\<rparr>"

definition play_no_device :: "('a, 'c, 'u) overlay \<Rightarrow> ('a, 'c, 'u) overlay" where
  "play_no_device s = s\<lparr>ov_player := PlayerGone, ov_queue := []\<rparr>"

definition play_done :: "('a, 'c, 'u) overlay \<Rightarrow> ('a, 'c, 'u) overlay" where
  "play_done s = s\<lparr>ov_status := OverlayIdle, ov_player := PlayerIdle\<rparr>"

section \<open>Steps\<close>

text \<open>
  A recording fails only before its loop starts, so whatever \<open>ov_held\<close> is; it ends well when the
  button is not held.
\<close>

inductive overlay_step :: "('a::zero, 'c, 'u) overlay \<Rightarrow> ('a, 'c, 'u) overlay \<Rightarrow> bool" where
  step_click: "overlay_step s (click s)"
| step_listen: "in_phase s i RecStarted \<Longrightarrow> overlay_step s (rec_listen i s)"
| step_level: "in_phase s i Recording \<Longrightarrow> overlay_step s (s\<lparr>ov_level := a\<rparr>)"
| step_recorded: "in_phase s i Recording \<Longrightarrow> \<not> ov_held s \<Longrightarrow> overlay_step s (set_phase i (Recorded (Some u)) s)"
| step_failed: "in_phase s i Recording \<Longrightarrow> overlay_step s (set_phase i (Recorded None) s)"
| step_reset: "in_phase s i (Recorded r) \<Longrightarrow> overlay_step s (rec_reset i r s)"
| step_report: "in_phase s i (LevelReset r) \<Longrightarrow> overlay_step s (rec_report i r s)"
| step_lookup: "in_phase s i (SendPending u) \<Longrightarrow> overlay_step s (rec_lookup i u s)"
| step_send: "in_phase s i (SendOn conn u) \<Longrightarrow> overlay_step s (rec_send i conn u s)"
| step_finish: "in_phase s i RecSent \<Longrightarrow> overlay_step s (rec_finish i s)"
| step_connect: "ov_manager s = Disconnected \<Longrightarrow> overlay_step s (mgr_connect s)"
| step_clip: "ov_manager s = Reading n \<Longrightarrow> overlay_step s (mgr_clip c s)"
| step_ended: "ov_manager s = Reading n \<Longrightarrow> overlay_step s (s\<lparr>ov_manager := ReadEnded\<rparr>)"
| step_withdraw: "ov_manager s = ReadEnded \<Longrightarrow> overlay_step s (mgr_withdraw s)"
| step_take: "ov_player s = PlayerIdle \<Longrightarrow> ov_queue s \<noteq> [] \<Longrightarrow> overlay_step s (play_take s)"
| step_no_device: "ov_player s = PlayerIdle \<Longrightarrow> ov_finished s = [] \<Longrightarrow> overlay_step s (play_no_device s)"
| step_skip: "ov_player s = PlayTaken c \<Longrightarrow> overlay_step s (play_skip c s)"
| step_decode: "ov_player s = PlayTaken c \<Longrightarrow> overlay_step s (s\<lparr>ov_player := Playing c\<rparr>)"
| step_play_level: "ov_player s = Playing c \<Longrightarrow> overlay_step s (s\<lparr>ov_level := a\<rparr>)"
| step_play_reset: "ov_player s = Playing c \<Longrightarrow> overlay_step s (play_reset c s)"
| step_done: "ov_player s = PlayerReset \<Longrightarrow> overlay_step s (play_done s)"

inductive overlay_run :: "('a::zero, 'c, 'u) overlay \<Rightarrow> bool" where
  run_new: "overlay_run overlay_new"
| run_next: "overlay_run s \<Longrightarrow> overlay_step s s' \<Longrightarrow> overlay_run s'"

section \<open>Every status has a cause\<close>

definition some_recorder :: "('u rec_phase \<Rightarrow> bool) \<Rightarrow> ('a, 'c, 'u) overlay \<Rightarrow> bool" where
  "some_recorder P s \<longleftrightarrow> list_ex P (ov_recorders s)"

fun capturing :: "'u rec_phase \<Rightarrow> bool" where
  "capturing Recording = True"
| "capturing (Recorded r) = True"
| "capturing (LevelReset r) = True"
| "capturing ph = False"

fun level_owner :: "'u rec_phase \<Rightarrow> bool" where
  "level_owner Recording = True"
| "level_owner (Recorded r) = True"
| "level_owner ph = False"

fun sending :: "'u rec_phase \<Rightarrow> bool" where
  "sending (SendPending u) = True"
| "sending (SendOn conn u) = True"
| "sending RecSent = True"
| "sending ph = False"

fun player_speaks :: "'c player \<Rightarrow> bool" where
  "player_speaks (PlayTaken c) = True"
| "player_speaks (Playing c) = True"
| "player_speaks PlayerReset = True"
| "player_speaks ph = False"

fun current_clip :: "'c player \<Rightarrow> 'c list" where
  "current_clip (PlayTaken c) = [c]"
| "current_clip (Playing c) = [c]"
| "current_clip ph = []"

definition overlay_inv :: "('a::zero, 'c, 'u) overlay \<Rightarrow> bool" where
  "overlay_inv s \<longleftrightarrow>
     (ov_status s = OverlayListening \<longrightarrow> some_recorder capturing s) \<and>
     (ov_status s = OverlaySending \<longrightarrow> some_recorder sending s) \<and>
     (ov_status s = OverlaySpeaking \<longrightarrow> player_speaks (ov_player s)) \<and>
     (ov_level s \<noteq> 0 \<longrightarrow> some_recorder level_owner s \<or> (\<exists>c. ov_player s = Playing c)) \<and>
     (ov_player s \<noteq> PlayerGone \<longrightarrow> ov_finished s @ current_clip (ov_player s) @ ov_queue s = ov_received s) \<and>
     (ov_connection s = None \<longrightarrow> ov_manager s = Disconnected) \<and>
     (\<forall>n. ov_connection s = Some n \<longrightarrow> (ov_manager s = Reading n \<or> ov_manager s = ReadEnded) \<and> n < ov_connects s)"

lemma list_ex_update:
  assumes "i < length xs"
  shows "P x \<Longrightarrow> list_ex P (xs[i := x])" and "list_ex P xs \<Longrightarrow> \<not> P (xs ! i) \<Longrightarrow> list_ex P (xs[i := x])"
proof -
  show "P x \<Longrightarrow> list_ex P (xs[i := x])"
    using assms by (auto simp: list_ex_iff intro: set_update_memI)
  assume "list_ex P xs" and n: "\<not> P (xs ! i)"
  then obtain j where "j < length xs" "P (xs ! j)" by (auto simp: list_ex_iff in_set_conv_nth)
  moreover from n \<open>P (xs ! j)\<close> have "i \<noteq> j" by auto
  ultimately have "xs[i := x] ! j = xs ! j" "j < length (xs[i := x])" by simp_all
  with \<open>P (xs ! j)\<close> show "list_ex P (xs[i := x])" by (metis list_ex_iff nth_mem)
qed

lemma some_recorder_set_phase:
  assumes "in_phase s i old"
  shows "P ph \<Longrightarrow> some_recorder P (set_phase i ph s)"
    and "some_recorder P s \<Longrightarrow> \<not> P old \<or> P ph \<Longrightarrow> some_recorder P (set_phase i ph s)"
  using assms list_ex_update [of i "ov_recorders s" P ph]
  by (auto simp: some_recorder_def set_phase_def in_phase_def)

lemma set_phase_sel [simp]:
  "ov_status (set_phase i ph s) = ov_status s" "ov_level (set_phase i ph s) = ov_level s"
  "ov_held (set_phase i ph s) = ov_held s" "ov_connection (set_phase i ph s) = ov_connection s"
  "ov_player (set_phase i ph s) = ov_player s" "ov_queue (set_phase i ph s) = ov_queue s"
  "ov_manager (set_phase i ph s) = ov_manager s" "ov_connects (set_phase i ph s) = ov_connects s"
  "ov_received (set_phase i ph s) = ov_received s" "ov_finished (set_phase i ph s) = ov_finished s"
  "ov_sends (set_phase i ph s) = ov_sends s"
  by (simp_all add: set_phase_def)

lemma some_recorder_cong: "ov_recorders s = ov_recorders s' \<Longrightarrow> some_recorder P s = some_recorder P s'"
  by (simp add: some_recorder_def)

lemmas overlay_ops = click_def rec_listen_def rec_reset_def rec_report_def rec_lookup_def rec_send_def rec_finish_def
  mgr_connect_def mgr_clip_def mgr_withdraw_def play_reset_def play_skip_def play_no_device_def play_done_def

text \<open>What a change of one recorder's phase, and of one other field, leaves of the recorders.\<close>

lemma phase_moves:
  assumes "in_phase s i old" and "\<And>P. some_recorder P t = some_recorder P s" and "in_phase t i old"
  shows "P ph \<Longrightarrow> some_recorder P (set_phase i ph t)"
    and "some_recorder P s \<Longrightarrow> \<not> P old \<or> P ph \<Longrightarrow> some_recorder P (set_phase i ph t)"
  using some_recorder_set_phase [OF assms(3)] assms(2) by blast+

lemma overlay_inv_rec:
  assumes inv: "overlay_inv s" and i: "in_phase s i old" and rec: "ov_recorders t = ov_recorders s"
    and same: "ov_player t = ov_player s" "ov_queue t = ov_queue s" "ov_manager t = ov_manager s"
      "ov_connects t = ov_connects s" "ov_received t = ov_received s" "ov_finished t = ov_finished s"
      "ov_connection t = ov_connection s"
    and status: "ov_status t = ov_status s \<and> (capturing old \<longrightarrow> capturing ph) \<and> (sending old \<longrightarrow> sending ph) \<or>
      (ov_status t = OverlayListening \<longrightarrow> capturing ph) \<and> (ov_status t = OverlaySending \<longrightarrow> sending ph) \<and>
        ov_status t \<noteq> OverlaySpeaking"
    and level: "ov_level t = 0 \<or> level_owner ph \<or> ov_level t = ov_level s \<and> \<not> level_owner old"
  shows "overlay_inv (set_phase i ph t)"
proof -
  from i rec have t: "in_phase t i old" by (simp add: in_phase_def)
  from rec have sr: "\<And>P. some_recorder P t = some_recorder P s" by (rule some_recorder_cong)
  note moves = phase_moves [OF i sr t]
  have "ov_status t = OverlayListening \<longrightarrow> some_recorder capturing (set_phase i ph t)"
    using status inv moves [of capturing ph] by (auto simp: overlay_inv_def)
  moreover have "ov_status t = OverlaySending \<longrightarrow> some_recorder sending (set_phase i ph t)"
    using status inv moves [of sending ph] by (auto simp: overlay_inv_def)
  moreover have "ov_level t \<noteq> 0 \<longrightarrow> some_recorder level_owner (set_phase i ph t) \<or> (\<exists>c. ov_player t = Playing c)"
    using level inv same(1) moves [of level_owner ph] by (auto simp: overlay_inv_def)
  moreover have "ov_status t = OverlaySpeaking \<longrightarrow> player_speaks (ov_player t)"
    using status inv same(1) by (auto simp: overlay_inv_def)
  ultimately show ?thesis using inv same by (simp add: overlay_inv_def)
qed

lemma click_recorder: "some_recorder P s \<Longrightarrow> some_recorder P (click s)"
  by (simp add: click_def some_recorder_def Let_def)

lemma some_recorder_upd [simp]:
  "some_recorder P (s\<lparr>ov_status := a\<rparr>) = some_recorder P s" "some_recorder P (s\<lparr>ov_level := b\<rparr>) = some_recorder P s"
  "some_recorder P (s\<lparr>ov_player := c\<rparr>) = some_recorder P s" "some_recorder P (s\<lparr>ov_queue := d\<rparr>) = some_recorder P s"
  "some_recorder P (s\<lparr>ov_manager := e\<rparr>) = some_recorder P s" "some_recorder P (s\<lparr>ov_connection := f\<rparr>) = some_recorder P s"
  "some_recorder P (s\<lparr>ov_connects := g\<rparr>) = some_recorder P s" "some_recorder P (s\<lparr>ov_received := h\<rparr>) = some_recorder P s"
  "some_recorder P (s\<lparr>ov_finished := k\<rparr>) = some_recorder P s"
  by (simp_all add: some_recorder_def)

lemma some_recorderI: "in_phase s i ph \<Longrightarrow> P ph \<Longrightarrow> some_recorder P s"
  by (auto simp: some_recorder_def in_phase_def list_ex_iff)

lemma overlay_inv_click: "overlay_inv s \<Longrightarrow> overlay_inv (click s)"
  using click_recorder [of _ s] by (auto simp: overlay_inv_def click_def Let_def)

lemma overlay_inv_step:
  assumes "overlay_step s s'" and "overlay_inv s"
  shows "overlay_inv s'"
  using assms
proof (cases rule: overlay_step.cases)
  case step_click
  with assms(2) overlay_inv_click [of s] show ?thesis by simp
next
  case (step_listen i)
  with assms(2) show ?thesis by (auto simp: rec_listen_def intro: overlay_inv_rec [of s i RecStarted])
next
  case (step_level i a)
  with assms(2) some_recorderI [of s i Recording level_owner] show ?thesis by (simp add: overlay_inv_def)
next
  case (step_recorded i u)
  with assms(2) show ?thesis by (auto intro: overlay_inv_rec [of s i Recording])
next
  case (step_failed i)
  with assms(2) show ?thesis by (auto intro: overlay_inv_rec [of s i Recording])
next
  case (step_reset i r)
  with assms(2) show ?thesis by (auto simp: rec_reset_def intro: overlay_inv_rec [of s i "Recorded r"])
next
  case (step_report i r)
  with assms(2) show ?thesis
    by (cases r) (auto simp: rec_report_def intro!: overlay_inv_rec [of s i "LevelReset r"])
next
  case (step_lookup i u)
  with assms(2) show ?thesis by (auto simp: rec_lookup_def intro: overlay_inv_rec [of s i "SendPending u"])
next
  case (step_send i conn u)
  with assms(2) show ?thesis
    by (cases conn) (auto simp: rec_send_def intro!: overlay_inv_rec [of s i "SendOn conn u"])
next
  case (step_finish i)
  with assms(2) show ?thesis by (auto simp: rec_finish_def intro: overlay_inv_rec [of s i RecSent])
next
  case (step_take)
  with assms(2) show ?thesis by (auto simp: overlay_inv_def split: list.splits)
next
  case (step_no_device)
  with assms(2) show ?thesis by (auto simp: overlay_inv_def play_no_device_def)
qed (auto simp: overlay_inv_def overlay_ops split: option.splits)

lemma overlay_run_inv: "overlay_run s \<Longrightarrow> overlay_inv s"
proof (induction rule: overlay_run.induct)
  case run_new
  show ?case by (simp add: overlay_inv_def overlay_new_def)
next
  case (run_next s s')
  then show ?case by (blast intro: overlay_inv_step)
qed

definition overlay_quiet :: "('a, 'c, 'u) overlay \<Rightarrow> bool" where
  "overlay_quiet s \<longleftrightarrow>
     list_all (\<lambda>ph. ph = RecStarted \<or> ph = RecDone) (ov_recorders s) \<and> (ov_player s = PlayerIdle \<or> ov_player s = PlayerGone)"

lemma quiet_recorders: "overlay_quiet s \<Longrightarrow> P RecStarted = False \<Longrightarrow> P RecDone = False \<Longrightarrow> \<not> some_recorder P s"
  by (auto simp: overlay_quiet_def some_recorder_def list_ex_iff list_all_iff)

lemma overlay_quiet_shows:
  assumes "overlay_inv s" and q: "overlay_quiet s"
  shows "(ov_status s = OverlayIdle \<or> ov_status s = OverlayError) \<and> ov_level s = 0"
proof -
  note none = quiet_recorders [OF q]
  from none [of capturing] none [of sending] none [of level_owner]
  have "\<not> some_recorder capturing s" "\<not> some_recorder sending s" "\<not> some_recorder level_owner s" by simp_all
  with assms show ?thesis
    by (cases "ov_status s") (auto simp: overlay_inv_def overlay_quiet_def)
qed

text \<open>
  C17. Whatever the order in which clicks, recordings, the connection and the player take their turns,
  what the overlay shows has a cause: it shows listening only while a recording is being made, sending
  only while one is on its way out, speaking only while a clip is in the player's hands, and a level
  only while a recording or a clip drives it; when none is active it is idle or shows an error, at level
  zero. Every clip received is played, in order, unless there is no output device; and the connection
  that recordings are sent on is the one the manager is reading.
\<close>

theorem overlay_status_explained:
  assumes "overlay_run s"
  shows "(ov_status s = OverlayListening \<longrightarrow> some_recorder capturing s) \<and>
     (ov_status s = OverlaySending \<longrightarrow> some_recorder sending s) \<and>
     (ov_status s = OverlaySpeaking \<longrightarrow> player_speaks (ov_player s)) \<and>
     (ov_level s \<noteq> 0 \<longrightarrow> some_recorder level_owner s \<or> (\<exists>c. ov_player s = Playing c)) \<and>
     (overlay_quiet s \<longrightarrow> (ov_status s = OverlayIdle \<or> ov_status s = OverlayError) \<and> ov_level s = 0) \<and>
     (ov_player s \<noteq> PlayerGone \<longrightarrow> ov_finished s @ current_clip (ov_player s) @ ov_queue s = ov_received s) \<and>
     (\<forall>n. ov_connection s = Some n \<longrightarrow> ov_manager s = Reading n \<or> ov_manager s = ReadEnded)"
  using overlay_run_inv [OF assms] overlay_quiet_shows [OF overlay_run_inv [OF assms]]
  unfolding overlay_inv_def by blast

text \<open>A recording under way while a first clip waits: the run that leads there.\<close>

definition busy_overlay :: "(nat, nat, nat) overlay" where
  "busy_overlay = mgr_clip 7 (mgr_connect (rec_listen 0 (click overlay_new)))"

lemma busy_overlay_run: "overlay_run busy_overlay"
proof -
  note simps = overlay_ops overlay_new_def in_phase_def set_phase_def
  have a: "overlay_run (click (overlay_new :: (nat, nat, nat) overlay))"
    by (rule run_next [OF run_new step_click])
  have b: "overlay_run (rec_listen 0 (click (overlay_new :: (nat, nat, nat) overlay)))"
    by (rule run_next [OF a step_listen]) (simp add: simps)
  have c: "overlay_run (mgr_connect (rec_listen 0 (click (overlay_new :: (nat, nat, nat) overlay))))"
    by (rule run_next [OF b step_connect]) (simp add: simps)
  show ?thesis unfolding busy_overlay_def
    by (rule run_next [OF c step_clip [where n = 0]]) (simp add: simps)
qed

theorem overlay_status_explained_witness:
  "overlay_run busy_overlay \<and> ov_status busy_overlay = OverlayListening \<and> some_recorder capturing busy_overlay \<and>
   ov_queue busy_overlay = [7]"
proof -
  have "ov_status busy_overlay = OverlayListening \<and> ov_queue busy_overlay = [7]"
    by (simp add: busy_overlay_def overlay_ops overlay_new_def set_phase_def Let_def)
  with overlay_status_explained [OF busy_overlay_run] busy_overlay_run show ?thesis by blast
qed

section \<open>Clicks that are lost\<close>

text \<open>
  The recording thread that fails does not reset \<open>ov_held\<close>: the overlay then shows an error, nothing
  records, and the next click starts nothing.
\<close>

lemma failed_recording_keeps_held:
  "\<exists>s :: (nat, nat, nat) overlay. overlay_run s \<and> ov_status s = OverlayError \<and> ov_recorders s = [RecDone] \<and>
     ov_recorders (click s) = [RecDone]"
proof -
  note simps = overlay_ops overlay_new_def in_phase_def set_phase_def
  define a b c d e :: "(nat, nat, nat) overlay" where "a = click overlay_new" and "b = rec_listen 0 a"
    and "c = set_phase 0 (Recorded None) b" and "d = rec_reset 0 None c" and "e = rec_report 0 None d"
  note defs = a_def b_def c_def d_def e_def
  have "overlay_run a" unfolding a_def by (rule run_next [OF run_new step_click])
  then have "overlay_run b" unfolding b_def by (rule run_next [OF _ step_listen]) (simp add: defs simps)
  then have "overlay_run c" unfolding c_def by (rule run_next [OF _ step_failed]) (simp add: defs simps)
  then have "overlay_run d" unfolding d_def by (rule run_next [OF _ step_reset]) (simp add: defs simps)
  then have "overlay_run e" unfolding e_def by (rule run_next [OF _ step_report]) (simp add: defs simps)
  then show ?thesis by (intro exI [of _ e]) (simp add: defs simps)
qed

text \<open>
  A recording looks at \<open>ov_held\<close> every ten milliseconds: two clicks between two looks leave it
  recording and start another beside it.
\<close>

lemma two_recordings_at_once:
  "\<exists>s :: (nat, nat, nat) overlay. overlay_run s \<and> ov_recorders s = [Recording, Recording]"
proof -
  note simps = overlay_ops overlay_new_def in_phase_def set_phase_def
  define a b c d e :: "(nat, nat, nat) overlay" where "a = click overlay_new" and "b = rec_listen 0 a"
    and "c = click b" and "d = click c" and "e = rec_listen 1 d"
  note defs = a_def b_def c_def d_def e_def
  have "overlay_run a" unfolding a_def by (rule run_next [OF run_new step_click])
  then have "overlay_run b" unfolding b_def by (rule run_next [OF _ step_listen]) (simp add: defs simps)
  then have "overlay_run c" unfolding c_def by (rule run_next [OF _ step_click])
  then have "overlay_run d" unfolding d_def by (rule run_next [OF _ step_click])
  then have "overlay_run e" unfolding e_def by (rule run_next [OF _ step_listen]) (simp add: defs simps)
  then show ?thesis by (intro exI [of _ e]) (simp add: defs simps)
qed

end
