(* ===== verification/Overlay_Scene.thy ===== *)
theory Overlay_Scene
  imports Overlay Pcm Complex_Main
begin

text \<open>
  What the overlay draws (\<open>apps/nala-overlay\<close>): the loudness of samples (\<open>amplitude.rs\<close>, \<open>clip.rs\<close>,
  and the levels \<open>playback.rs\<close> sets), the easing of the animation (\<open>motion.rs\<close>), the geometry of the
  point cloud (\<open>scene.rs\<close>) and one frame of the window (\<open>update\<close> of \<open>overlay.rs\<close>) as the list of
  circles it paints. Numbers are real: the rounding of 32-bit floats is left out. The painter, the
  window and the WAV reader are outside; a color is its components and its alpha.
\<close>

section \<open>Loudness\<close>

definition SILENCE_FLOOR_DB :: real where "SILENCE_FLOOR_DB = - 50"

definition I16_MAX :: real where "I16_MAX = 32767"

definition i16_real :: "i16 \<Rightarrow> real" where "i16_real s = of_int (sint s)"

definition amplitude_from_samples :: "i16 list \<Rightarrow> real" where
  "amplitude_from_samples ss =
     (if ss = [] then 0
      else let sum_squares = sum_list (map (\<lambda>s. i16_real s * i16_real s) ss);
               rms = sqrt (sum_squares / of_nat (length ss))
           in if rms \<le> 0 then 0
              else let db = 20 * log 10 (rms / I16_MAX)
                   in clamp_size 0 1 ((db - SILENCE_FLOOR_DB) / - SILENCE_FLOOR_DB))"

text \<open>The slices of \<open>chunks\<close>, the last one possibly shorter.\<close>

function slices :: "nat \<Rightarrow> 'a list \<Rightarrow> 'a list list" where
  "slices n xs = (if n = 0 \<or> xs = [] then [] else take n xs # slices n (drop n xs))"
  by pat_completeness auto
termination by (relation "measure (length \<circ> snd)") auto

declare slices.simps [simp del]

definition amplitude_windows :: "i16 list \<Rightarrow> nat \<Rightarrow> real list" where
  "amplitude_windows ss window_len =
     (if window_len = 0 then [] else map amplitude_from_samples (slices window_len ss))"

text \<open>The cast of a float to \<open>i16\<close>: towards zero, and the nearest bound when it does not fit.\<close>

definition f32_to_i16 :: "real \<Rightarrow> i16" where
  "f32_to_i16 x = word_of_int (clamp_size (- 32768) 32767 (if x < 0 then \<lceil>x\<rceil> else \<lfloor>x\<rfloor>))"

definition quantize :: "real \<Rightarrow> i16" where
  "quantize x = f32_to_i16 (x * I16_MAX)"

text \<open>The level while a recording is made.\<close>

definition recording_level :: "real list \<Rightarrow> real" where
  "recording_level chunk = amplitude_from_samples (map quantize chunk)"

text \<open>What the WAV reader makes of a clip: its format, and one result per sample.\<close>

datatype wav_samples = IntSamples "(string + i16) list" | FloatSamples "(string + real) list"

record wav_reader =
  wr_samples :: wav_samples
  wr_rate :: u32
  wr_channels :: u16

record decoded_clip =
  dc_samples :: "i16 list"
  dc_rate :: u32
  dc_channels :: u16

fun collect_results :: "('e + 'a) list \<Rightarrow> 'e + 'a list" where
  "collect_results [] = Inr []"
| "collect_results (Inl e # rs) = Inl e"
| "collect_results (Inr x # rs) = (case collect_results rs of Inl e \<Rightarrow> Inl e | Inr xs \<Rightarrow> Inr (x # xs))"

definition decode_clip :: "('b \<Rightarrow> string + wav_reader) \<Rightarrow> 'b \<Rightarrow> string + decoded_clip" where
  "decode_clip reader clip =
     (case reader clip of
        Inl e \<Rightarrow> Inl (''invalid WAV data: '' @ e)
      | Inr wav \<Rightarrow>
          (case (case wr_samples wav of
                   IntSamples rs \<Rightarrow> collect_results rs
                 | FloatSamples rs \<Rightarrow> collect_results (map (map_sum id quantize) rs)) of
             Inl e \<Rightarrow> Inl (''invalid WAV data: '' @ e)
           | Inr ss \<Rightarrow> Inr \<lparr>dc_samples = ss, dc_rate = wr_rate wav, dc_channels = wr_channels wav\<rparr>))"

definition WINDOW_SAMPLES :: nat where "WINDOW_SAMPLES = 1024"

text \<open>The levels of a clip that plays, each for so many seconds.\<close>

definition clip_levels :: "decoded_clip \<Rightarrow> (real \<times> real) list" where
  "clip_levels d = map (\<lambda>level. (level, of_nat WINDOW_SAMPLES / of_nat (max 1 (unat (dc_rate d)))))
     (amplitude_windows (dc_samples d) (WINDOW_SAMPLES * unat (dc_channels d)))"

section \<open>Motion\<close>

definition BREATHE_PERIOD :: real where "BREATHE_PERIOD = 3.2"

definition smooth :: "real \<Rightarrow> real \<Rightarrow> real \<Rightarrow> real \<Rightarrow> real" where
  "smooth current target dt half_life =
     (if half_life \<le> 0 then target
      else let decay = exp (- dt / half_life) in target + (current - target) * decay)"

definition breathe :: "real \<Rightarrow> real" where
  "breathe elapsed = (let phase = (elapsed / BREATHE_PERIOD) * (2 * pi) in (sin phase + 1) / 2)"

section \<open>The scene\<close>

definition SPHERE_POINTS :: nat where "SPHERE_POINTS = 90"

definition RING_POINTS :: nat where "RING_POINTS = 48"

definition RING_TILTS :: "real list" where "RING_TILTS = [0.35, - 0.55]"

definition PERSPECTIVE :: real where "PERSPECTIVE = 2.6"

record point3 =
  p3_x :: real
  p3_y :: real
  p3_z :: real

record projected =
  pr_pos :: "real \<times> real"
  pr_depth :: real
  pr_scale :: real

definition sphere_points :: "nat \<Rightarrow> point3 list" where
  "sphere_points count =
     (if count = 0 then []
      else let golden_angle = pi * (3 - sqrt 5)
           in map (\<lambda>i. let y = 1 - of_nat i / max (of_nat count - 1) 1 * 2;
                           radius_at_y = sqrt (max (1 - y * y) 0);
                           theta = golden_angle * of_nat i
                       in \<lparr>p3_x = cos theta * radius_at_y, p3_y = y, p3_z = sin theta * radius_at_y\<rparr>)
                [0..<count])"

definition ring_points :: "nat \<Rightarrow> real \<Rightarrow> point3 list" where
  "ring_points count tilt =
     (if count = 0 then []
      else map (\<lambda>i. let angle = 2 * pi * of_nat i / of_nat count; x = cos angle; z = sin angle
                    in \<lparr>p3_x = x, p3_y = - z * sin tilt, p3_z = z * cos tilt\<rparr>)
             [0..<count])"

definition rotate_point :: "point3 \<Rightarrow> real \<Rightarrow> real \<Rightarrow> point3" where
  "rotate_point p yaw pitch =
     (let x1 = p3_x p * cos yaw + p3_z p * sin yaw;
          z1 = - p3_x p * sin yaw + p3_z p * cos yaw;
          y1 = p3_y p
      in \<lparr>p3_x = x1, p3_y = y1 * cos pitch - z1 * sin pitch, p3_z = y1 * sin pitch + z1 * cos pitch\<rparr>)"

definition project :: "point3 \<Rightarrow> real \<Rightarrow> real \<Rightarrow> projected" where
  "project p radius perspective =
     (let k = perspective / (perspective - p3_z p)
      in \<lparr>pr_pos = (p3_x p * k * radius, p3_y p * k * radius), pr_depth = p3_z p, pr_scale = k\<rparr>)"

definition depth_sorted :: "projected list \<Rightarrow> projected list" where
  "depth_sorted points = sort_key pr_depth points"

section \<open>A frame\<close>

definition SAFE_MARGIN :: real where "SAFE_MARGIN = 0.14"
definition PULSE_GAIN :: real where "PULSE_GAIN = 1.2"
definition CORE_RADIUS_FRACTION :: real where "CORE_RADIUS_FRACTION = 0.28"
definition HALO_RADIUS_FACTOR :: real where "HALO_RADIUS_FACTOR = 1.6"
definition SCENE_PULSE_GAIN :: real where "SCENE_PULSE_GAIN = 0.1"
definition AMPLITUDE_HALF_LIFE :: real where "AMPLITUDE_HALF_LIFE = 0.08"
definition YAW_SPEED :: real where "YAW_SPEED = 0.35"
definition PITCH_SPEED :: real where "PITCH_SPEED = 0.13"
definition MIN_POINT_RADIUS :: real where "MIN_POINT_RADIUS = 1"
definition MAX_POINT_RADIUS :: real where "MAX_POINT_RADIUS = 2.6"
definition SCROLL_SENSITIVITY :: real where "SCROLL_SENSITIVITY = 0.5"
definition MIN_SIZE :: real where "MIN_SIZE = 64"
definition MAX_SIZE :: real where "MAX_SIZE = 320"

lemmas scene_constants = SAFE_MARGIN_def PULSE_GAIN_def CORE_RADIUS_FRACTION_def HALO_RADIUS_FACTOR_def
  SCENE_PULSE_GAIN_def AMPLITUDE_HALF_LIFE_def YAW_SPEED_def PITCH_SPEED_def MIN_POINT_RADIUS_def
  MAX_POINT_RADIUS_def PERSPECTIVE_def

text \<open>A circle: its center, its radius, and its color with the alpha.\<close>

record circle =
  ci_center :: "real \<times> real"
  ci_radius :: real
  ci_color :: "rgb \<times> nat"

record scene_app =
  sa_sphere :: "point3 list"
  sa_rings :: "point3 list list"
  sa_smoothed :: real
  sa_yaw :: real
  sa_pitch :: real
  sa_elapsed :: real
  sa_window :: "real window"

definition scene_app_new :: "real \<Rightarrow> string option \<Rightarrow> scene_app" where
  "scene_app_new points file =
     \<lparr>sa_sphere = sphere_points SPHERE_POINTS, sa_rings = map (ring_points RING_POINTS) RING_TILTS,
      sa_smoothed = 0, sa_yaw = 0, sa_pitch = 0, sa_elapsed = 0,
      sa_window = \<lparr>win_size = points, win_saved_at = None, win_file = file\<rparr>\<rparr>"

text \<open>The points as \<open>draw_points\<close> orders and paints them.\<close>

definition cloud :: "scene_app \<Rightarrow> real \<Rightarrow> projected list" where
  "cloud app radius =
     depth_sorted (map (\<lambda>p. project (rotate_point p (sa_yaw app) (sa_pitch app)) radius PERSPECTIVE)
       (sa_sphere app @ concat (sa_rings app)))"

definition draw_point :: "real \<times> real \<Rightarrow> rgb \<Rightarrow> projected \<Rightarrow> circle" where
  "draw_point center color point =
     (let point_radius = clamp_size MIN_POINT_RADIUS MAX_POINT_RADIUS (MIN_POINT_RADIUS * pr_scale point);
          alpha = nat \<lfloor>clamp_size 0 1 (pr_scale point - 0.5) * 255\<rfloor>
      in \<lparr>ci_center = (fst center + fst (pr_pos point), snd center + snd (pr_pos point)),
          ci_radius = point_radius, ci_color = (color, max alpha 40)\<rparr>)"

definition draw_points :: "scene_app \<Rightarrow> real \<times> real \<Rightarrow> real \<Rightarrow> rgb \<Rightarrow> circle list" where
  "draw_points app center radius color = map (draw_point center color) (cloud app radius)"

text \<open>What a frame reads: the shared cells, the clock and the scroll, and its rectangle.\<close>

record frame_input =
  fi_status :: overlay_status
  fi_amplitude :: real
  fi_stable_dt :: real
  fi_scroll :: real
  fi_now :: nat
  fi_writable :: bool
  fi_center :: "real \<times> real"
  fi_width :: real
  fi_height :: real

definition animate :: "(real \<Rightarrow> string) \<Rightarrow> frame_input \<Rightarrow> scene_app \<Rightarrow> scene_app" where
  "animate show_f32 inp app =
     (let dt = min (fi_stable_dt inp) 0.1;
          elapsed = sa_elapsed app + dt
      in app\<lparr>sa_elapsed := elapsed,
             sa_smoothed := smooth (sa_smoothed app) (fi_amplitude inp) dt AMPLITUDE_HALF_LIFE,
             sa_yaw := sa_yaw app + YAW_SPEED * dt,
             sa_pitch := sin (PITCH_SPEED * elapsed) * 0.3,
             sa_window := handle_resize show_f32 (fi_writable inp) (\<lambda>points scroll. points + scroll * SCROLL_SENSITIVITY)
               MIN_SIZE MAX_SIZE (fi_now inp) (fi_scroll inp) (sa_window app)\<rparr>)"

definition pulse_of :: "frame_input \<Rightarrow> scene_app \<Rightarrow> real" where
  "pulse_of inp app = (if fi_status inp = OverlayIdle then breathe (sa_elapsed app) * 0.5 else sa_smoothed app)"

definition draw_frame :: "frame_input \<Rightarrow> scene_app \<Rightarrow> circle list" where
  "draw_frame inp app =
     (let scene_radius = min (fi_width inp) (fi_height inp) / 2 * (1 - SAFE_MARGIN);
          pulse = pulse_of inp app;
          core_radius = scene_radius * CORE_RADIUS_FRACTION * (1 + pulse * PULSE_GAIN);
          points_radius = scene_radius * (1 + pulse * SCENE_PULSE_GAIN)
      in draw_points app (fi_center inp) points_radius (accent_color (fi_status inp)) @
         [\<lparr>ci_center = fi_center inp, ci_radius = core_radius * HALO_RADIUS_FACTOR,
            ci_color = glow_color (fi_status inp)\<rparr>,
          \<lparr>ci_center = fi_center inp, ci_radius = core_radius, ci_color = (status_color (fi_status inp), 255)\<rparr>])"

text \<open>\<open>update\<close>, without the click (\<open>Overlay.click\<close>).\<close>

definition update_frame :: "(real \<Rightarrow> string) \<Rightarrow> frame_input \<Rightarrow> scene_app \<Rightarrow> scene_app \<times> circle list" where
  "update_frame show_f32 inp app = (let app = animate show_f32 inp app in (app, draw_frame inp app))"

text \<open>The moves of the window that a resize asks for.\<close>

datatype viewport_command = InnerSize "real \<times> real" | OuterPosition "real \<times> real"

definition resize_commands :: "(real \<times> real) option \<Rightarrow> real \<Rightarrow> real \<Rightarrow> viewport_command list" where
  "resize_commands outer_min previous new =
     (if new = previous then []
      else InnerSize (new, new) #
        (case outer_min of
           None \<Rightarrow> []
         | Some (x, y) \<Rightarrow> let delta = (new - previous) / 2 in [OuterPosition (x - delta, y - delta)]))"

section \<open>Loudness and windows\<close>

lemma amplitude_unit: "0 \<le> amplitude_from_samples ss \<and> amplitude_from_samples ss \<le> 1"
  by (simp add: amplitude_from_samples_def Let_def clamp_size_bounds)

lemma amplitude_full_scale: "amplitude_from_samples [0x7FFF] = 1"
  by (simp add: amplitude_from_samples_def i16_real_def I16_MAX_def SILENCE_FLOOR_DB_def clamp_size_def)

lemma concat_slices: "0 < n \<Longrightarrow> concat (slices n xs) = xs"
  by (induction n xs rule: slices.induct) (subst slices.simps, simp)

lemma slices_length: "s \<in> set (slices n xs) \<Longrightarrow> s \<noteq> [] \<and> length s \<le> n"
  by (induction n xs rule: slices.induct) (subst (asm) (2) slices.simps, auto split: if_splits)

lemma clip_levels_unit: "(level, t) \<in> set (clip_levels d) \<Longrightarrow> 0 \<le> level \<and> level \<le> 1"
  by (auto simp: clip_levels_def amplitude_windows_def amplitude_unit split: if_splits)

section \<open>Easing\<close>

lemma smooth_decay: "0 < h \<Longrightarrow> smooth s target dt h = target + (s - target) * exp (- dt / h)"
  by (simp add: smooth_def)

lemma smooth_between:
  assumes "0 < h" and "0 \<le> dt" and "low \<le> s" "s \<le> high" "low \<le> target" "target \<le> high"
  shows "low \<le> smooth s target dt h \<and> smooth s target dt h \<le> high"
proof -
  let ?e = "exp (- dt / h)"
  have e: "0 \<le> ?e" "?e \<le> 1" using assms(1,2) by simp_all
  have eq: "smooth s target dt h = (1 - ?e) * target + ?e * s"
    using assms(1) by (simp add: smooth_decay algebra_simps)
  have "(1 - ?e) * low + ?e * low \<le> smooth s target dt h"
    unfolding eq using e assms by (intro add_mono mult_left_mono) auto
  moreover have "smooth s target dt h \<le> (1 - ?e) * high + ?e * high"
    unfolding eq using e assms by (intro add_mono mult_left_mono) auto
  ultimately show ?thesis by (simp add: algebra_simps)
qed

text \<open>Two steps are one step of their sum: the easing does not depend on the frame rate.\<close>

lemma smooth_smooth: "0 < h \<Longrightarrow> smooth (smooth s target d h) target d' h = smooth s target (d + d') h"
  by (simp add: smooth_decay add_divide_distrib exp_add [symmetric] algebra_simps)
    (simp add: exp_add [symmetric] exp_diff exp_minus field_simps)

lemma breathe_unit: "0 \<le> breathe t \<and> breathe t \<le> 1"
proof -
  define x where "x = sin (t / BREATHE_PERIOD * (2 * pi))"
  have "- 1 \<le> x" "x \<le> 1" by (simp_all add: x_def)
  moreover have "breathe t = (x + 1) / 2" by (simp add: breathe_def x_def)
  ultimately show ?thesis by simp
qed

section \<open>Geometry\<close>

definition on_sphere :: "point3 \<Rightarrow> bool" where
  "on_sphere p \<longleftrightarrow> (p3_x p)\<^sup>2 + (p3_y p)\<^sup>2 + (p3_z p)\<^sup>2 = 1"

lemma turn: "(a * cos t + b * sin t)\<^sup>2 + (b * cos t - a * sin t)\<^sup>2 = a\<^sup>2 + b\<^sup>2" for a b t :: real
proof -
  have "(a * c + b * s)\<^sup>2 + (b * c - a * s)\<^sup>2 = (a\<^sup>2 + b\<^sup>2) * (s\<^sup>2 + c\<^sup>2)" for c s :: real
    by (simp add: power2_eq_square algebra_simps)
  from this [of "cos t" "sin t"] show ?thesis by simp
qed

lemma latitude_on_sphere:
  assumes "y * y \<le> 1"
  shows "on_sphere \<lparr>p3_x = cos t * sqrt (max (1 - y * y) 0), p3_y = y, p3_z = sin t * sqrt (max (1 - y * y) 0)\<rparr>"
proof -
  let ?r = "sqrt (max (1 - y * y) 0)"
  have "?r\<^sup>2 = 1 - y\<^sup>2" using assms by (simp add: power2_eq_square)
  moreover have "(cos t * ?r)\<^sup>2 + (sin t * ?r)\<^sup>2 = ?r\<^sup>2"
    using turn [of ?r t 0] by (simp add: mult.commute)
  ultimately show ?thesis unfolding on_sphere_def by simp
qed

lemma sphere_points_on_sphere:
  assumes "p \<in> set (sphere_points n)"
  shows "on_sphere p"
proof -
  obtain i where i: "i < n" and p: "p = (let y = 1 - of_nat i / max (of_nat n - 1) 1 * 2;
        r = sqrt (max (1 - y * y) 0); theta = pi * (3 - sqrt 5) * of_nat i
      in \<lparr>p3_x = cos theta * r, p3_y = y, p3_z = sin theta * r\<rparr>)"
    using assms by (auto simp: sphere_points_def Let_def split: if_splits)
  define y :: real where "y = 1 - of_nat i / max (of_nat n - 1) 1 * 2"
  have "0 \<le> of_nat i / max (real n - 1) 1 \<and> of_nat i / max (real n - 1) 1 \<le> 1"
    using i by (auto simp: divide_le_eq_1 max_def)
  then have "- 1 \<le> y" "y \<le> 1" unfolding y_def by linarith+
  then have "y * y \<le> 1" using square_le_1 [of y] by (simp add: power2_eq_square)
  from latitude_on_sphere [OF this] show ?thesis unfolding p Let_def y_def .
qed

lemma ring_points_on_sphere:
  assumes "p \<in> set (ring_points n tilt)"
  shows "on_sphere p"
proof -
  have "(cos a)\<^sup>2 + (sin a * sin t)\<^sup>2 + (sin a * cos t)\<^sup>2 = 1" for a t :: real
    using turn [of "sin a" t 0] by (simp add: cos_squared_eq [of a] del: sin_cos_squared_add)
  then show ?thesis
    using assms by (auto simp: ring_points_def on_sphere_def Let_def split: if_splits)
qed

lemma rotate_on_sphere: "on_sphere p \<Longrightarrow> on_sphere (rotate_point p yaw pitch)"
proof -
  assume p: "on_sphere p"
  let ?x = "p3_x p" and ?y = "p3_y p" and ?z = "p3_z p"
  let ?z1 = "?z * cos yaw - ?x * sin yaw"
  have "(?y * cos pitch - ?z1 * sin pitch)\<^sup>2 + (?y * sin pitch + ?z1 * cos pitch)\<^sup>2 = ?y\<^sup>2 + ?z1\<^sup>2"
    using turn [of ?y "- pitch" ?z1] by (simp add: add.commute)
  moreover have "(?x * cos yaw + ?z * sin yaw)\<^sup>2 + ?z1\<^sup>2 = ?x\<^sup>2 + ?z\<^sup>2" by (rule turn)
  moreover have "- ?x * sin yaw + ?z * cos yaw = ?z1" by simp
  ultimately show ?thesis using p by (simp add: on_sphere_def rotate_point_def Let_def)
qed

lemma on_sphere_depth: "on_sphere p \<Longrightarrow> \<bar>p3_z p\<bar> \<le> 1"
proof -
  assume "on_sphere p"
  then have "(p3_z p)\<^sup>2 \<le> 1"
    unfolding on_sphere_def using zero_le_power2 [of "p3_x p"] zero_le_power2 [of "p3_y p"] by linarith
  then show ?thesis by (simp add: abs_square_le_1)
qed

text \<open>The farthest from the center that a point of the sphere is projected.\<close>

lemma project_bound:
  assumes p: "on_sphere p" and r: "0 \<le> r"
  shows "\<bar>fst (pr_pos (project p r PERSPECTIVE))\<bar> \<le> 13 / 12 * r \<and>
    \<bar>snd (pr_pos (project p r PERSPECTIVE))\<bar> \<le> 13 / 12 * r \<and>
    13 / 18 \<le> pr_scale (project p r PERSPECTIVE) \<and> pr_scale (project p r PERSPECTIVE) \<le> 13 / 8"
proof -
  let ?z = "p3_z p"
  define k where "k = 2.6 / (2.6 - ?z)"
  have z: "\<bar>?z\<bar> \<le> 1" using on_sphere_depth [OF p] .
  then have k: "0 < k" "13 / 18 \<le> k" "k \<le> 13 / 8" unfolding k_def by (auto simp: field_simps)
  have "(2.6 - a)\<^sup>2 - (1 - a\<^sup>2) * 5.76 = (1 - 2.6 * a)\<^sup>2" for a :: real
    by (simp add: power2_eq_square field_simps)
  then have "(1 - ?z\<^sup>2) * 5.76 \<le> (2.6 - ?z)\<^sup>2" using zero_le_power2 by (metis diff_ge_0_iff_ge)
  then have far: "(1 - ?z\<^sup>2) * k\<^sup>2 \<le> (13 / 12)\<^sup>2"
    using z unfolding k_def by (simp add: power_divide field_simps)
  have lim: "\<bar>a * k * r\<bar> \<le> 13 / 12 * r" if "a\<^sup>2 \<le> 1 - ?z\<^sup>2" for a
  proof -
    have "(a * k)\<^sup>2 \<le> (13 / 12)\<^sup>2"
      using mult_right_mono [OF that, of "k\<^sup>2"] far by (simp add: power_mult_distrib)
    then have "\<bar>a * k\<bar> \<le> 13 / 12" using abs_le_square_iff [of "a * k" "13 / 12"] by simp
    from mult_right_mono [OF this r] r show ?thesis by (simp add: abs_mult)
  qed
  have "(p3_x p)\<^sup>2 \<le> 1 - ?z\<^sup>2" "(p3_y p)\<^sup>2 \<le> 1 - ?z\<^sup>2" using p unfolding on_sphere_def
    using zero_le_power2 [of "p3_x p"] zero_le_power2 [of "p3_y p"] by linarith+
  with lim k show ?thesis by (simp add: project_def Let_def PERSPECTIVE_def k_def)
qed

lemma depth_sorted_spec: "sorted (map pr_depth (depth_sorted ps))" "set (depth_sorted ps) = set ps"
    "length (depth_sorted ps) = length ps"
  by (simp_all add: depth_sorted_def)

section \<open>Runs of frames\<close>

text \<open>The size a run starts with is the configured one, and a level is the loudness of some samples.\<close>

inductive scene_run :: "(real \<Rightarrow> string) \<Rightarrow> scene_app \<Rightarrow> bool" for show_f32 where
  scene_start: "MIN_SIZE \<le> points \<Longrightarrow> points \<le> MAX_SIZE \<Longrightarrow> scene_run show_f32 (scene_app_new points file)"
| scene_frame: "scene_run show_f32 app \<Longrightarrow> 0 \<le> fi_stable_dt inp \<Longrightarrow>
    fi_amplitude inp = amplitude_from_samples ss \<Longrightarrow> scene_run show_f32 (fst (update_frame show_f32 inp app))"

definition scene_points :: "scene_app \<Rightarrow> point3 list" where
  "scene_points app = sa_sphere app @ concat (sa_rings app)"

definition scene_inv :: "scene_app \<Rightarrow> bool" where
  "scene_inv app \<longleftrightarrow> (\<forall>p \<in> set (scene_points app). on_sphere p) \<and> length (scene_points app) = 186 \<and>
     0 \<le> sa_smoothed app \<and> sa_smoothed app \<le> 1 \<and>
     MIN_SIZE \<le> win_size (sa_window app) \<and> win_size (sa_window app) \<le> MAX_SIZE"

lemma scene_points_new:
  "scene_points (scene_app_new points file) =
    sphere_points SPHERE_POINTS @ concat (map (ring_points RING_POINTS) RING_TILTS)"
  by (simp add: scene_points_def scene_app_new_def)

lemma animate_sel [simp]:
  "sa_sphere (animate sh inp app) = sa_sphere app" "sa_rings (animate sh inp app) = sa_rings app"
  "scene_points (animate sh inp app) = scene_points app"
  by (simp_all add: animate_def Let_def scene_points_def)

lemma scene_inv_animate:
  assumes "scene_inv app" and "0 \<le> fi_stable_dt inp" and "0 \<le> fi_amplitude inp \<and> fi_amplitude inp \<le> 1"
  shows "scene_inv (animate sh inp app)"
proof -
  have "0 \<le> sa_smoothed (animate sh inp app) \<and> sa_smoothed (animate sh inp app) \<le> 1"
    using assms smooth_between [of AMPLITUDE_HALF_LIFE "min (fi_stable_dt inp) 0.1" 0 "sa_smoothed app" 1 "fi_amplitude inp"]
    by (simp add: animate_def Let_def scene_inv_def scene_constants)
  moreover have "MIN_SIZE \<le> win_size (sa_window (animate sh inp app)) \<and> win_size (sa_window (animate sh inp app)) \<le> MAX_SIZE"
    using assms(1) handle_resize_bounds [of MIN_SIZE MAX_SIZE "sa_window app"]
    by (simp add: animate_def Let_def scene_inv_def MIN_SIZE_def MAX_SIZE_def)
  ultimately show ?thesis using assms(1) by (simp add: scene_inv_def)
qed

lemma scene_run_inv: "scene_run sh app \<Longrightarrow> scene_inv app"
proof (induction rule: scene_run.induct)
  case (scene_start points path)
  have "\<forall>p \<in> set (scene_points (scene_app_new points path)). on_sphere p"
    by (auto simp: scene_points_new intro: sphere_points_on_sphere ring_points_on_sphere)
  moreover have "length (scene_points (scene_app_new points path)) = 186"
    by (simp add: scene_points_new sphere_points_def ring_points_def SPHERE_POINTS_def RING_POINTS_def RING_TILTS_def)
  ultimately show ?case using scene_start by (simp add: scene_inv_def) (simp add: scene_app_new_def)
next
  case (scene_frame app inp ss)
  then show ?case using scene_inv_animate amplitude_unit by (simp add: update_frame_def Let_def)
qed

lemma set_cloud:
  "set (cloud app r) = (\<lambda>p. project (rotate_point p (sa_yaw app) (sa_pitch app)) r PERSPECTIVE) ` set (scene_points app)"
  by (simp add: cloud_def scene_points_def depth_sorted_spec(2) image_Un)

lemma cloud_spec:
  assumes "scene_inv app" and r: "0 \<le> r"
  shows "length (cloud app r) = 186" "sorted (map pr_depth (cloud app r))"
    "\<forall>q \<in> set (cloud app r). \<bar>fst (pr_pos q)\<bar> \<le> 13 / 12 * r \<and> \<bar>snd (pr_pos q)\<bar> \<le> 13 / 12 * r \<and>
      13 / 18 \<le> pr_scale q \<and> pr_scale q \<le> 13 / 8"
proof -
  show "length (cloud app r) = 186" "sorted (map pr_depth (cloud app r))"
    using assms(1) by (simp_all add: cloud_def scene_points_def depth_sorted_spec scene_inv_def)
  have "\<forall>p \<in> set (scene_points app). on_sphere p" using assms(1) by (simp add: scene_inv_def)
  then show "\<forall>q \<in> set (cloud app r). \<bar>fst (pr_pos q)\<bar> \<le> 13 / 12 * r \<and> \<bar>snd (pr_pos q)\<bar> \<le> 13 / 12 * r \<and>
      13 / 18 \<le> pr_scale q \<and> pr_scale q \<le> 13 / 8"
    unfolding set_cloud ball_simps
    using project_bound [OF rotate_on_sphere r] by blast
qed

text \<open>
  C18. No frame of the overlay is clipped while it rests or speaks up to seven tenths of full
  loudness: the eased level stays between 0 and 1 for every level a recording or a clip can have,
  however irregular the frames are; the core and its halo are inside the window at any loudness;
  the 186 points are painted from the farthest to the nearest, each at a scale that the division
  of the projection keeps between 13/18 and 13/8; and their centers are inside the window.
\<close>

theorem frames_stay_in_the_window:
  assumes "scene_run sh app" and "0 \<le> fi_stable_dt inp" and "fi_amplitude inp = amplitude_from_samples ss"
    and "0 < fi_width inp" "0 < fi_height inp" and "update_frame sh inp app = (app', circles)"
  shows "0 \<le> sa_smoothed app' \<and> sa_smoothed app' \<le> 1 \<and>
    (\<exists>ps halo core. circles = map (draw_point (fi_center inp) (accent_color (fi_status inp))) ps @ [halo, core] \<and>
      length ps = 186 \<and> sorted (map pr_depth ps) \<and> (\<forall>p \<in> set ps. 13 / 18 \<le> pr_scale p \<and> pr_scale p \<le> 13 / 8) \<and>
      ci_center halo = fi_center inp \<and> ci_center core = fi_center inp \<and>
      0 < ci_radius core \<and> ci_radius core \<le> ci_radius halo \<and>
      ci_radius halo < min (fi_width inp) (fi_height inp) / 2 \<and>
      (fi_status inp = OverlayIdle \<or> sa_smoothed app' \<le> 7 / 10 \<longrightarrow>
        (\<forall>p \<in> set ps. \<bar>fst (pr_pos p)\<bar> < min (fi_width inp) (fi_height inp) / 2 \<and>
           \<bar>snd (pr_pos p)\<bar> < min (fi_width inp) (fi_height inp) / 2)))"
proof -
  have app': "app' = animate sh inp app" and circles: "circles = draw_frame inp app'"
    using assms(6) by (auto simp: update_frame_def Let_def)
  have inv: "scene_inv app'"
    unfolding app' using scene_inv_animate [OF scene_run_inv [OF assms(1)] assms(2)] amplitude_unit assms(3) by simp
  define half where "half = min (fi_width inp) (fi_height inp) / 2"
  define pulse where "pulse = pulse_of inp app'"
  define radius where "radius = half * (1 - SAFE_MARGIN) * (1 + pulse * SCENE_PULSE_GAIN)"
  define core where "core = half * (1 - SAFE_MARGIN) * CORE_RADIUS_FRACTION * (1 + pulse * PULSE_GAIN)"
  have half: "0 < half" using assms(4,5) by (simp add: half_def)
  have pulse: "0 \<le> pulse \<and> pulse \<le> 1" "fi_status inp = OverlayIdle \<or> sa_smoothed app' \<le> 7 / 10 \<longrightarrow> pulse \<le> 7 / 10"
    using inv breathe_unit [of "sa_elapsed app'"] by (auto simp: pulse_def pulse_of_def scene_inv_def)
  have radius: "radius = half * (0.86 * (1 + pulse * 0.1))" "core = half * (0.2408 * (1 + pulse * 1.2))"
    by (simp_all add: radius_def core_def scene_constants)
  have "0 < core" unfolding radius using half pulse(1) by (intro mult_pos_pos) auto
  have "core * 1.6 < half * 1"
    unfolding radius mult.assoc using half pulse(1) by (intro mult_strict_left_mono) auto
  have r0: "0 \<le> radius" unfolding radius using half pulse(1) by (intro mult_nonneg_nonneg) auto
  have small: "13 / 12 * radius < half" if "pulse \<le> 7 / 10"
  proof -
    have "half * (13 / 12 * (0.86 * (1 + pulse * 0.1))) < half * 1"
      using half that by (intro mult_strict_left_mono) auto
    then show ?thesis by (simp add: radius(1) mult.commute mult.left_commute)
  qed
  let ?ps = "cloud app' radius"
  let ?halo = "\<lparr>ci_center = fi_center inp, ci_radius = core * HALO_RADIUS_FACTOR, ci_color = glow_color (fi_status inp)\<rparr>"
  let ?core = "\<lparr>ci_center = fi_center inp, ci_radius = core, ci_color = (status_color (fi_status inp), 255)\<rparr>"
  have "circles = map (draw_point (fi_center inp) (accent_color (fi_status inp))) ?ps @ [?halo, ?core]"
    by (simp add: circles draw_frame_def draw_points_def Let_def half_def pulse_def radius_def core_def)
  moreover note cloud_spec [OF inv r0]
  moreover have "core \<le> core * HALO_RADIUS_FACTOR" "core * HALO_RADIUS_FACTOR < half"
    using \<open>0 < core\<close> \<open>core * 1.6 < half * 1\<close> by (simp_all add: HALO_RADIUS_FACTOR_def)
  moreover have "\<forall>p \<in> set ?ps. \<bar>fst (pr_pos p)\<bar> < half \<and> \<bar>snd (pr_pos p)\<bar> < half"
    if "fi_status inp = OverlayIdle \<or> sa_smoothed app' \<le> 7 / 10"
    using cloud_spec(3) [OF inv r0] small pulse(2) that by (meson le_less_trans)
  ultimately show ?thesis
    using \<open>0 < core\<close> inv unfolding half_def [symmetric]
    by (intro conjI exI [of _ ?ps] exI [of _ ?halo] exI [of _ ?core] impI)
      (assumption | simp add: scene_inv_def)+
qed

text \<open>Painting is full size for far points: the radius is at least that of a point at scale 1.\<close>

lemma far_points_do_not_shrink: "pr_scale p \<le> 1 \<Longrightarrow> ci_radius (draw_point center color p) = 1"
  by (simp add: draw_point_def Let_def clamp_size_def scene_constants)

lemma resize_keeps_the_center:
  assumes "OuterPosition (x', y') \<in> set (resize_commands (Some (x, y)) previous new)"
  shows "x' + new / 2 = x + previous / 2 \<and> y' + new / 2 = y + previous / 2"
  using assms by (auto simp: resize_commands_def Let_def field_simps split: if_splits)

section \<open>Time and the frame rate\<close>

definition run_frames :: "(real \<Rightarrow> string) \<Rightarrow> frame_input list \<Rightarrow> scene_app \<Rightarrow> scene_app" where
  "run_frames sh inps app = fold (\<lambda>inp app. fst (update_frame sh inp app)) inps app"

definition frame_dt :: "frame_input \<Rightarrow> real" where "frame_dt inp = min (fi_stable_dt inp) 0.1"

definition frames_time :: "frame_input list \<Rightarrow> real" where "frames_time inps = sum_list (map frame_dt inps)"

lemma run_frames_level:
  assumes "\<forall>inp \<in> set inps. fi_amplitude inp = level"
  shows "sa_smoothed (run_frames sh inps app) = smooth (sa_smoothed app) level (frames_time inps) AMPLITUDE_HALF_LIFE \<and>
    sa_elapsed (run_frames sh inps app) = sa_elapsed app + frames_time inps \<and>
    sa_yaw (run_frames sh inps app) = sa_yaw app + YAW_SPEED * frames_time inps \<and>
    sa_pitch (run_frames sh inps app) =
      (if inps = [] then sa_pitch app else sin (PITCH_SPEED * (sa_elapsed app + frames_time inps)) * 0.3) \<and>
    scene_points (run_frames sh inps app) = scene_points app"
  using assms
proof (induction inps arbitrary: app)
  case Nil
  then show ?case by (simp add: run_frames_def frames_time_def smooth_decay AMPLITUDE_HALF_LIFE_def)
next
  case (Cons inp inps)
  let ?app = "animate sh inp app"
  have "run_frames sh (inp # inps) app = run_frames sh inps ?app"
    by (simp add: run_frames_def update_frame_def Let_def)
  moreover have "sa_smoothed ?app = smooth (sa_smoothed app) level (frame_dt inp) AMPLITUDE_HALF_LIFE"
    "sa_elapsed ?app = sa_elapsed app + frame_dt inp" "sa_yaw ?app = sa_yaw app + YAW_SPEED * frame_dt inp"
    "sa_pitch ?app = sin (PITCH_SPEED * (sa_elapsed app + frame_dt inp)) * 0.3"
    using Cons.prems by (simp_all add: animate_def Let_def frame_dt_def)
  moreover have "frames_time (inp # inps) = frame_dt inp + frames_time inps" by (simp add: frames_time_def)
  moreover have "inps = [] \<Longrightarrow> frames_time inps = 0" by (simp add: frames_time_def)
  ultimately show ?case
    using Cons.IH [of ?app] Cons.prems
    by (simp add: smooth_smooth AMPLITUDE_HALF_LIFE_def add.assoc distrib_left)
qed

text \<open>
  The animation depends on the time that has passed and not on the frame rate: two runs of
  frames over the same time at the same level end with the same eased level, rotation and clock,
  however the time is divided into frames, and so paint the same picture.
\<close>

theorem animation_ignores_the_frame_rate:
  assumes "\<forall>inp \<in> set inps \<union> set inps'. fi_amplitude inp = level" and "inps \<noteq> []" "inps' \<noteq> []"
    and "frames_time inps = frames_time inps'"
  shows "sa_smoothed (run_frames sh inps app) = sa_smoothed (run_frames sh inps' app) \<and>
    sa_elapsed (run_frames sh inps app) = sa_elapsed (run_frames sh inps' app) \<and>
    draw_frame inp (run_frames sh inps app) = draw_frame inp (run_frames sh inps' app)"
proof -
  let ?a = "run_frames sh inps app" and ?b = "run_frames sh inps' app"
  have same: "sa_smoothed ?a = sa_smoothed ?b" "sa_elapsed ?a = sa_elapsed ?b" "sa_yaw ?a = sa_yaw ?b"
    "sa_pitch ?a = sa_pitch ?b" "scene_points ?a = scene_points ?b"
    using assms run_frames_level [of inps level sh app] run_frames_level [of inps' level sh app] by simp_all
  then have "cloud ?a r = cloud ?b r" for r by (simp add: cloud_def scene_points_def)
  with same show ?thesis by (simp add: draw_frame_def draw_points_def pulse_of_def Let_def)
qed

section \<open>Full loudness\<close>

lemma cos_ge_quadratic: "1 - x\<^sup>2 / 2 \<le> cos x" for x :: real
proof -
  have "(sin (x / 2))\<^sup>2 \<le> (x / 2)\<^sup>2"
    using abs_sin_x_le_abs_x [of "x / 2"] by (simp add: abs_le_square_iff [symmetric])
  moreover have "cos x = 1 - 2 * (sin (x / 2))\<^sup>2" using cos_double_sin [of "x / 2"] by simp
  ultimately show ?thesis by (simp add: power_divide)
qed

lemma exp_minus_le: "0 \<le> x \<Longrightarrow> exp (- x) \<le> 1 / (1 + x)" for x :: real
  using exp_ge_add_one_self [of x] by (simp add: exp_minus field_simps)

text \<open>The point of a ring where it crosses the axis of its tilt.\<close>

lemma ring_has_the_axis: "\<lparr>p3_x = 1, p3_y = 0, p3_z = 0\<rparr> \<in> set (ring_points RING_POINTS tilt)"
  by (auto simp: ring_points_def RING_POINTS_def Let_def image_iff intro!: bexI [of _ 0])

lemma axis_point_overflows:
  assumes yaw: "sin yaw = - 0.3" "0 < cos yaw" and pitch: "\<bar>pitch\<bar> \<le> 0.3" and r: "0.86 * 1.095 * half \<le> r" "0 < half"
  shows "half < fst (pr_pos (project (rotate_point \<lparr>p3_x = 1, p3_y = 0, p3_z = 0\<rparr> yaw pitch) r PERSPECTIVE))"
proof -
  have "(cos yaw)\<^sup>2 = 0.91"
    unfolding cos_squared_eq [of yaw] yaw(1) by (simp add: power2_eq_square)
  then have "0.953\<^sup>2 \<le> (cos yaw)\<^sup>2" by (simp add: power2_eq_square)
  then have cy: "0.953 \<le> cos yaw" using yaw(2) power2_le_imp_le less_imp_le by blast
  have "pitch\<^sup>2 \<le> 0.3\<^sup>2" using pitch abs_le_square_iff [of pitch "0.3"] by simp
  then have cp: "0.955 \<le> cos pitch" using cos_ge_quadratic [of pitch] by (simp add: power2_eq_square)
  define k where "k = 2.6 / (2.6 - 0.3 * cos pitch)"
  have cp1: "cos pitch \<le> 1" by simp
  have near: "0 < 2.6 - 0.3 * cos pitch" using cp1 by linarith
  have k: "1.123 \<le> k" unfolding k_def pos_le_divide_eq [OF near] using cp by simp
  have "0.953 * 1.123 \<le> cos yaw * k" using cy k by (intro mult_mono) auto
  then have "0.953 * 1.123 * (0.86 * 1.095 * half) \<le> cos yaw * k * r"
    by (rule mult_mono [OF _ r(1)]) (use r(2) cy k in simp_all)
  moreover have "half < 0.953 * 1.123 * (0.86 * 1.095 * half)" using r(2) by simp
  moreover have "fst (pr_pos (project (rotate_point \<lparr>p3_x = 1, p3_y = 0, p3_z = 0\<rparr> yaw pitch) r PERSPECTIVE)) = cos yaw * k * r"
    using yaw(1) by (simp add: project_def rotate_point_def Let_def k_def PERSPECTIVE_def)
  ultimately show ?thesis by simp
qed

text \<open>One frame of a run in which a full-scale sound plays: speaking, in a window of the default size.\<close>

definition loud_frame :: "real \<Rightarrow> frame_input" where
  "loud_frame dt = \<lparr>fi_status = OverlaySpeaking, fi_amplitude = amplitude_from_samples [0x7FFF], fi_stable_dt = dt,
     fi_scroll = 0, fi_now = 0, fi_writable = True, fi_center = (0, 0), fi_width = 160, fi_height = 160\<rparr>"

text \<open>
  At full loudness the point cloud leaves the window: the margin accounts for the growth of the
  cloud with the level and not for the perspective, which moves a near point outwards by up to a
  twelfth. A sound at full scale that plays through enough frames of a tenth of a second or less
  leads to a frame that paints a point beyond the edge.
\<close>

theorem loud_frames_leave_the_window:
  "\<exists>n dt circles app. 0 < dt \<and> dt \<le> 0.1 \<and>
     app = run_frames sh (replicate n (loud_frame dt)) (scene_app_new 160 None) \<and>
     draw_frame (loud_frame dt) app = circles \<and> (\<exists>c \<in> set circles. 160 / 2 < fst (ci_center c))"
proof -
  define theta where "theta = 2 * pi - arcsin (3 / 10)"
  define T where "T = theta / YAW_SPEED"
  have sin: "sin theta = - 0.3" unfolding theta_def by (simp add: sin_diff)
  have arc: "- (pi / 2) \<le> arcsin (3 / 10) \<and> arcsin (3 / 10) \<le> pi / 2" using arcsin [of "3 / 10"] by simp
  have cos: "0 < cos theta" unfolding theta_def by (simp add: cos_diff cos_arcsin power2_eq_square)
  have "8 \<le> T" using arc pi_ge_two unfolding T_def theta_def YAW_SPEED_def by (simp add: field_simps)
  define n where "n = nat \<lceil>10 * T\<rceil>"
  define dt where "dt = T / of_nat n"
  have n: "10 * T \<le> of_nat n" "0 < n" using \<open>8 \<le> T\<close> unfolding n_def by linarith+
  then have dt: "0 < dt" "dt \<le> 0.1" using \<open>8 \<le> T\<close> unfolding dt_def by (simp_all add: field_simps)
  define app where "app = run_frames sh (replicate n (loud_frame dt)) (scene_app_new 160 None)"
  have "frames_time (replicate n (loud_frame dt)) = T"
    using n dt by (simp add: frames_time_def sum_list_replicate frame_dt_def loud_frame_def dt_def)
  then have run: "sa_smoothed app = smooth 0 1 T AMPLITUDE_HALF_LIFE" "sa_yaw app = YAW_SPEED * T"
    "sa_pitch app = sin (PITCH_SPEED * T) * 0.3" "scene_points app = scene_points (scene_app_new 160 None)"
    using run_frames_level [of "replicate n (loud_frame dt)" 1 sh "scene_app_new 160 None"] n
    by (simp_all add: app_def loud_frame_def amplitude_full_scale) (simp_all add: scene_app_new_def)
  have yaw: "sa_yaw app = theta" using run(2) by (simp add: T_def YAW_SPEED_def)
  have pitch: "\<bar>sa_pitch app\<bar> \<le> 0.3"
    unfolding run(3) abs_mult using abs_sin_le_one [of "PITCH_SPEED * T"] by simp
  have "exp (- (T / 0.08)) \<le> 1 / (1 + T / 0.08)" using \<open>8 \<le> T\<close> by (intro exp_minus_le) simp
  also have "\<dots> \<le> 1 / 101" using \<open>8 \<le> T\<close> by (intro divide_left_mono) auto
  finally have loud: "0.95 \<le> sa_smoothed app" by (simp add: run(1) smooth_decay AMPLITUDE_HALF_LIFE_def)
  define radius where "radius = 160 / 2 * (1 - SAFE_MARGIN) * (1 + sa_smoothed app * SCENE_PULSE_GAIN)"
  have "0.86 * 1.095 * 80 \<le> radius" using loud by (simp add: radius_def scene_constants)
  from axis_point_overflows [OF _ _ pitch this] yaw sin cos
  have far: "80 < fst (pr_pos (project (rotate_point \<lparr>p3_x = 1, p3_y = 0, p3_z = 0\<rparr> (sa_yaw app) (sa_pitch app)) radius PERSPECTIVE))"
    (is "80 < fst (pr_pos ?p)") by simp
  have "\<lparr>p3_x = 1, p3_y = 0, p3_z = 0\<rparr> \<in> set (scene_points app)"
    unfolding run(4) scene_points_new using ring_has_the_axis [of "0.35"] by (simp add: RING_TILTS_def)
  then have "?p \<in> set (cloud app radius)" unfolding set_cloud by (rule imageI)
  moreover have "set (draw_points app (0, 0) radius (accent_color OverlaySpeaking)) \<subseteq> set (draw_frame (loud_frame dt) app)"
    by (auto simp: draw_frame_def Let_def loud_frame_def pulse_of_def radius_def)
  ultimately have "draw_point (0, 0) (accent_color OverlaySpeaking) ?p \<in> set (draw_frame (loud_frame dt) app)"
    by (auto simp: draw_points_def)
  moreover have "160 / 2 < fst (ci_center (draw_point (0, 0) (accent_color OverlaySpeaking) ?p))"
    using far by (simp add: draw_point_def Let_def)
  ultimately show ?thesis using dt app_def by blast
qed

section \<open>Concrete frames\<close>

definition idle_frame :: "real \<Rightarrow> frame_input" where
  "idle_frame dt = \<lparr>fi_status = OverlayIdle, fi_amplitude = amplitude_from_samples [], fi_stable_dt = dt,
     fi_scroll = 0, fi_now = 0, fi_writable = True, fi_center = (80, 80), fi_width = 160, fi_height = 160\<rparr>"

theorem frames_stay_in_the_window_witness:
  "\<exists>app' circles. update_frame (\<lambda>_. ''160'') (idle_frame 0.05) (scene_app_new 160 None) = (app', circles) \<and>
    length circles = 188 \<and> sa_smoothed app' \<le> 1 \<and> win_size (sa_window app') = 160"
proof -
  obtain app' circles where frame: "update_frame (\<lambda>_. ''160'') (idle_frame 0.05) (scene_app_new 160 None) = (app', circles)"
    by fastforce
  have start: "scene_run (\<lambda>_. ''160'') (scene_app_new 160 None)"
    by (rule scene_start) (simp_all add: MIN_SIZE_def MAX_SIZE_def)
  have input: "0 \<le> fi_stable_dt (idle_frame 0.05)" "fi_amplitude (idle_frame 0.05) = amplitude_from_samples []"
    "0 < fi_width (idle_frame 0.05)" "0 < fi_height (idle_frame 0.05)"
    by (simp_all add: idle_frame_def)
  from frames_stay_in_the_window [OF start input frame]
  have "length circles = 188" "sa_smoothed app' \<le> 1" by auto
  moreover have "win_size (sa_window app') = 160"
    using frame by (auto simp: update_frame_def animate_def Let_def idle_frame_def handle_resize_def scene_app_new_def)
  ultimately show ?thesis using frame by blast
qed

theorem animation_ignores_the_frame_rate_witness:
  "draw_frame (idle_frame 0) (run_frames sh [idle_frame 0.1] (scene_app_new 160 None)) =
   draw_frame (idle_frame 0) (run_frames sh [idle_frame 0.03, idle_frame 0.07] (scene_app_new 160 None))"
proof -
  have "\<forall>inp \<in> set [idle_frame 0.1] \<union> set [idle_frame 0.03, idle_frame 0.07]. fi_amplitude inp = 0"
    by (simp add: idle_frame_def amplitude_from_samples_def)
  moreover have "frames_time [idle_frame 0.1] = frames_time [idle_frame 0.03, idle_frame 0.07]"
    by (simp add: frames_time_def frame_dt_def idle_frame_def)
  ultimately show ?thesis using animation_ignores_the_frame_rate by blast
qed

end
