(* ===== verification/Mic_Stream.thy ===== *)
theory Mic_Stream
  imports Ring Complex_Main "HOL-Library.While_Combinator"
begin

text \<open>
  The path from the microphone to the listener: the resampler (\<open>crates/stt/src/resample.rs\<close>), the
  stream that downmixes, resamples and buffers what the device delivers (\<open>stream.rs\<close>), and the
  recording of a whole utterance (\<open>capture.rs\<close>). Samples and positions are rational numbers: the code
  computes with floats, which this leaves out.
\<close>

section \<open>The resampler\<close>

record resampler =
  rs_ratio :: rat
  rs_position :: rat
  rs_previous :: "rat option"

text \<open>The assertion on the rates is the \<open>None\<close> branch.\<close>

definition resampler_new :: "nat \<Rightarrow> nat \<Rightarrow> resampler option" where
  "resampler_new from_rate to_rate =
     (if 0 < from_rate \<and> 0 < to_rate
      then Some \<lparr>rs_ratio = of_nat from_rate / of_nat to_rate, rs_position = 0, rs_previous = None\<rparr> else None)"

definition is_identity :: "resampler \<Rightarrow> bool" where
  "is_identity rs \<longleftrightarrow> rs_ratio rs = 1"

definition sample_at :: "rat option \<Rightarrow> rat list \<Rightarrow> int \<Rightarrow> rat" where
  "sample_at previous input i =
     (if i < 0 then (case previous of Some x \<Rightarrow> x | None \<Rightarrow> input ! 0) else input ! nat i)"

definition interpolate :: "(int \<Rightarrow> rat) \<Rightarrow> rat \<Rightarrow> rat" where
  "interpolate signal p =
     (let lower = \<lfloor>p\<rfloor>; fraction = p - of_int lower
      in signal lower * (1 - fraction) + signal (lower + 1) * fraction)"

text \<open>The loop that may not end is \<open>None\<close>.\<close>

definition resample_push :: "rat list \<Rightarrow> resampler \<times> rat list \<Rightarrow> (resampler \<times> rat list) option" where
  "resample_push input = (\<lambda>(rs, out).
     if input = [] then Some (rs, out)
     else if is_identity rs then Some (rs, out @ input)
     else map_option
       (\<lambda>(position, out).
          (rs\<lparr>rs_position := position - of_nat (length input), rs_previous := Some (last input)\<rparr>, out))
       (while_option (\<lambda>(position, out). \<lfloor>position\<rfloor> < int (length input) - 1)
          (\<lambda>(position, out).
             (position + rs_ratio rs, out @ [interpolate (sample_at (rs_previous rs) input) position]))
          (rs_position rs, out)))"

fun push_all :: "rat list list \<Rightarrow> resampler \<times> rat list \<Rightarrow> (resampler \<times> rat list) option" where
  "push_all [] st = Some st"
| "push_all (b # bs) st = Option.bind (resample_push b st) (push_all bs)"

section \<open>Resampling a whole signal\<close>

text \<open>
  The reference: one output per multiple of the ratio, as long as both of its neighbours are in the
  signal.
\<close>

definition out_count :: "rat \<Rightarrow> nat \<Rightarrow> nat" where
  "out_count ratio n = nat \<lceil>of_nat (n - 1) / ratio\<rceil>"

definition resampled :: "rat \<Rightarrow> rat list \<Rightarrow> rat list" where
  "resampled ratio xs =
     (if ratio = 1 then xs
      else map (\<lambda>k. interpolate (\<lambda>i. xs ! nat i) (of_nat k * ratio)) [0..<out_count ratio (length xs)])"

lemma out_count_0 [simp]: "out_count ratio 0 = 0"
  by (simp add: out_count_def)

lemma below_out_count: "0 < ratio \<Longrightarrow> k < out_count ratio n \<Longrightarrow> of_nat k * ratio < of_nat (n - 1)"
  unfolding out_count_def by (metis less_ceiling_iff nat_less_iff not_less of_int_of_nat_eq of_nat_nat
      pos_less_divide_eq zless_nat_eq_int_zless)

lemma above_out_count: "0 < ratio \<Longrightarrow> of_nat (n - 1) \<le> of_nat (out_count ratio n) * ratio"
proof -
  assume r: "0 < ratio"
  have "of_nat (n - 1) / ratio \<le> of_int \<lceil>of_nat (n - 1) / ratio\<rceil>" by (rule le_of_int_ceiling)
  also have "\<dots> \<le> of_nat (out_count ratio n)"
    unfolding out_count_def by (simp add: of_nat_nat)
  finally show ?thesis using r by (simp add: pos_divide_le_eq)
qed

lemma resample_loop:
  assumes "0 < ratio"
  shows "while_option (\<lambda>(p, out). \<lfloor>p\<rfloor> < l) (\<lambda>(p, out). (p + ratio, out @ [f p])) (p, out) =
    Some (p + of_nat (nat \<lceil>(of_int l - p) / ratio\<rceil>) * ratio,
      out @ map (\<lambda>j. f (p + of_nat j * ratio)) [0..<nat \<lceil>(of_int l - p) / ratio\<rceil>])"
proof (induction "nat \<lceil>(of_int l - p) / ratio\<rceil>" arbitrary: p out)
  case 0
  then have "(of_int l - p) / ratio \<le> 0" by simp
  with assms have "\<not> \<lfloor>p\<rfloor> < l" by (simp add: divide_le_0_iff floor_less_iff)
  with 0 show ?case by (subst while_option_unfold) simp
next
  case (Suc n)
  then have "0 < \<lceil>(of_int l - p) / ratio\<rceil>" by linarith
  then have "0 < (of_int l - p) / ratio" by simp
  with assms have less: "\<lfloor>p\<rfloor> < l" by (simp add: zero_less_divide_iff floor_less_iff)
  have "(of_int l - (p + ratio)) / ratio = (of_int l - p) / ratio - 1"
    using assms by (simp add: field_simps)
  then have "\<lceil>(of_int l - (p + ratio)) / ratio\<rceil> = \<lceil>(of_int l - p) / ratio\<rceil> - 1" by simp
  with Suc(2) have n: "n = nat \<lceil>(of_int l - (p + ratio)) / ratio\<rceil>" by linarith
  have "map (\<lambda>j. f (p + of_nat j * ratio)) [0..<Suc n] =
      f p # map (\<lambda>j. f (p + ratio + of_nat j * ratio)) [0..<n]"
    by (simp add: upt_conv_Cons map_Suc_upt [symmetric] algebra_simps del: upt_Suc)
  with less show ?case
    unfolding Suc(2) [symmetric]
    by (subst while_option_unfold) (simp add: Suc(1) [OF n] n [symmetric] algebra_simps del: upt_Suc)
qed

section \<open>Blocks\<close>

text \<open>The neighbours of a position: those of a block are those of the whole signal, the block before it included.\<close>

lemma interpolate_cong:
  assumes "signal \<lfloor>p\<rfloor> = signal' \<lfloor>p'\<rfloor>" and "signal (\<lfloor>p\<rfloor> + 1) = signal' (\<lfloor>p'\<rfloor> + 1)"
    and "p - of_int \<lfloor>p\<rfloor> = p' - of_int \<lfloor>p'\<rfloor>"
  shows "interpolate signal p = interpolate signal' p'"
  using assms by (simp add: interpolate_def Let_def)

lemma interpolate_block:
  assumes "- 1 \<le> p" and "xs = [] \<Longrightarrow> 0 \<le> p" and "p < of_nat (length ys) - 1"
  shows "interpolate (sample_at (if xs = [] then None else Some (last xs)) ys) p =
    interpolate (\<lambda>i. (xs @ ys) ! nat i) (p + of_nat (length xs))"
proof -
  let ?at = "sample_at (if xs = [] then None else Some (last xs)) ys"
  have at: "?at i = (xs @ ys) ! nat (i + int (length xs))" if "- 1 \<le> i" "xs = [] \<Longrightarrow> 0 \<le> i" for i
  proof (cases "i < 0")
    case True
    with that have "i = - 1" "xs \<noteq> []" by auto
    then have "nat (i + int (length xs)) = length xs - 1" "length xs - 1 < length xs" by (cases xs; simp)+
    with \<open>i = - 1\<close> \<open>xs \<noteq> []\<close> show ?thesis by (simp add: sample_at_def nth_append last_conv_nth)
  next
    case False
    then have "nat (i + int (length xs)) = length xs + nat i" by simp
    with False show ?thesis by (simp add: sample_at_def)
  qed
  have low: "- 1 \<le> \<lfloor>p\<rfloor>" "xs = [] \<Longrightarrow> 0 \<le> \<lfloor>p\<rfloor>"
    using assms by (simp_all add: le_floor_iff)
  have sum: "\<lfloor>p + of_nat (length xs)\<rfloor> = \<lfloor>p\<rfloor> + int (length xs)"
    using floor_add_int [of p "int (length xs)"] by simp
  show ?thesis
  proof (rule interpolate_cong)
    show "?at \<lfloor>p\<rfloor> = (xs @ ys) ! nat \<lfloor>p + of_nat (length xs)\<rfloor>"
      unfolding sum by (rule at [OF low])
    show "?at (\<lfloor>p\<rfloor> + 1) = (xs @ ys) ! nat (\<lfloor>p + of_nat (length xs)\<rfloor> + 1)"
      unfolding sum using at [of "\<lfloor>p\<rfloor> + 1"] low by (simp add: algebra_simps)
  qed (simp add: sum)
qed

lemma interpolate_prefix:
  assumes "0 \<le> p" and "p < of_nat (length xs - 1)"
  shows "interpolate (\<lambda>i. (xs @ ys) ! nat i) p = interpolate (\<lambda>i. xs ! nat i) p"
proof -
  have n: "0 \<le> \<lfloor>p\<rfloor>" "\<lfloor>p\<rfloor> < int (length xs - 1)"
    using assms by (simp_all add: floor_less_iff)
  then have "nat \<lfloor>p\<rfloor> < length xs" "nat (\<lfloor>p\<rfloor> + 1) < length xs" by linarith+
  then show ?thesis by (intro interpolate_cong) (simp_all add: nth_append)
qed

text \<open>The state of a resampler that was pushed the signal \<open>xs\<close>.\<close>

definition pushed :: "rat \<Rightarrow> rat list \<Rightarrow> resampler \<times> rat list \<Rightarrow> bool" where
  "pushed ratio xs st \<longleftrightarrow>
     rs_ratio (fst st) = ratio \<and> snd st = resampled ratio xs \<and>
     (ratio \<noteq> 1 \<longrightarrow>
        rs_previous (fst st) = (if xs = [] then None else Some (last xs)) \<and>
        rs_position (fst st) + of_nat (length xs) = of_nat (out_count ratio (length xs)) * ratio)"

lemma out_count_append:
  assumes r: "0 < ratio" and m: "0 < m"
  shows "out_count ratio (n + m) = out_count ratio n +
    nat \<lceil>(of_nat m - 1 - (of_nat (out_count ratio n) * ratio - of_nat n)) / ratio\<rceil>"
proof -
  let ?N = "out_count ratio n"
  have "(of_nat m - 1 - (of_nat ?N * ratio - of_nat n)) / ratio = of_nat (n + m - 1) / ratio - of_int (int ?N)"
    using r m by (simp add: field_simps of_nat_diff)
  then have e: "\<lceil>(of_nat m - 1 - (of_nat ?N * ratio - of_nat n)) / ratio\<rceil> = \<lceil>of_nat (n + m - 1) / ratio\<rceil> - int ?N"
    by (metis ceiling_diff_of_int)
  have "of_nat (n - 1) / ratio \<le> (of_nat (n + m - 1) / ratio :: rat)"
    using r m by (intro divide_right_mono) auto
  then have "\<lceil>of_nat (n - 1) / ratio\<rceil> \<le> \<lceil>of_nat (n + m - 1) / ratio\<rceil>" by (rule ceiling_mono)
  moreover have "(0 :: rat) \<le> of_nat (n - 1) / ratio" using r by simp
  then have "0 \<le> \<lceil>of_nat (n - 1) / ratio\<rceil>" by linarith
  ultimately have "nat \<lceil>of_nat (n + m - 1) / ratio\<rceil> = nat \<lceil>of_nat (n - 1) / ratio\<rceil> +
      nat (\<lceil>of_nat (n + m - 1) / ratio\<rceil> - int (nat \<lceil>of_nat (n - 1) / ratio\<rceil>))" by linarith
  then show ?thesis unfolding e unfolding out_count_def .
qed

lemma resampled_append:
  assumes r: "0 < ratio" and ne: "ratio \<noteq> 1"
  defines "N \<equiv> \<lambda>zs :: rat list. out_count ratio (length zs)"
  assumes k: "N (xs @ ys) = N xs + k"
  shows "resampled ratio (xs @ ys) = resampled ratio xs @
    map (\<lambda>j. interpolate (\<lambda>i. (xs @ ys) ! nat i) (of_nat (N xs) * ratio + of_nat j * ratio)) [0..<k]"
proof -
  have "resampled ratio (xs @ ys) =
      map (\<lambda>j. interpolate (\<lambda>i. (xs @ ys) ! nat i) (of_nat j * ratio)) ([0..<N xs] @ [N xs..<N xs + k])"
    using ne k by (simp add: resampled_def N_def upt_add_eq_append [symmetric])
  moreover have "map (\<lambda>j. interpolate (\<lambda>i. (xs @ ys) ! nat i) (of_nat j * ratio)) [0..<N xs] = resampled ratio xs"
    using ne r below_out_count [OF r] by (auto simp: resampled_def N_def intro!: interpolate_prefix)
  moreover have "map (\<lambda>j. interpolate (\<lambda>i. (xs @ ys) ! nat i) (of_nat j * ratio)) [N xs..<N xs + k] =
      map (\<lambda>j. interpolate (\<lambda>i. (xs @ ys) ! nat i) (of_nat (N xs) * ratio + of_nat j * ratio)) [0..<k]"
    unfolding map_add_upt [of "N xs" k, symmetric, unfolded add.commute [of k]]
    by (simp add: comp_def distrib_right add.commute)
  ultimately show ?thesis by simp
qed

lemma resample_push_pushed:
  assumes "pushed ratio xs st" and r: "0 < ratio"
  shows "\<exists>st'. resample_push ys st = Some st' \<and> pushed ratio (xs @ ys) st'"
proof -
  obtain rs out where st: "st = (rs, out)" by (cases st)
  show ?thesis
  proof (cases "ys = [] \<or> ratio = 1")
    case True
    with assms(1) st show ?thesis
      by (cases "ys = []") (auto simp: resample_push_def pushed_def is_identity_def resampled_def)
  next
    case False
    let ?N = "out_count ratio (length xs)" and ?n = "length xs" and ?m = "length ys"
    let ?p = "rs_position rs" and ?prev = "if xs = [] then None else Some (last xs)"
    let ?k = "nat \<lceil>(of_int (int ?m - 1) - ?p) / ratio\<rceil>"
    have rs: "rs_ratio rs = ratio" "rs_previous rs = ?prev" "out = resampled ratio xs"
        "?p = of_nat ?N * ratio - of_nat ?n"
      using assms(1) st False by (auto simp: pushed_def algebra_simps)
    have m: "0 < ?m" using False by simp
    have k: "out_count ratio (length (xs @ ys)) = ?N + ?k"
      using out_count_append [OF r m, of ?n] rs(4) by simp
    have outs: "map (\<lambda>j. interpolate (sample_at ?prev ys) (?p + of_nat j * ratio)) [0..<?k] =
        map (\<lambda>j. interpolate (\<lambda>i. (xs @ ys) ! nat i) (of_nat ?N * ratio + of_nat j * ratio)) [0..<?k]"
    proof (rule map_cong [OF refl])
      fix j
      assume "j \<in> set [0..<?k]"
      then have "?N + j < out_count ratio (?n + ?m)" using k by simp
      from below_out_count [OF r this] have up: "?p + of_nat j * ratio < of_nat ?m - 1"
        using m rs(4) by (simp add: of_nat_diff algebra_simps)
      have j: "0 \<le> of_nat j * ratio" using r by simp
      have "of_nat ?n - 1 \<le> (of_nat (?n - 1) :: rat)" by (cases ?n) simp_all
      with above_out_count [OF r, of ?n] rs(4) j have low: "- 1 \<le> ?p + of_nat j * ratio" by linarith
      have zero: "xs = [] \<Longrightarrow> 0 \<le> ?p + of_nat j * ratio" using rs(4) j by simp
      have e: "of_nat ?N * ratio + of_nat j * ratio = ?p + of_nat j * ratio + of_nat ?n" using rs(4) by simp
      show "interpolate (sample_at ?prev ys) (?p + of_nat j * ratio) =
          interpolate (\<lambda>i. (xs @ ys) ! nat i) (of_nat ?N * ratio + of_nat j * ratio)"
        unfolding e by (rule interpolate_block [OF low zero up])
    qed
    have "resample_push ys st =
        Some (rs\<lparr>rs_position := ?p + of_nat ?k * ratio - of_nat ?m, rs_previous := Some (last ys)\<rparr>,
          resampled ratio (xs @ ys))"
      using False resample_loop [OF r, of "int ?m - 1" "interpolate (sample_at ?prev ys)" ?p out]
        outs resampled_append [OF r _ k] rs(1,2,3) st
      by (simp add: resample_push_def is_identity_def)
    moreover have "?p + of_nat ?k * ratio - of_nat ?m + of_nat (?n + ?m) = of_nat (?N + ?k) * ratio"
      using rs(4) by (simp add: algebra_simps)
    ultimately show ?thesis using False rs(1) k by (simp add: pushed_def)
  qed
qed

lemma push_all_pushed:
  "pushed ratio xs st \<Longrightarrow> 0 < ratio \<Longrightarrow> \<exists>st'. push_all bs st = Some st' \<and> pushed ratio (xs @ concat bs) st'"
proof (induction bs arbitrary: xs st)
  case (Cons b bs)
  from resample_push_pushed [OF Cons.prems, of b] obtain st'
    where "resample_push b st = Some st'" "pushed ratio (xs @ b) st'" by blast
  with Cons.IH [of "xs @ b" st'] Cons.prems(2) show ?case by simp
qed auto

lemma resampler_new_pushed:
  assumes "resampler_new from_rate to_rate = Some rs"
  shows "pushed (of_nat from_rate / of_nat to_rate) [] (rs, []) \<and> (0 :: rat) < of_nat from_rate / of_nat to_rate"
  using assms by (auto simp: resampler_new_def pushed_def resampled_def split: if_splits)

text \<open>
  Block-wise resampling is resampling of the whole: however the audio is cut into callbacks, empty
  ones included, the resampler returns, and what it has put out is the reference resampling of all the
  audio so far; nothing is dropped, doubled or clamped at the boundary of a block.
\<close>

theorem blockwise_resampling:
  assumes "resampler_new from_rate to_rate = Some rs"
  shows "\<exists>rs'. push_all blocks (rs, []) =
    Some (rs', resampled (of_nat from_rate / of_nat to_rate) (concat blocks))"
  using push_all_pushed [OF resampler_new_pushed [OF assms, THEN conjunct1] resampler_new_pushed [OF assms, THEN conjunct2], of blocks]
  by (auto simp: pushed_def)

theorem blockwise_resampling_witness:
  "\<exists>rs rs'. resampler_new 3 2 = Some rs \<and> push_all [[0], [], [2, 4, 6], [8]] (rs, []) = Some (rs', [0, 3, 6])"
proof -
  obtain rs where rs: "resampler_new 3 2 = Some rs" by (simp add: resampler_new_def)
  have "\<lceil>8 / 3 :: rat\<rceil> = 3" by (simp add: ceiling_eq_iff)
  then have n: "out_count (3 / 2) 5 = 3" by (simp add: out_count_def)
  have u: "[0..<3 :: nat] = [0, 1, 2]" and f: "\<lfloor>3 / 2 :: rat\<rfloor> = 1" by (simp_all add: upt_rec floor_eq_iff)
  have l: "length [0, 2, 4, 6, 8 :: rat] = 5" by simp
  have "resampled (3 / 2) [0, 2, 4, 6, 8] = [0, 3, 6]"
    unfolding resampled_def l n u by (simp add: interpolate_def Let_def f)
  with blockwise_resampling [OF rs, of "[[0], [], [2, 4, 6], [8]]"] rs show ?thesis by auto
qed

section \<open>The microphone stream\<close>

text \<open>\<open>slice::chunks\<close> for a chunk size above zero.\<close>

fun sample_frames :: "nat \<Rightarrow> 'a list \<Rightarrow> 'a list list" where
  "sample_frames n [] = []"
| "sample_frames 0 (x # xs) = []"
| "sample_frames (Suc n) (x # xs) = (x # take n xs) # sample_frames (Suc n) (drop n xs)"

definition downmix :: "nat \<Rightarrow> rat list \<Rightarrow> rat list" where
  "downmix channels data = map (\<lambda>frame. sum_list frame / of_nat channels) (sample_frames channels data)"

record mic_stream =
  ms_channels :: nat
  ms_resampler :: resampler
  ms_ring :: "rat ring"

definition RING_SECONDS :: nat where "RING_SECONDS = 30"
definition WHISPER_SAMPLE_RATE :: nat where "WHISPER_SAMPLE_RATE = 16000"

definition mic_open :: "nat \<Rightarrow> nat \<Rightarrow> mic_stream option" where
  "mic_open source_rate channels =
     Option.bind (ring_with_capacity 0 (RING_SECONDS * WHISPER_SAMPLE_RATE))
       (\<lambda>r. map_option (\<lambda>rs. \<lparr>ms_channels = channels, ms_resampler = rs, ms_ring = r\<rparr>)
         (resampler_new source_rate WHISPER_SAMPLE_RATE))"

text \<open>The callback of the device; frames of no channels panic.\<close>

definition mic_callback :: "rat list \<Rightarrow> mic_stream \<Rightarrow> mic_stream option" where
  "mic_callback data m =
     (if ms_channels m = 0 then None
      else map_option (\<lambda>(rs, out). m\<lparr>ms_resampler := rs, ms_ring := ring_write out (ms_ring m)\<rparr>)
        (resample_push (downmix (ms_channels m) data) (ms_resampler m, [])))"

text \<open>
  One turn of the loop of \<open>next_chunk\<close>: a chunk with the overrun flag, which the code takes and ignores.
\<close>

definition mic_poll :: "nat \<Rightarrow> mic_stream \<Rightarrow> (bool \<times> rat list) option \<times> mic_stream" where
  "mic_poll n m =
     (case ring_read n (ms_ring m) of
        (None, r) \<Rightarrow> (None, m\<lparr>ms_ring := r\<rparr>)
      | (Some out, r) \<Rightarrow>
          (case ring_take_overrun r of (flag, r) \<Rightarrow> (Some (flag, out), m\<lparr>ms_ring := r\<rparr>)))"

text \<open>The interleaving of the device's callbacks and the reader's polls.\<close>

datatype mic_event = MicData "rat list" | MicPoll

fun mic_step :: "nat \<Rightarrow> mic_event \<Rightarrow> (bool \<times> rat list) list \<times> mic_stream \<Rightarrow> ((bool \<times> rat list) list \<times> mic_stream) option" where
  "mic_step n (MicData d) (cs, m) = map_option (Pair cs) (mic_callback d m)"
| "mic_step n MicPoll (cs, m) =
     (case mic_poll n m of
        (None, m) \<Rightarrow> Some (cs, m)
      | (Some c, m) \<Rightarrow> Some (cs @ [c], m))"

fun mic_run :: "nat \<Rightarrow> mic_event list \<Rightarrow> (bool \<times> rat list) list \<times> mic_stream \<Rightarrow> ((bool \<times> rat list) list \<times> mic_stream) option" where
  "mic_run n [] st = Some st"
| "mic_run n (e # es) st = Option.bind (mic_step n e st) (mic_run n es)"

fun heard :: "nat \<Rightarrow> mic_event list \<Rightarrow> rat list" where
  "heard c [] = []"
| "heard c (MicData d # es) = downmix c d @ heard c es"
| "heard c (MicPoll # es) = heard c es"

text \<open>
  Where chunks lie in a signal: one after the other, each starting where the one before ended unless its
  flag is set.
\<close>

fun placed :: "'a list \<Rightarrow> nat \<Rightarrow> nat \<Rightarrow> (bool \<times> 'a list) list \<Rightarrow> nat \<Rightarrow> bool" where
  "placed t n start [] end' = (start = end')"
| "placed t n start ((flag, c) # cs) end' =
     (\<exists>k \<ge> start. k + n \<le> length t \<and> (\<not> flag \<longrightarrow> k = start) \<and> c = take n (drop k t) \<and> placed t n (k + n) cs end')"

lemma placed_snoc:
  assumes "e \<le> k" and "k + n \<le> length t" and "\<not> flag \<longrightarrow> k = e"
  shows "placed t n start cs e \<Longrightarrow> placed t n start (cs @ [(flag, take n (drop k t))]) (k + n)"
proof (induction cs arbitrary: start)
  case Nil
  with assms show ?case by auto
next
  case (Cons x cs)
  obtain f c where x: "x = (f, c)" by (cases x)
  from Cons(2) obtain k' where k: "start \<le> k'" "k' + n \<le> length t" "\<not> f \<longrightarrow> k' = start" "c = take n (drop k' t)"
    "placed t n (k' + n) cs e" unfolding x placed.simps by blast
  with Cons(1) [OF k(5)] show ?case unfolding x append_Cons placed.simps by blast
qed

lemma placed_longer: "placed t n start cs e \<Longrightarrow> placed (t @ u) n start cs e"
proof (induction t n start cs e rule: placed.induct)
  case (2 t n start flag c cs e)
  from 2(2) obtain k where k: "start \<le> k" "k + n \<le> length t" "\<not> flag \<longrightarrow> k = start" "c = take n (drop k t)"
    "placed t n (k + n) cs e" unfolding placed.simps by blast
  then have "k + n \<le> length (t @ u)" "c = take n (drop k (t @ u))" by simp_all
  with k 2(1) [OF k(5)] show ?case unfolding placed.simps by blast
qed simp

definition mic_inv :: "rat \<Rightarrow> nat \<Rightarrow> nat \<Rightarrow> rat list \<Rightarrow> (bool \<times> rat list) list \<times> mic_stream \<Rightarrow> bool" where
  "mic_inv ratio c n s = (\<lambda>(cs, m).
     let t = resampled ratio s; r = ms_ring m
     in ms_channels m = c \<and> pushed ratio s (ms_resampler m, t) \<and> ring_wf r \<and> filled r \<le> length t \<and>
       ring_contents r = drop (length t - filled r) t \<and>
       (\<exists>e \<le> length t - filled r. (\<not> overrun r \<longrightarrow> e = length t - filled r) \<and> placed t n 0 cs e))"

lemma resample_push_fresh:
  assumes "pushed ratio s (rs, t)" and r: "0 < ratio"
  shows "\<exists>rs' u. resample_push ys (rs, []) = Some (rs', u) \<and> pushed ratio (s @ ys) (rs', t @ u)"
proof -
  have "resample_push ys (rs, []) = map_option (\<lambda>(rs', o'). (rs', drop (length t) o')) (resample_push ys (rs, t))"
  proof (cases "ys = [] \<or> is_identity rs")
    case False
    with assms have "rs_ratio rs = ratio" by (simp add: pushed_def)
    with False r show ?thesis by (simp add: resample_push_def resample_loop)
  qed (auto simp: resample_push_def)
  with resample_push_pushed [OF assms, of ys] obtain rs' o'
    where p: "resample_push ys (rs, t) = Some (rs', o')" "pushed ratio (s @ ys) (rs', o')"
      "resample_push ys (rs, []) = Some (rs', drop (length t) o')" by (auto split: prod.splits)
  moreover have "\<exists>u. o' = t @ u"
  proof (cases "ys = [] \<or> is_identity rs")
    case False
    with assms have "rs_ratio rs = ratio" by (simp add: pushed_def)
    with False r p(1) show ?thesis by (auto simp: resample_push_def resample_loop)
  qed (use p(1) in \<open>auto simp: resample_push_def split: if_splits\<close>)
  ultimately show ?thesis by auto
qed

lemma mic_inv_data:
  assumes "mic_inv ratio c n s (cs, m)" and r: "0 < ratio" and "0 < c"
  shows "\<exists>st. mic_step n (MicData d) (cs, m) = Some st \<and> mic_inv ratio c n (s @ downmix c d) st"
proof -
  let ?t = "resampled ratio s" and ?r = "ms_ring m" and ?d = "downmix c d"
  from assms(1) obtain e where inv: "ms_channels m = c" "pushed ratio s (ms_resampler m, ?t)" "ring_wf ?r"
      "filled ?r \<le> length ?t" "ring_contents ?r = drop (length ?t - filled ?r) ?t"
      "e \<le> length ?t - filled ?r" "\<not> overrun ?r \<longrightarrow> e = length ?t - filled ?r" "placed ?t n 0 cs e"
    by (auto simp: mic_inv_def Let_def)
  from resample_push_fresh [OF inv(2) r, of ?d] obtain rs u
    where push: "resample_push ?d (ms_resampler m, []) = Some (rs, u)" "pushed ratio (s @ ?d) (rs, ?t @ u)" by blast
  then have t: "resampled ratio (s @ ?d) = ?t @ u" by (simp add: pushed_def)
  let ?w = "ring_write u ?r" and ?cap = "ring_capacity ?r"
  have cap: "filled ?r \<le> ?cap" using inv(3) by (simp add: ring_wf_def)
  have step: "mic_step n (MicData d) (cs, m) = Some (cs, m\<lparr>ms_resampler := rs, ms_ring := ?w\<rparr>)"
    using inv(1) push(1) assms(3) by (simp add: mic_callback_def)
  have "ring_contents ?w = drop (length (?t @ u) - filled ?w) (?t @ u)"
    using inv(3,4,5) cap ring_contents_write [OF inv(3), of u] by (auto simp: take_last_def min_def add.commute)
  moreover have "e \<le> length (?t @ u) - filled ?w" "\<not> overrun ?w \<longrightarrow> e = length (?t @ u) - filled ?w"
    using inv(4,6,7) cap by (auto simp: min_def)
  moreover have "filled ?w \<le> length (?t @ u)" using inv(4) by simp
  ultimately have "mic_inv ratio c n (s @ ?d) (cs, m\<lparr>ms_resampler := rs, ms_ring := ?w\<rparr>)"
    using inv(1) push(2) ring_write_wf [OF inv(3), of u] placed_longer [OF inv(8), of u]
    by (auto simp: mic_inv_def Let_def t simp del: ring_write_sel)
  with step show ?thesis by blast
qed

lemma mic_inv_poll:
  assumes "mic_inv ratio c n s (cs, m)"
  shows "\<exists>st. mic_step n MicPoll (cs, m) = Some st \<and> mic_inv ratio c n s st"
proof (cases "filled (ms_ring m) < n")
  case True
  have "ring_wf (ms_ring m)" using assms by (simp add: mic_inv_def Let_def)
  with True have "mic_step n MicPoll (cs, m) = Some (cs, m)" by (simp add: mic_poll_def ring_read_eq)
  with assms show ?thesis by blast
next
  case False
  let ?t = "resampled ratio s" and ?r = "ms_ring m"
  let ?k = "length ?t - filled ?r"
  from assms obtain e where inv: "ms_channels m = c" "pushed ratio s (ms_resampler m, ?t)" "ring_wf ?r"
      "filled ?r \<le> length ?t" "ring_contents ?r = drop ?k ?t" "e \<le> ?k" "\<not> overrun ?r \<longrightarrow> e = ?k" "placed ?t n 0 cs e"
    by (auto simp: mic_inv_def Let_def)
  let ?q = "?r\<lparr>filled := filled ?r - n, overrun := False\<rparr>"
  have step: "mic_step n MicPoll (cs, m) = Some (cs @ [(overrun ?r, take n (drop ?k ?t))], m\<lparr>ms_ring := ?q\<rparr>)"
    using False inv(3,5) by (simp add: mic_poll_def ring_read_eq ring_take_overrun_def)
  have end': "?k + n \<le> length ?t" "?k + n = length ?t - filled ?q" using False inv(4) by simp_all
  have "placed ?t n 0 (cs @ [(overrun ?r, take n (drop ?k ?t))]) (?k + n)"
    by (rule placed_snoc) (use inv end' in auto)
  moreover have "ring_contents ?q = ring_contents (?r\<lparr>filled := filled ?r - n\<rparr>)"
    by (simp add: ring_contents_def nth_back_def ring_capacity_def)
  then have "ring_contents ?q = drop (length ?t - filled ?q) ?t"
    using False inv(5) ring_contents_filled [of n ?r] end' by (simp add: add.commute)
  moreover have "ring_wf ?q" using inv(3) by (auto simp: ring_wf_def ring_capacity_def)
  ultimately have "mic_inv ratio c n s (cs @ [(overrun ?r, take n (drop ?k ?t))], m\<lparr>ms_ring := ?q\<rparr>)"
    using inv(1,2,4) end' by (auto simp: mic_inv_def Let_def intro!: exI [of _ "?k + n"])
  with step show ?thesis by blast
qed

lemma mic_run_inv:
  "mic_inv ratio c n s st \<Longrightarrow> 0 < ratio \<Longrightarrow> 0 < c \<Longrightarrow>
    \<exists>st'. mic_run n es st = Some st' \<and> mic_inv ratio c n (s @ heard c es) st'"
proof (induction es arbitrary: s st)
  case (Cons ev es)
  obtain cs m where st: "st = (cs, m)" by (cases st)
  show ?case
  proof (cases ev)
    case (MicData d)
    with mic_inv_data [of ratio c n s cs m d] Cons.prems st obtain st1
      where "mic_step n ev st = Some st1" "mic_inv ratio c n (s @ downmix c d) st1" by blast
    with Cons.IH [of "s @ downmix c d" st1] Cons.prems MicData show ?thesis by simp
  next
    case MicPoll
    with mic_inv_poll [of ratio c n s cs m] Cons.prems st obtain st1
      where "mic_step n ev st = Some st1" "mic_inv ratio c n s st1" by blast
    with Cons.IH [of s st1] Cons.prems MicPoll show ?thesis by simp
  qed
qed simp

lemma mic_open_inv:
  assumes "mic_open source_rate channels = Some m"
  shows "mic_inv (of_nat source_rate / 16000) channels n [] ([], m) \<and> (0 :: rat) < of_nat source_rate / 16000"
proof -
  from assms obtain r rs where r: "ring_with_capacity 0 (RING_SECONDS * WHISPER_SAMPLE_RATE) = Some r"
    and rs: "resampler_new source_rate WHISPER_SAMPLE_RATE = Some rs"
    and m: "m = \<lparr>ms_channels = channels, ms_resampler = rs, ms_ring = r\<rparr>"
    by (auto simp: mic_open_def bind_eq_Some_conv)
  from resampler_new_pushed [OF rs] ring_new_facts [OF r] m show ?thesis
    by (auto simp: mic_inv_def Let_def WHISPER_SAMPLE_RATE_def resampled_def)
qed

text \<open>
  C26. What the listener hears is the resampled microphone: with at least one channel, whatever the
  sizes of the device's buffers and however they interleave with the reader, nothing panics and each
  chunk handed on is a contiguous piece of the resampling of everything the device delivered, downmixed;
  the pieces follow one another, and one that does not start where the last one ended has the overrun
  flag set, which the code discards.
\<close>

theorem chunks_are_the_signal:
  assumes "mic_open source_rate channels = Some m" and "0 < channels"
  shows "\<exists>cs m' e. mic_run n events ([], m) = Some (cs, m') \<and>
    placed (resampled (of_nat source_rate / 16000) (heard channels events)) n 0 cs e"
proof -
  note start = mic_open_inv [OF assms(1), of n]
  from mic_run_inv [OF start [THEN conjunct1] start [THEN conjunct2] assms(2), of events] obtain st
    where "mic_run n events ([], m) = Some st" "mic_inv (of_nat source_rate / 16000) channels n (heard channels events) st"
    by auto
  then show ?thesis by (cases st) (auto simp: mic_inv_def Let_def)
qed

theorem chunks_are_the_signal_witness:
  "\<exists>m cs m' e. mic_open 16000 2 = Some m \<and>
     mic_run 1 [MicData [1, 3], MicPoll, MicData [4, 4, 0, 2], MicPoll] ([], m) = Some (cs, m') \<and>
     placed [2, 4, 1] 1 0 cs e"
proof -
  obtain m where m: "mic_open 16000 2 = Some m"
    by (simp add: mic_open_def resampler_new_def ring_with_capacity_def WHISPER_SAMPLE_RATE_def RING_SECONDS_def)
  have "resampled (of_nat 16000 / 16000) (heard 2 [MicData [1, 3], MicPoll, MicData [4, 4, 0, 2], MicPoll]) = [2, 4, 1]"
    by (simp add: resampled_def downmix_def numeral_2_eq_2)
  with chunks_are_the_signal [OF m, of 1 "[MicData [1, 3], MicPoll, MicData [4, 4, 0, 2], MicPoll]"] m show ?thesis by auto
qed

section \<open>Recording\<close>

text \<open>
  \<open>resample_linear\<close>, which resamples a recording in one go: its outputs reach further, with the last
  sample in the place of a missing neighbour.
\<close>

definition resample_linear :: "rat list \<Rightarrow> nat \<Rightarrow> nat \<Rightarrow> rat list" where
  "resample_linear xs from_rate to_rate =
     (if from_rate = to_rate \<or> xs = [] then xs
      else
        let ratio = of_nat from_rate / of_nat to_rate
        in map (\<lambda>i.
             let src_index = of_nat i * ratio; lower = nat \<lfloor>src_index\<rfloor>; upper = min (lower + 1) (length xs - 1);
                 frac = src_index - of_nat lower
             in xs ! lower * (1 - frac) + xs ! upper * frac) [0..<nat \<lfloor>of_nat (length xs) / ratio\<rfloor>])"

lemma resample_linear_agrees:
  assumes "0 < from_rate" and "0 < to_rate"
    and "k < length (resample_linear xs from_rate to_rate)"
    and "k < length (resampled (of_nat from_rate / of_nat to_rate) xs)"
  shows "resample_linear xs from_rate to_rate ! k = resampled (of_nat from_rate / of_nat to_rate) xs ! k"
proof (cases "from_rate = to_rate \<or> xs = []")
  case True
  with assms show ?thesis by (auto simp: resample_linear_def resampled_def)
next
  case False
  define ratio :: rat where "ratio = of_nat from_rate / of_nat to_rate"
  have r: "0 < ratio" "ratio \<noteq> 1" using assms(1,2) False by (auto simp: ratio_def field_simps)
  have whole: "resampled ratio xs = map (\<lambda>k. interpolate (\<lambda>i. xs ! nat i) (of_nat k * ratio)) [0..<out_count ratio (length xs)]"
    using r(2) by (simp add: resampled_def)
  have k: "k < out_count ratio (length xs)" using assms(4) unfolding ratio_def [symmetric] whole by simp
  have "of_nat k * ratio < of_nat (length xs - 1)" by (rule below_out_count [OF r(1) k])
  then have "\<lfloor>of_nat k * ratio\<rfloor> < int (length xs - 1)" by (simp add: floor_less_iff)
  moreover have f: "0 \<le> \<lfloor>of_nat k * ratio\<rfloor>" using r(1) by simp
  ultimately have upper: "min (nat \<lfloor>of_nat k * ratio\<rfloor> + 1) (length xs - 1) = nat \<lfloor>of_nat k * ratio\<rfloor> + 1" by linarith
  have "k < nat \<lfloor>of_nat (length xs) / ratio\<rfloor>"
    using assms(3) False unfolding resample_linear_def ratio_def [symmetric] Let_def by simp
  then have "resample_linear xs from_rate to_rate ! k =
      xs ! nat \<lfloor>of_nat k * ratio\<rfloor> * (1 - (of_nat k * ratio - of_nat (nat \<lfloor>of_nat k * ratio\<rfloor>))) +
      xs ! (nat \<lfloor>of_nat k * ratio\<rfloor> + 1) * (of_nat k * ratio - of_nat (nat \<lfloor>of_nat k * ratio\<rfloor>))"
    using False upper unfolding resample_linear_def ratio_def [symmetric] Let_def by simp
  also have "\<dots> = resampled ratio xs ! k"
    unfolding whole using k f by (simp add: interpolate_def Let_def nat_add_distrib)
  finally show ?thesis unfolding ratio_def .
qed

text \<open>
  The loop of \<open>record_while\<close> over the answers of \<open>should_continue\<close> and the samples that arrive during
  the sleep after each: what is reported, and the final buffer. What arrives after the last report is in
  the buffer only.
\<close>

fun record_loop :: "(bool \<times> 'a list) list \<Rightarrow> 'a list \<Rightarrow> nat \<Rightarrow> ('a list list \<times> 'a list) option" where
  "record_loop [] buffer last_reported = None"
| "record_loop ((continue, new) # polls) buffer last_reported =
     (if \<not> continue then Some ([], buffer @ new)
      else
        let buffer = buffer @ new
        in if last_reported < length buffer
           then map_option (\<lambda>(reports, final). (drop last_reported buffer # reports, final))
             (record_loop polls buffer (length buffer))
           else record_loop polls buffer last_reported)"

lemma record_loop_reports:
  "record_loop polls buffer n = Some (reports, final) \<Longrightarrow> n \<le> length buffer \<Longrightarrow>
    \<exists>rest. final = take n buffer @ concat reports @ rest \<and> [] \<notin> set reports"
proof (induction polls buffer n arbitrary: reports rule: record_loop.induct)
  case (2 continue new polls buffer n)
  show ?case
  proof (cases "continue \<and> n < length (buffer @ new)")
    case True
    with 2(3) obtain rs where rs: "record_loop polls (buffer @ new) (length (buffer @ new)) = Some (rs, final)"
        "reports = drop n (buffer @ new) # rs" by auto
    from 2(1) [OF _ refl _ rs(1)] True obtain rest where "final = take (length (buffer @ new)) (buffer @ new) @ concat rs @ rest"
        "[] \<notin> set rs" by auto
    moreover have td: "take n buffer @ drop n buffer @ w = buffer @ w" for w
      by (metis append_assoc append_take_drop_id)
    moreover have "drop n (buffer @ new) \<noteq> []" using True unfolding drop_eq_Nil by linarith
    ultimately show ?thesis using rs(2) 2(4) by (simp add: td)
  next
    case False
    show ?thesis
    proof (cases continue)
      case True
      with False have "\<not> n < length buffer + length new" by simp
      with 2(4) have "length new = 0" by linarith
      then have "new = []" "\<not> n < length (buffer @ new)" using 2(4) False True by simp_all
      with 2(2) [OF _ refl, of reports] 2(3,4) True show ?thesis by auto
    next
      case c: False
      with 2(3) have "reports = []" "final = buffer @ new" by auto
      then show ?thesis using append_take_drop_id [of n "buffer @ new"] 2(4) by (intro exI [of _ "drop n (buffer @ new)"]) simp
    qed
  qed
qed simp

end
