(* ===== verification/Recording.thy ===== *)
theory Recording
  imports Mic_Stream
begin

text \<open>
  Opening the input device and the recordings made in one go (\<open>capture.rs\<close> and \<open>open\<close> of
  \<open>stream.rs\<close> in \<open>crates/stt\<close>). What the audio host answers is the record \<open>input_device\<close>; what
  it delivers is a list of blocks of interleaved samples.
\<close>

section \<open>The input device\<close>

datatype capture_error = NoInputDevice | StreamBuild string | StreamStart string

fun show_capture_error :: "capture_error \<Rightarrow> string" where
  "show_capture_error NoInputDevice = ''no input device found''"
| "show_capture_error (StreamBuild e) = ''failed to build input stream: '' @ e"
| "show_capture_error (StreamStart e) = ''failed to start recording: '' @ e"

record input_device =
  in_name :: "string option"
  in_config :: "string + nat \<times> nat"
  in_build :: "string + unit"
  in_play :: "string + unit"

text \<open>The steps every opening takes: the sample rate and the number of channels, or the first error.\<close>

definition input_config :: "input_device option \<Rightarrow> capture_error + nat \<times> nat" where
  "input_config dev = (case dev of None \<Rightarrow> Inl NoInputDevice | Some d \<Rightarrow> map_err StreamBuild (in_config d))"

definition start_stream :: "input_device \<Rightarrow> capture_error + unit" where
  "start_stream d =
     (case in_build d of Inl e \<Rightarrow> Inl (StreamBuild e) | Inr _ \<Rightarrow> map_err StreamStart (in_play d))"

definition UNNAMED_DEVICE :: string where "UNNAMED_DEVICE = ''<dispositivo sin nombre>''"

text \<open>\<open>MicStream::open\<close>: \<open>None\<close> is the panic of a resampler for a rate of zero.\<close>

definition open_mic :: "input_device option \<Rightarrow> (capture_error + string \<times> mic_stream) option" where
  "open_mic dev =
     (case dev of
        None \<Rightarrow> Some (Inl NoInputDevice)
      | Some d \<Rightarrow>
          let device_name = (case in_name d of Some n \<Rightarrow> n | None \<Rightarrow> UNNAMED_DEVICE)
          in case input_config dev of
               Inl e \<Rightarrow> Some (Inl e)
             | Inr (source_rate, channels) \<Rightarrow>
                 map_option
                   (\<lambda>m. case start_stream d of Inl e \<Rightarrow> Inl e | Inr _ \<Rightarrow> Inr (device_name, m))
                   (mic_open source_rate channels))"

section \<open>Recordings\<close>

record recorded_audio =
  ra_samples :: "rat list"
  ra_sample_rate :: nat

text \<open>The callback of a recording appends its block downmixed; the buffer holds the device's own rate.\<close>

definition mono_samples :: "nat \<Rightarrow> rat list list \<Rightarrow> rat list" where
  "mono_samples channels blocks = concat (map (downmix channels) blocks)"

definition recorded :: "nat \<Rightarrow> rat list \<Rightarrow> recorded_audio" where
  "recorded rate xs =
     \<lparr>ra_samples = resample_linear xs rate WHISPER_SAMPLE_RATE, ra_sample_rate = WHISPER_SAMPLE_RATE\<rparr>"

definition open_recording :: "input_device option \<Rightarrow> capture_error + nat \<times> nat" where
  "open_recording dev =
     (case input_config dev of
        Inl e \<Rightarrow> Inl e
      | Inr cfg \<Rightarrow> (case start_stream (the dev) of Inl e \<Rightarrow> Inl e | Inr _ \<Rightarrow> Inr cfg))"

text \<open>\<open>record_until_enter\<close>: \<open>blocks\<close> are the ones delivered before the line is read.\<close>

definition record_until_enter :: "input_device option \<Rightarrow> rat list list \<Rightarrow> capture_error + recorded_audio" where
  "record_until_enter dev blocks =
     (case open_recording dev of
        Inl e \<Rightarrow> Inl e
      | Inr (rate, channels) \<Rightarrow> Inr (recorded rate (mono_samples channels blocks)))"

text \<open>
  \<open>record_while\<close>: each answer of \<open>should_continue\<close> with the blocks that arrive until the look at the
  buffer after it. The amplitude callback gets the reports; \<open>None\<close> is a recording that goes on.
\<close>

definition record_while ::
  "input_device option \<Rightarrow> (bool \<times> rat list list) list \<Rightarrow> ((capture_error + recorded_audio) \<times> rat list list) option" where
  "record_while dev polls =
     (case open_recording dev of
        Inl e \<Rightarrow> Some (Inl e, [])
      | Inr (rate, channels) \<Rightarrow>
          map_option (\<lambda>(reports, final). (Inr (recorded rate final), reports))
            (record_loop (map (map_prod id (mono_samples channels)) polls) [] 0))"

section \<open>Properties\<close>

text \<open>Every access of \<open>resample_linear\<close> is within the recording: it never panics.\<close>

lemma resample_linear_in_range:
  assumes "0 < from_rate" "0 < to_rate" "xs \<noteq> []"
    and "i < nat \<lfloor>of_nat (length xs) / (of_nat from_rate / of_nat to_rate :: rat)\<rfloor>"
  shows "nat \<lfloor>of_nat i * (of_nat from_rate / of_nat to_rate) :: rat\<rfloor> < length xs"
proof -
  let ?r = "of_nat from_rate / of_nat to_rate :: rat"
  have r: "0 < ?r" using assms(1,2) by simp
  have "int i < \<lfloor>of_nat (length xs) / ?r\<rfloor>" using assms(4) by linarith
  then have "of_int (int i) + 1 \<le> of_nat (length xs) / ?r" by linarith
  then have "(of_nat i + 1) * ?r \<le> of_nat (length xs)" unfolding pos_le_divide_eq [OF r] of_int_of_nat_eq .
  then have "of_nat i * ?r < of_nat (length xs)" unfolding distrib_right using r by linarith
  then have "\<lfloor>of_nat i * ?r\<rfloor> < int (length xs)" by (simp add: floor_less_iff)
  moreover have "0 \<le> \<lfloor>of_nat i * ?r\<rfloor>" using r by simp
  ultimately show ?thesis by linarith
qed

text \<open>A recording lasts as long as its signal: at 16 kHz it has that many samples, rounded down.\<close>

lemma length_recorded:
  assumes "rate \<noteq> WHISPER_SAMPLE_RATE"
  shows "length (ra_samples (recorded rate xs)) = length xs * WHISPER_SAMPLE_RATE div rate"
proof -
  have "nat \<lfloor>of_nat (length xs) / (of_nat rate / of_nat WHISPER_SAMPLE_RATE :: rat)\<rfloor> =
      length xs * WHISPER_SAMPLE_RATE div rate"
    using floor_divide_of_nat_eq [of "length xs * WHISPER_SAMPLE_RATE" rate, where ?'a = rat]
    by (simp add: nat_int)
  with assms show ?thesis by (simp add: recorded_def resample_linear_def Let_def)
qed

text \<open>The samples that arrive until the first answer to stop, at the device's rate.\<close>

fun recorded_signal :: "(bool \<times> 'a list) list \<Rightarrow> 'a list option" where
  "recorded_signal [] = None"
| "recorded_signal ((continue, new) # polls) =
     (if continue then map_option ((@) new) (recorded_signal polls) else Some new)"

lemma record_loop_signal:
  "map_option snd (record_loop polls buffer n) = map_option ((@) buffer) (recorded_signal polls)"
  by (induction polls buffer n rule: record_loop.induct)
    (auto simp: Let_def option.map_comp o_def split_def map_option_case split: option.splits)

text \<open>
  A recording that starts on a device and is told to stop returns, at 16 kHz, the resampling of
  everything the device delivered until then, and the blocks its amplitude callback was given are
  the beginning of that signal, without gaps and never empty.
\<close>

theorem recording_is_the_signal:
  assumes "record_while dev polls = Some (Inr audio, reports)"
  shows "\<exists>rate channels signal rest. open_recording dev = Inr (rate, channels) \<and>
    recorded_signal (map (map_prod id (mono_samples channels)) polls) = Some signal \<and>
    audio = recorded rate signal \<and> signal = concat reports @ rest \<and> [] \<notin> set reports"
proof -
  obtain rate channels where o: "open_recording dev = Inr (rate, channels)"
    using assms by (auto simp: record_while_def split: sum.splits)
  let ?polls = "map (map_prod id (mono_samples channels)) polls"
  from assms o obtain final where l: "record_loop ?polls [] 0 = Some (reports, final)" and a: "audio = recorded rate final"
    by (auto simp: record_while_def)
  have "recorded_signal ?polls = Some final"
    using record_loop_signal [of ?polls "[]" 0] l by (cases "recorded_signal ?polls") auto
  moreover obtain rest where "final = concat reports @ rest" "[] \<notin> set reports"
    using record_loop_reports [OF l] by auto
  ultimately show ?thesis using o a by blast
qed

end
