(* ===== verification/Voice_Main.thy ===== *)
theory Voice_Main
  imports Nala_Server Narration
begin

text \<open>
  The local mode of the voice service: its construction (\<open>apps/voice/src/bootstrap.rs\<close>) and the loop
  of \<open>apps/voice/src/main.rs\<close> that records, transcribes, sends the turn and speaks the answer. The
  keyboard, the microphone and the transcriber are the inputs of an iteration; what the program does
  to the screen, the microphone and the speech queue is a list of operations. A backend that cannot
  speak is ignored by the code.
\<close>

section \<open>What the program does\<close>

datatype voice_op = Say string | Flush | Record | PrintOut string | PrintErr string

record local_voice =
  lv_client :: nala_client
  lv_sink :: speaking_sink
  lv_ops :: "voice_op list"

definition do_ops :: "voice_op list \<Rightarrow> local_voice \<Rightarrow> local_voice" where
  "do_ops ops l = l\<lparr>lv_ops := lv_ops l @ ops\<rparr>"

text \<open>An event of a turn, narrated on the same speech queue.\<close>

definition local_emit :: "event \<Rightarrow> local_voice \<Rightarrow> local_voice" where
  "local_emit ev l =
     (let s = speaking_emit ev (lv_sink l)
      in do_ops (map Say (drop (length (sink_said (lv_sink l))) (sink_said s))) (l\<lparr>lv_sink := s\<rparr>))"

fun show_client_error :: "client_error \<Rightarrow> string" where
  "show_client_error (ConnectFailed m) = ''could not connect to nala: '' @ m"
| "show_client_error (ClientIo m) = ''connection to nala failed: '' @ m"
| "show_client_error (ServerError m) = ''nala reported an error: '' @ m"
| "show_client_error ClosedWithoutReply = ''nala closed the connection without replying''"

fun spoken_error :: "client_error \<Rightarrow> string" where
  "spoken_error (ConnectFailed m) =
     ''No pude conectarme con Nala. Revis'' @ a_acute @ '' que est'' @ e_acute @ '' corriendo.''"
| "spoken_error (ClientIo m) =
     ''No pude conectarme con Nala. Revis'' @ a_acute @ '' que est'' @ e_acute @ '' corriendo.''"
| "spoken_error (ServerError m) = ''Nala tuvo un error interno, revis'' @ a_acute @ '' la consola.''"
| "spoken_error ClosedWithoutReply = ''Nala tuvo un error interno, revis'' @ a_acute @ '' la consola.''"

section \<open>Construction\<close>

text \<open>
  \<open>bootstrap::build\<close>: the result of connecting is a parameter. A greeting that could not be received is
  empty; \<open>None\<close> waits for one.
\<close>

definition local_build :: "client_error + nala_client \<Rightarrow> client_error + (local_voice \<times> string) option" where
  "local_build connected =
     (case connected of
        Inl e \<Rightarrow> Inl e
      | Inr client \<Rightarrow>
          (case recv_greeting client of
             (None, client) \<Rightarrow> Inr None
           | (Some greeting, client) \<Rightarrow>
               let ops = (case greeting of
                 Inl e \<Rightarrow> [PrintErr (''Warning: could not receive the greeting from nala: '' @ show_client_error e)]
               | Inr _ \<Rightarrow> [])
               in Inr (Some (\<lparr>lv_client = client,
                      lv_sink = \<lparr>sink_narrator = template_narrator_new, sink_said = [], sink_inner = []\<rparr>, lv_ops = ops\<rparr>,
                    case greeting of Inl e \<Rightarrow> [] | Inr g \<Rightarrow> g))))"

section \<open>The loop\<close>

text \<open>
  One iteration: what reading a line gave (\<open>Inr None\<close> is the end of the input), and what recording
  gave. An iteration ends the program, goes on, or is still waiting for the reply.
\<close>

record 's iteration =
  it_trigger :: "string + string option"
  it_audio :: "string + 's"

datatype progress = GoesOn | Ends | Waits

definition ascii_lower :: "char \<Rightarrow> char" where
  "ascii_lower c = (if 65 \<le> byte_of c \<and> byte_of c \<le> 90 then char_of (byte_of c + 32) else c)"

definition wants_exit :: "string + string option \<Rightarrow> bool" where
  "wants_exit t =
     (case t of
        Inr None \<Rightarrow> True
      | Inr (Some line) \<Rightarrow> map ascii_lower (trim line) = ''salir''
      | Inl e \<Rightarrow> False)"

definition answer_ops :: "client_error + string \<Rightarrow> voice_op list" where
  "answer_ops res =
     (case res of
        Inr response \<Rightarrow> [PrintOut response, Say response, Flush]
      | Inl e \<Rightarrow> [PrintErr (''Error: '' @ show_client_error e), Say (spoken_error e), Flush])"

definition local_turn ::
  "(client_message \<Rightarrow> client_error + unit) \<Rightarrow> string \<Rightarrow> local_voice \<Rightarrow> local_voice \<times> progress" where
  "local_turn put input l =
     (case client_send put (trim input) Voice (lv_client l) of
        (evs, res, client) \<Rightarrow>
          let l = fold local_emit evs (l\<lparr>lv_client := client\<rparr>)
          in case res of
               None \<Rightarrow> (l, Waits)
             | Some r \<Rightarrow> (do_ops (answer_ops r) l, GoesOn))"

definition PROMPT :: string where
  "PROMPT = ''Apret'' @ a_acute @ '' Enter para hablar (o escrib'' @ [CHR 0xC3, CHR 0xAD] @ '' '' @ quote @ ''salir'' @ quote @
     '' para terminar)...''"

definition local_step ::
  "(client_message \<Rightarrow> client_error + unit) \<Rightarrow> ('s \<Rightarrow> string + string) \<Rightarrow> 's iteration \<Rightarrow> local_voice \<Rightarrow>
     local_voice \<times> progress" where
  "local_step put transcribe it l =
     (let l = do_ops [PrintOut PROMPT] l
      in if wants_exit (it_trigger it) then (l, Ends)
         else
           let l = do_ops [Record] l
           in case it_audio it of
                Inl e \<Rightarrow> (do_ops [PrintErr (''Error grabando: '' @ e)] l, GoesOn)
              | Inr audio \<Rightarrow>
                  (case transcribe audio of
                     Inl e \<Rightarrow> (do_ops [PrintErr (''Error transcribiendo: '' @ e)] l, GoesOn)
                   | Inr t \<Rightarrow>
                       if is_blank t
                       then (do_ops [PrintOut (''No se entendi'' @ o_acute @ '' nada, prob'' @ a_acute @ '' de nuevo.'')] l, GoesOn)
                       else local_turn put t (do_ops [PrintOut (''Vos: '' @ t)] l)))"

text \<open>Without a next iteration the program waits for the keyboard.\<close>

fun local_loop ::
  "(client_message \<Rightarrow> client_error + unit) \<Rightarrow> ('s \<Rightarrow> string + string) \<Rightarrow> 's iteration list \<Rightarrow> local_voice \<Rightarrow>
     local_voice \<times> progress" where
  "local_loop put transcribe [] l = (l, Waits)"
| "local_loop put transcribe (it # its) l =
     (case local_step put transcribe it l of
        (l, GoesOn) \<Rightarrow> local_loop put transcribe its l
      | (l, Ends) \<Rightarrow> (do_ops [Flush] l, Ends)
      | (l, Waits) \<Rightarrow> (l, Waits))"

definition greeting_ops :: "string \<Rightarrow> voice_op list" where
  "greeting_ops greeting = (if greeting = [] then [] else [PrintOut greeting, Say greeting, Flush])"

definition run_local ::
  "(client_message \<Rightarrow> client_error + unit) \<Rightarrow> ('s \<Rightarrow> string + string) \<Rightarrow> client_error + nala_client \<Rightarrow>
     's iteration list \<Rightarrow> client_error + (local_voice \<times> progress) option" where
  "run_local put transcribe connected its =
     map_sum id (map_option (\<lambda>(l, greeting). local_loop put transcribe its (do_ops (greeting_ops greeting) l)))
       (local_build connected)"

section \<open>The microphone is opened in silence\<close>

text \<open>\<open>silent\<close> says whether all that was said so far has been spoken out.\<close>

fun after_op :: "bool \<Rightarrow> voice_op \<Rightarrow> bool" where
  "after_op silent (Say t) = False"
| "after_op silent Flush = True"
| "after_op silent op = silent"

fun records_in_silence :: "bool \<Rightarrow> voice_op list \<Rightarrow> bool" where
  "records_in_silence silent [] = True"
| "records_in_silence silent (op # ops) =
     ((op = Record \<longrightarrow> silent) \<and> records_in_silence (after_op silent op) ops)"

lemma records_in_silence_append:
  "records_in_silence silent (ops @ ops') \<longleftrightarrow>
    records_in_silence silent ops \<and> records_in_silence (foldl after_op silent ops) ops'"
  by (induction ops arbitrary: silent) auto

definition quiet_so_far :: "local_voice \<Rightarrow> bool" where
  "quiet_so_far l \<longleftrightarrow> records_in_silence True (lv_ops l) \<and> foldl after_op True (lv_ops l)"

lemma do_ops_quiet:
  "records_in_silence True (lv_ops l) \<Longrightarrow> records_in_silence (foldl after_op True (lv_ops l)) ops \<Longrightarrow>
    foldl after_op (foldl after_op True (lv_ops l)) ops \<Longrightarrow> quiet_so_far (do_ops ops l)"
  by (simp add: quiet_so_far_def do_ops_def records_in_silence_append)

lemma says_only: "records_in_silence silent (map Say ts)"
  by (induction ts arbitrary: silent) auto

lemma local_emit_facts:
  "records_in_silence True (lv_ops l) \<Longrightarrow> records_in_silence True (lv_ops (local_emit ev l))"
  "lv_client (local_emit ev l) = lv_client l"
  by (simp_all add: local_emit_def do_ops_def Let_def records_in_silence_append says_only)

lemma fold_local_emit_facts:
  "records_in_silence True (lv_ops l) \<Longrightarrow> records_in_silence True (lv_ops (fold local_emit evs l))"
  "lv_client (fold local_emit evs l) = lv_client l"
  by (induction evs arbitrary: l) (simp_all add: local_emit_facts)

lemma local_turn_quiet:
  assumes "quiet_so_far l" and "local_turn put input l = (l', p)"
  shows "records_in_silence True (lv_ops l') \<and> (p = GoesOn \<longrightarrow> quiet_so_far l') \<and> p \<noteq> Ends"
proof -
  obtain evs res client where send: "client_send put (trim input) Voice (lv_client l) = (evs, res, client)"
    by (cases "client_send put (trim input) Voice (lv_client l)")
  let ?l = "fold local_emit evs (l\<lparr>lv_client := client\<rparr>)"
  have r: "records_in_silence True (lv_ops ?l)"
    using assms(1) by (intro fold_local_emit_facts) (simp add: quiet_so_far_def)
  have "quiet_so_far (do_ops (answer_ops x) ?l)" for x
    using r by (intro do_ops_quiet) (simp_all add: answer_ops_def split: sum.split)
  with r assms(2) send show ?thesis
    by (auto simp: local_turn_def Let_def quiet_so_far_def split: option.splits)
qed

lemma local_step_quiet:
  assumes "quiet_so_far l" and "local_step put transcribe it l = (l', p)"
  shows "records_in_silence True (lv_ops l') \<and> (p \<noteq> Waits \<longrightarrow> quiet_so_far l')"
proof -
  have ops: "quiet_so_far (do_ops ops l)"
    if "quiet_so_far l" and "\<forall>op \<in> set ops. op = Record \<or> (\<exists>t. op = PrintOut t) \<or> (\<exists>t. op = PrintErr t)" for ops l
    using that
  proof (induction ops arbitrary: l)
    case (Cons op ops)
    have "quiet_so_far (do_ops [op] l)"
      using Cons.prems by (intro do_ops_quiet) (auto simp: quiet_so_far_def)
    from Cons.IH [OF this] Cons.prems(2) show ?case by (simp add: do_ops_def)
  qed (simp add: do_ops_def)
  have step: "records_in_silence True (lv_ops l') \<and> (p \<noteq> Waits \<longrightarrow> quiet_so_far l')" if "quiet_so_far l'"
    using that by (simp add: quiet_so_far_def)
  show ?thesis
  proof (cases "\<exists>t audio. \<not> wants_exit (it_trigger it) \<and> it_audio it = Inr audio \<and> transcribe audio = Inr t \<and> \<not> is_blank t")
    case True
    then obtain t where t: "local_turn put t (do_ops [PrintOut (''Vos: '' @ t)] (do_ops [Record] (do_ops [PrintOut PROMPT] l))) = (l', p)"
      using assms(2) by (auto simp: local_step_def Let_def)
    have "quiet_so_far (do_ops [PrintOut (''Vos: '' @ t)] (do_ops [Record] (do_ops [PrintOut PROMPT] l)))"
      by (intro ops assms(1)) simp_all
    from local_turn_quiet [OF this t] show ?thesis by (cases p) (auto simp: quiet_so_far_def)
  next
    case False
    then show ?thesis
      using assms by (intro step) (auto simp: local_step_def Let_def intro!: ops split: if_splits sum.splits)
  qed
qed

lemma local_loop_quiet:
  "quiet_so_far l \<Longrightarrow> local_loop put transcribe its l = (l', p) \<Longrightarrow> records_in_silence True (lv_ops l')"
proof (induction its arbitrary: l)
  case (Cons it its)
  obtain l1 p1 where step: "local_step put transcribe it l = (l1, p1)" by (cases "local_step put transcribe it l")
  from local_step_quiet [OF Cons.prems(1) step] Cons.IH [of l1] Cons.prems(2) step show ?case
    by (cases p1) (auto simp: do_ops_def records_in_silence_append)
qed (simp add: quiet_so_far_def)

section \<open>Every utterance is sent once\<close>

fun understood :: "('s \<Rightarrow> string + string) \<Rightarrow> 's iteration list \<Rightarrow> string list" where
  "understood transcribe [] = []"
| "understood transcribe (it # its) =
     (if wants_exit (it_trigger it) then []
      else (case it_audio it of
              Inl e \<Rightarrow> []
            | Inr audio \<Rightarrow>
                (case transcribe audio of Inl e \<Rightarrow> [] | Inr t \<Rightarrow> if is_blank t then [] else [t])) @ understood transcribe its)"

lemma do_ops_client [simp]: "lv_client (do_ops ops l) = lv_client l"
  by (simp add: do_ops_def)

lemma local_turn_sent:
  assumes "\<And>m. put m = Inr ()" and "local_turn put t l = (l', p)"
  shows "nc_sent (lv_client l') = nc_sent (lv_client l) @ [Input (trim t) Voice]"
  using assms by (auto simp: local_turn_def client_send_def Let_def fold_local_emit_facts split: prod.splits option.splits)

lemma local_step_sent:
  assumes put: "\<And>m. put m = Inr ()" and "local_step put transcribe it l = (l', p)"
  shows "nc_sent (lv_client l') = nc_sent (lv_client l) @ map (\<lambda>t. Input (trim t) Voice) (understood transcribe [it]) \<and>
    (p = Ends \<longleftrightarrow> wants_exit (it_trigger it))"
proof (cases "\<exists>t audio. \<not> wants_exit (it_trigger it) \<and> it_audio it = Inr audio \<and> transcribe audio = Inr t \<and> \<not> is_blank t")
  case True
  then obtain t audio where t: "\<not> wants_exit (it_trigger it)" "it_audio it = Inr audio" "transcribe audio = Inr t" "\<not> is_blank t"
    by blast
  with assms(2) have turn: "local_turn put t (do_ops [PrintOut (''Vos: '' @ t)] (do_ops [Record] (do_ops [PrintOut PROMPT] l))) = (l', p)"
    by (simp add: local_step_def Let_def)
  then have "p \<noteq> Ends" by (auto simp: local_turn_def Let_def split: prod.splits option.splits)
  with local_turn_sent [OF put turn] t show ?thesis by simp
next
  case False
  with assms(2) show ?thesis by (auto simp: local_step_def Let_def split: if_splits sum.splits)
qed

lemma local_loop_sent:
  assumes put: "\<And>m. put m = Inr ()"
  shows "local_loop put transcribe its l = (l', p) \<Longrightarrow>
    \<exists>rest. nc_sent (lv_client l) @ map (\<lambda>t. Input (trim t) Voice) (understood transcribe its) = nc_sent (lv_client l') @ rest \<and>
      (p = Ends \<longrightarrow> rest = [])"
proof (induction its arbitrary: l)
  case (Cons it its)
  obtain l1 p1 where step: "local_step put transcribe it l = (l1, p1)" by (cases "local_step put transcribe it l")
  have u: "understood transcribe (it # its) =
      understood transcribe [it] @ (if wants_exit (it_trigger it) then [] else understood transcribe its)" by simp
  show ?case
  proof (cases p1)
    case GoesOn
    with Cons.prems step have "local_loop put transcribe its l1 = (l', p)" by simp
    from Cons.IH [OF this] local_step_sent [OF put step] GoesOn show ?thesis unfolding u by auto
  next
    case Ends
    with Cons.prems step local_step_sent [OF put step] show ?thesis unfolding u by auto
  next
    case Waits
    with Cons.prems step local_step_sent [OF put step] show ?thesis unfolding u by auto
  qed
qed simp

text \<open>
  C27. In the local mode the microphone is only opened in silence: from the greeting on, whatever is
  typed, recorded, transcribed or answered, nothing is recorded while something that was said (the
  greeting, a narration, an answer or a spoken error) may still be playing. And over a connection that
  accepts what is sent, every utterance that was understood before the user left is sent once, trimmed
  and in order, as a turn of the voice; nothing else is sent.
\<close>

theorem local_mode_records_in_silence:
  assumes "run_local put transcribe connected its = Inr (Some (l, p))"
  shows "records_in_silence True (lv_ops l) \<and>
    ((\<forall>m. put m = Inr ()) \<and> (\<exists>incoming. connected = Inr (nala_client_new incoming)) \<longrightarrow>
      (\<exists>rest. map (\<lambda>t. Input (trim t) Voice) (understood transcribe its) = nc_sent (lv_client l) @ rest \<and>
        (p = Ends \<longrightarrow> rest = [])))"
proof -
  from assms obtain l0 greeting where build: "local_build connected = Inr (Some (l0, greeting))"
    and loop: "local_loop put transcribe its (do_ops (greeting_ops greeting) l0) = (l, p)"
    by (cases "local_build connected") (auto simp: run_local_def map_option_eq_Some)
  have "quiet_so_far l0"
    using build by (auto simp: local_build_def quiet_so_far_def Let_def split: sum.splits prod.splits option.splits)
  then have "quiet_so_far (do_ops (greeting_ops greeting) l0)"
    by (intro do_ops_quiet) (auto simp: greeting_ops_def quiet_so_far_def)
  moreover have "nc_sent (lv_client l0) = []" if "connected = Inr (nala_client_new incoming)" for incoming
    using build that
    by (auto simp: local_build_def Let_def recv_greeting_def nala_client_new_def split: list.splits option.splits prod.splits)
  ultimately show ?thesis
    using local_loop_quiet [OF _ loop] local_loop_sent [OF _ loop] by (metis append_Nil do_ops_client)
qed

theorem local_mode_records_in_silence_witness:
  "let incoming = [Inr (Some (EventMsg (Greeting ''hola''))), Inr (Some (Reply ''son las dos''))];
       its = [\<lparr>it_trigger = Inr (Some []), it_audio = Inr ''  la hora ''\<rparr>, \<lparr>it_trigger = Inr (Some ''SALIR''), it_audio = Inl []\<rparr>]
   in \<exists>l. run_local (\<lambda>_. Inr ()) Inr (Inr (nala_client_new incoming)) its = Inr (Some (l, Ends)) \<and>
     records_in_silence True (lv_ops l)"
proof -
  let ?incoming = "[Inr (Some (EventMsg (Greeting ''hola''))), Inr (Some (Reply ''son las dos''))]"
  let ?its = "[\<lparr>it_trigger = Inr (Some []), it_audio = Inr ''  la hora ''\<rparr>, \<lparr>it_trigger = Inr (Some ''SALIR''), it_audio = Inl []\<rparr>]"
  have t: "\<not> is_blank ''  la hora ''" "trim ''SALIR'' = ''SALIR''" "trim [] = []" by code_simp+
  have low: "ascii_lower CHR ''S'' = CHR ''s''" "ascii_lower CHR ''A'' = CHR ''a''" "ascii_lower CHR ''L'' = CHR ''l''"
    "ascii_lower CHR ''I'' = CHR ''i''" "ascii_lower CHR ''R'' = CHR ''r''" by code_simp+
  have "\<exists>l. run_local (\<lambda>_. Inr ()) Inr (Inr (nala_client_new ?incoming)) ?its = Inr (Some (l, Ends))"
    by (simp add: run_local_def local_build_def recv_greeting_def nala_client_new_def local_step_def local_turn_def
        client_send_def wants_exit_def t low Let_def)
  then show ?thesis using local_mode_records_in_silence unfolding Let_def by blast
qed

end
