(* ===== verification/Console.thy ===== *)
theory Console
  imports Nala_Server Metrics_Report
begin

text \<open>
  The command line of Nala (\<open>apps/nala/src/main.rs\<close>): the choice of a mode, the interactive loop with
  its reader (\<open>cli/prompt.rs\<close>), the lines of the console event sink (\<open>adapters/events/console.rs\<close>) and
  the printed metrics report. Output is a list of strings, one for each \<open>println!\<close> or \<open>eprintln!\<close>. The
  line editor, the files and the rounded printing of floats are parameters.
\<close>

section \<open>Printing a duration\<close>

text \<open>
  The \<open>Debug\<close> form of a \<open>Duration\<close>: the whole part, then the digits of the fraction without the zeros
  at its end; \<open>width\<close> is the number of its digits.
\<close>

definition pad_zeros :: "nat \<Rightarrow> string \<Rightarrow> string" where
  "pad_zeros width s = replicate (width - length s) CHR ''0'' @ s"

definition strip_zeros :: "string \<Rightarrow> string" where
  "strip_zeros s = rev (dropWhile (\<lambda>c. c = CHR ''0'') (rev s))"

definition decimal_debug :: "nat \<Rightarrow> nat \<Rightarrow> nat \<Rightarrow> string" where
  "decimal_debug whole fraction width =
     show_nat whole @ (if fraction = 0 then [] else ''.'' @ strip_zeros (pad_zeros width (show_nat fraction)))"

definition duration_debug :: "duration \<Rightarrow> string" where
  "duration_debug d =
     (if 10 ^ 9 \<le> d then decimal_debug (d div 10 ^ 9) (d mod 10 ^ 9) 9 @ ''s''
      else if 10 ^ 6 \<le> d then decimal_debug (d div 10 ^ 6) (d mod 10 ^ 6) 6 @ ''ms''
      else if 10 ^ 3 \<le> d then decimal_debug (d div 10 ^ 3) (d mod 10 ^ 3) 3 @ [CHR 0xC2, CHR 0xB5] @ ''s''
      else show_nat d @ ''ns'')"

lemma char_of_digits:
  "char_of (48 :: nat) = CHR ''0''" "char_of (49 :: nat) = CHR ''1''" "char_of (50 :: nat) = CHR ''2''"
  "char_of (53 :: nat) = CHR ''5''" "char_of (57 :: nat) = CHR ''9''"
  by code_simp+

lemma duration_debug_samples:
  "duration_debug 1500000000 = ''1.5s''" "duration_debug 2000000 = ''2ms''" "duration_debug 1050 = ''1.05'' @ [CHR 0xC2, CHR 0xB5] @ ''s''"
  "duration_debug 999 = ''999ns''"
  by (simp_all add: duration_debug_def decimal_debug_def strip_zeros_def pad_zeros_def show_nat.simps digit_char_def
      char_of_digits)

section \<open>The console event sink\<close>

fun turn_state_label :: "turn_state \<Rightarrow> string" where
  "turn_state_label Receiving = ''receiving''"
| "turn_state_label Planning = ''planning''"
| "turn_state_label Thinking = ''thinking''"
| "turn_state_label Executing = ''executing''"
| "turn_state_label Verifying = ''verifying''"
| "turn_state_label Responding = ''responding''"

fun budget_step_label :: "budget_step \<Rightarrow> string" where
  "budget_step_label (DroppedImages n) = ''dropped '' @ show_nat n @ '' image(s)''"
| "budget_step_label (TruncatedText n) = ''truncated '' @ show_nat n @ '' tool result(s)''"
| "budget_step_label (DroppedTurns n) = ''dropped '' @ show_nat n @ '' old turn(s)''"

definition show_u32 :: "u32 \<Rightarrow> string" where
  "show_u32 n = show_nat (unat n)"

definition token_label :: "u32 option \<Rightarrow> string" where
  "token_label t = (case t of Some n \<Rightarrow> show_u32 n | None \<Rightarrow> ''?'')"

text \<open>What \<open>println!\<close> prints for an event; \<open>str_debug\<close> is the \<open>Debug\<close> form of a string.\<close>

fun console_line :: "(string \<Rightarrow> string) \<Rightarrow> event \<Rightarrow> string" where
  "console_line str_debug (RequestStarted t input src) = ''[REQUEST] started''"
| "console_line str_debug (StateChanged t st) = ''[STATE] '' @ turn_state_label st"
| "console_line str_debug (RequestCompleted t d reply) = ''[REQUEST] completed in '' @ duration_debug d @ nl"
| "console_line str_debug (RequestFailed t d e) = ''[REQUEST] failed in '' @ duration_debug d @ '': '' @ e @ nl"
| "console_line str_debug (PlanCreated t plan) = ''[PLAN]'' @ nl @ plan @ nl"
| "console_line str_debug (LlmStarted t c i imgs m p) =
     (if imgs > 0
      then ''[LLM] call #'' @ show_u32 i @ '' started (with '' @ show_nat imgs @ '' image(s) attached)''
      else ''[LLM] call #'' @ show_u32 i @ '' started'')"
| "console_line str_debug (LlmCompleted t c i d m p) =
     ''[LLM] call #'' @ show_u32 i @ '' completed in '' @ duration_debug d @ nl"
| "console_line str_debug (LlmFailed t c i d e p m) =
     ''[LLM] call #'' @ show_u32 i @ '' failed in '' @ duration_debug d @ '': '' @ e @ nl"
| "console_line str_debug (ToolStarted t i n args) =
     ''[TOOL] #'' @ show_u32 i @ '' ['' @ n @ ''] started with arguments: '' @ args"
| "console_line str_debug (ToolCompleted t i n d output imgs a m) =
     ''[TOOL] #'' @ show_u32 i @ '' ['' @ n @ ''] completed in '' @ duration_debug d @
     (if imgs > 0 then '' ('' @ show_nat imgs @ '' image(s))'' else []) @ '': '' @ str_debug output @ nl"
| "console_line str_debug (Retrying t attempt e) = ''[RETRY] attempt '' @ show_u32 attempt @ '' after error: '' @ e"
| "console_line str_debug (Cancelled t) = ''[CANCELLED] turn stopped'' @ nl"
| "console_line str_debug (TokensUsed t c i prompt completion) =
     ''[TOKENS] call #'' @ show_u32 i @ '' prompt='' @ token_label prompt @ '' completion='' @ token_label completion"
| "console_line str_debug (BudgetPressure t step remaining) =
     ''[BUDGET] '' @ budget_step_label step @ '', ~'' @ show_nat remaining @ '' tokens remaining''"
| "console_line str_debug (TranscriptCompacted t n) =
     ''[BUDGET] compacted '' @ show_nat n @ '' old turn(s) into a summary'' @ nl"
| "console_line str_debug (AnsweredUnverified t) = ''[VERIFY] answered without checking the last action'' @ nl"
| "console_line str_debug (Greeting t) = ''[GREETING] '' @ t"
| "console_line str_debug (AutonomousEventReceived i src kind) =
     ''[AUTONOMOUS] received '' @ i @ '' from '' @ src @ '' ('' @ kind @ '')''"
| "console_line str_debug (AutonomousEventIgnored i reason) = ''[AUTONOMOUS] '' @ i @ '' ignored: '' @ reason"
| "console_line str_debug (AutonomousEventDelegated i) = ''[AUTONOMOUS] '' @ i @ '' delegated to the agent loop''"
| "console_line str_debug (AutonomousEventCompleted i d reply) =
     ''[AUTONOMOUS] '' @ i @ '' completed in '' @ duration_debug d @ '': '' @ reply @ nl"
| "console_line str_debug (AutonomousEventFailed i d e) =
     ''[AUTONOMOUS] '' @ i @ '' failed in '' @ duration_debug d @ '': '' @ e @ nl"

section \<open>The mode\<close>

datatype nala_mode = MetricsUsage | MetricsReport bool | Serve | Repl

text \<open>\<open>args\<close> includes the program's name.\<close>

definition nth_arg :: "nat \<Rightarrow> string list \<Rightarrow> string option" where
  "nth_arg i args = (if i < length args then Some (args ! i) else None)"

definition nala_mode :: "string list \<Rightarrow> nala_mode" where
  "nala_mode args =
     (if nth_arg 1 args = Some ''metrics''
      then if nth_arg 2 args \<noteq> Some ''report'' then MetricsUsage else MetricsReport (''--json'' \<in> set args)
      else if nth_arg 1 args = Some ''--serve'' then Serve else Repl)"

record serve_settings =
  sv_addr :: string
  sv_device_addr :: string
  sv_device_token :: "string option"
  sv_metrics_dir :: string

definition metrics_dir :: "(string \<Rightarrow> string option) \<Rightarrow> string" where
  "metrics_dir env = (case env ''NALA_METRICS_DIR'' of Some d \<Rightarrow> d | None \<Rightarrow> ''data/metrics'')"

definition serve_settings_from_env :: "(string \<Rightarrow> string option) \<Rightarrow> serve_settings" where
  "serve_settings_from_env env =
     \<lparr>sv_addr = (case env ''NALA_ADDR'' of Some a \<Rightarrow> a | None \<Rightarrow> ''127.0.0.1:4180''),
      sv_device_addr = (case env ''NALA_DEVICE_ADDR'' of Some a \<Rightarrow> a | None \<Rightarrow> ''127.0.0.1:4182''),
      sv_device_token = env ''NALA_DEVICE_TOKEN'', sv_metrics_dir = metrics_dir env\<rparr>"

text \<open>Nothing listens beyond the loopback interface unless an address says so.\<close>

lemma serves_loopback_by_default:
  "env ''NALA_ADDR'' = None \<Longrightarrow> starts_with ''127.0.0.1:'' (sv_addr (serve_settings_from_env env))"
  "env ''NALA_DEVICE_ADDR'' = None \<Longrightarrow> starts_with ''127.0.0.1:'' (sv_device_addr (serve_settings_from_env env))"
  by (simp_all add: serve_settings_from_env_def starts_with_def)

section \<open>The interactive loop\<close>

datatype line_signal = LineSuccess string | LineCtrlC | LineCtrlD

definition read_input :: "string + line_signal \<Rightarrow> string + string option" where
  "read_input r =
     (case r of
        Inl e \<Rightarrow> Inl e
      | Inr (LineSuccess t) \<Rightarrow> Inr (Some t)
      | Inr LineCtrlC \<Rightarrow> Inr None
      | Inr LineCtrlD \<Rightarrow> Inr None)"

datatype repl_end = ReplWaits | ReplExits | ReplPanics string

definition printed :: "('w, 'v, 'e) agent_env \<Rightarrow> 'e assistant_error + string \<Rightarrow> string" where
  "printed env res =
     (case res of Inr response \<Rightarrow> response | Inl e \<Rightarrow> ''Error: '' @ show_assistant_error (env_show_error env) e)"

text \<open>\<open>reset\<close> clears the cancel signal where there is one. The result: the printed answers, the agent, the end.\<close>

fun repl ::
  "('w, 'v, 'e) agent_env \<Rightarrow> ('w \<Rightarrow> 'w) \<Rightarrow> (string + line_signal) list \<Rightarrow> ('w, 'v) agent \<Rightarrow>
     string list \<times> ('w, 'v) agent \<times> repl_end" where
  "repl env reset [] a = ([], a, ReplWaits)"
| "repl env reset (r # rs) a =
     (case read_input r of
        Inl e \<Rightarrow> ([], a, ReplPanics (''Failed reading input: '' @ e))
      | Inr None \<Rightarrow> ([], a, ReplExits)
      | Inr (Some input) \<Rightarrow>
          (case process_from env (trim input) Cli (a\<lparr>world := reset (world a)\<rparr>) of
             (res, a) \<Rightarrow> (case repl env reset rs a of (out, a, e) \<Rightarrow> (printed env res # out, a, e))))"

text \<open>The inputs before the first end or failure of the reader.\<close>

fun typed :: "(string + line_signal) list \<Rightarrow> string list" where
  "typed (Inr (LineSuccess t) # rs) = t # typed rs"
| "typed rs = []"

text \<open>
  Without a cancel signal the interactive loop is a conversation: it prints what the assistant answers
  to the same turns over a connection (\<open>assistant_turns\<close>), each input trimmed.
\<close>

lemma repl_is_a_conversation:
  "fst (repl env (\<lambda>w. w) rs a) = map (printed env \<circ> snd) (assistant_turns env (map (\<lambda>t. (trim t, Cli)) (typed rs)) a)"
proof (induction rs arbitrary: a rule: typed.induct)
  case (1 t rs)
  obtain res b where p: "process_from env (trim t) Cli a = (res, b)" by (cases "process_from env (trim t) Cli a")
  with 1 [of b] show ?case by (cases "repl env (\<lambda>w. w) rs b") (simp add: read_input_def)
qed (simp_all add: read_input_def)

section \<open>The printed report\<close>

text \<open>
  \<open>entries\<close> lists a map; \<open>show_cost\<close> prints a cost with four digits. The tables of the report in the
  code's order.
\<close>

definition error_count :: "(string \<Rightarrow> nat option) \<Rightarrow> string \<Rightarrow> nat" where
  "error_count errors tool = (case errors tool of Some n \<Rightarrow> n | None \<Rightarrow> 0)"

definition report_lines ::
  "((string \<Rightarrow> nat option) \<Rightarrow> (string \<times> nat) list) \<Rightarrow> ((string \<Rightarrow> 'f option) \<Rightarrow> (string \<times> 'f) list) \<Rightarrow>
     ('f \<Rightarrow> string) \<Rightarrow> 'f report \<Rightarrow> string list" where
  "report_lines entries cost_entries show_cost r =
     [''Nala metrics report ('' @ show_nat (rp_total_tasks r) @ '' tasks)'',
      ''  tokens: '' @ show_nat (unat (rp_total_input_tokens r)) @ '' in / '' @ show_nat (unat (rp_total_output_tokens r)) @ '' out'',
      ''  duration: p50 '' @ show_nat (rp_duration_p50_ms r) @ ''ms, p95 '' @ show_nat (rp_duration_p95_ms r) @ ''ms'',
      nl @ ''By source:''] @
     map (\<lambda>(src, n). ''  '' @ src @ '': '' @ show_nat n) (sorted_by_count (entries (rp_by_source r))) @
     [nl @ ''Top tools:''] @
     map (\<lambda>(tool, n). ''  '' @ tool @ '': '' @ show_nat n @ '' calls, '' @
        show_nat (error_count (rp_tool_errors r) tool) @ '' errors'') (sorted_by_count (entries (rp_tool_usage r))) @
     [nl @ ''Estimated cost had this token volume run through each provider (NOT a real bill -- token counts come from Ollama'' @
        quote @ ''s tokenizer, not the target provider'' @ quote @ ''s):''] @
     map (\<lambda>(key, cost). ''  '' @ key @ '': $'' @ show_cost cost) (sort_key fst (cost_entries (rp_estimated_cost_usd r)))"

definition metrics_report ::
  "(string \<Rightarrow> task_line option) \<Rightarrow> (nat \<Rightarrow> nat \<Rightarrow> nat) \<Rightarrow> ('p \<Rightarrow> u64 \<Rightarrow> u64 \<Rightarrow> 'f) \<Rightarrow>
     (string \<Rightarrow> (string \<Rightarrow> 'p option) option) \<Rightarrow> string option \<Rightarrow> string option \<Rightarrow> 'f report option" where
  "metrics_report decode rank cost decode_pricing jsonl pricing_file =
     (case jsonl of
        None \<Rightarrow> None
      | Some j \<Rightarrow>
          let pricing = (case Option.bind pricing_file decode_pricing of Some p \<Rightarrow> p | None \<Rightarrow> Map.empty)
          in Some (build_report rank cost (parse_events decode j) pricing))"

text \<open>The printed tables do not depend on the order in which a map is listed.\<close>

lemma report_lines_order:
  assumes "\<And>m. mset (entries m) = mset (entries' m)"
  shows "report_lines entries cost_entries show_cost r = report_lines entries' cost_entries show_cost r"
  using sorted_by_count_mset [OF assms] by (simp add: report_lines_def)

end
