(* ===== verification/Wires.thy ===== *)
theory Wires
  imports Device_Server Voice_Session "HOL-Library.Countable"
begin

text \<open>
  The WebSocket ends of the connections: how the turn server (\<open>apps/nala/src/server.rs\<close>), its client
  (\<open>apps/voice/src/client.rs\<close>), the device server (\<open>device_server.rs\<close>) and the audio server
  (\<open>apps/voice/src/audio_server.rs\<close>) turn frames into messages and back. The WebSocket library is what
  its reads give; the JSON codecs are parameters. The last part puts client and server together over
  frames.
\<close>

section \<open>Frames\<close>

text \<open>\<open>Noise\<close> is a ping, a pong or a raw frame.\<close>

datatype frame = TextFrame string | BinaryFrame string | CloseFrame | Noise

datatype read_error = ConnectionGone | AlreadyGone | ReadWouldBlock | ReadTimedOut | ReadFailed string

type_synonym frame_read = "read_error + frame"

fun read_error_text :: "(read_error \<Rightarrow> string) \<Rightarrow> read_error \<Rightarrow> string" where
  "read_error_text printed (ReadFailed e) = e"
| "read_error_text printed e = printed e"

section \<open>The turn server's end\<close>

text \<open>
  \<open>recv\<close>: it skips everything that is not a message; \<open>None\<close> is a read that still blocks. \<open>printed\<close> is the
  text of the library's errors.
\<close>

fun server_recv ::
  "(read_error \<Rightarrow> string) \<Rightarrow> (string \<Rightarrow> string + client_message) \<Rightarrow> frame_read list \<Rightarrow>
     (string + client_message option) option \<times> frame_read list" where
  "server_recv printed decode [] = (None, [])"
| "server_recv printed decode (Inr (TextFrame t) # frames) = (Some (map_sum id Some (decode t)), frames)"
| "server_recv printed decode (Inr CloseFrame # frames) = (Some (Inr None), frames)"
| "server_recv printed decode (Inr f # frames) = server_recv printed decode frames"
| "server_recv printed decode (Inl ConnectionGone # frames) = (Some (Inr None), frames)"
| "server_recv printed decode (Inl AlreadyGone # frames) = (Some (Inr None), frames)"
| "server_recv printed decode (Inl e # frames) = (Some (Inl (read_error_text printed e)), frames)"

lemma server_recv_shorter: "server_recv printed decode frames = (Some m, rest) \<Longrightarrow> length rest < length frames"
  by (induction printed decode frames rule: server_recv.induct) auto

text \<open>What the session loop receives, one result of \<open>recv\<close> after the other.\<close>

function server_incoming ::
  "(read_error \<Rightarrow> string) \<Rightarrow> (string \<Rightarrow> string + client_message) \<Rightarrow> frame_read list \<Rightarrow>
     (string + client_message option) list" where
  "server_incoming printed decode frames =
     (case server_recv printed decode frames of
        (None, rest) \<Rightarrow> []
      | (Some m, rest) \<Rightarrow> m # server_incoming printed decode rest)"
  by pat_completeness auto
termination
  by (relation "measure (\<lambda>(printed, decode, frames). length frames)") (auto dest: server_recv_shorter [OF sym])

declare server_incoming.simps [simp del]

text \<open>\<open>send\<close>: the frame given to the library, whose result is a parameter.\<close>

definition server_send ::
  "(server_message \<Rightarrow> string + string) \<Rightarrow> (frame \<Rightarrow> string + unit) \<Rightarrow> server_message \<Rightarrow> string + unit" where
  "server_send encode put m = try_bind (encode m) (\<lambda>t. put (TextFrame t))"

section \<open>The client's end\<close>

fun tcp_recv ::
  "(read_error \<Rightarrow> string) \<Rightarrow> (string \<Rightarrow> string + server_message) \<Rightarrow> frame_read list \<Rightarrow>
     (client_error + server_message option) option \<times> frame_read list" where
  "tcp_recv printed decode [] = (None, [])"
| "tcp_recv printed decode (Inr (TextFrame t) # frames) = (Some (map_sum ClientIo Some (decode t)), frames)"
| "tcp_recv printed decode (Inr CloseFrame # frames) = (Some (Inr None), frames)"
| "tcp_recv printed decode (Inr f # frames) = tcp_recv printed decode frames"
| "tcp_recv printed decode (Inl ConnectionGone # frames) = (Some (Inr None), frames)"
| "tcp_recv printed decode (Inl AlreadyGone # frames) = (Some (Inr None), frames)"
| "tcp_recv printed decode (Inl e # frames) = (Some (Inl (ClientIo (read_error_text printed e))), frames)"

lemma tcp_recv_shorter: "tcp_recv printed decode frames = (Some m, rest) \<Longrightarrow> length rest < length frames"
  by (induction printed decode frames rule: tcp_recv.induct) auto

function client_incoming ::
  "(read_error \<Rightarrow> string) \<Rightarrow> (string \<Rightarrow> string + server_message) \<Rightarrow> frame_read list \<Rightarrow>
     (client_error + server_message option) list" where
  "client_incoming printed decode frames =
     (case tcp_recv printed decode frames of
        (None, rest) \<Rightarrow> []
      | (Some m, rest) \<Rightarrow> m # client_incoming printed decode rest)"
  by pat_completeness auto
termination
  by (relation "measure (\<lambda>(printed, decode, frames). length frames)") (auto dest: tcp_recv_shorter [OF sym])

declare client_incoming.simps [simp del]

definition tcp_send ::
  "(client_message \<Rightarrow> string + string) \<Rightarrow> (frame \<Rightarrow> string + unit) \<Rightarrow> client_message \<Rightarrow> client_error + unit" where
  "tcp_send encode put m = map_err ClientIo (try_bind (encode m) (\<lambda>t. put (TextFrame t)))"

definition tcp_connect :: "string + frame_read list \<Rightarrow> client_error + frame_read list" where
  "tcp_connect r = map_err ConnectFailed r"

section \<open>The ends of a device and of a phone\<close>

fun device_poll ::
  "(read_error \<Rightarrow> string) \<Rightarrow> (string \<Rightarrow> string + 'v device_message) \<Rightarrow> frame_read \<Rightarrow> string + 'v wire_event" where
  "device_poll printed decode (Inr (TextFrame t)) = map_sum id WireMessage (decode t)"
| "device_poll printed decode (Inr CloseFrame) = Inr WireClosed"
| "device_poll printed decode (Inr f) = Inr WireIdle"
| "device_poll printed decode (Inl ReadWouldBlock) = Inr WireIdle"
| "device_poll printed decode (Inl ReadTimedOut) = Inr WireIdle"
| "device_poll printed decode (Inl ConnectionGone) = Inr WireClosed"
| "device_poll printed decode (Inl AlreadyGone) = Inr WireClosed"
| "device_poll printed decode (Inl (ReadFailed e)) = Inl e"

definition device_send ::
  "('m \<Rightarrow> string + string) \<Rightarrow> (frame \<Rightarrow> string + unit) \<Rightarrow> 'm \<Rightarrow> string + unit" where
  "device_send encode put m = try_bind (encode m) (\<lambda>t. put (TextFrame t))"

fun audio_recv :: "frame_read \<Rightarrow> string + audio_event" where
  "audio_recv (Inr (BinaryFrame bytes)) = Inr (Audio bytes)"
| "audio_recv (Inr CloseFrame) = Inr AudioClosed"
| "audio_recv (Inr f) = Inr AudioIdle"
| "audio_recv (Inl ConnectionGone) = Inr AudioClosed"
| "audio_recv (Inl AlreadyGone) = Inr AudioClosed"
| "audio_recv (Inl ReadWouldBlock) = Inr AudioIdle"
| "audio_recv (Inl ReadTimedOut) = Inr AudioIdle"
| "audio_recv (Inl (ReadFailed e)) = Inl e"

definition audio_send :: "(frame \<Rightarrow> string + unit) \<Rightarrow> string \<Rightarrow> string + unit" where
  "audio_send put wav = put (BinaryFrame wav)"

text \<open>
  A read time-out ends neither a device's nor a phone's connection; it does end a turn connection, where
  the code sets none.
\<close>

lemma timeouts_are_idle:
  "device_poll printed decode (Inl ReadTimedOut) = Inr WireIdle" "audio_recv (Inl ReadTimedOut) = Inr AudioIdle"
  "fst (server_recv printed decode_client (Inl ReadTimedOut # frames)) = Some (Inl (printed ReadTimedOut))"
  by simp_all

section \<open>A conversation over frames\<close>

definition is_noise :: "frame_read \<Rightarrow> bool" where
  "is_noise r \<longleftrightarrow> r = Inr Noise \<or> (\<exists>b. r = Inr (BinaryFrame b))"

text \<open>\<open>carries enc ms frames\<close>: the frames are the encoded messages, with noise anywhere between them.\<close>

definition carries :: "('m \<Rightarrow> string + string) \<Rightarrow> 'm list \<Rightarrow> frame_read list \<Rightarrow> bool" where
  "carries encode ms frames \<longleftrightarrow>
     list_all2 (\<lambda>m f. \<exists>t. encode m = Inr t \<and> f = Inr (TextFrame t)) ms (filter (\<lambda>f. \<not> is_noise f) frames)"

lemma server_recv_noise: "is_noise f \<Longrightarrow> server_recv printed decode (f # frames) = server_recv printed decode frames"
  by (auto simp: is_noise_def)

lemma tcp_recv_noise: "is_noise f \<Longrightarrow> tcp_recv printed decode (f # frames) = tcp_recv printed decode frames"
  by (auto simp: is_noise_def)

lemma server_incoming_carries:
  assumes "\<And>m t. encode m = Inr t \<Longrightarrow> decode t = Inr m" and "carries encode ms frames"
  shows "server_incoming printed decode frames = map (\<lambda>m. Inr (Some m)) ms"
  using assms(2)
proof (induction frames arbitrary: ms)
  case Nil
  then show ?case by (simp add: carries_def server_incoming.simps)
next
  case (Cons f frames)
  show ?case
  proof (cases "is_noise f")
    case True
    with Cons have "server_incoming printed decode frames = map (\<lambda>m. Inr (Some m)) ms" by (simp add: carries_def)
    with True show ?thesis
      by (simp add: server_incoming.simps [of printed decode "f # frames"] server_incoming.simps [of printed decode frames]
          server_recv_noise)
  next
    case False
    with Cons.prems obtain m ms' t where ms: "ms = m # ms'" and f: "encode m = Inr t" "f = Inr (TextFrame t)"
      and rest: "carries encode ms' frames"
      by (auto simp: carries_def list_all2_Cons2)
    from Cons.IH [OF rest] assms(1) [OF f(1)] f(2) ms show ?thesis
      by (simp add: server_incoming.simps [of printed decode "Inr (TextFrame t) # frames"])
  qed
qed

lemma client_incoming_carries:
  assumes "\<And>m t. encode m = Inr t \<Longrightarrow> decode t = Inr m" and "carries encode ms frames"
  shows "client_incoming printed decode frames = map (\<lambda>m. Inr (Some m)) ms"
  using assms(2)
proof (induction frames arbitrary: ms)
  case Nil
  then show ?case by (simp add: carries_def client_incoming.simps)
next
  case (Cons f frames)
  show ?case
  proof (cases "is_noise f")
    case True
    with Cons have "client_incoming printed decode frames = map (\<lambda>m. Inr (Some m)) ms" by (simp add: carries_def)
    with True show ?thesis
      by (simp add: client_incoming.simps [of printed decode "f # frames"] client_incoming.simps [of printed decode frames]
          tcp_recv_noise)
  next
    case False
    with Cons.prems obtain m ms' t where ms: "ms = m # ms'" and f: "encode m = Inr t" "f = Inr (TextFrame t)"
      and rest: "carries encode ms' frames"
      by (auto simp: carries_def list_all2_Cons2)
    from Cons.IH [OF rest] assms(1) [OF f(1)] f(2) ms show ?thesis
      by (simp add: client_incoming.simps [of printed decode "Inr (TextFrame t) # frames"])
  qed
qed

text \<open>
  C12. A conversation over the wire is a conversation with the assistant: with codecs that read back what
  they wrote, and whatever pings, pongs or binary frames pass between the messages in both directions,
  the client is greeted first, and then each of its turns hands it exactly the events of that turn, in
  order, and returns that turn's reply, or the text of its error, as the assistant gives them when the
  same inputs are processed one after the other.
\<close>

theorem wire_conversation_is_the_assistants:
  fixes turns a and env :: "('w, 'v, 'e) agent_env"
  assumes "\<And>m t. encode_client m = Inr t \<Longrightarrow> decode_client t = Inr m"
    and "\<And>m t. encode_server m = Inr t \<Longrightarrow> decode_server t = Inr m"
    and "carries encode_client (map (\<lambda>(input, source). Input input source) turns) up"
    and "carries encode_server (fst (handle_connection env (server_incoming printed_server decode_client up) a)) down"
  shows "let c = nala_client_new (client_incoming printed_client decode_server down)
    in fst (recv_greeting c) = Some (Inr GREETING_TEXT) \<and>
      client_turns turns (snd (recv_greeting c)) =
        map (\<lambda>(evs, res). (evs, client_view env res)) (assistant_turns env turns (a\<lparr>events := events a @ [Greeting GREETING_TEXT]\<rparr>))"
proof -
  have up: "server_incoming printed_server decode_client up = inputs_of turns"
    using server_incoming_carries [where printed = printed_server, OF assms(1,3)] by (simp add: case_prod_unfold comp_def)
  have "client_incoming printed_client decode_server down = received (fst (handle_connection env (inputs_of turns) a))"
    using client_incoming_carries [where printed = printed_client, OF assms(2,4)] unfolding up .
  then show ?thesis using conversation_is_the_assistants [where turns = turns and env = env and a = a] by (simp add: Let_def)
qed

text \<open>A codec for the witness: every message is countable.\<close>

instance request_source :: countable by countable_datatype
instance turn_state :: countable by countable_datatype
instance budget_step :: countable by countable_datatype
instance event :: countable by countable_datatype
instance client_message :: countable by countable_datatype
instance server_message :: countable by countable_datatype

definition count_encode :: "'m::countable \<Rightarrow> string + string" where
  "count_encode m = Inr (show_nat (to_nat m))"

definition count_decode :: "string \<Rightarrow> string + 'm::countable" where
  "count_decode t = Inr (from_nat (read_nat t))"

lemma count_round_trip: "count_encode m = Inr t \<Longrightarrow> count_decode t = Inr m"
  by (auto simp: count_encode_def count_decode_def)

definition count_frames :: "'m::countable list \<Rightarrow> frame_read list" where
  "count_frames ms = concat (map (\<lambda>m. [Inr Noise, Inr (TextFrame (show_nat (to_nat m)))]) ms)"

lemma carries_count: "carries count_encode ms (count_frames ms)"
  by (induction ms) (auto simp: carries_def count_frames_def count_encode_def is_noise_def)

theorem wire_conversation_is_the_assistants_witness:
  "let up = count_frames [Input ''go'' Cli];
       down = count_frames (fst (handle_connection scripted_env (server_incoming (\<lambda>_. []) count_decode up)
         (scripted_agent mutating_script)));
       c = nala_client_new (client_incoming (\<lambda>_. []) count_decode down)
   in fst (recv_greeting c) = Some (Inr GREETING_TEXT) \<and>
     client_turns [(''go'', Cli)] (snd (recv_greeting c)) =
       map (\<lambda>(evs, res). (evs, client_view scripted_env res)) (assistant_turns scripted_env [(''go'', Cli)]
         ((scripted_agent mutating_script)\<lparr>events := [Greeting GREETING_TEXT]\<rparr>))"
proof -
  let ?up = "count_frames [Input ''go'' Cli]"
  let ?down = "count_frames (fst (handle_connection scripted_env (server_incoming (\<lambda>_. []) count_decode ?up)
    (scripted_agent mutating_script)))"
  have up: "carries count_encode (map (\<lambda>(input, source). Input input source) [(''go'', Cli)]) ?up"
    using carries_count [of "[Input ''go'' Cli]"] by simp
  note conv = wire_conversation_is_the_assistants [where turns = "[(''go'', Cli)]" and env = scripted_env
      and a = "scripted_agent mutating_script" and encode_client = count_encode and encode_server = count_encode
      and decode_client = count_decode and decode_server = count_decode and printed_server = "\<lambda>_. []" and printed_client = "\<lambda>_. []"]
  show ?thesis
    using conv [OF count_round_trip count_round_trip up carries_count] unfolding Let_def events_scripted_agent append_Nil
    by assumption
qed

end
