(* ===== verification/System_Adapters.thy ===== *)
theory System_Adapters
  imports Web_Tools Utf8 Capabilities
begin

text \<open>
  Adapters of the operating system: the HTTP fetcher (\<open>adapters/http/reqwest.rs\<close>), the Ctrl+C
  signal (\<open>adapters/cancellation/console.rs\<close>), the environment
  (\<open>device-capabilities/src/adapters/environment/system.rs\<close>), the process group
  (\<open>crates/process-group\<close>) and the start and the end of the child process of an MCP server
  (\<open>crates/mcp/src/child_process.rs\<close>). What the operating system and the HTTP client answer
  are parameters.
\<close>

section \<open>HTTP\<close>

text \<open>
  A response: its status, the bytes of its body and, when the connection breaks while they are
  read, after how many of them and with what error.
\<close>

record http_response =
  hr_status :: u16
  hr_body :: string
  hr_broken :: "(nat \<times> string) option"

definition MAX_BODY_BYTES :: nat where "MAX_BODY_BYTES = 2 * 1024 * 1024"

text \<open>\<open>take(limit).read_to_string\<close>: at most so many bytes, which must be UTF-8.\<close>

definition read_limited :: "nat \<Rightarrow> http_response \<Rightarrow> string + string" where
  "read_limited limit r =
     (case hr_broken r of
        Some (n, e) \<Rightarrow> if n < limit then Inl e else Inr (take limit (hr_body r))
      | None \<Rightarrow> Inr (take limit (hr_body r)))"

definition NOT_UTF8 :: string where "NOT_UTF8 = ''stream did not contain valid UTF-8''"

definition read_to_string :: "nat \<Rightarrow> http_response \<Rightarrow> string + string" where
  "read_to_string limit r =
     (case read_limited limit r of
        Inl e \<Rightarrow> Inl e
      | Inr bytes \<Rightarrow> if utf8_error bytes = None then Inr bytes else Inl NOT_UTF8)"

definition http_get :: "(string \<Rightarrow> 'w \<Rightarrow> (string + http_response) \<times> 'w) \<Rightarrow> 'w fetcher" where
  "http_get send url w =
     (case send url w of
        (Inl e, w) \<Rightarrow> (Inl (HttpRequest e), w)
      | (Inr r, w) \<Rightarrow>
          if \<not> (200 \<le> hr_status r \<and> hr_status r < 300) then (Inl (HttpStatus (hr_status r)), w)
          else case read_to_string (MAX_BODY_BYTES + 1) r of
              Inl e \<Rightarrow> (Inl (HttpRequest e), w)
            | Inr body \<Rightarrow> if MAX_BODY_BYTES < length body then (Inl (TooLarge MAX_BODY_BYTES), w) else (Inr body, w))"

text \<open>
  A body is handed on only complete, well-formed, of a successful response and within the limit.
\<close>

theorem http_get_accepts:
  assumes "send url w = (Inr r, w')"
  shows "fst (http_get send url w) = Inr body \<longleftrightarrow>
    200 \<le> hr_status r \<and> hr_status r < 300 \<and> body = hr_body r \<and> length body \<le> MAX_BODY_BYTES \<and>
    utf8_error body = None \<and> (case hr_broken r of None \<Rightarrow> True | Some (n, e) \<Rightarrow> MAX_BODY_BYTES < n)"
  using assms
  by (auto simp: http_get_def read_to_string_def read_limited_def split: option.splits prod.splits if_splits sum.splits)

lemma utf8_error_ascii: "\<forall>c \<in> set s. byte_of c < 0x80 \<Longrightarrow>
    utf8_error (s @ rest) = map_option (apfst ((+) (length s))) (utf8_error rest)"
proof (induction s)
  case Nil
  then show ?case by (cases "utf8_error rest") auto
next
  case (Cons c s)
  then have "utf8_front c (s @ rest) = Inr 1" by (simp add: utf8_front_def utf8_width_def Let_def)
  with Cons show ?case by (cases "utf8_error rest") (auto simp: apfst_def map_prod_def)
qed

text \<open>
  A body that is too large is not always reported as such: the limit cuts it after one byte more than
  allowed, and when that is within a character the error is about its encoding.
\<close>

theorem large_body_misreported:
  assumes "send url w = (Inr \<lparr>hr_status = 200, hr_body = replicate MAX_BODY_BYTES (CHR ''a'') @ [CHR 0xC3, CHR 0xB3],
    hr_broken = None\<rparr>, w')"
  shows "fst (http_get send url w) = Inl (HttpRequest NOT_UTF8)"
proof -
  let ?cut = "replicate MAX_BODY_BYTES (CHR ''a'') @ [CHR 0xC3]"
  have "utf8_error ?cut = map_option (apfst ((+) (length (replicate MAX_BODY_BYTES (CHR ''a''))))) (utf8_error [CHR 0xC3])"
    by (rule utf8_error_ascii) (simp add: byte_of_def)
  then have "utf8_error ?cut \<noteq> None" by (simp add: utf8_front_def utf8_width_def Let_def byte_of_def)
  moreover have "take (MAX_BODY_BYTES + 1) (replicate MAX_BODY_BYTES (CHR ''a'') @ [CHR 0xC3, CHR 0xB3]) = ?cut" by simp
  ultimately show ?thesis
    using assms by (simp add: http_get_def read_to_string_def read_limited_def)
qed

section \<open>Ctrl+C\<close>

text \<open>
  The flag of the process, once it exists, and how often the handler was registered; \<open>refused\<close> is the
  error of a registration that fails.
\<close>

record ctrl_c =
  cc_flag :: "bool option"
  cc_handlers :: nat

definition ctrl_c_new :: ctrl_c where "ctrl_c_new = \<lparr>cc_flag = None, cc_handlers = 0\<rparr>"

definition install_ctrl_c :: "string option \<Rightarrow> ctrl_c \<Rightarrow> (string + unit) \<times> ctrl_c" where
  "install_ctrl_c refused s =
     (let s = (case cc_flag s of None \<Rightarrow> s\<lparr>cc_flag := Some False\<rparr> | Some _ \<Rightarrow> s)
      in case refused of
           Some e \<Rightarrow> (Inl e, s)
         | None \<Rightarrow> (Inr (), s\<lparr>cc_handlers := cc_handlers s + 1\<rparr>))"

definition reset_ctrl_c :: "ctrl_c \<Rightarrow> ctrl_c" where
  "reset_ctrl_c s = s\<lparr>cc_flag := map_option (\<lambda>_. False) (cc_flag s)\<rparr>"

definition ctrl_c_cancelled :: "ctrl_c \<Rightarrow> bool" where
  "ctrl_c_cancelled s \<longleftrightarrow> cc_flag s = Some True"

definition handle_ctrl_event :: "ctrl_c \<Rightarrow> ctrl_c" where
  "handle_ctrl_event s = s\<lparr>cc_flag := map_option (\<lambda>_. True) (cc_flag s)\<rparr>"

datatype ctrl_c_action = Install "string option" | ResetSignal | PressCtrlC

fun ctrl_c_do :: "ctrl_c_action \<Rightarrow> ctrl_c \<Rightarrow> ctrl_c" where
  "ctrl_c_do (Install refused) s = snd (install_ctrl_c refused s)"
| "ctrl_c_do ResetSignal s = reset_ctrl_c s"
| "ctrl_c_do PressCtrlC s = handle_ctrl_event s"

text \<open>A press is seen until the next reset, however often the signal is installed meanwhile.\<close>

theorem press_is_seen_until_reset:
  assumes "cc_flag s \<noteq> None" and "ResetSignal \<notin> set acts"
  shows "ctrl_c_cancelled (fold ctrl_c_do acts (handle_ctrl_event s))"
proof -
  have "ctrl_c_cancelled s' \<Longrightarrow> ResetSignal \<notin> set acts \<Longrightarrow> ctrl_c_cancelled (fold ctrl_c_do acts s')" for s' acts
  proof (induction acts arbitrary: s')
    case (Cons act acts)
    then show ?case
      by (cases act) (auto simp: ctrl_c_cancelled_def install_ctrl_c_def handle_ctrl_event_def Let_def split: option.split)
  qed simp
  moreover have "ctrl_c_cancelled (handle_ctrl_event s)" using assms(1) by (auto simp: ctrl_c_cancelled_def handle_ctrl_event_def)
  ultimately show ?thesis using assms(2) by blast
qed

lemma installing_registers_again: "cc_handlers (snd (install_ctrl_c None (snd (install_ctrl_c None ctrl_c_new)))) = 2"
  by (simp add: install_ctrl_c_def ctrl_c_new_def Let_def)

section \<open>The environment\<close>

definition system_var :: "(string \<Rightarrow> string + string) \<Rightarrow> string \<Rightarrow> environment_error + string" where
  "system_var getenv key = map_err (VarNotSet key) (getenv key)"

definition system_current_dir :: "(string \<Rightarrow> string) \<Rightarrow> string + string \<Rightarrow> environment_error + string" where
  "system_current_dir lossy cwd = map_err CurrentDirUnavailable (map_sum id lossy cwd)"

section \<open>The process group and a child\<close>

text \<open>
  The calls to the operating system, in order; a handle is named by the number of groups made
  before. \<open>create\<close>, \<open>limit\<close>, \<open>spawned\<close> and \<open>assigned\<close> say whether the call succeeds.
\<close>

datatype os_call =
    CreateJob nat
  | KillOnClose nat
  | CloseJob nat
  | SpawnChild "string list"
  | AssignChild nat
  | KillChild
  | WaitChild

record os_answers =
  os_create :: "string + unit"
  os_limit :: "string + unit"
  os_spawn :: "string + unit"
  os_assign :: "string + unit"

definition group_new :: "os_answers \<Rightarrow> nat \<Rightarrow> os_call list \<Rightarrow> (string + nat) \<times> os_call list" where
  "group_new os h calls =
     (case os_create os of
        Inl e \<Rightarrow> (Inl e, calls)
      | Inr _ \<Rightarrow>
          (case os_limit os of
             Inl e \<Rightarrow> (Inl e, calls @ [CreateJob h, CloseJob h])
           | Inr _ \<Rightarrow> (Inr h, calls @ [CreateJob h, KillOnClose h])))"

definition group_assign :: "os_answers \<Rightarrow> nat \<Rightarrow> os_call list \<Rightarrow> (string + unit) \<times> os_call list" where
  "group_assign os h calls =
     (case os_assign os of Inl e \<Rightarrow> (Inl e, calls) | Inr _ \<Rightarrow> (Inr (), calls @ [AssignChild h]))"

definition group_drop :: "nat \<Rightarrow> os_call list \<Rightarrow> os_call list" where
  "group_drop h calls = calls @ [CloseJob h]"

definition child_command :: "bool \<Rightarrow> string \<Rightarrow> string list \<Rightarrow> string list" where
  "child_command windows program args = (if windows then [''cmd'', ''/C'', program] @ args else program # args)"

text \<open>On Windows; the pipes are there because they were asked for. A group that is not returned is dropped.\<close>

definition child_spawn ::
  "os_answers \<Rightarrow> nat \<Rightarrow> string \<Rightarrow> string list \<Rightarrow> os_call list \<Rightarrow> (string + nat option) \<times> os_call list" where
  "child_spawn os h program args calls =
     (case group_new os h calls of (job, calls) \<Rightarrow>
      let job = result_ok job in
      case os_spawn os of
        Inl e \<Rightarrow> (Inl e, case job of None \<Rightarrow> calls | Some h \<Rightarrow> group_drop h calls)
      | Inr _ \<Rightarrow>
          (let calls = calls @ [SpawnChild (child_command True program args)]
           in (Inr job, case job of None \<Rightarrow> calls | Some h \<Rightarrow> snd (group_assign os h calls))))"

definition child_drop :: "nat option \<Rightarrow> os_call list \<Rightarrow> os_call list" where
  "child_drop job calls =
     (let calls = calls @ [KillChild, WaitChild] in case job of None \<Rightarrow> calls | Some h \<Rightarrow> group_drop h calls)"

text \<open>
  Every job that is made is closed once, whether the child starts or not, and a child that starts is
  killed and waited for before its group is closed.
\<close>

theorem child_leaves_nothing_open:
  assumes "child_spawn os h program args [] = (res, calls)"
  shows "case res of
      Inl e \<Rightarrow> calls = [] \<or> (\<exists>cs. calls = CreateJob h # cs @ [CloseJob h] \<and> CloseJob h \<notin> set cs) \<and>
        SpawnChild (child_command True program args) \<notin> set calls
    | Inr job \<Rightarrow> SpawnChild (child_command True program args) \<in> set calls \<and>
        (\<exists>cs. child_drop job calls = cs @ [KillChild, WaitChild] @ (case job of None \<Rightarrow> [] | Some h \<Rightarrow> [CloseJob h])) \<and>
        (CreateJob h \<in> set calls \<longrightarrow> count_list (child_drop job calls) (CloseJob h) = 1)"
  using assms
  by (auto simp: child_spawn_def group_new_def group_assign_def group_drop_def child_drop_def Let_def
      split: sum.splits option.splits prod.splits)

end
