(* ===== verification/Audio_Output.thy ===== *)
theory Audio_Output
  imports Pcm
begin

text \<open>
  The ends of speech: the player that feeds a stream of samples to the audio device
  (\<open>crates/tts/src/audio.rs\<close>), the fallback that lets Windows speak a text
  (\<open>windows_sapi.rs\<close>) and the transcriber (\<open>crates/stt/src/transcribe.rs\<close>). The device, PowerShell
  and the model of whisper.cpp answer as parameters say.
\<close>

section \<open>The player\<close>

text \<open>
  What was appended to a sink, with its format; the sink plays it in this order. After an error the
  sink is dropped, which stops it; otherwise the player waits until all of it has been played.
\<close>

record 'i sink =
  sk_rate :: nat
  sk_channels :: nat
  sk_samples :: "'i list list"

fun append_chunks :: "('e + 'i list) list \<Rightarrow> 'i sink \<Rightarrow> ('e + unit) \<times> 'i sink" where
  "append_chunks [] s = (Inr (), s)"
| "append_chunks (Inl e # chunks) s = (Inl e, s)"
| "append_chunks (Inr samples # chunks) s = append_chunks chunks (s\<lparr>sk_samples := sk_samples s @ [samples]\<rparr>)"

text \<open>\<open>open_sink\<close> is what opening the sink gives; the result and the sink, if there was one.\<close>

definition play_stream_on_device ::
  "string + unit \<Rightarrow> ('i, speech_error) pcm_stream \<Rightarrow> (speech_error + unit) \<times> 'i sink option" where
  "play_stream_on_device open_sink stream =
     (case open_sink of
        Inl e \<Rightarrow> (Inl (SpeechPlayback (''could not open playback sink: '' @ e)), None)
      | Inr _ \<Rightarrow>
          (case append_chunks (pcm_chunks stream)
                  \<lparr>sk_rate = pcm_rate stream, sk_channels = pcm_channels stream, sk_samples = []\<rparr> of
             (res, s) \<Rightarrow> (res, Some s)))"

text \<open>
  \<open>RodioPlayer\<close>: whether its thread runs, what opening a sink will give it, and the sinks it has
  opened. The thread opens the device first: \<open>device\<close> is \<open>None\<close> when it dies before it reports.
\<close>

record 'i rodio_player =
  rp_running :: bool
  rp_opens :: "(string + unit) list"
  rp_sinks :: "'i sink list"

definition rodio_new :: "(string + unit) option \<Rightarrow> (string + unit) list \<Rightarrow> speech_error + 'i rodio_player" where
  "rodio_new device opens =
     (case device of
        None \<Rightarrow> Inl (SpeechPlayback ''audio output thread failed to start'')
      | Some (Inl e) \<Rightarrow> Inl (SpeechPlayback (''no audio output device: '' @ e))
      | Some (Inr _) \<Rightarrow> Inr \<lparr>rp_running = True, rp_opens = opens, rp_sinks = []\<rparr>)"

text \<open>
  \<open>play_stream\<close>: the request and its reply; \<open>dies\<close> says that the thread ends before it replies.
\<close>

definition rodio_play ::
  "bool \<Rightarrow> ('i, speech_error) pcm_stream \<Rightarrow> 'i rodio_player \<Rightarrow> (speech_error + unit) \<times> 'i rodio_player" where
  "rodio_play dies stream p =
     (if \<not> rp_running p then (Inl (SpeechPlayback ''audio output thread is gone''), p)
      else if dies then (Inl (SpeechPlayback ''audio output thread did not respond''), p\<lparr>rp_running := False\<rparr>)
      else case play_stream_on_device (case rp_opens p of [] \<Rightarrow> Inr () | r # rs \<Rightarrow> r) stream of
          (res, s) \<Rightarrow> (res, p\<lparr>rp_opens := tl (rp_opens p),
             rp_sinks := rp_sinks p @ (case s of None \<Rightarrow> [] | Some s \<Rightarrow> [s])\<rparr>))"

lemma append_chunks_ok: "append_chunks (map Inr xs @ chunks) s = append_chunks chunks (s\<lparr>sk_samples := sk_samples s @ xs\<rparr>)"
  by (induction xs arbitrary: s) simp_all

lemma append_chunks_split:
  "append_chunks chunks s = (res, s') \<Longrightarrow> \<exists>xs rest. chunks = map Inr xs @ rest \<and>
     s' = s\<lparr>sk_samples := sk_samples s @ xs\<rparr> \<and>
     (case res of Inl e \<Rightarrow> \<exists>more. rest = Inl e # more | Inr _ \<Rightarrow> rest = [])"
proof (induction chunks s arbitrary: res s' rule: append_chunks.induct)
  case (1 s)
  then show ?case by (intro exI [of _ "[]"] exI [of _ "[]"]) auto
next
  case (2 e chunks s)
  then show ?case by (intro exI [of _ "[]"] exI [of _ "Inl e # chunks"]) auto
next
  case (3 x chunks s)
  from 3(1) [of res s'] 3(2) obtain xs rest where "chunks = map Inr xs @ rest"
    "s' = (s\<lparr>sk_samples := sk_samples s @ [x]\<rparr>)\<lparr>sk_samples := (sk_samples s @ [x]) @ xs\<rparr>"
    "case res of Inl e \<Rightarrow> \<exists>more. rest = Inl e # more | Inr _ \<Rightarrow> rest = []" by auto
  then show ?case by (intro exI [of _ "x # xs"] exI [of _ rest]) simp
qed

text \<open>
  A stream is handed to the device up to its first error, chunk after chunk and in its own format:
  success means that all of it was, and the error that is reported is the one that ended the stream.
\<close>

theorem stream_is_queued_up_to_its_error:
  assumes "rp_running p" and "rodio_play False stream p = (res, p')"
  shows "rp_running p' \<and> ((\<exists>e. res = Inl (SpeechPlayback (''could not open playback sink: '' @ e)) \<and> rp_sinks p' = rp_sinks p) \<or>
    (\<exists>xs rest. pcm_chunks stream = map Inr xs @ rest \<and>
      rp_sinks p' = rp_sinks p @ [\<lparr>sk_rate = pcm_rate stream, sk_channels = pcm_channels stream, sk_samples = xs\<rparr>] \<and>
      (case res of Inl e \<Rightarrow> \<exists>more. rest = Inl e # more | Inr _ \<Rightarrow> rest = [])))"
proof -
  let ?s = "\<lparr>sk_rate = pcm_rate stream, sk_channels = pcm_channels stream, sk_samples = []\<rparr>"
  obtain res' s where a: "append_chunks (pcm_chunks stream) ?s = (res', s)" by fastforce
  from append_chunks_split [OF a] assms a show ?thesis
    by (auto simp: rodio_play_def play_stream_on_device_def split: list.splits sum.splits)
qed

section \<open>Windows speaks\<close>

definition POWERSHELL :: string where
  "POWERSHELL = ''C:'' @ [CHR 0x5C] @ ''Windows'' @ [CHR 0x5C] @ ''System32'' @ [CHR 0x5C] @ ''WindowsPowerShell'' @
     [CHR 0x5C] @ ''v1.0'' @ [CHR 0x5C] @ ''powershell.exe''"

definition SCRIPT :: string where
  "SCRIPT = ''Add-Type -AssemblyName System.Speech; '' @
     ''[Console]::InputEncoding = [System.Text.Encoding]::UTF8; '' @
     ''$t = [Console]::In.ReadToEnd(); '' @
     ''$s = New-Object System.Speech.Synthesis.SpeechSynthesizer; '' @
     ''$voice = $s.GetInstalledVoices() | Where-Object { $_.VoiceInfo.Culture.TwoLetterISOLanguageName -eq '' @
     [CHR 0x27] @ ''es'' @ [CHR 0x27] @ '' } | Select-Object -First 1; '' @
     ''if ($voice) { $s.SelectVoice($voice.VoiceInfo.Name) }; '' @
     ''$s.Speak($t)''"

text \<open>
  The process: what starting a program with its arguments, writing the text to it and waiting for it give; an exit is whether it
  succeeded and what it wrote to its error stream.
\<close>

record sapi_process =
  sp_spawn :: "string \<Rightarrow> string list \<Rightarrow> string + unit"
  sp_write :: "string \<Rightarrow> string + unit"
  sp_wait :: "string + (bool \<times> string)"

definition sapi_say :: "(string \<Rightarrow> string) \<Rightarrow> sapi_process \<Rightarrow> string \<Rightarrow> speech_error + unit" where
  "sapi_say lossy p phrase =
     (case sp_spawn p POWERSHELL [''-NoProfile'', ''-NonInteractive'', ''-Command'', SCRIPT] of
        Inl e \<Rightarrow> Inl (SpeechBackend e)
      | Inr _ \<Rightarrow>
          (case sp_write p phrase of
             Inl e \<Rightarrow> Inl (SpeechBackend e)
           | Inr _ \<Rightarrow>
               (case sp_wait p of
                  Inl e \<Rightarrow> Inl (SpeechBackend e)
                | Inr (success, err) \<Rightarrow> if success then Inr () else Inl (SpeechBackend (trim (lossy err))))))"

lemma sapi_say_ok:
  "sapi_say lossy p phrase = Inr () \<longleftrightarrow>
     sp_spawn p POWERSHELL [''-NoProfile'', ''-NonInteractive'', ''-Command'', SCRIPT] = Inr () \<and> sp_write p phrase = Inr () \<and> (\<exists>err. sp_wait p = Inr (True, err))"
  by (auto simp: sapi_say_def split: sum.splits)

section \<open>The transcriber\<close>

datatype transcribe_error = ModelLoad string string | Transcription string

fun show_transcribe_error :: "transcribe_error \<Rightarrow> string" where
  "show_transcribe_error (ModelLoad path e) = ''failed to load whisper model at '' @ quote @ path @ quote @ '': '' @ e"
| "show_transcribe_error (Transcription e) = ''transcription failed: '' @ e"

text \<open>
  The model: what loading it gives, what a new state gives, and of a run over samples in a language
  with a prompt its error or its segments, some of which may be unreadable.
\<close>

record 'x whisper =
  wh_state :: "string + unit"
  wh_full :: "string \<Rightarrow> string \<Rightarrow> 'x list \<Rightarrow> string + unit"
  wh_segments :: "'x list \<Rightarrow> string + (string + string) list"

definition transcriber_load :: "(string \<Rightarrow> string + 'x whisper) \<Rightarrow> string \<Rightarrow> transcribe_error + 'x whisper" where
  "transcriber_load load path = map_err (ModelLoad path) (load path)"

definition INITIAL_PROMPT :: string where "INITIAL_PROMPT = ''oye Nala, ey Nala, ve Nala.''"

fun readable_segments :: "(string + string) list \<Rightarrow> string" where
  "readable_segments [] = []"
| "readable_segments (Inl _ # rs) = readable_segments rs"
| "readable_segments (Inr s # rs) = s @ readable_segments rs"

definition transcribe_samples :: "'x whisper \<Rightarrow> 'x list \<Rightarrow> transcribe_error + string" where
  "transcribe_samples m samples =
     (case wh_state m of
        Inl e \<Rightarrow> Inl (Transcription e)
      | Inr _ \<Rightarrow>
          (case wh_full m ''es'' INITIAL_PROMPT samples of
             Inl e \<Rightarrow> Inl (Transcription e)
           | Inr _ \<Rightarrow>
               (case wh_segments m samples of
                  Inl e \<Rightarrow> Inl (Transcription e)
                | Inr segments \<Rightarrow> Inr (trim (readable_segments segments)))))"

lemma readable_segments_all: "readable_segments (map Inr ss) = concat ss"
  by (induction ss) simp_all

text \<open>A transcription is the text of all segments, without the white space around it.\<close>

lemma transcribe_all_segments:
  "wh_state m = Inr () \<Longrightarrow> wh_full m ''es'' INITIAL_PROMPT samples = Inr () \<Longrightarrow>
    wh_segments m samples = Inr (map Inr ss) \<Longrightarrow> transcribe_samples m samples = Inr (trim (concat ss))"
  by (simp add: transcribe_samples_def readable_segments_all)

end
