(* ===== verification/Spec2Isabelle.thy ===== *)
theory Spec2Isabelle
  imports Verification_Gate Device_Calls Listener Wake_Detector Voice_Session Metrics_Report Pc_Daemon Speech_Start Speech_Queue Ollama Windows_Process Mcp_Transport Overlay_Scene Recording Voice_Main Console Wires System_Adapters Audio_Output
begin

text \<open>
  A model of \<^bold>\<open>Nala\<close>, an assistant in Rust whose agent runs as a server, with a voice service, a
  desktop overlay and daemons on other devices as its peers, and the theorems that make its parts
  correct. The theories import one another as the crates do; this one collects them.

  \<^bold>\<open>The program and its theories.\<close>

  \<^descr>[Shared] \<open>Prelude\<close>: the theorem collections, the machine integers, facts on lists and results.
    \<open>Rust_Text\<close>, \<open>Utf8\<close>: the part of the standard library's \<open>str\<close> the sources use; a string is its UTF-8
    bytes. \<open>Protocol\<close>: the messages and events of \<open>crates/agent-protocol\<close> and \<open>crates/device-protocol\<close>
    and the data of the agent's ports.
  \<^descr>[Agent (\<open>apps/nala/src/application\<close>)] \<open>Budget\<close> (\<open>context_budget.rs\<close>, \<open>transcript.rs\<close>,
    \<open>loop_limits.rs\<close>), \<open>Registry\<close> (\<open>tools/registry.rs\<close>), \<open>Agent\<close> and \<open>Agent_Turn\<close> (\<open>agent_loop.rs\<close>,
    \<open>assistant.rs\<close>): one request is \<open>process_from\<close>, its loop \<open>process_loop\<close> over \<open>turn_step\<close>. The record
    \<open>agent_env\<close> holds the operations of the ports (model, dispatcher, clock, cancel signal, memory); the
    record \<open>agent\<close> is the state of an \<open>Assistant\<close>, its \<open>world\<close> everything behind the ports.
    \<open>Agent_Props\<close> and \<open>Verification_Gate\<close> prove what a request guarantees, the latter over the prompts
    its model is sent. \<open>Memory\<close> and \<open>Autonomous_Loop\<close> are the durable facts
    and the queue, policy and loop of autonomous events.
  \<^descr>[Tools] \<open>Web_Tools\<close>, \<open>Capabilities\<close> (\<open>crates/device-capabilities\<close>), \<open>Windows_Process\<close> (its process
    adapter), \<open>Mcp\<close> and \<open>Mcp_Transport\<close> (\<open>crates/mcp\<close>), \<open>Devices\<close> (toolsets, registry and pending calls of
    connected devices), \<open>Dispatcher\<close> (\<open>tools/dispatcher.rs\<close>) and \<open>Bootstrap\<close> (\<open>bootstrap.rs\<close>), which puts
    them together. \<open>Assistant\<close> is \<open>build_assistant\<close>: the agent loop over that dispatcher and the two stores
    of the memory file, \<open>Agent_Ports\<close> the contract between the loop and what it runs on, \<open>Tool_Worlds\<close>
    what the tools do to the world they act on. \<open>Ollama\<close> is the adapter of the model,
    \<open>System_Adapters\<close> holds those of HTTP, Ctrl+C, the environment, job objects and child processes.
  \<^descr>[Servers] \<open>Device_Server\<close> (\<open>device_server.rs\<close>), \<open>Device_Calls\<close> (\<open>WsDevice::invoke\<close> of
    \<open>adapters/devices/websocket.rs\<close> among the listener's other threads, and the assistant that calls it), \<open>Nala_Server\<close> (\<open>server.rs\<close> and its client
    \<open>apps/voice/src/client.rs\<close>), \<open>Wires\<close> (the WebSocket ends of the connections), \<open>Pc_Daemon\<close> (\<open>apps/pc-daemon\<close>), \<open>Console\<close> (\<open>main.rs\<close>, \<open>cli\<close>, the console sink).
  \<^descr>[Metrics] \<open>Timestamp\<close>, \<open>Metrics\<close>, \<open>Metrics_Json\<close> (\<open>adapters/metrics\<close>) and \<open>Metrics_Report\<close>
    (\<open>metrics_report.rs\<close>).
  \<^descr>[Hearing (\<open>crates/stt\<close>)] \<open>Ring\<close>, \<open>Mic_Stream\<close> (\<open>resample.rs\<close>, \<open>stream.rs\<close>), \<open>Recording\<close> (\<open>capture.rs\<close>), \<open>Session\<close>,
    \<open>Wake\<close>, \<open>Wake_Detector\<close> and \<open>Listener\<close>, which ties them together.
  \<^descr>[Speaking (\<open>crates/tts\<close>)] \<open>Pcm\<close>, \<open>Tts\<close>, \<open>Speech_Start\<close> (\<open>backend.rs\<close>) and \<open>Speech_Queue\<close> (\<open>async_speech.rs\<close>).
    \<open>Audio_Output\<close>: the player, the SAPI fallback and the transcriber of \<open>crates/stt\<close>.
  \<^descr>[Voice service and overlay] \<open>Narration\<close>, \<open>Voice_Session\<close> (\<open>session.rs\<close>, \<open>audio_server.rs\<close>),
    \<open>Voice_Main\<close> (\<open>main.rs\<close>, \<open>bootstrap.rs\<close>), \<open>Overlay\<close> (\<open>apps/nala-overlay\<close>: the state its threads share) and
    \<open>Overlay_Scene\<close> (its levels, animation, geometry and frames).

  \<^bold>\<open>How state and operations correspond.\<close> A struct is a record, an enum a datatype with the source's
  variants, a method a function from the old state to its result and the new state; errors are
  \<open>Inl\<close>, \<open>None\<close> or a value of their own. Names are the source's, with a prefix where HOL has the name
  already. Counters whose width matters are words (\<open>u32\<close>, \<open>u64\<close>); lengths in memory and durations
  (nanoseconds) are natural numbers. Code that threads run concurrently is a step relation or a label
  interpreter with one step per atomic action: \<open>Devices.ws_step\<close>, \<open>Device_Server.srv_do\<close>,
  \<open>Speech_Queue.speech_step\<close>, the operations of \<open>Wake_Detector\<close>, \<open>Overlay.overlay_step\<close> and
  \<open>Mic_Stream.mic_step\<close>; their properties hold of every run. What a socket, a channel, a process or a
  user delivers is a list; its end is a read that still blocks.

  \<^bold>\<open>Interfaces.\<close> \<open>Budget.token_counter\<close> (the estimator of the port, interpreted on the heuristic one),
  \<open>Memory.memory_store\<close> (both stores), \<open>Autonomous_Loop.event_queue\<close> (the bounded queue),
  \<open>Agent_Ports.agent_ports\<close> (an invariant every port of an agent keeps and the answers its dispatcher gives,
  interpreted on the assembled assistant, alone and among the threads of the server),
  \<open>Tool_Worlds.world_steps\<close> (a reflexive, transitive relation that the tools' own operations keep,
  interpreted on the runs of the device listener),
  \<open>Metrics.task_accounts\<close> (the contract that makes both metrics sinks account for every task),
  \<open>Ring.recent_buffer\<close> (the ring of the listener), \<open>Mcp_Transport.bounded_reads\<close> (a transport with a
  deadline). Each is interpreted on the model's own operations, and the properties use the results.

  \<^bold>\<open>What the lemmas show.\<close>

  \<^item> A request: its events are well-formed and close it, its tool and model calls are bounded, an
    answer is marked exactly when the last tool call changed something, and then the model was asked to verify it, the prompt fits its budget or is
    down to its protected prefix.
  \<^item> Tools: everything offered to the model runs as long as its device stays, a client is told only what the tools answered, calls are routed as documented, an allowlist
    gates what a device announces and runs, commands are quoted, a device call that a client is told
    of was answered by the authentic device it was sent to, an MCP call
    takes only the answer to its own request, MCP and process calls are bounded in time.
  \<^item> Peers: a conversation over the wire is the assistant's own; only authenticated devices are
    registered; a daemon answers everything it receives; a voice turn speaks its narration and then its
    reply, a delivery drops no clip before its time, and nothing is recorded while something is spoken; the overlay shows what its
    threads do, and nothing is clipped up to seven tenths of full loudness.
  \<^item> Hearing and speaking: resampling and decoding do not depend on how the input is cut, the chunks
    heard are pieces of the signal, an utterance has the boundaries its settings say, a wake-up never
    fires on old audio, phrases are spoken in order, no speech server is left behind.
  \<^item> Accounts: every task is in the metrics files once with its end, both sinks agree, the report counts
    all of them; facts survive a restart, and are in no prompt before it.

  \<^bold>\<open>Bounds and fuel.\<close> Loops are structural or have a measure; \<open>process_loop\<close> ends because tool calls,
  empty answers and the verification gate run out. \<open>Windows_Process.process_run\<close> has fuel for one poll
  per interval up to the deadline (\<open>poll_fuel\<close>), \<open>Tts.wait_healthy\<close> for one health check per half second of
  the start-up timeout; the properties prove that both return within it. The resampler's loop is
  \<open>while_option\<close> and shown to end. \<open>Pc_Daemon.daemon_loop\<close>, which the code never leaves, runs over a list of
  connection attempts.

  \<^bold>\<open>Parameters.\<close> JSON codecs, the HTTP client, WAV and audio libraries, the speech models, Unicode tables,
  the printing and rounding of floats, the operating system's processes and clocks. What a proof needs of
  them is a hypothesis of the property (a codec that reads back what it wrote, a clock that does not go
  back, a sleep that is at least as long as asked for), with a witness.

  \<^bold>\<open>Not modelled.\<close> The window, the input and the painter of the overlay (egui); the
  audio devices, whisper.cpp, PowerShell, the HTTP library and the calls of Windows below the adapters that
  use them; the ONNX session of the voice detector; the system clocks; the derived serializers; TLS and the framing inside the WebSocket library; the Android client, which
  is Kotlin; starting threads and reading environment variables beyond what \<open>Bootstrap\<close>, \<open>Console\<close>,
  \<open>Pc_Daemon\<close> and \<open>Voice_Main\<close> hold. \<open>Mic_Stream\<close> computes with rational numbers and
  \<open>Overlay_Scene\<close> with real ones where the code has floats, so rounding is not covered.
\<close>

end
